(* ===== verification/CC_Prelude.thy ===== *)
theory CC_Prelude
  imports Complex_Main
begin

text \<open>
  What the component theories share: Python's exceptions as values, the string operations
  of the standard library that the sources call, decimal rendering and reading of integers,
  and generic lemmas on lists and options.

  A Python \<open>str\<close> is modelled by its UTF-8 encoding, a list of bytes (\<open>string\<close>). Substring
  search, prefix tests, concatenation, splitting at an ASCII character and the ordering
  of strings agree with Python's on this encoding; \<open>py_len\<close> counts code points, and white
  space is recognised as encoded code points (\<open>ws_len\<close>).
\<close>

named_theorems res_simps \<open>unfolding of the error monad\<close>

section \<open>Exceptions as values\<close>

text \<open>One constructor per exception class that the modelled code raises.\<close>

datatype exc =
    MissingFact string
  | KeyError string
  | ValueError string
  | TypeError string
  | AssertionError string
  | OverflowError
  | ZeroDivisionError
  | IndexError
  | UnboundLocalError string
  | UnknownRuleError string
  | ConflictComparisonError string
  | ConflictValidationError string
  | ApplicabilityError string
  | AssessmentTaskError string
  | TransientLLMError string
  | PermanentLLMError string
  | StructuredOutputError string
  | NormalisationError string
  | ParseError string
  | APIError string
  | NoResultFound
  | MultipleResultsFound
  | IntegrityError string
  | CorpusFetchError string
  | RecursionError
  | AttributeError string
  | CorpusIngestError string
  | EmbeddingError string
  | FileNotFoundError string
  | RuntimeError string

type_synonym 'a res = "exc + 'a"

definition ebind :: "'a res \<Rightarrow> ('a \<Rightarrow> 'b res) \<Rightarrow> 'b res" where
  "ebind m f = (case m of Inl e \<Rightarrow> Inl e | Inr x \<Rightarrow> f x)"

lemma ebind_simps [simp, res_simps]:
  "ebind (Inr x) f = f x"
  "ebind (Inl e) f = Inl e"
  by (simp_all add: ebind_def)

lemma ebind_InrE:
  assumes "ebind m f = Inr y"
  obtains x where "m = Inr x" and "f x = Inr y"
  using assms by (cases m) auto

lemma ebind_Inr_iff: "ebind m f = Inr y \<longleftrightarrow> (\<exists>x. m = Inr x \<and> f x = Inr y)"
  by (cases m) auto

text \<open>
  \<open>try: x = m; except MissingFact: return h\<close>, continued by \<open>f\<close>: any other exception
  propagates.
\<close>

definition try_missing :: "'a res \<Rightarrow> 'b res \<Rightarrow> ('a \<Rightarrow> 'b res) \<Rightarrow> 'b res" where
  "try_missing m h f =
     (case m of Inr x \<Rightarrow> f x | Inl e \<Rightarrow> (case e of MissingFact _ \<Rightarrow> h | _ \<Rightarrow> Inl e))"

lemma try_missing_simps [simp, res_simps]:
  "try_missing (Inr x) h f = f x"
  "try_missing (Inl (MissingFact k)) h f = h"
  by (simp_all add: try_missing_def)

lemma try_missing_Inr_iff:
  "try_missing m h f = Inr y \<longleftrightarrow>
     (\<exists>x. m = Inr x \<and> f x = Inr y) \<or> (\<exists>k. m = Inl (MissingFact k) \<and> h = Inr y)"
  by (auto simp: try_missing_def split: sum.splits exc.splits)

text \<open>A list comprehension whose element expression may raise: the first error wins.\<close>

fun emap :: "('a \<Rightarrow> 'b res) \<Rightarrow> 'a list \<Rightarrow> 'b list res" where
  "emap f [] = Inr []"
| "emap f (x # xs) = ebind (f x) (\<lambda>y. ebind (emap f xs) (\<lambda>ys. Inr (y # ys)))"

lemma emap_Inr_iff: "emap f xs = Inr ys \<longleftrightarrow> list_all2 (\<lambda>x y. f x = Inr y) xs ys"
  by (induction xs arbitrary: ys) (auto simp: ebind_Inr_iff list_all2_Cons1)

lemma emap_total: "(\<And>x. x \<in> set xs \<Longrightarrow> \<exists>y. f x = Inr y) \<Longrightarrow> \<exists>ys. emap f xs = Inr ys"
  by (induction xs) fastforce+

section \<open>Dictionaries\<close>

definition dict_get :: "('k \<rightharpoonup> 'v) \<Rightarrow> 'k \<Rightarrow> 'v \<Rightarrow> 'v" where
  "dict_get m k d = (case m k of None \<Rightarrow> d | Some v \<Rightarrow> v)"

lemma dict_get_simps [simp]:
  "m k = None \<Longrightarrow> dict_get m k d = d"
  "m k = Some v \<Longrightarrow> dict_get m k d = v"
  by (simp_all add: dict_get_def)

text \<open>
  A Python dict keeps its insertion order and an assignment to a known key keeps the key's
  place: \<open>alist_put\<close> on association lists.
\<close>

fun alist_put :: "'k \<Rightarrow> 'v \<Rightarrow> ('k \<times> 'v) list \<Rightarrow> ('k \<times> 'v) list" where
  "alist_put k v [] = [(k, v)]"
| "alist_put k v ((k', v') # xs) =
     (if k = k' then (k, v) # xs else (k', v') # alist_put k v xs)"

lemma map_of_alist_put: "map_of (alist_put k v xs) = (map_of xs)(k \<mapsto> v)"
  by (induction xs) (auto simp: fun_eq_iff)

lemma keys_alist_put:
  "map fst (alist_put k v xs) =
     (if k \<in> fst ` set xs then map fst xs else map fst xs @ [k])"
  by (induction k v xs rule: alist_put.induct) auto

lemma set_keys_alist_put: "fst ` set (alist_put k v xs) = insert k (fst ` set xs)"
  by (induction k v xs rule: alist_put.induct) auto

lemma distinct_alist_put:
  "distinct (map fst xs) \<Longrightarrow> distinct (map fst (alist_put k v xs))"
  by (simp add: keys_alist_put)

lemma alist_put_new: "k \<notin> fst ` set xs \<Longrightarrow> alist_put k v xs = xs @ [(k, v)]"
  by (induction k v xs rule: alist_put.induct) auto

lemma distinct_singleton_list: "set xs = {x} \<Longrightarrow> distinct xs \<Longrightarrow> xs = [x]"
  by (cases xs; cases "tl xs") auto

section \<open>Strings\<close>

fun join :: "string \<Rightarrow> string list \<Rightarrow> string" where
  "join sep [] = []"
| "join sep [x] = x"
| "join sep (x # y # zs) = x @ sep @ join sep (y # zs)"

definition startswith :: "string \<Rightarrow> string \<Rightarrow> bool" where
  "startswith s p \<longleftrightarrow> take (length p) s = p"

lemma startswith_iff: "startswith s p \<longleftrightarrow> (\<exists>r. s = p @ r)"
  by (metis append_eq_conv_conj append_take_drop_id startswith_def)

text \<open>\<open>needle in hay\<close>.\<close>

fun contains :: "string \<Rightarrow> string \<Rightarrow> bool" where
  "contains needle [] = (needle = [])"
| "contains needle (c # cs) = (startswith (c # cs) needle \<or> contains needle cs)"

lemma contains_iff: "contains needle hay \<longleftrightarrow> (\<exists>p s. hay = p @ needle @ s)"
proof (induction hay)
  case Nil
  then show ?case by auto
next
  case (Cons c cs)
  have "(\<exists>p s. c # cs = p @ needle @ s) \<longleftrightarrow>
      (\<exists>s. c # cs = needle @ s) \<or> (\<exists>p s. cs = p @ needle @ s)"
    (is "?l \<longleftrightarrow> ?r")
  proof
    assume ?l
    then obtain p s where eq: "c # cs = p @ needle @ s" by blast
    show ?r
    proof (cases p)
      case Nil
      with eq show ?thesis by auto
    next
      case (Cons a as)
      with eq show ?thesis by auto
    qed
  next
    assume ?r
    then show ?l by (metis append_Cons append_Nil)
  qed
  with Cons.IH show ?case by (simp add: startswith_iff)
qed

lemma contains_Nil [simp]: "contains [] hay"
  by (cases hay) (auto simp: startswith_def)

lemma contains_refl: "contains s s"
  by (auto simp: contains_iff intro: exI [of _ "[]"])

lemma contains_trans: "contains a b \<Longrightarrow> contains b c \<Longrightarrow> contains a c"
  unfolding contains_iff by (metis append.assoc)

text \<open>\<open>s.split("/", 1)[0]\<close>.\<close>

definition before_slash :: "string \<Rightarrow> string" where
  "before_slash s = takeWhile (\<lambda>c. c \<noteq> CHR ''/'') s"

text \<open>\<open>s.split(c)\<close> for a one-character separator: never empty.\<close>

fun split_on :: "char \<Rightarrow> string \<Rightarrow> string list" where
  "split_on c [] = [[]]"
| "split_on c (x # xs) =
     (if x = c then [] # split_on c xs
      else (case split_on c xs of [] \<Rightarrow> [[x]] | w # ws \<Rightarrow> (x # w) # ws))"

lemma split_on_nonempty: "split_on c s \<noteq> []"
  by (cases s) (auto split: list.splits)

lemma hd_split_on: "hd (split_on c s) = takeWhile (\<lambda>x. x \<noteq> c) s"
  by (induction s) (auto split: list.splits simp: split_on_nonempty)

text \<open>\<open>s.replace(a, b)\<close> for single characters.\<close>

definition replace_char :: "char \<Rightarrow> char \<Rightarrow> string \<Rightarrow> string" where
  "replace_char a b s = map (\<lambda>c. if c = a then b else c) s"

text \<open>\<open>len(s)\<close>: code points, so continuation bytes (\<open>10xxxxxx\<close>) are not counted.\<close>

definition is_continuation :: "char \<Rightarrow> bool" where
  "is_continuation c \<longleftrightarrow> 128 \<le> (of_char c :: nat) \<and> (of_char c :: nat) < 192"

definition py_len :: "string \<Rightarrow> int" where
  "py_len s = int (length (filter (\<lambda>c. \<not> is_continuation c) s))"

lemma py_len_nonneg [simp]: "0 \<le> py_len s"
  by (simp add: py_len_def)

lemma py_len_append: "py_len (s @ t) = py_len s + py_len t"
  by (simp add: py_len_def)

subsection \<open>White space\<close>

text \<open>
  \<open>ws_len s\<close> is the number of bytes of the white-space code point at the head of \<open>s\<close>, 0 when
  there is none: the set of \<open>str.isspace\<close> and of \<open>\s\<close> in a \<open>str\<close> pattern, which is U+0009 to
  U+000D, U+001C to U+0020, U+0085, U+00A0, U+1680, U+2000 to U+200A, U+2028, U+2029,
  U+202F, U+205F and U+3000.
\<close>

definition ascii_ws :: "char \<Rightarrow> bool" where
  "ascii_ws c \<longleftrightarrow> (let n = (of_char c :: nat) in 9 \<le> n \<and> n \<le> 13 \<or> 28 \<le> n \<and> n \<le> 32)"

definition ws2 :: "char \<Rightarrow> char \<Rightarrow> bool" where
  "ws2 a b \<longleftrightarrow> (of_char a :: nat) = 194 \<and> (of_char b :: nat) \<in> {133, 160}"

definition ws3 :: "char \<Rightarrow> char \<Rightarrow> char \<Rightarrow> bool" where
  "ws3 a b c \<longleftrightarrow>
     (let x = (of_char a :: nat); y = (of_char b :: nat); z = (of_char c :: nat) in
        x = 225 \<and> y = 154 \<and> z = 128 \<or>
        x = 226 \<and> y = 128 \<and> (128 \<le> z \<and> z \<le> 138 \<or> z = 168 \<or> z = 169 \<or> z = 175) \<or>
        x = 226 \<and> y = 129 \<and> z = 159 \<or>
        x = 227 \<and> y = 128 \<and> z = 128)"

fun ws_len :: "string \<Rightarrow> nat" where
  "ws_len [] = 0"
| "ws_len (a # r) =
     (if ascii_ws a then 1
      else (case r of
              [] \<Rightarrow> 0
            | b # r2 \<Rightarrow>
                if ws2 a b then 2
                else (case r2 of [] \<Rightarrow> 0 | c # _ \<Rightarrow> if ws3 a b c then 3 else 0)))"

lemma ws_len_le: "ws_len s \<le> length s"
  by (cases s) (auto split: list.splits)

lemma ws_len_space [simp]: "ws_len (CHR '' '' # s) = 1"
  by (simp add: ascii_ws_def)

text \<open>\<open>s.lstrip()\<close> on white space.\<close>

function py_lstrip :: "string \<Rightarrow> string" where
  "py_lstrip s = (if ws_len s = 0 then s else py_lstrip (drop (ws_len s) s))"
  by pat_completeness auto
termination
proof (relation "measure length")
  fix s :: string
  assume "ws_len s \<noteq> 0"
  moreover have "ws_len s \<le> length s" by (rule ws_len_le)
  ultimately show "(drop (ws_len s) s, s) \<in> measure length" by simp
qed simp

declare py_lstrip.simps [simp del]

text \<open>
  \<open>_WS_RE.sub(" ", s)\<close> for \<open>\s+\<close>: each maximal run of white space becomes one space.
\<close>

function ws_collapse :: "string \<Rightarrow> string" where
  "ws_collapse [] = []"
| "ws_collapse (c # cs) =
     (if ws_len (c # cs) = 0 then c # ws_collapse cs
      else CHR '' '' # ws_collapse (py_lstrip (c # cs)))"
  by pat_completeness auto

lemma py_lstrip_length: "length (py_lstrip s) \<le> length s"
proof (induction s rule: py_lstrip.induct)
  case (1 s)
  then show ?case
    by (subst py_lstrip.simps) (auto intro: le_trans)
qed

lemma py_lstrip_shorter: "ws_len s \<noteq> 0 \<Longrightarrow> length (py_lstrip s) < length s"
proof -
  assume ws: "ws_len s \<noteq> 0"
  have "py_lstrip s = py_lstrip (drop (ws_len s) s)"
    using ws by (subst py_lstrip.simps) simp
  then have "length (py_lstrip s) \<le> length (drop (ws_len s) s)"
    using py_lstrip_length by metis
  also have "\<dots> < length s"
    using ws ws_len_le [of s] by simp
  finally show ?thesis .
qed

termination ws_collapse
proof (relation "measure length")
  fix c :: char and cs :: string
  assume "ws_len (c # cs) \<noteq> 0"
  then show "(py_lstrip (c # cs), c # cs) \<in> measure length"
    using py_lstrip_shorter [of "c # cs"] by (simp del: ws_len.simps)
qed auto

declare ws_collapse.simps(2) [simp del]

text \<open>\<open>strip()\<close> of a string whose only white space is single spaces.\<close>

definition strip_spaces :: "string \<Rightarrow> string" where
  "strip_spaces s =
     rev (dropWhile (\<lambda>c. c = CHR '' '') (rev (dropWhile (\<lambda>c. c = CHR '' '') s)))"

section \<open>Decimal numerals\<close>

definition digit_char :: "nat \<Rightarrow> char" where
  "digit_char d = char_of (48 + d)"

definition is_digit :: "char \<Rightarrow> bool" where
  "is_digit c \<longleftrightarrow> 48 \<le> (of_char c :: nat) \<and> (of_char c :: nat) \<le> 57"

definition digit_val :: "char \<Rightarrow> nat" where
  "digit_val c = of_char c - 48"

lemma digit_char_simps [simp]:
  "d < 10 \<Longrightarrow> is_digit (digit_char d)"
  "d < 10 \<Longrightarrow> digit_val (digit_char d) = d"
  by (simp_all add: digit_char_def is_digit_def digit_val_def)

fun nat_digits :: "nat \<Rightarrow> string" where
  "nat_digits n =
     (if n < 10 then [digit_char n] else nat_digits (n div 10) @ [digit_char (n mod 10)])"

declare nat_digits.simps [simp del]

text \<open>\<open>str(i)\<close> of an int.\<close>

definition str_int :: "int \<Rightarrow> string" where
  "str_int i = (if i < 0 then ''-'' @ nat_digits (nat (- i)) else nat_digits (nat i))"

definition digits_val :: "string \<Rightarrow> nat" where
  "digits_val s = foldl (\<lambda>a c. 10 * a + digit_val c) 0 s"

lemma digits_val_snoc [simp]: "digits_val (s @ [c]) = 10 * digits_val s + digit_val c"
  by (simp add: digits_val_def)

lemma digits_val_Nil [simp]: "digits_val [] = 0"
  by (simp add: digits_val_def)

text \<open>\<open>int(s)\<close> for a string of ASCII digits with an optional sign.\<close>

definition parse_digits :: "string \<Rightarrow> nat option" where
  "parse_digits s = (if s \<noteq> [] \<and> list_all is_digit s then Some (digits_val s) else None)"

definition int_of_str :: "string \<Rightarrow> int res" where
  "int_of_str s =
     (let (neg, t) = (case s of [] \<Rightarrow> (False, s)
                      | c # r \<Rightarrow> if c = CHR ''-'' then (True, r)
                                 else if c = CHR ''+'' then (False, r) else (False, s))
      in case parse_digits t of
           None \<Rightarrow> Inl (ValueError ''invalid literal for int()'')
         | Some n \<Rightarrow> Inr (if neg then - int n else int n))"

lemma nat_digits_digits: "list_all is_digit (nat_digits n)"
proof (induction n rule: nat_digits.induct)
  case (1 n)
  then show ?case by (subst nat_digits.simps) auto
qed

lemma nat_digits_nonempty: "nat_digits n \<noteq> []"
  by (subst nat_digits.simps) simp

lemma digits_val_nat_digits: "digits_val (nat_digits n) = n"
proof (induction n rule: nat_digits.induct)
  case (1 n)
  show ?case
  proof (cases "n < 10")
    case True
    then show ?thesis
      by (subst nat_digits.simps) (simp add: digits_val_def)
  next
    case False
    with "1.IH" have "digits_val (nat_digits (n div 10)) = n div 10" by simp
    with False show ?thesis by (subst nat_digits.simps) simp
  qed
qed

lemma parse_nat_digits [simp]: "parse_digits (nat_digits n) = Some n"
  by (simp add: parse_digits_def nat_digits_digits nat_digits_nonempty digits_val_nat_digits)

lemma nat_digits_hd: "is_digit (hd (nat_digits n))"
  using nat_digits_digits [of n] nat_digits_nonempty [of n]
  by (cases "nat_digits n") auto

lemma int_of_str_str_int: "int_of_str (str_int i) = Inr i"
proof (cases "i < 0")
  case True
  then show ?thesis by (simp add: int_of_str_def str_int_def)
next
  case False
  obtain c r where cr: "nat_digits (nat i) = c # r"
    using nat_digits_nonempty by (cases "nat_digits (nat i)") auto
  have "is_digit c" using nat_digits_hd [of "nat i"] cr by simp
  then have "c \<noteq> CHR ''-''" "c \<noteq> CHR ''+''" by (auto simp: is_digit_def)
  with False cr show ?thesis
    using parse_nat_digits [of "nat i"] by (simp add: int_of_str_def str_int_def)
qed

text \<open>Zero padding, as in \<open>isoformat\<close> and \<open>strftime("%H:%M")\<close>.\<close>

definition pad2 :: "int \<Rightarrow> string" where
  "pad2 i = (let n = nat i in [digit_char (n div 10 mod 10), digit_char (n mod 10)])"

definition pad4 :: "int \<Rightarrow> string" where
  "pad4 i = (let n = nat i in
     [digit_char (n div 1000 mod 10), digit_char (n div 100 mod 10),
      digit_char (n div 10 mod 10), digit_char (n mod 10)])"

lemma is_digit_mod [simp]: "is_digit (digit_char (n mod 10))"
  and digit_val_mod [simp]: "digit_val (digit_char (n mod 10)) = n mod 10"
  by simp_all

lemma pad2_value:
  assumes "(n::nat) < 100"
  shows "10 * (n div 10 mod 10) + n mod 10 = n"
proof -
  have "n div 10 < 10" using assms by simp
  then have "n div 10 mod 10 = n div 10" by simp
  then show ?thesis by simp
qed

lemma pad4_value:
  assumes "(n::nat) < 10000"
  shows "10 * (10 * (10 * (n div 1000 mod 10) + n div 100 mod 10) + n div 10 mod 10)
    + n mod 10 = n"
proof -
  have 1: "10 * (n div 10) + n mod 10 = n" by simp
  have 2: "10 * (n div 100) + n div 10 mod 10 = n div 10"
    using mult_div_mod_eq [of 10 "n div 10"] by (simp add: div_mult2_eq [symmetric])
  have 3: "10 * (n div 1000) + n div 100 mod 10 = n div 100"
    using mult_div_mod_eq [of 10 "n div 100"] by (simp add: div_mult2_eq [symmetric])
  have "n div 1000 < 10" using assms by simp
  then have "n div 1000 mod 10 = n div 1000" by simp
  with 1 2 3 show ?thesis by simp
qed

lemma parse_pad2:
  assumes "0 \<le> i" "i < 100"
  shows "parse_digits (pad2 i) = Some (nat i)"
proof -
  have "parse_digits (pad2 i) = Some (10 * (nat i div 10 mod 10) + nat i mod 10)"
    unfolding pad2_def parse_digits_def digits_val_def Let_def
    by (simp del: digit_char_simps)
  then show ?thesis using pad2_value [of "nat i"] assms by simp
qed

lemma parse_pad4:
  assumes "0 \<le> i" "i < 10000"
  shows "parse_digits (pad4 i) = Some (nat i)"
proof -
  let ?n = "nat i"
  have "parse_digits (pad4 i) = Some
      (10 * (10 * (10 * (?n div 1000 mod 10) + ?n div 100 mod 10) + ?n div 10 mod 10) + ?n mod 10)"
    unfolding pad4_def parse_digits_def digits_val_def Let_def
    by (simp del: digit_char_simps)
  then show ?thesis using pad4_value [of ?n] assms by simp
qed

lemma length_pad [simp]: "length (pad2 i) = 2" "length (pad4 i) = 4"
  by (simp_all add: pad2_def pad4_def Let_def)

section \<open>Booleans\<close>

text \<open>\<open>str(b)\<close> and \<open>str(b).lower()\<close>.\<close>

definition str_bool :: "bool \<Rightarrow> string" where
  "str_bool b = (if b then ''True'' else ''False'')"

end
