(* ===== verification/CC_Dates.thy ===== *)
theory CC_Dates
  imports CC_Prelude
begin

text \<open>
  The part of Python's \<open>datetime\<close> module that the sources use: dates of the proleptic Gregorian
  calendar with their ordinals (so that \<open>(b - a).days\<close> is computed as CPython does), times
  of day, datetimes with an optional UTC offset in seconds, conversion to Asia/Kolkata,
  and ISO 8601 rendering and reading in the extended calendar forms.

  Restrictions: the ISO week forms and the basic (separator-free) time forms that
  \<open>fromisoformat\<close> of Python 3.11 also reads are \<open>ValueError\<close> here, the pipeline never writes
  them; Asia/Kolkata is the fixed offset +05:30 it has had since October 1945.
\<close>

section \<open>Dates\<close>

datatype date = Date (year: int) (month: int) (day: int)

definition is_leap :: "int \<Rightarrow> bool" where
  "is_leap y \<longleftrightarrow> y mod 4 = 0 \<and> (y mod 100 \<noteq> 0 \<or> y mod 400 = 0)"

definition days_in_month :: "int \<Rightarrow> int \<Rightarrow> int" where
  "days_in_month y m =
     (if m = 2 then (if is_leap y then 29 else 28)
      else if m = 4 \<or> m = 6 \<or> m = 9 \<or> m = 11 then 30 else 31)"

fun valid_date :: "date \<Rightarrow> bool" where
  "valid_date (Date y m d) \<longleftrightarrow>
     1 \<le> y \<and> y \<le> 9999 \<and> 1 \<le> m \<and> m \<le> 12 \<and> 1 \<le> d \<and> d \<le> days_in_month y m"

definition days_before_year :: "int \<Rightarrow> int" where
  "days_before_year y = (let z = y - 1 in z * 365 + z div 4 - z div 100 + z div 400)"

definition month_offset :: "int \<Rightarrow> int" where
  "month_offset m =
     (if m \<le> 1 then 0 else if m = 2 then 31 else if m = 3 then 59 else if m = 4 then 90
      else if m = 5 then 120 else if m = 6 then 151 else if m = 7 then 181
      else if m = 8 then 212 else if m = 9 then 243 else if m = 10 then 273
      else if m = 11 then 304 else 334)"

definition days_before_month :: "int \<Rightarrow> int \<Rightarrow> int" where
  "days_before_month y m = month_offset m + (if 2 < m \<and> is_leap y then 1 else 0)"

fun ordinal :: "date \<Rightarrow> int" where
  "ordinal (Date y m d) = days_before_year y + days_before_month y m + d"

text \<open>\<open>(a - b).days\<close> of two dates.\<close>

definition days_between :: "date \<Rightarrow> date \<Rightarrow> int" where
  "days_between a b = ordinal a - ordinal b"

instantiation date :: linorder
begin

fun less_eq_date :: "date \<Rightarrow> date \<Rightarrow> bool" where
  "less_eq_date (Date y m d) (Date y' m' d') \<longleftrightarrow>
     y < y' \<or> y = y' \<and> (m < m' \<or> m = m' \<and> d \<le> d')"

definition less_date :: "date \<Rightarrow> date \<Rightarrow> bool" where
  "less_date a b \<longleftrightarrow> a \<le> b \<and> \<not> b \<le> (a::date)"

instance
proof
  fix x y z :: date
  show "x < y \<longleftrightarrow> x \<le> y \<and> \<not> y \<le> x" by (simp add: less_date_def)
  show "x \<le> x" by (cases x) simp
  show "x \<le> y \<Longrightarrow> y \<le> z \<Longrightarrow> x \<le> z" by (cases x; cases y; cases z) auto
  show "x \<le> y \<Longrightarrow> y \<le> x \<Longrightarrow> x = y" by (cases x; cases y) auto
  show "x \<le> y \<or> y \<le> x" by (cases x; cases y) auto
qed

end

lemma less_date_simp [simp]:
  "Date y m d < Date y' m' d' \<longleftrightarrow> y < y' \<or> y = y' \<and> (m < m' \<or> m = m' \<and> d < d')"
  by (auto simp: less_date_def)

lemma div_pred:
  assumes "0 < (k::int)"
  shows "y div k = (y - 1) div k + (if y mod k = 0 then 1 else 0)"
proof (cases "y mod k = 0")
  case True
  have "y - 1 = k * (y div k - 1) + (k - 1)"
    using True mult_div_mod_eq [of k y] by (simp add: algebra_simps)
  then have "(y - 1) div k = y div k - 1"
    by (rule int_div_pos_eq) (use assms in auto)
  with True show ?thesis by simp
next
  case False
  have "y - 1 = k * (y div k) + (y mod k - 1)"
    using mult_div_mod_eq [of k y] by simp
  moreover have "0 \<le> y mod k - 1" "y mod k - 1 < k"
    using False assms pos_mod_bound [of k y] pos_mod_sign [of k y] by linarith+
  ultimately have "(y - 1) div k = y div k" by (rule int_div_pos_eq)
  with False show ?thesis by simp
qed

lemma days_before_year_Suc:
  "days_before_year (y + 1) = days_before_year y + (if is_leap y then 366 else 365)"
proof -
  have d: "(100::int) dvd 400" "(4::int) dvd 100" by simp_all
  have m: "y mod 400 = 0 \<longrightarrow> y mod 100 = 0" "y mod 100 = 0 \<longrightarrow> y mod 4 = 0"
    unfolding mod_eq_0_iff_dvd by (blast intro: dvd_trans d)+
  have "z * 365 + (d4 + (if a then 1 else 0)) - (d100 + (if b then 1 else 0))
      + (d400 + (if c then 1 else 0))
      = z * 365 + d4 - d100 + d400 + (if a \<and> (\<not> b \<or> c) then 1 else (0::int))"
    if "c \<longrightarrow> b" "b \<longrightarrow> a" for z d4 d100 d400 a b c
    using that by (cases a; cases b; cases c) simp_all
  note eq = this [OF m]
  have "days_before_year (y + 1) = y * 365 + y div 4 - y div 100 + y div 400"
    by (simp add: days_before_year_def)
  also have "\<dots> = y * 365 + (y - 1) div 4 - (y - 1) div 100 + (y - 1) div 400
      + (if is_leap y then 1 else 0)"
    unfolding is_leap_def
    by (subst div_pred [of 4 y], simp, subst div_pred [of 100 y], simp,
        subst div_pred [of 400 y], simp, rule eq)
  also have "\<dots> = days_before_year y + (if is_leap y then 366 else 365)"
    by (simp add: days_before_year_def Let_def)
  finally show ?thesis .
qed

lemma days_before_year_mono:
  assumes "y < y'"
  shows "days_before_year y + (if is_leap y then 366 else 365) \<le> days_before_year y'"
proof -
  have "days_before_year (y + 1) \<le> days_before_year (y + 1 + int n)" for n
  proof (induction n)
    case (Suc n)
    have "days_before_year (y + 1 + int n) \<le> days_before_year (y + 1 + int n + 1)"
      using days_before_year_Suc [of "y + 1 + int n"] by (auto split: if_splits)
    with Suc show ?case by (simp add: algebra_simps)
  qed simp
  from this [of "nat (y' - y - 1)"] assms show ?thesis
    by (simp add: days_before_year_Suc)
qed

lemma days_before_month_Suc:
  assumes "1 \<le> m" "m < 12"
  shows "days_before_month y (m + 1) = days_before_month y m + days_in_month y m"
proof -
  from assms have "m = 1 \<or> m = 2 \<or> m = 3 \<or> m = 4 \<or> m = 5 \<or> m = 6 \<or> m = 7 \<or> m = 8
      \<or> m = 9 \<or> m = 10 \<or> m = 11" by presburger
  then show ?thesis
    by (elim disjE) (simp_all add: days_before_month_def month_offset_def days_in_month_def)
qed

lemma days_before_month_mono:
  assumes "1 \<le> m" "m < m'" "m' \<le> 12"
  shows "days_before_month y m + days_in_month y m \<le> days_before_month y m'"
proof -
  have step: "days_before_month y k \<le> days_before_month y (k + 1)" if "1 \<le> k" "k < 12" for k
    using days_before_month_Suc [OF that] that
    by (auto simp: days_in_month_def split: if_splits)
  have "m + 1 + int n \<le> 12 \<Longrightarrow>
      days_before_month y (m + 1) \<le> days_before_month y (m + 1 + int n)" for n
  proof (induction n)
    case (Suc n)
    with step [of "m + 1 + int n"] assms show ?case by (simp add: algebra_simps)
  qed simp
  from this [of "nat (m' - m - 1)"] assms show ?thesis
    by (simp add: days_before_month_Suc)
qed

lemma day_of_year_le:
  assumes "valid_date (Date y m d)"
  shows "days_before_month y m + d \<le> (if is_leap y then 366 else 365)"
proof (cases "m = 12")
  case True
  with assms show ?thesis
    by (auto simp: days_before_month_def month_offset_def days_in_month_def)
next
  case False
  with assms have m: "1 \<le> m" "m < 12" "d \<le> days_in_month y m" by auto
  then have "days_before_month y m + d \<le> days_before_month y 12"
    using days_before_month_mono [of m 12 y] by simp
  then show ?thesis
    by (auto simp: days_before_month_def month_offset_def split: if_splits)
qed

lemma ordinal_less:
  assumes v: "valid_date a" "valid_date b" and lt: "a < b"
  shows "ordinal a < ordinal b"
proof -
  obtain y m d where a: "a = Date y m d" by (cases a)
  obtain y' m' d' where b: "b = Date y' m' d'" by (cases b)
  have pos: "0 \<le> days_before_month y' m'"
    by (auto simp: days_before_month_def month_offset_def)
  consider "y < y'" | "y = y'" "m < m'" | "y = y'" "m = m'" "d < d'"
    using lt a b by auto
  then show ?thesis
  proof cases
    case 1
    then have "days_before_year y + (days_before_month y m + d) \<le> days_before_year y'"
      using days_before_year_mono [OF 1] day_of_year_le [of y m d] v a by (auto split: if_splits)
    with pos v b show ?thesis by (simp add: a)
  next
    case 2
    then have "days_before_month y m + d \<le> days_before_month y m'"
      using days_before_month_mono [of m m' y] v a b by auto
    with 2 v a b show ?thesis by simp
  next
    case 3
    with a b show ?thesis by simp
  qed
qed

text \<open>Comparing dates and comparing their ordinals agree on the dates Python can build.\<close>

lemma ordinal_less_iff:
  assumes "valid_date a" "valid_date b"
  shows "ordinal a < ordinal b \<longleftrightarrow> a < b"
  using ordinal_less [OF assms] ordinal_less [OF assms(2,1)] less_linear [of a b] by fastforce

lemma days_between_pos_iff:
  assumes "valid_date a" "valid_date b"
  shows "0 < days_between a b \<longleftrightarrow> b < a"
  using ordinal_less_iff [OF assms(2,1)] by (simp add: days_between_def)

lemma days_between_self [simp]: "days_between a a = 0"
  by (simp add: days_between_def)

section \<open>Times and datetimes\<close>

datatype time = Time (hour: int) (minute: int) (second: int) (microsecond: int)

fun valid_time :: "time \<Rightarrow> bool" where
  "valid_time (Time h m s u) \<longleftrightarrow>
     0 \<le> h \<and> h < 24 \<and> 0 \<le> m \<and> m < 60 \<and> 0 \<le> s \<and> s < 60 \<and> 0 \<le> u \<and> u < 1000000"

instantiation time :: linorder
begin

fun less_eq_time :: "time \<Rightarrow> time \<Rightarrow> bool" where
  "less_eq_time (Time h m s u) (Time h' m' s' u') \<longleftrightarrow>
     h < h' \<or> h = h' \<and> (m < m' \<or> m = m' \<and> (s < s' \<or> s = s' \<and> u \<le> u'))"

definition less_time :: "time \<Rightarrow> time \<Rightarrow> bool" where
  "less_time a b \<longleftrightarrow> a \<le> b \<and> \<not> b \<le> (a::time)"

instance
proof
  fix x y z :: time
  show "x < y \<longleftrightarrow> x \<le> y \<and> \<not> y \<le> x" by (simp add: less_time_def)
  show "x \<le> x" by (cases x) simp
  show "x \<le> y \<Longrightarrow> y \<le> z \<Longrightarrow> x \<le> z" by (cases x; cases y; cases z) auto
  show "x \<le> y \<Longrightarrow> y \<le> x \<Longrightarrow> x = y" by (cases x; cases y) auto
  show "x \<le> y \<or> y \<le> x" by (cases x; cases y) auto
qed

end

text \<open>\<open>dt_offset\<close> is \<open>utcoffset()\<close> in seconds; \<open>None\<close> is a naive datetime.\<close>

datatype datetime = DateTime (dt_date: date) (dt_time: time) (dt_offset: "int option")

fun seconds_of_day :: "time \<Rightarrow> int" where
  "seconds_of_day (Time h m s u) = h * 3600 + m * 60 + s"

definition time_of_seconds :: "int \<Rightarrow> int \<Rightarrow> time" where
  "time_of_seconds n u = Time (n div 3600) (n mod 3600 div 60) (n mod 60) u"

text \<open>Seconds since ordinal 0, read on the datetime's own wall clock.\<close>

definition wall_seconds :: "datetime \<Rightarrow> int" where
  "wall_seconds t = ordinal (dt_date t) * 86400 + seconds_of_day (dt_time t)"

definition max_ordinal :: int where
  "max_ordinal = 3652059"

definition representable :: "int \<Rightarrow> bool" where
  "representable n \<longleftrightarrow> 1 \<le> n div 86400 \<and> n div 86400 \<le> max_ordinal"

definition ist_offset :: int where
  "ist_offset = 19800"

text \<open>
  \<open>ts.astimezone(ZoneInfo("Asia/Kolkata")).time()\<close>. A naive datetime is read in the
  system's local zone, so its offset is a parameter, \<open>sys_utcoffset\<close>. Leaving the range of
  \<open>datetime\<close> on the way through UTC raises \<open>OverflowError\<close>.
\<close>

definition ist_time :: "(datetime \<Rightarrow> int) \<Rightarrow> datetime \<Rightarrow> time res" where
  "ist_time sys_utcoffset t =
     (let off = (case dt_offset t of Some z \<Rightarrow> z | None \<Rightarrow> sys_utcoffset t);
          utc = wall_seconds t - off;
          ist = utc + ist_offset
      in if representable utc \<and> representable ist
         then Inr (time_of_seconds (ist mod 86400) (microsecond (dt_time t)))
         else Inl OverflowError)"

lemma time_of_seconds_of_day:
  "valid_time t \<Longrightarrow> time_of_seconds (seconds_of_day t) (microsecond t) = t"
proof (cases t)
  case (Time h m s u)
  assume "valid_time t"
  with Time have r: "0 \<le> m" "m < 60" "0 \<le> s" "s < 60" by auto
  then have low: "0 \<le> m * 60 + s" "m * 60 + s < 3600" by auto
  have "h * 3600 + m * 60 + s = (m * 60 + s) + h * 3600" by simp
  then have "(h * 3600 + m * 60 + s) div 3600 = h" "(h * 3600 + m * 60 + s) mod 3600 = m * 60 + s"
    using low by (simp_all only: div_mult_self1 mod_mult_self1) simp_all
  moreover have "(m * 60 + s) div 60 = m"
    using r by (simp add: add.commute [of "m * 60"])
  moreover have "(h * 3600 + m * 60 + s) mod 60 = s"
  proof -
    have "h * 3600 + m * 60 + s = s + (h * 60 + m) * 60" by simp
    then show ?thesis using r by (simp only: mod_mult_self1) simp
  qed
  ultimately show ?thesis using Time by (simp add: time_of_seconds_def)
qed

lemma seconds_of_day_range:
  "valid_time t \<Longrightarrow> 0 \<le> seconds_of_day t \<and> seconds_of_day t < 86400"
  by (cases t) auto

lemma ist_time_of_ist:
  assumes "valid_time (dt_time t)" "dt_offset t = Some ist_offset"
    and "2 \<le> ordinal (dt_date t)" "ordinal (dt_date t) \<le> max_ordinal"
  shows "ist_time z t = Inr (dt_time t)"
proof -
  let ?s = "seconds_of_day (dt_time t)" and ?o = "ordinal (dt_date t)"
  have s: "0 \<le> ?s" "?s < 86400" using seconds_of_day_range assms(1) by auto
  have d: "(?o * 86400 + ?s) div 86400 = ?o" and m: "(?o * 86400 + ?s) mod 86400 = ?s"
    using s by auto
  have "?o * 86400 + ?s - ist_offset = ?o * 86400 + (?s - ist_offset)" by simp
  then have "(?o * 86400 + ?s - ist_offset) div 86400 = ?o + (?s - ist_offset) div 86400"
    by simp
  moreover have "- 1 \<le> (?s - ist_offset) div 86400" "(?s - ist_offset) div 86400 \<le> 0"
    using s by (auto simp: ist_offset_def)
  ultimately have "representable (?o * 86400 + ?s - ist_offset)"
    using assms(3,4) by (simp add: representable_def)
  moreover have "representable (?o * 86400 + ?s)"
    using assms(3,4) d by (simp add: representable_def)
  ultimately show ?thesis
    using assms m by (simp add: ist_time_def wall_seconds_def time_of_seconds_of_day)
qed

text \<open>
  Comparison of datetimes: naive with naive on the wall clock, aware with aware in UTC,
  mixed ones raise.
\<close>

definition utc_micros :: "datetime \<Rightarrow> int" where
  "utc_micros t =
     (wall_seconds t - (case dt_offset t of None \<Rightarrow> 0 | Some z \<Rightarrow> z)) * 1000000
       + microsecond (dt_time t)"

definition datetime_le :: "datetime \<Rightarrow> datetime \<Rightarrow> bool res" where
  "datetime_le a b =
     (if (dt_offset a = None) = (dt_offset b = None) then Inr (utc_micros a \<le> utc_micros b)
      else Inl (TypeError ''can't compare offset-naive and offset-aware datetimes''))"

text \<open>\<open>(b - a).days\<close> of two datetimes: the floor of the difference in days.\<close>

definition datetime_days :: "datetime \<Rightarrow> datetime \<Rightarrow> int res" where
  "datetime_days b a =
     (if (dt_offset a = None) = (dt_offset b = None)
      then Inr ((utc_micros b - utc_micros a) div 86400000000)
      else Inl (TypeError ''can't subtract offset-naive and offset-aware datetimes''))"

section \<open>ISO 8601\<close>

fun date_isoformat :: "date \<Rightarrow> string" where
  "date_isoformat (Date y m d) = pad4 y @ ''-'' @ pad2 m @ ''-'' @ pad2 d"

definition mk_date :: "nat \<Rightarrow> nat \<Rightarrow> nat \<Rightarrow> date res" where
  "mk_date y m d =
     (let r = Date (int y) (int m) (int d) in
      if valid_date r then Inr r else Inl (ValueError ''date out of range''))"

text \<open>\<open>date.fromisoformat\<close>: \<open>YYYY-MM-DD\<close> or \<open>YYYYMMDD\<close>.\<close>

definition date_fromisoformat :: "string \<Rightarrow> date res" where
  "date_fromisoformat s =
     (let bad = Inl (ValueError ''Invalid isoformat string'');
          build = (\<lambda>ys ms ds.
            case (parse_digits ys, parse_digits ms, parse_digits ds) of
              (Some y, Some m, Some d) \<Rightarrow> mk_date y m d
            | _ \<Rightarrow> bad)
      in if length s = 10 \<and> s ! 4 = CHR ''-'' \<and> s ! 7 = CHR ''-''
         then build (take 4 s) (take 2 (drop 5 s)) (drop 8 s)
         else if length s = 8 then build (take 4 s) (take 2 (drop 4 s)) (drop 6 s)
         else bad)"

lemma date_iso_roundtrip:
  assumes "valid_date d"
  shows "date_fromisoformat (date_isoformat d) = Inr d"
proof (cases d)
  case (Date y m dd)
  let ?s = "pad4 y @ ''-'' @ pad2 m @ ''-'' @ pad2 dd"
  have b: "1 \<le> y" "y < 10000" "1 \<le> m" "m < 100" "1 \<le> dd" "dd < 100"
    using assms Date by (auto simp: days_in_month_def split: if_splits)
  have t: "take 4 ?s = pad4 y" "take 2 (drop 5 ?s) = pad2 m" "drop 8 ?s = pad2 dd"
      "?s ! 4 = CHR ''-''" "?s ! 7 = CHR ''-''" "length ?s = 10"
    by (simp_all add: nth_append)
  have p: "parse_digits (pad4 y) = Some (nat y)" "parse_digits (pad2 m) = Some (nat m)"
      "parse_digits (pad2 dd) = Some (nat dd)"
    using b by (simp_all add: parse_pad4 parse_pad2)
  show ?thesis
    unfolding Date date_isoformat.simps date_fromisoformat_def Let_def t p
    using assms b Date by (simp add: mk_date_def)
qed

text \<open>\<open>t.strftime("%H:%M")\<close>.\<close>

definition time_hhmm :: "time \<Rightarrow> string" where
  "time_hhmm t = pad2 (hour t) @ '':'' @ pad2 (minute t)"

definition pad6 :: "int \<Rightarrow> string" where
  "pad6 i = pad2 (i div 10000) @ pad4 (i mod 10000)"

fun time_isoformat :: "time \<Rightarrow> string" where
  "time_isoformat (Time h m s u) =
     pad2 h @ '':'' @ pad2 m @ '':'' @ pad2 s @ (if u = 0 then [] else ''.'' @ pad6 u)"

text \<open>\<open>+HH:MM\<close>, with \<open>:SS\<close> when the offset has seconds.\<close>

definition offset_isoformat :: "int \<Rightarrow> string" where
  "offset_isoformat z =
     (let a = \<bar>z\<bar> in
      (if z < 0 then ''-'' else ''+'') @ pad2 (a div 3600) @ '':'' @ pad2 (a mod 3600 div 60)
        @ (if a mod 60 = 0 then [] else '':'' @ pad2 (a mod 60)))"

definition datetime_isoformat :: "datetime \<Rightarrow> string" where
  "datetime_isoformat t =
     date_isoformat (dt_date t) @ ''T'' @ time_isoformat (dt_time t)
       @ (case dt_offset t of None \<Rightarrow> [] | Some z \<Rightarrow> offset_isoformat z)"

definition mk_time :: "nat \<Rightarrow> nat \<Rightarrow> nat \<Rightarrow> nat \<Rightarrow> time res" where
  "mk_time h m s u =
     (let r = Time (int h) (int m) (int s) (int u) in
      if valid_time r then Inr r else Inl (ValueError ''time out of range''))"

text \<open>\<open>HH:MM\<close>, \<open>HH:MM:SS\<close> and \<open>HH:MM:SS.ffffff\<close>.\<close>

definition time_fromisoformat :: "string \<Rightarrow> time res" where
  "time_fromisoformat s =
     (let bad = Inl (ValueError ''Invalid isoformat string'');
          n = length s;
          ss = (if n = 5 then ''00'' else take 2 (drop 6 s));
          us = (if n = 15 then drop 9 s else ''0'')
      in if n \<in> {5, 8, 15} \<and> s ! 2 = CHR '':'' \<and> (n = 5 \<or> s ! 5 = CHR '':'')
            \<and> (n = 15 \<longrightarrow> s ! 8 = CHR ''.'')
         then (case (parse_digits (take 2 s), parse_digits (take 2 (drop 3 s)),
                     parse_digits ss, parse_digits us) of
                 (Some h, Some m, Some sec, Some u) \<Rightarrow> mk_time h m sec u
               | _ \<Rightarrow> bad)
         else bad)"

text \<open>
  The zone suffix: nothing, \<open>Z\<close>, or a signed \<open>HH:MM\<close>. Splits the string at the suffix.
\<close>

definition is_sign :: "char \<Rightarrow> bool" where
  "is_sign c \<longleftrightarrow> c = CHR ''+'' \<or> c = CHR ''-''"

definition split_zone :: "string \<Rightarrow> (string \<times> int option) res" where
  "split_zone s =
     (let n = length s in
      if s \<noteq> [] \<and> last s = CHR ''Z'' then Inr (butlast s, Some 0)
      else if 6 \<le> n \<and> is_sign (s ! (n - 6)) \<and> s ! (n - 3) = CHR '':''
      then (case (parse_digits (take 2 (drop (n - 5) s)), parse_digits (drop (n - 2) s)) of
              (Some h, Some m) \<Rightarrow>
                if h < 24 \<and> m < 60
                then Inr (take (n - 6) s,
                          Some ((if s ! (n - 6) = CHR ''-'' then - 1 else 1)
                                * (int h * 3600 + int m * 60)))
                else Inl (ValueError ''Invalid isoformat string'')
            | _ \<Rightarrow> Inl (ValueError ''Invalid isoformat string''))
      else Inr (s, None))"

definition datetime_fromisoformat :: "string \<Rightarrow> datetime res" where
  "datetime_fromisoformat s =
     ebind (date_fromisoformat (take 10 s)) (\<lambda>d.
       if length s = 10 then Inr (DateTime d (Time 0 0 0 0) None)
       else ebind (split_zone (drop 11 s)) (\<lambda>(ts, z).
         ebind (time_fromisoformat ts) (\<lambda>t. Inr (DateTime d t z))))"

section \<open>Clock readings as numbers\<close>

fun time_micros :: "time \<Rightarrow> int" where
  "time_micros (Time h m s u) = (h * 3600 + m * 60 + s) * 1000000 + u"

lemma lex_step:
  fixes a b c d k :: int
  assumes "0 \<le> b" "b < k" "0 \<le> d" "d < k"
  shows "a * k + b \<le> c * k + d \<longleftrightarrow> a < c \<or> a = c \<and> b \<le> d"
proof -
  have lt: "x * k + b' < y * k + d'" if "x < y" "b' < k" "0 \<le> d'" for x y b' d' :: int
  proof -
    have "(x + 1) * k \<le> y * k" using that assms by (intro mult_right_mono) auto
    with that show ?thesis by (simp add: distrib_right)
  qed
  show ?thesis
    using lt [of a c b d] lt [of c a d b] assms by (cases a c rule: linorder_cases) auto
qed

lemma time_le_iff:
  assumes "valid_time a" "valid_time b"
  shows "a \<le> b \<longleftrightarrow> time_micros a \<le> time_micros b"
proof -
  obtain h m s u where a: "a = Time h m s u" by (cases a)
  obtain h' m' s' u' where b: "b = Time h' m' s' u'" by (cases b)
  have "time_micros a \<le> time_micros b \<longleftrightarrow>
      ((h * 60 + m) * 60 + s) * 1000000 + u \<le> ((h' * 60 + m') * 60 + s') * 1000000 + u'"
    by (simp add: a b algebra_simps)
  also have "\<dots> \<longleftrightarrow> a \<le> b"
    using assms a b
    by (subst lex_step, simp, simp, simp, simp)+ auto
  finally show ?thesis by simp
qed

lemma time_micros_of_seconds:
  "0 \<le> n \<Longrightarrow> time_micros (time_of_seconds n u) = n * 1000000 + u"
proof -
  have "n div 3600 * 3600 + n mod 3600 div 60 * 60 + n mod 60 = n"
  proof -
    have "n mod 3600 div 60 * 60 + n mod 3600 mod 60 = n mod 3600" by simp
    moreover have "n mod 3600 mod 60 = n mod 60" by (simp add: mod_mod_cancel)
    ultimately show ?thesis using div_mult_mod_eq [of n 3600] by linarith
  qed
  then show ?thesis by (simp add: time_of_seconds_def)
qed

lemma valid_time_of_seconds:
  assumes "0 \<le> n" "n < 86400" "0 \<le> u" "u < 1000000"
  shows "valid_time (time_of_seconds n u)"
proof -
  have "n div 3600 < 24" "0 \<le> n div 3600" using assms by auto
  moreover have "0 \<le> n mod 3600 div 60" "n mod 3600 div 60 < 60" by auto
  ultimately show ?thesis using assms by (simp add: time_of_seconds_def)
qed

text \<open>The IST clock of an aware datetime, in microseconds since midnight.\<close>

definition ist_clock :: "datetime \<Rightarrow> int" where
  "ist_clock t = (utc_micros t + ist_offset * 1000000) mod 86400000000"

lemma ist_time_clock:
  assumes "valid_time (dt_time t)" "dt_offset t = Some z" "ist_time sys t = Inr c"
  shows "valid_time c" "time_micros c = ist_clock t"
proof -
  define n where "n = wall_seconds t - z + ist_offset"
  define u where "u = microsecond (dt_time t)"
  have u: "0 \<le> u" "u < 1000000" using assms(1) by (cases "dt_time t"; simp add: u_def)+
  have c: "c = time_of_seconds (n mod 86400) u"
    using assms(2,3) by (auto simp: ist_time_def Let_def n_def u_def split: if_splits)
  have "ist_clock t = (n * 1000000 + u) mod (86400 * 1000000)"
    using assms(2) by (simp add: ist_clock_def utc_micros_def n_def u_def algebra_simps)
  also have "\<dots> = (n mod 86400) * 1000000 + u"
  proof -
    have "n * 1000000 + u = ((n mod 86400) * 1000000 + u) + (n div 86400) * (86400 * 1000000)"
      using div_mult_mod_eq [of n 86400] by linarith
    moreover have "n mod 86400 \<le> 86399" "0 \<le> n mod 86400" by (simp_all add: zle_diff1_eq [symmetric])
    ultimately show ?thesis using u by (simp only: mod_mult_self1) simp
  qed
  finally show "time_micros c = ist_clock t" by (simp add: c time_micros_of_seconds)
  show "valid_time c" using u by (simp add: c valid_time_of_seconds)
qed

end
