(* ===== verification/CC_Float.thy ===== *)
theory CC_Float
  imports CC_Prelude
begin

text \<open>
  Python floats where the sources compute with them (the fee load of R04, the fusion
  scores): IEEE binary64 with round to nearest, ties to even, as exact rationals that are
  rounded to 53 significant bits after every operation (\<open>fl\<close>). Overflow, subnormals and
  signed zeros are outside the model: the values here stay far from both ends of the range.
  \<open>round_half_even\<close> is Python's \<open>round\<close> to an integer.
\<close>

definition round_half_even :: "rat \<Rightarrow> int" where
  "round_half_even x =
     (let f = \<lfloor>x\<rfloor>; r = x - of_int f in
      if r < 1 / 2 then f else if 1 / 2 < r then f + 1 else if even f then f else f + 1)"

lemma round_half_even_error: "\<bar>of_int (round_half_even x) - x\<bar> \<le> 1 / 2"
proof -
  define f where "f = \<lfloor>x\<rfloor>"
  have "of_int f \<le> x" "x < of_int f + 1" unfolding f_def by (simp, linarith)
  then show ?thesis
    unfolding round_half_even_def Let_def f_def [symmetric]
    by (auto simp: abs_le_iff algebra_simps)
qed

lemma round_half_even_of_int [simp]: "round_half_even (of_int i) = i"
  by (simp add: round_half_even_def)

fun bits :: "nat \<Rightarrow> nat" where
  "bits n = (if n = 0 then 0 else Suc (bits (n div 2)))"

declare bits.simps [simp del]

lemma bits_bounds:
  assumes "0 < n"
  shows "2 ^ bits n \<le> 2 * n \<and> n < 2 ^ bits n"
  using assms
proof (induction n rule: bits.induct)
  case (1 n)
  show ?case
  proof (cases "n div 2 = 0")
    case True
    with "1.prems" have "n = 1" by auto
    then show ?thesis by (simp add: bits.simps [of "Suc 0"] bits.simps [of 0])
  next
    case False
    with "1.IH" "1.prems" have "2 ^ bits (n div 2) \<le> 2 * (n div 2)" "n div 2 < 2 ^ bits (n div 2)"
      by auto
    moreover have "bits n = Suc (bits (n div 2))" using "1.prems" by (subst bits.simps) simp
    ultimately show ?thesis by auto
  qed
qed

abbreviation pow2 :: "int \<Rightarrow> rat" where
  "pow2 e \<equiv> power_int 2 e"

lemma pow2_pos [simp]: "0 < pow2 e"
  by simp

lemma pow2_add: "pow2 (a + b) = pow2 a * pow2 b"
  by (simp add: power_int_add)

text \<open>The exponent that scales \<open>|x|\<close> into \<open>[2^52, 2^53)\<close>.\<close>

definition fl_exp :: "rat \<Rightarrow> int" where
  "fl_exp x =
     (let pq = quotient_of \<bar>x\<bar>;
          e = int (bits (nat (fst pq))) - int (bits (nat (snd pq))) - 53
      in if \<bar>x\<bar> < pow2 (e + 53) then e else e + 1)"

definition fl :: "rat \<Rightarrow> rat" where
  "fl x = (if x = 0 then 0 else
     (let s = pow2 (fl_exp x) in of_int (round_half_even (x / s)) * s))"

lemma quotient_lower:
  assumes "x \<noteq> 0"
  shows "pow2 (int (bits (nat (fst (quotient_of \<bar>x\<bar>)))) - int (bits (nat (snd (quotient_of \<bar>x\<bar>)))) - 1)
     \<le> \<bar>x\<bar>"
proof -
  obtain p q where pq: "quotient_of \<bar>x\<bar> = (p, q)" by fastforce
  have q: "0 < q" using quotient_of_denom_pos [OF pq] .
  have x: "\<bar>x\<bar> = of_int p / of_int q" using quotient_of_div [OF pq] .
  have p: "0 < p" using x assms q by (metis abs_le_zero_iff divide_le_0_iff not_less of_int_0_le_iff
        of_int_le_0_iff order_less_imp_le)
  let ?bp = "bits (nat p)" and ?bq = "bits (nat q)"
  have bp: "2 ^ ?bp \<le> 2 * nat p" and bq: "nat q < 2 ^ ?bq"
    using bits_bounds [of "nat p"] bits_bounds [of "nat q"] p q by auto
  have bp': "(2::rat) ^ ?bp \<le> 2 * of_int p"
  proof -
    have "of_nat (2 ^ ?bp) \<le> (of_nat (2 * nat p) :: rat)" using bp by (simp only: of_nat_le_iff)
    with p show ?thesis by simp
  qed
  have bq': "(of_int q :: rat) \<le> 2 ^ ?bq"
  proof -
    have "of_nat (nat q) \<le> (of_nat (2 ^ ?bq) :: rat)" using bq by (simp only: of_nat_le_iff)
    with q show ?thesis by simp
  qed
  have "pow2 (int ?bp - int ?bq - 1) = 2 ^ ?bp / 2 ^ ?bq / 2"
    by (simp add: power_int_diff)
  also have "\<dots> \<le> 2 * of_int p / 2 ^ ?bq / 2"
    using bp' by (intro divide_right_mono) auto
  also have "\<dots> = of_int p / 2 ^ ?bq" by simp
  also have "\<dots> \<le> of_int p / of_int q"
    using bq' p q by (intro divide_left_mono) auto
  finally show ?thesis using x pq by simp
qed

lemma fl_exp_scale:
  assumes "x \<noteq> 0"
  shows "pow2 52 \<le> \<bar>x\<bar> / pow2 (fl_exp x)"
proof -
  let ?e = "int (bits (nat (fst (quotient_of \<bar>x\<bar>)))) - int (bits (nat (snd (quotient_of \<bar>x\<bar>)))) - 53"
  have low: "pow2 (?e + 52) \<le> \<bar>x\<bar>"
    using quotient_lower [OF assms] by (simp add: algebra_simps)
  have "pow2 (52 + fl_exp x) \<le> \<bar>x\<bar>"
  proof (cases "\<bar>x\<bar> < pow2 (?e + 53)")
    case True
    then have "fl_exp x = ?e" by (simp add: fl_exp_def Let_def)
    with low show ?thesis by (simp add: add.commute)
  next
    case False
    then have "fl_exp x = ?e + 1" by (simp add: fl_exp_def Let_def)
    then have "52 + fl_exp x = ?e + 53" by linarith
    with False show ?thesis by (simp only: not_less)
  qed
  then have "pow2 52 * pow2 (fl_exp x) \<le> \<bar>x\<bar>" by (simp only: pow2_add)
  then show ?thesis by (simp add: pos_le_divide_eq)
qed

text \<open>The standard model of rounding: the relative error is at most \<open>2^-53\<close>.\<close>

definition ulp_half :: rat where
  "ulp_half = 1 / 2 ^ 53"

lemma fl_error: "\<bar>fl x - x\<bar> \<le> ulp_half * \<bar>x\<bar>"
proof (cases "x = 0")
  case True
  then show ?thesis by (simp add: fl_def ulp_half_def)
next
  case False
  define s where "s = pow2 (fl_exp x)"
  have s: "0 < s" by (simp add: s_def)
  have "\<bar>fl x - x\<bar> = \<bar>of_int (round_half_even (x / s)) - x / s\<bar> * s"
  proof -
    have "fl x - x = (of_int (round_half_even (x / s)) - x / s) * s"
      using False s by (simp add: fl_def s_def [symmetric] Let_def left_diff_distrib)
    with s show ?thesis by (simp add: abs_mult)
  qed
  also have "\<dots> \<le> 1 / 2 * s"
    using round_half_even_error s by (intro mult_right_mono) auto
  also have "\<dots> \<le> ulp_half * \<bar>x\<bar>"
  proof -
    have "pow2 52 * s \<le> \<bar>x\<bar>"
      using fl_exp_scale [OF False] s by (simp add: s_def pos_le_divide_eq)
    then have "1 / 2 ^ 53 * (2 ^ 52 * s) \<le> 1 / 2 ^ 53 * \<bar>x\<bar>"
      by (intro mult_left_mono) auto
    then show ?thesis by (simp add: ulp_half_def)
  qed
  finally show ?thesis .
qed

lemma fl_nonneg: "0 \<le> x \<Longrightarrow> 0 \<le> fl x"
proof -
  assume "0 \<le> x"
  have "\<bar>fl x - x\<bar> \<le> ulp_half * x" using fl_error [of x] \<open>0 \<le> x\<close> by simp
  moreover have "ulp_half * x \<le> 1 * x"
    using \<open>0 \<le> x\<close> by (intro mult_right_mono) (auto simp: ulp_half_def)
  ultimately show ?thesis by linarith
qed

text \<open>True division and multiplication of floats; an int operand is exact below \<open>2^53\<close>.\<close>

definition float_div :: "rat \<Rightarrow> rat \<Rightarrow> rat" where
  "float_div a b = fl (a / b)"

definition float_mul :: "rat \<Rightarrow> rat \<Rightarrow> rat" where
  "float_mul a b = fl (a * b)"

definition float_add :: "rat \<Rightarrow> rat \<Rightarrow> rat" where
  "float_add a b = fl (a + b)"

lemma fl_bounds:
  assumes "0 \<le> x"
  shows "x * (1 - ulp_half) \<le> fl x" "fl x \<le> x * (1 + ulp_half)"
  using fl_error [of x] assms by (auto simp: abs_le_iff algebra_simps)

lemma ulp_half_small: "0 < ulp_half" "ulp_half \<le> 1 / 1000000000000000"
  by (simp_all add: ulp_half_def)

lemma chain_upper: "(1 + ulp_half) ^ 3 \<le> (1 + 5 * ulp_half) * (1 - ulp_half)"
  by (simp add: ulp_half_def field_simps power3_eq_cube)

lemma chain_lower: "(1 - 5 * ulp_half) * (1 + ulp_half) \<le> (1 - ulp_half) ^ 3"
  by (simp add: ulp_half_def field_simps power3_eq_cube)

text \<open>Two divisions and a multiplication, over a rounded divisor.\<close>

lemma quotient_chain_error:
  assumes "0 \<le> a" "0 < b" "0 \<le> k" "0 < d"
  shows "\<bar>float_div (float_mul (float_div a b) k) (fl d) - a / b * k / d\<bar>
    \<le> 5 * ulp_half * (a / b * k / d)"
proof -
  let ?u = ulp_half and ?x = "a / b * k / d"
  define y where "y = fl (fl (a / b) * k)"
  define t where "t = fl d"
  have u: "0 < ?u" "?u \<le> 1 / 1000000000000000" by (rule ulp_half_small)+
  have ab: "0 \<le> a / b" using assms by simp
  have d: "d * (1 - ?u) \<le> t" "t \<le> d * (1 + ?u)"
    using fl_bounds [of d] assms by (simp_all add: t_def)
  have "0 < d * (1 - ?u)" using assms(4) u by (intro mult_pos_pos) auto
  with d(1) have t: "0 < t" by linarith
  have q: "a / b * (1 - ?u) \<le> fl (a / b)" "fl (a / b) \<le> a / b * (1 + ?u)" "0 \<le> fl (a / b)"
    using fl_bounds [OF ab] fl_nonneg [OF ab] by auto
  have qk: "0 \<le> fl (a / b) * k" using q(3) assms(3) by simp
  have y1: "a / b * k * (1 - ?u) ^ 2 \<le> y"
  proof -
    have "a / b * (1 - ?u) * k * (1 - ?u) \<le> fl (a / b) * k * (1 - ?u)"
      using q(1) assms(3) u by (intro mult_right_mono) auto
    also have "\<dots> \<le> y" using fl_bounds(1) [OF qk] by (simp add: y_def)
    finally show ?thesis by (simp only: power2_eq_square mult_ac)
  qed
  have y2: "y \<le> a / b * k * (1 + ?u) ^ 2"
  proof -
    have "y \<le> fl (a / b) * k * (1 + ?u)" using fl_bounds(2) [OF qk] by (simp add: y_def)
    also have "\<dots> \<le> a / b * (1 + ?u) * k * (1 + ?u)"
      using q(2) assms(3) u by (intro mult_right_mono) auto
    finally show ?thesis by (simp only: power2_eq_square mult_ac)
  qed
  have y0: "0 \<le> y" using fl_nonneg [OF qk] by (simp add: y_def)
  have x0: "0 \<le> ?x" using assms by simp
  have yt: "0 \<le> y / t" using y0 t by simp
  have up: "fl (y / t) \<le> ?x * (1 + 5 * ?u)"
  proof -
    have "fl (y / t) \<le> y / t * (1 + ?u)" by (rule fl_bounds(2) [OF yt])
    also have "\<dots> \<le> a / b * k * (1 + ?u) ^ 2 / (d * (1 - ?u)) * (1 + ?u)"
      using y2 d t y0 u assms by (intro mult_right_mono frac_le) auto
    also have "\<dots> = ?x * ((1 + ?u) ^ 3 / (1 - ?u))"
      by (simp add: power3_eq_cube power2_eq_square mult_ac)
    also have "\<dots> \<le> ?x * (1 + 5 * ?u)"
      using chain_upper u x0 by (intro mult_left_mono) (auto simp: pos_divide_le_eq)
    finally show ?thesis .
  qed
  have lo: "?x * (1 - 5 * ?u) \<le> fl (y / t)"
  proof -
    have "?x * (1 - 5 * ?u) \<le> ?x * ((1 - ?u) ^ 3 / (1 + ?u))"
      using chain_lower u x0 by (intro mult_left_mono) (auto simp: pos_le_divide_eq)
    also have "\<dots> = a / b * k * (1 - ?u) ^ 2 / (d * (1 + ?u)) * (1 - ?u)"
      by (simp add: power3_eq_cube power2_eq_square mult_ac)
    also have "\<dots> \<le> y / t * (1 - ?u)"
      using y1 d t y0 u assms by (intro mult_right_mono frac_le) auto
    also have "\<dots> \<le> fl (y / t)" by (rule fl_bounds(1) [OF yt])
    finally show ?thesis .
  qed
  have "float_div (float_mul (float_div a b) k) (fl d) = fl (y / t)"
    by (simp add: float_div_def float_mul_def y_def t_def)
  with up lo show ?thesis by (simp add: abs_le_iff algebra_simps)
qed

end
