(* ===== verification/CC_Domain.thy ===== *)
theory CC_Domain
  imports CC_Dates CC_Float
begin

text \<open>
  The shared data of the program, \<open>src/app/domain/\<close>: the enums that the code branches on,
  typed fact values and their stored form, facts with their validators, citations, verdict
  drafts, assessment results, clause candidates and the loan-account reference.

  A UUID is a natural number. The JSON object stored for a fact value
  (\<open>extracted_fact.value_normalized\<close>) is an association list of scalars, which is what
  \<open>value_to_jsonable\<close> writes.
\<close>

type_synonym uuid = nat

section \<open>Enums (domain/enums.py)\<close>

datatype verdict = Compliant | Violation | Ambiguous | NoClauseFound

datatype severity = Critical | Major | Minor | Informational

datatype confidence_band = High | Medium | Low

datatype decided_by = ByRule | ByModel | ValidatorDowngrade | ByShadow

datatype citation_role = Decisive | Supporting | ContextOnly

datatype retrieval_source = Pinned | Vector | Lexical | ReferenceHop

datatype conflict_type = ValueMismatch | DateOrder | ToleranceBreach | MissingCounterpart

datatype exclusion_reason = NotYetInForce | Superseded | BorrowerScope | DraftReason

datatype citation_reject_reason = NotOffered | NotInForce | NotCitable | ExcerptNotSubstring

datatype instrument_status = InForce | NotifiedNotYetEffective | StatusDraft | StatusSuperseded

definition borrower_general :: string where
  "borrower_general = ''general''"

definition borrower_microfinance :: string where
  "borrower_microfinance = ''microfinance''"

text \<open>The values of \<open>DocType\<close>.\<close>

definition doc_types :: "string list" where
  "doc_types =
     [''kfs'', ''loan_agreement'', ''sanction_letter'', ''mitc'', ''call_transcript'',
      ''closure_statement'', ''noc'', ''docs_release_ack'', ''charge_satisfaction'',
      ''loan_application'', ''kyc_set'', ''income_proof'', ''bureau_report'',
      ''valuation_report'', ''field_investigation'', ''disbursement_memo'',
      ''payment_confirmation'', ''account_statement'', ''rate_reset_notice'',
      ''penal_charge_notice'', ''reminder_notice'', ''field_visit_report'', ''demand_notice'',
      ''settlement_letter'', ''possession_notice'', ''unknown'']"

section \<open>Fact values (domain/facts.py)\<close>

datatype fact_value =
    DateValue date
  | DateTimeValue datetime
  | TimeValue time
  | MoneyValue int string
  | RateValue int
  | IntValue int
  | DaysValue int
  | BoolValue bool
  | EnumValue string
  | StringValue string

fun fv_kind :: "fact_value \<Rightarrow> string" where
  "fv_kind (DateValue _) = ''date''"
| "fv_kind (DateTimeValue _) = ''datetime''"
| "fv_kind (TimeValue _) = ''time''"
| "fv_kind (MoneyValue _ _) = ''money''"
| "fv_kind (RateValue _) = ''rate_bps''"
| "fv_kind (IntValue _) = ''integer''"
| "fv_kind (DaysValue _) = ''duration_days''"
| "fv_kind (BoolValue _) = ''boolean''"
| "fv_kind (EnumValue _) = ''enum''"
| "fv_kind (StringValue _) = ''string''"

datatype json = JNull | JBool bool | JInt int | JStr string

type_synonym json_obj = "(string \<times> json) list"

text \<open>
  A datetime in JSON mode is its ISO form, with \<open>Z\<close> for the offset zero.
\<close>

definition datetime_json :: "datetime \<Rightarrow> string" where
  "datetime_json t =
     (if dt_offset t = Some 0
      then date_isoformat (dt_date t) @ ''T'' @ time_isoformat (dt_time t) @ ''Z''
      else datetime_isoformat t)"

fun value_to_jsonable :: "fact_value \<Rightarrow> json_obj" where
  "value_to_jsonable (DateValue d) = [(''kind'', JStr ''date''), (''v'', JStr (date_isoformat d))]"
| "value_to_jsonable (DateTimeValue t) =
     [(''kind'', JStr ''datetime''), (''v'', JStr (datetime_json t))]"
| "value_to_jsonable (TimeValue t) =
     [(''kind'', JStr ''time''), (''v'', JStr (time_isoformat t))]"
| "value_to_jsonable (MoneyValue p c) =
     [(''kind'', JStr ''money''), (''paise'', JInt p), (''currency'', JStr c)]"
| "value_to_jsonable (RateValue b) = [(''kind'', JStr ''rate_bps''), (''bps'', JInt b)]"
| "value_to_jsonable (IntValue i) = [(''kind'', JStr ''integer''), (''v'', JInt i)]"
| "value_to_jsonable (DaysValue n) = [(''kind'', JStr ''duration_days''), (''days'', JInt n)]"
| "value_to_jsonable (BoolValue b) = [(''kind'', JStr ''boolean''), (''v'', JBool b)]"
| "value_to_jsonable (EnumValue s) = [(''kind'', JStr ''enum''), (''v'', JStr s)]"
| "value_to_jsonable (StringValue s) = [(''kind'', JStr ''string''), (''v'', JStr s)]"

text \<open>\<open>bool(x)\<close>, \<open>int(x)\<close> and \<open>str(x)\<close> of a stored scalar, and \<open>obj[key]\<close>.\<close>

fun py_bool :: "json \<Rightarrow> bool" where
  "py_bool JNull = False"
| "py_bool (JBool b) = b"
| "py_bool (JInt i) = (i \<noteq> 0)"
| "py_bool (JStr s) = (s \<noteq> [])"

fun py_int :: "json \<Rightarrow> int res" where
  "py_int JNull = Inl (TypeError ''int() argument'')"
| "py_int (JBool b) = Inr (if b then 1 else 0)"
| "py_int (JInt i) = Inr i"
| "py_int (JStr s) = int_of_str s"

fun py_str :: "json \<Rightarrow> string" where
  "py_str JNull = ''None''"
| "py_str (JBool b) = str_bool b"
| "py_str (JInt i) = str_int i"
| "py_str (JStr s) = s"

definition obj_get :: "json_obj \<Rightarrow> string \<Rightarrow> json res" where
  "obj_get ob k = (case map_of ob k of None \<Rightarrow> Inl (KeyError k) | Some v \<Rightarrow> Inr v)"

text \<open>\<open>date.fromisoformat(x)\<close> and \<open>datetime.fromisoformat(x)\<close> want a string.\<close>

fun json_str :: "json \<Rightarrow> string res" where
  "json_str (JStr s) = Inr s"
| "json_str _ = Inl (TypeError ''fromisoformat: argument must be str'')"

record span =
  span_start :: int
  span_end :: int
  span_quoted :: string
  span_verified :: bool

definition valid_span :: "span \<Rightarrow> bool" where
  "valid_span s \<longleftrightarrow> 0 \<le> span_start s \<and> 0 \<le> span_end s \<and> span_start s < span_end s"

record fact_out =
  fo_id :: uuid
  fo_document_id :: uuid
  fo_loan_account_id :: uuid
  fo_field_key :: string
  fo_value :: "fact_value option"
  fo_value_raw :: "string option"
  fo_is_absent :: bool
  fo_confidence :: rat
  fo_span :: "span option"

text \<open>\<open>_absent_xor_value\<close> and the bounds of \<open>confidence\<close>.\<close>

definition valid_fact :: "fact_out \<Rightarrow> bool" where
  "valid_fact f \<longleftrightarrow>
     \<not> (fo_is_absent f \<and> (fo_value f \<noteq> None \<or> fo_span f \<noteq> None)) \<and>
     \<not> (\<not> fo_is_absent f \<and> fo_value f = None) \<and>
     0 \<le> fo_confidence f \<and> fo_confidence f \<le> 1"

section \<open>Citations, drafts and results (domain/verdicts.py)\<close>

record citation =
  cit_path :: string
  cit_role :: citation_role
  cit_excerpt :: string
  cit_note :: "string option"

record verdict_draft =
  vd_verdict :: verdict
  vd_citations :: "citation list"
  vd_rationale :: string
  vd_confidence :: confidence_band

definition valid_draft :: "verdict_draft \<Rightarrow> bool" where
  "valid_draft d \<longleftrightarrow> py_len (vd_rationale d) \<le> 1200"

record telemetry =
  tm_stage_a_ms :: "int option"
  tm_stage_b_ms :: "int option"
  tm_stage_c_ms :: "int option"
  tm_tokens_in :: "int option"
  tm_tokens_out :: "int option"
  tm_cost_usd :: "rat option"
  tm_model_id :: "string option"
  tm_adapter_id :: "string option"
  tm_prompt_version :: "string option"

definition empty_telemetry :: telemetry where
  "empty_telemetry =
     \<lparr>tm_stage_a_ms = None, tm_stage_b_ms = None, tm_stage_c_ms = None, tm_tokens_in = None,
      tm_tokens_out = None, tm_cost_usd = None, tm_model_id = None, tm_adapter_id = None,
      tm_prompt_version = None\<rparr>"

record assessment_result =
  ar_check_key :: string
  ar_field_key :: "string option"
  ar_event_date :: date
  ar_verdict :: verdict
  ar_severity :: severity
  ar_confidence :: confidence_band
  ar_rationale :: string
  ar_decided_by :: decided_by
  ar_rule_id :: "string option"
  ar_is_shadow :: bool
  ar_is_whatif :: bool
  ar_citations :: "citation list"
  ar_telemetry :: telemetry
  ar_snapshot_id :: uuid
  ar_candidate_count :: nat

section \<open>Clause candidates (domain/clauses.py)\<close>

record clause_candidate =
  cc_id :: uuid
  cc_path :: string
  cc_instrument :: string
  cc_from :: "date option"
  cc_to :: "date option"
  cc_citable :: bool
  cc_heading :: "string option"
  cc_text :: string
  cc_source :: retrieval_source
  cc_rank :: nat
  cc_score :: rat
  cc_exclusion :: "exclusion_reason option"
  cc_note :: "string option"

record candidate_set =
  cs_as_of :: date
  cs_entity_type :: string
  cs_borrower_class :: string
  cs_candidates :: "clause_candidate list"
  cs_context_only :: "clause_candidate list"
  cs_snapshot_id :: uuid

definition cs_paths :: "candidate_set \<Rightarrow> string set" where
  "cs_paths cs = set (map cc_path (cs_candidates cs))"

text \<open>The two loops of \<open>by_path\<close>: candidates first, then the context-only clauses.\<close>

definition by_path :: "candidate_set \<Rightarrow> string \<Rightarrow> clause_candidate option" where
  "by_path cs p =
     (case find (\<lambda>c. cc_path c = p) (cs_candidates cs) of
        Some c \<Rightarrow> Some c
      | None \<Rightarrow> find (\<lambda>c. cc_path c = p) (cs_context_only cs))"

lemma by_path_Some:
  assumes "by_path cs p = Some c"
  shows "cc_path c = p" "c \<in> set (cs_candidates cs) \<union> set (cs_context_only cs)"
  using assms by (auto simp: by_path_def find_Some_iff split: option.splits)

lemma by_path_candidate:
  assumes "p \<in> cs_paths cs"
  obtains c where "by_path cs p = Some c" "c \<in> set (cs_candidates cs)" "cc_path c = p"
proof -
  have "find (\<lambda>c. cc_path c = p) (cs_candidates cs) \<noteq> None"
    using assms by (auto simp: cs_paths_def find_None_iff)
  then obtain c where c: "find (\<lambda>c. cc_path c = p) (cs_candidates cs) = Some c" by auto
  then have "c \<in> set (cs_candidates cs)" "cc_path c = p"
    by (auto simp: find_Some_iff)
  with c that show ?thesis by (simp add: by_path_def)
qed

lemma by_path_None_iff:
  "by_path cs p = None \<longleftrightarrow>
     p \<notin> cc_path ` set (cs_candidates cs) \<and> p \<notin> cc_path ` set (cs_context_only cs)"
  by (auto simp: by_path_def find_None_iff find_Some_iff split: option.splits)

section \<open>Loan accounts (domain/documents.py)\<close>

record loan_account =
  la_id :: uuid
  la_tenant_id :: uuid
  la_external_ref :: string
  la_product_type :: string
  la_is_microfinance :: bool
  la_is_digital_lending :: bool
  la_device_financed :: bool
  la_entity_type :: string

end
