(* ===== verification/CC_Rules_Base.thy ===== *)
theory CC_Rules_Base
  imports CC_Domain
begin

text \<open>
  \<open>src/app/rules/base.py\<close>: the fact index with its typed accessors, rule outcomes, and the
  \<open>Rule\<close> protocol. The protocol is a record (\<open>rule\<close>) whose \<open>evaluate\<close> field is the method; what
  the rest of the program relies on a rule for is the locale \<open>clause_rule\<close>, which
  \<open>CC_Rules\<close> interprets on every rule of the repository.

  \<open>evaluate\<close> takes one argument more than the Python method: the UTC offset of the
  system's local zone, which \<open>datetime.astimezone\<close> reads for a naive datetime.
\<close>

named_theorems rule_law \<open>what discharges the laws of a rule's contract\<close>

section \<open>The fact index\<close>

record fact_record =
  fr_field_key :: string
  fr_value_type :: "string option"
  fr_value :: "json_obj option"
  fr_is_absent :: bool

type_synonym fact_index = "string \<rightharpoonup> fact_record"

definition get_fact :: "fact_index \<Rightarrow> string \<Rightarrow> fact_record res" where
  "get_fact facts k =
     (case facts k of
        None \<Rightarrow> Inl (MissingFact k)
      | Some r \<Rightarrow> if fr_is_absent r then Inl (MissingFact k) else Inr r)"

definition fact_value_of :: "fact_record \<Rightarrow> json_obj res" where
  "fact_value_of r =
     (case fr_value r of
        None \<Rightarrow> Inl (AssertionError (fr_field_key r @ '': present fact with no value''))
      | Some v \<Rightarrow> Inr v)"

text \<open>\<open>self._value(self._get(field_key))[key]\<close>.\<close>

definition read_key :: "fact_index \<Rightarrow> string \<Rightarrow> string \<Rightarrow> json res" where
  "read_key facts k j =
     ebind (get_fact facts k) (\<lambda>r. ebind (fact_value_of r) (\<lambda>v. obj_get v j))"

definition flag_of :: "fact_index \<Rightarrow> string \<Rightarrow> bool res" where
  "flag_of facts k = ebind (read_key facts k ''v'') (\<lambda>x. Inr (py_bool x))"

text \<open>\<open>flag_of(key, default=b)\<close>: only a missing fact takes the default.\<close>

definition flag_of_default :: "fact_index \<Rightarrow> string \<Rightarrow> bool \<Rightarrow> bool res" where
  "flag_of_default facts k b =
     try_missing (get_fact facts k) (Inr b) (\<lambda>r.
       ebind (fact_value_of r) (\<lambda>v. ebind (obj_get v ''v'') (\<lambda>x. Inr (py_bool x))))"

definition date_of :: "fact_index \<Rightarrow> string \<Rightarrow> date res" where
  "date_of facts k =
     ebind (read_key facts k ''v'') (\<lambda>x. ebind (json_str x) date_fromisoformat)"

definition money_of :: "fact_index \<Rightarrow> string \<Rightarrow> int res" where
  "money_of facts k = ebind (read_key facts k ''paise'') py_int"

definition bps_of :: "fact_index \<Rightarrow> string \<Rightarrow> int res" where
  "bps_of facts k = ebind (read_key facts k ''bps'') py_int"

definition datetime_of :: "fact_index \<Rightarrow> string \<Rightarrow> datetime res" where
  "datetime_of facts k =
     ebind (read_key facts k ''v'') (\<lambda>x. ebind (json_str x) datetime_fromisoformat)"

text \<open>\<open>v["v"] if "v" in v else v["days"]\<close>.\<close>

definition int_of :: "fact_index \<Rightarrow> string \<Rightarrow> int res" where
  "int_of facts k =
     ebind (get_fact facts k) (\<lambda>r. ebind (fact_value_of r) (\<lambda>v.
       ebind (case map_of v ''v'' of Some x \<Rightarrow> Inr x | None \<Rightarrow> obj_get v ''days'') py_int))"

definition string_of :: "fact_index \<Rightarrow> string \<Rightarrow> string res" where
  "string_of facts k = ebind (read_key facts k ''v'') (\<lambda>x. Inr (py_str x))"

definition has_fact :: "fact_index \<Rightarrow> string \<Rightarrow> bool" where
  "has_fact facts k = (case facts k of None \<Rightarrow> False | Some r \<Rightarrow> \<not> fr_is_absent r)"

lemmas accessor_defs =
  get_fact_def read_key_def flag_of_def flag_of_default_def date_of_def money_of_def
  bps_of_def datetime_of_def int_of_def string_of_def has_fact_def

text \<open>A present fact, as the extraction pipeline stores it.\<close>

definition stored_fact :: "string \<Rightarrow> fact_value \<Rightarrow> fact_record" where
  "stored_fact k v =
     \<lparr>fr_field_key = k, fr_value_type = Some (fv_kind v), fr_value = Some (value_to_jsonable v),
      fr_is_absent = False\<rparr>"

lemma stored_fact_simps [simp]:
  "fr_is_absent (stored_fact k v) = False"
  "fr_value (stored_fact k v) = Some (value_to_jsonable v)"
  "fact_value_of (stored_fact k v) = Inr (value_to_jsonable v)"
  by (simp_all add: stored_fact_def fact_value_of_def)

lemma get_fact_stored [simp]:
  "facts k = Some (stored_fact k v) \<Longrightarrow> get_fact facts k = Inr (stored_fact k v)"
  by (simp add: get_fact_def)

lemma get_fact_missing_iff:
  "(\<exists>k'. get_fact facts k = Inl (MissingFact k')) \<longleftrightarrow> \<not> has_fact facts k"
  by (auto simp: get_fact_def has_fact_def split: option.splits)

lemma get_fact_missing [simp]: "\<not> has_fact facts k \<Longrightarrow> get_fact facts k = Inl (MissingFact k)"
  by (auto simp: get_fact_def has_fact_def split: option.splits)

text \<open>What every accessor does on a missing fact.\<close>

lemma missing_simps:
  assumes "\<not> has_fact facts k"
  shows "flag_of facts k = Inl (MissingFact k)" "date_of facts k = Inl (MissingFact k)"
    "money_of facts k = Inl (MissingFact k)" "bps_of facts k = Inl (MissingFact k)"
    "datetime_of facts k = Inl (MissingFact k)" "int_of facts k = Inl (MissingFact k)"
    "string_of facts k = Inl (MissingFact k)" "flag_of_default facts k b = Inr b"
  using assms
  by (simp_all add: flag_of_def date_of_def money_of_def bps_of_def datetime_of_def int_of_def
      string_of_def flag_of_default_def read_key_def)

text \<open>What every accessor reads back of a stored value.\<close>

lemma stored_simps [simp]:
  "facts k = Some (stored_fact k (BoolValue b)) \<Longrightarrow> flag_of facts k = Inr b"
  "facts k = Some (stored_fact k (BoolValue b)) \<Longrightarrow> flag_of_default facts k b' = Inr b"
  "facts k = Some (stored_fact k (DateValue d)) \<Longrightarrow> valid_date d \<Longrightarrow> date_of facts k = Inr d"
  "facts k = Some (stored_fact k (MoneyValue p c)) \<Longrightarrow> money_of facts k = Inr p"
  "facts k = Some (stored_fact k (RateValue r)) \<Longrightarrow> bps_of facts k = Inr r"
  "facts k = Some (stored_fact k (IntValue i)) \<Longrightarrow> int_of facts k = Inr i"
  "facts k = Some (stored_fact k (DaysValue i)) \<Longrightarrow> int_of facts k = Inr i"
  "facts k = Some (stored_fact k (StringValue s)) \<Longrightarrow> string_of facts k = Inr s"
  "facts k = Some (stored_fact k (EnumValue s)) \<Longrightarrow> string_of facts k = Inr s"
  "facts k = Some (stored_fact k v) \<Longrightarrow> has_fact facts k"
  by (simp_all add: flag_of_def flag_of_default_def date_of_def money_of_def bps_of_def int_of_def
      string_of_def has_fact_def read_key_def obj_get_def date_iso_roundtrip)

section \<open>Outcomes and rules\<close>

record rule_outcome =
  oc_verdict :: verdict
  oc_citations :: "citation list"
  oc_rationale :: string
  oc_inputs :: "(string \<times> string) list"

datatype rule_result = NotApplicable | Outcome rule_outcome

type_synonym excerpts = "string \<rightharpoonup> string"

type_synonym evaluator =
  "(datetime \<Rightarrow> int) \<Rightarrow> fact_index \<Rightarrow> loan_account \<Rightarrow> date \<Rightarrow> excerpts \<Rightarrow> rule_result res"

record rule =
  rule_id :: string
  check_key :: string
  clause_paths :: "string list"
  consumes :: "string list"
  valid_from :: "date option"
  valid_to :: "date option"
  evaluate :: evaluator

text \<open>
  The citation every rule builds:
  \<open>Citation(clause_path=p, role="decisive", quoted_clause_excerpt=clause_excerpts.get(p, ""))\<close>.
\<close>

definition cite :: "excerpts \<Rightarrow> string \<Rightarrow> citation" where
  "cite ex p = \<lparr>cit_path = p, cit_role = Decisive, cit_excerpt = dict_get ex p [], cit_note = None\<rparr>"

lemma cite_simps [simp]:
  "cit_path (cite ex p) = p" "cit_role (cite ex p) = Decisive"
  "cit_excerpt (cite ex p) = dict_get ex p []" "cit_note (cite ex p) = None"
  by (simp_all add: cite_def)

definition ok :: "verdict \<Rightarrow> citation list \<Rightarrow> string \<Rightarrow> (string \<times> string) list \<Rightarrow> rule_result res" where
  "ok v cs rat ins =
     Inr (Outcome \<lparr>oc_verdict = v, oc_citations = cs, oc_rationale = rat, oc_inputs = ins\<rparr>)"

text \<open>\<open>x = None; try: x = m; except MissingFact: pass\<close>.\<close>

definition opt_fact :: "'a res \<Rightarrow> 'a option res" where
  "opt_fact m = try_missing m (Inr None) (\<lambda>x. Inr (Some x))"

lemma opt_fact_simps [simp]:
  "opt_fact (Inr x) = Inr (Some x)"
  "opt_fact (Inl (MissingFact k)) = Inr None"
  by (simp_all add: opt_fact_def)

definition not_applicable :: "rule_result res" where
  "not_applicable = Inr NotApplicable"

lemma ok_simps [simp]:
  "ok v cs r i = Inr NotApplicable \<longleftrightarrow> False"
  "not_applicable = Inr (Outcome oc) \<longleftrightarrow> False"
  "not_applicable = Inr NotApplicable"
  by (simp_all add: ok_def not_applicable_def)

lemma ok_eq_iff:
  "ok v cs r i = Inr (Outcome oc) \<longleftrightarrow>
     oc = \<lparr>oc_verdict = v, oc_citations = cs, oc_rationale = r, oc_inputs = i\<rparr>"
  by (auto simp: ok_def)

text \<open>The verdict of an evaluation, \<open>None\<close> where the rule does not apply or raises.\<close>

definition rr_verdict :: "rule_result res \<Rightarrow> verdict option" where
  "rr_verdict r = (case r of Inr (Outcome oc) \<Rightarrow> Some (oc_verdict oc) | _ \<Rightarrow> None)"

lemma rr_verdict_simps [simp]:
  "rr_verdict (Inl e) = None" "rr_verdict (Inr NotApplicable) = None"
  "rr_verdict (ok v cs rat ins) = Some v"
  by (simp_all add: rr_verdict_def ok_def)

lemma rr_verdict_not_applicable [simp]: "rr_verdict not_applicable = None"
  by (simp add: not_applicable_def)

lemma opt_fact_Inr_iff:
  "opt_fact m = Inr r \<longleftrightarrow>
     (\<exists>x. m = Inr x \<and> r = Some x) \<or> (\<exists>k. m = Inl (MissingFact k) \<and> r = None)"
  by (auto simp: opt_fact_def try_missing_Inr_iff)

text \<open>A general-purpose account and an evaluation context, for the examples.\<close>

definition sample_account :: loan_account where
  "sample_account =
     \<lparr>la_id = 1, la_tenant_id = 7, la_external_ref = ''LN-1'', la_product_type = ''personal'',
      la_is_microfinance = True, la_is_digital_lending = True, la_device_financed = True,
      la_entity_type = ''nbfc''\<rparr>"

definition sample_facts :: "(string \<times> fact_value) list \<Rightarrow> fact_index" where
  "sample_facts kvs = map_of (map (\<lambda>(k, v). (k, stored_fact k v)) kvs)"

lemma sample_facts_simps [simp]:
  "sample_facts [] k = None"
  "sample_facts ((k', v) # kvs) k = (if k = k' then Some (stored_fact k v) else sample_facts kvs k)"
  by (simp_all add: sample_facts_def)

section \<open>The contract of a rule\<close>

text \<open>
  \<open>well_cited\<close>: an outcome is conclusive and cites, decisively, the rule's declared clauses
  in order, each with the excerpt it was given.
\<close>

definition well_cited :: "string list \<Rightarrow> excerpts \<Rightarrow> rule_result res \<Rightarrow> bool" where
  "well_cited ps ex r \<longleftrightarrow>
     (case r of
        Inr (Outcome oc) \<Rightarrow> oc_verdict oc \<noteq> NoClauseFound \<and> oc_citations oc = map (cite ex) ps
      | _ \<Rightarrow> True)"

lemma well_cited_simps [simp]:
  "well_cited ps ex (Inl e)"
  "well_cited ps ex (Inr NotApplicable)"
  "well_cited ps ex not_applicable"
  "well_cited ps ex (ok v cs rat ins) \<longleftrightarrow> v \<noteq> NoClauseFound \<and> cs = map (cite ex) ps"
  by (simp_all add: well_cited_def not_applicable_def ok_def)

lemma well_cited_ebind [rule_law]:
  "well_cited ps ex (ebind m f) \<longleftrightarrow> (\<forall>x. m = Inr x \<longrightarrow> well_cited ps ex (f x))"
  by (cases m) auto

lemma well_cited_try [rule_law]:
  "well_cited ps ex (try_missing m h f) \<longleftrightarrow>
     (\<forall>x. m = Inr x \<longrightarrow> well_cited ps ex (f x)) \<and>
     ((\<exists>k. m = Inl (MissingFact k)) \<longrightarrow> well_cited ps ex h)"
  by (auto simp: try_missing_def split: sum.splits exc.splits)

text \<open>An accessor reads its own key only.\<close>

lemma accessor_restrict [rule_law]:
  assumes "k \<in> A"
  shows "flag_of (facts |` A) k = flag_of facts k"
    "flag_of_default (facts |` A) k b = flag_of_default facts k b"
    "date_of (facts |` A) k = date_of facts k" "money_of (facts |` A) k = money_of facts k"
    "bps_of (facts |` A) k = bps_of facts k" "datetime_of (facts |` A) k = datetime_of facts k"
    "int_of (facts |` A) k = int_of facts k" "string_of (facts |` A) k = string_of facts k"
    "has_fact (facts |` A) k = has_fact facts k"
  using assms by (simp_all add: accessor_defs)

text \<open>
  What the callers of a rule rely on. \<open>gated\<close>: before its commencement date a rule does not
  apply. \<open>framed\<close>: a rule reads no fact but those it declares in \<open>consumes\<close>, which is what
  makes \<open>rules_for_field\<close> a sound dispatch.
\<close>

locale clause_rule =
  fixes r :: rule
  assumes cited: "well_cited (clause_paths r) ex (evaluate r tz facts acct as_of ex)"
    and gated: "valid_from r = Some d \<Longrightarrow> as_of < d \<Longrightarrow>
      evaluate r tz facts acct as_of ex = Inr NotApplicable"
    and framed: "evaluate r tz (facts |` set (consumes r)) acct as_of ex =
      evaluate r tz facts acct as_of ex"
    and basis: "clause_paths r \<noteq> []"
    and keyed: "check_key r = rule_id r"
begin

lemma outcome_citations:
  assumes "evaluate r tz facts acct as_of ex = Inr (Outcome oc)"
  shows "oc_citations oc = map (cite ex) (clause_paths r)"
  using cited [of ex tz facts acct as_of] assms by (simp add: well_cited_def)

lemma outcome_conclusive:
  assumes "evaluate r tz facts acct as_of ex = Inr (Outcome oc)"
  shows "oc_verdict oc \<noteq> NoClauseFound"
  using cited [of ex tz facts acct as_of] assms by (simp add: well_cited_def)

lemma outcome_has_decisive:
  assumes "evaluate r tz facts acct as_of ex = Inr (Outcome oc)"
  shows "\<exists>c \<in> set (oc_citations oc). cit_role c = Decisive \<and> cit_path c \<in> set (clause_paths r)"
  using outcome_citations [OF assms] basis by (cases "clause_paths r") auto

lemma outcome_not_before_commencement:
  assumes "evaluate r tz facts acct as_of ex = Inr (Outcome oc)" "valid_from r = Some d"
  shows "d \<le> as_of"
proof (rule ccontr)
  assume "\<not> d \<le> as_of"
  then have "as_of < d" by simp
  from gated [OF assms(2) this] assms(1) show False by simp
qed

lemma same_consumed_facts:
  assumes "\<And>k. k \<in> set (consumes r) \<Longrightarrow> facts k = facts' k"
  shows "evaluate r tz facts acct as_of ex = evaluate r tz facts' acct as_of ex"
proof -
  have "facts |` set (consumes r) = facts' |` set (consumes r)"
    using assms by (auto simp: restrict_map_def)
  then show ?thesis using framed by metis
qed

end

end
