(* ===== verification/CC_Rules_Lending.thy ===== *)
theory CC_Rules_Lending
  imports CC_Rules_Base
begin

text \<open>
  The rules on document release, pricing and the Key Facts Statement:
  \<open>src/app/rules/r01 .. r06, r26, r27\<close>. For each file its constants, the body of \<open>evaluate\<close>
  with its branches in order, and the class attributes as a \<open>rule\<close>; then the
  interpretation of \<open>clause_rule\<close> on each and what the release rules decide.
\<close>

definition RBC2025_commencement :: date where
  "RBC2025_commencement = Date 2025 11 28"

section \<open>R01: release of documents within 30 days\<close>

definition RELEASE_WINDOW_DAYS :: int where
  "RELEASE_WINDOW_DAYS = 30"

definition R01_evaluate :: evaluator where
  "R01_evaluate tz facts acct as_of ex =
     (if as_of < RBC2025_commencement then not_applicable
      else ebind (flag_of_default facts ''docs_lost_flag'' False) (\<lambda>lost.
        if lost then not_applicable
        else ebind (date_of facts ''full_repayment_date'') (\<lambda>repaid.
          ebind (date_of facts ''original_docs_released_date'') (\<lambda>released.
            let delay = days_between released repaid;
                cits = [cite ex ''RBC2025/p35'']
            in if delay \<le> RELEASE_WINDOW_DAYS
               then ok Compliant cits
                 (''Documents released '' @ str_int delay @ '' day(s) after full repayment on ''
                   @ date_isoformat repaid @ '', within the '' @ str_int RELEASE_WINDOW_DAYS
                   @ ''-day window.'')
                 [(''full_repayment_date'', date_isoformat repaid),
                  (''original_docs_released_date'', date_isoformat released)]
               else ok Violation cits
                 (''Documents released '' @ str_int delay @ '' day(s) after full repayment on ''
                   @ date_isoformat repaid @ '', exceeding the '' @ str_int RELEASE_WINDOW_DAYS
                   @ ''-day window by '' @ str_int (delay - RELEASE_WINDOW_DAYS) @ '' day(s).'')
                 [(''full_repayment_date'', date_isoformat repaid),
                  (''original_docs_released_date'', date_isoformat released),
                  (''delay_days'', str_int delay)]))))"

definition R01 :: rule where
  "R01 = \<lparr>rule_id = ''R01_docs_release_30d'', check_key = ''R01_docs_release_30d'',
     clause_paths = [''RBC2025/p35''],
     consumes = [''full_repayment_date'', ''original_docs_released_date'', ''docs_lost_flag''],
     valid_from = Some RBC2025_commencement, valid_to = None, evaluate = R01_evaluate\<rparr>"

section \<open>R02: compensation for late release\<close>

definition R02_RELEASE_WINDOW_DAYS :: int where
  "R02_RELEASE_WINDOW_DAYS = 30"

definition COMPENSATION_PER_DAY_PAISE :: int where
  "COMPENSATION_PER_DAY_PAISE = 500000"

definition R02_evaluate :: evaluator where
  "R02_evaluate tz facts acct as_of ex =
     (if as_of < RBC2025_commencement then not_applicable
      else ebind (flag_of_default facts ''docs_lost_flag'' False) (\<lambda>lost.
        if lost then not_applicable
        else ebind (date_of facts ''full_repayment_date'') (\<lambda>repaid.
          ebind (date_of facts ''original_docs_released_date'') (\<lambda>released.
            let delay = days_between released repaid
            in if delay \<le> R02_RELEASE_WINDOW_DAYS then not_applicable
               else
                 let owed_days = delay - R02_RELEASE_WINDOW_DAYS;
                     owed_paise = owed_days * COMPENSATION_PER_DAY_PAISE;
                     cits = [cite ex ''RBC2025/p39'']
                 in try_missing (money_of facts ''release_delay_compensation_paid'')
                   (ok Violation cits
                     (''Release delayed '' @ str_int owed_days @ '' day(s) beyond the window; Rs ''
                       @ str_int (owed_paise div 100)
                       @ '' owed but no compensation payment is on record.'')
                     [(''delay_days'', str_int delay), (''owed_paise'', str_int owed_paise)])
                   (\<lambda>paid_paise.
                     if owed_paise \<le> paid_paise
                     then ok Compliant cits
                       (''Compensation of Rs '' @ str_int (paid_paise div 100)
                         @ '' paid meets or exceeds the Rs '' @ str_int (owed_paise div 100)
                         @ '' owed for '' @ str_int owed_days @ '' day(s) of delay.'')
                       [(''delay_days'', str_int delay), (''paid_paise'', str_int paid_paise)]
                     else ok Violation cits
                       (''Compensation of Rs '' @ str_int (paid_paise div 100)
                         @ '' paid is less than the Rs '' @ str_int (owed_paise div 100)
                         @ '' owed for '' @ str_int owed_days @ '' day(s) of delay.'')
                       [(''delay_days'', str_int delay), (''paid_paise'', str_int paid_paise),
                        (''owed_paise'', str_int owed_paise)])))))"

definition R02 :: rule where
  "R02 = \<lparr>rule_id = ''R02_docs_release_compensation'',
     check_key = ''R02_docs_release_compensation'',
     clause_paths = [''RBC2025/p39''],
     consumes = [''full_repayment_date'', ''original_docs_released_date'',
       ''release_delay_compensation_paid'', ''docs_lost_flag''],
     valid_from = Some RBC2025_commencement, valid_to = None, evaluate = R02_evaluate\<rparr>"

section \<open>R02b: lost documents\<close>

definition EXTRA_WINDOW_DAYS :: int where
  "EXTRA_WINDOW_DAYS = 30"

definition R02b_evaluate :: evaluator where
  "R02b_evaluate tz facts acct as_of ex =
     (if as_of < RBC2025_commencement then not_applicable
      else ebind (flag_of_default facts ''docs_lost_flag'' False) (\<lambda>lost.
        if \<not> lost then not_applicable
        else ebind (flag_of_default facts ''duplicate_docs_assistance_offered_flag'' False)
          (\<lambda>assisted. ebind (date_of facts ''full_repayment_date'') (\<lambda>repaid.
            ebind (date_of facts ''original_docs_released_date'') (\<lambda>released.
              let delay = days_between released repaid;
                  extended_window = 30 + EXTRA_WINDOW_DAYS;
                  cits = [cite ex ''RBC2025/p40'']
              in if \<not> assisted
                 then ok Violation cits
                   (''Original documents reported lost, but no assistance with duplicates ''
                     @ ''is on record.'')
                   [(''docs_lost_flag'', ''true''),
                    (''duplicate_docs_assistance_offered_flag'', ''false'')]
                 else if delay \<le> extended_window
                 then ok Compliant cits
                   (''Documents lost; duplicates assisted and released within the extended ''
                     @ str_int extended_window @ ''-day window ('' @ str_int delay @ '' days).'')
                   [(''delay_days'', str_int delay)]
                 else ok Violation cits
                   (''Documents lost; released '' @ str_int delay
                     @ '' days after repayment, exceeding the extended ''
                     @ str_int extended_window @ ''-day window.'')
                   [(''delay_days'', str_int delay)])))))"

definition R02b :: rule where
  "R02b = \<lparr>rule_id = ''R02b_lost_documents'', check_key = ''R02b_lost_documents'',
     clause_paths = [''RBC2025/p40''],
     consumes = [''docs_lost_flag'', ''duplicate_docs_assistance_offered_flag'',
       ''full_repayment_date'', ''original_docs_released_date''],
     valid_from = Some RBC2025_commencement, valid_to = None, evaluate = R02b_evaluate\<rparr>"

section \<open>R03: the same APR on every document\<close>

text \<open>The comparison itself is the \<open>apr\<close> group of the conflict detector.\<close>

definition R03_evaluate :: evaluator where
  "R03_evaluate tz facts acct as_of ex = not_applicable"

definition R03 :: rule where
  "R03 = \<lparr>rule_id = ''R03_apr_consistency'', check_key = ''R03_apr_consistency'',
     clause_paths = [''KFS2024/annexA/part1/9''], consumes = [''apr_bps''],
     valid_from = None, valid_to = None, evaluate = R03_evaluate\<rparr>"

section \<open>R04: APR against rate, fees and tenor\<close>

definition TOLERANCE_BPS :: int where
  "TOLERANCE_BPS = 200"

text \<open>\<open>round((fees / sanctioned) * 10000 / term_years)\<close> with \<open>term_years = term_days / 365\<close>.\<close>

definition fee_load_bps :: "int \<Rightarrow> int \<Rightarrow> int \<Rightarrow> int" where
  "fee_load_bps fees sanctioned term_days =
     (let term_years = float_div (of_int term_days) 365
      in if 0 < term_years
         then round_half_even
           (float_div (float_mul (float_div (of_int fees) (of_int sanctioned)) 10000) term_years)
         else 0)"

definition R04_evaluate :: evaluator where
  "R04_evaluate tz facts acct as_of ex =
     try_missing
       (ebind (bps_of facts ''apr_bps'') (\<lambda>apr.
        ebind (bps_of facts ''interest_rate_bps'') (\<lambda>rate.
        ebind (money_of facts ''fees_total'') (\<lambda>fees.
        ebind (money_of facts ''sanctioned_amount'') (\<lambda>sanctioned.
        ebind (int_of facts ''loan_term_days'') (\<lambda>term_days.
          Inr (apr, rate, fees, sanctioned, term_days)))))))
       not_applicable
       (\<lambda>(apr, rate, fees, sanctioned, term_days).
         if sanctioned \<le> 0 \<or> term_days \<le> 0 then not_applicable
         else
           let implied_apr = rate + fee_load_bps fees sanctioned term_days;
               diff = \<bar>apr - implied_apr\<bar>;
               cits = [cite ex ''KFS2024/annexA/part1/9'']
           in if diff \<le> TOLERANCE_BPS
              then ok Compliant cits
                (''Disclosed APR ('' @ str_int apr @ '' bps) is within '' @ str_int TOLERANCE_BPS
                  @ '' bps of the rate-plus-fees estimate ('' @ str_int implied_apr @ '' bps).'')
                [(''apr_bps'', str_int apr), (''implied_apr_bps'', str_int implied_apr)]
              else ok Ambiguous cits
                (''Disclosed APR ('' @ str_int apr
                  @ '' bps) differs from the rate-plus-fees estimate ('' @ str_int implied_apr
                  @ '' bps) by '' @ str_int diff @ '' bps, beyond the '' @ str_int TOLERANCE_BPS
                  @ '' bps tolerance of this approximate check.'')
                [(''apr_bps'', str_int apr), (''implied_apr_bps'', str_int implied_apr),
                 (''diff_bps'', str_int diff)])"

definition R04 :: rule where
  "R04 = \<lparr>rule_id = ''R04_apr_computation'', check_key = ''R04_apr_computation'',
     clause_paths = [''KFS2024/annexA/part1/9''],
     consumes = [''apr_bps'', ''interest_rate_bps'', ''fees_total'', ''sanctioned_amount'',
       ''loan_term_days''],
     valid_from = None, valid_to = None, evaluate = R04_evaluate\<rparr>"

section \<open>R05, R06: penal charges\<close>

definition R05_evaluate :: evaluator where
  "R05_evaluate tz facts acct as_of ex =
     (if as_of < RBC2025_commencement then not_applicable
      else try_missing (flag_of facts ''penal_charge_described_as_interest_flag'') not_applicable
        (\<lambda>described_as_interest.
          let cits = [cite ex ''RBC2025/p30/1'']
          in if described_as_interest
             then ok Violation cits
               (''Penal charge is described as penal interest added to the rate of interest, ''
                 @ ''which the instrument prohibits.'')
               [(''penal_charge_described_as_interest_flag'', ''true'')]
             else ok Compliant cits
               ''Penal charge is not described as interest added to the rate.''
               [(''penal_charge_described_as_interest_flag'', ''false'')]))"

definition R05 :: rule where
  "R05 = \<lparr>rule_id = ''R05_penal_not_interest'', check_key = ''R05_penal_not_interest'',
     clause_paths = [''RBC2025/p30/1''],
     consumes = [''penal_charge_described_as_interest_flag''],
     valid_from = Some RBC2025_commencement, valid_to = None, evaluate = R05_evaluate\<rparr>"

definition R06_evaluate :: evaluator where
  "R06_evaluate tz facts acct as_of ex =
     (if as_of < RBC2025_commencement then not_applicable
      else try_missing (flag_of facts ''penal_charge_capitalised_flag'') not_applicable
        (\<lambda>capitalised.
          let cits = [cite ex ''RBC2025/p30/2'']
          in if capitalised
             then ok Violation cits
               ''Penal charge has been capitalised, which the instrument prohibits.''
               [(''penal_charge_capitalised_flag'', ''true'')]
             else ok Compliant cits
               ''Penal charge has not been capitalised.''
               [(''penal_charge_capitalised_flag'', ''false'')]))"

definition R06 :: rule where
  "R06 = \<lparr>rule_id = ''R06_no_capitalisation'', check_key = ''R06_no_capitalisation'',
     clause_paths = [''RBC2025/p30/2''], consumes = [''penal_charge_capitalised_flag''],
     valid_from = Some RBC2025_commencement, valid_to = None, evaluate = R06_evaluate\<rparr>"

section \<open>R26, R27: the Key Facts Statement\<close>

definition MIN_VALIDITY_DAYS :: int where
  "MIN_VALIDITY_DAYS = 3"

definition R26_evaluate :: evaluator where
  "R26_evaluate tz facts acct as_of ex =
     (if \<not> has_fact facts ''loan_proposal_number'' \<and> \<not> has_fact facts ''kfs_validity_days''
      then not_applicable
      else
        let cits = [cite ex ''KFS2024/p1'']
        in if \<not> has_fact facts ''loan_proposal_number''
           then ok Violation cits ''No unique proposal number is disclosed on the KFS.'' []
           else try_missing (int_of facts ''kfs_validity_days'')
             (ok Violation cits ''KFS validity period is not disclosed.''
               [(''loan_proposal_number'', ''present'')])
             (\<lambda>validity_days.
               if MIN_VALIDITY_DAYS \<le> validity_days
               then ok Compliant cits
                 (''KFS carries a unique proposal number and a validity of ''
                   @ str_int validity_days @ '' day(s), meeting the ''
                   @ str_int MIN_VALIDITY_DAYS @ ''-day minimum.'')
                 [(''kfs_validity_days'', str_int validity_days)]
               else ok Violation cits
                 (''KFS validity of '' @ str_int validity_days @ '' day(s) is below the ''
                   @ str_int MIN_VALIDITY_DAYS @ ''-day minimum.'')
                 [(''kfs_validity_days'', str_int validity_days)]))"

definition R26 :: rule where
  "R26 = \<lparr>rule_id = ''R26_kfs_validity'', check_key = ''R26_kfs_validity'',
     clause_paths = [''KFS2024/p1''],
     consumes = [''loan_proposal_number'', ''kfs_validity_days''],
     valid_from = None, valid_to = None, evaluate = R26_evaluate\<rparr>"

definition R27_evaluate :: evaluator where
  "R27_evaluate tz facts acct as_of ex =
     (if \<not> has_fact facts ''kfs_summary_in_agreement_flag'' then not_applicable
      else ebind (flag_of facts ''kfs_summary_in_agreement_flag'') (\<lambda>reproduced.
        let cits = [cite ex ''KFS2024/p2'']
        in if reproduced
           then ok Compliant cits
             ''KFS particulars are reproduced as a summary box in the loan agreement.''
             [(''kfs_summary_in_agreement_flag'', ''true'')]
           else ok Violation cits
             ''KFS particulars are not reproduced as a summary box in the loan agreement.''
             [(''kfs_summary_in_agreement_flag'', ''false'')]))"

definition R27 :: rule where
  "R27 = \<lparr>rule_id = ''R27_kfs_summary_reproduced'', check_key = ''R27_kfs_summary_reproduced'',
     clause_paths = [''KFS2024/p2''], consumes = [''kfs_summary_in_agreement_flag''],
     valid_from = None, valid_to = None, evaluate = R27_evaluate\<rparr>"

section \<open>The contract of the rules\<close>

interpretation r01: clause_rule R01
  by unfold_locales (simp_all add: R01_def R01_evaluate_def Let_def rule_law cong: if_cong)

interpretation r02: clause_rule R02
  by unfold_locales (simp_all add: R02_def R02_evaluate_def Let_def rule_law cong: if_cong)

interpretation r02b: clause_rule R02b
  by unfold_locales (simp_all add: R02b_def R02b_evaluate_def Let_def rule_law cong: if_cong)

interpretation r03: clause_rule R03
  by unfold_locales (simp_all add: R03_def R03_evaluate_def Let_def rule_law cong: if_cong)

interpretation r04: clause_rule R04
  by unfold_locales (simp_all add: R04_def R04_evaluate_def Let_def rule_law cong: if_cong)

interpretation r05: clause_rule R05
  by unfold_locales (simp_all add: R05_def R05_evaluate_def Let_def rule_law cong: if_cong)

interpretation r06: clause_rule R06
  by unfold_locales (simp_all add: R06_def R06_evaluate_def Let_def rule_law cong: if_cong)

interpretation r26: clause_rule R26
  by unfold_locales (simp_all add: R26_def R26_evaluate_def Let_def rule_law cong: if_cong)

interpretation r27: clause_rule R27
  by unfold_locales (simp_all add: R27_def R27_evaluate_def Let_def rule_law cong: if_cong)

section \<open>What the rules decide\<close>

text \<open>
  C9: The three release rules split the cases between them. With the documents not lost,
  R01 is compliant exactly up to day 30 after full repayment, and R02 speaks exactly when R01
  reports a violation, requiring at least Rs 5,000 for every day beyond the thirtieth; with the
  documents lost, only R02b speaks, and is compliant exactly when duplicates were assisted and
  the release came within 60 days.
\<close>

theorem release_limbs:
  assumes "RBC2025_commencement \<le> as_of"
    and "flag_of_default facts ''docs_lost_flag'' False = Inr lost"
    and "flag_of_default facts ''duplicate_docs_assistance_offered_flag'' False = Inr assisted"
    and "date_of facts ''full_repayment_date'' = Inr repaid"
    and "date_of facts ''original_docs_released_date'' = Inr released"
    and "opt_fact (money_of facts ''release_delay_compensation_paid'') = Inr paid"
  defines "delay \<equiv> days_between released repaid"
  shows "rr_verdict (R01_evaluate tz facts acct as_of ex) =
      (if lost then None else Some (if delay \<le> 30 then Compliant else Violation)) \<and>
    rr_verdict (R02_evaluate tz facts acct as_of ex) =
      (if lost \<or> delay \<le> 30 then None
       else Some (if \<exists>p. paid = Some p \<and> (delay - 30) * 500000 \<le> p then Compliant else Violation)) \<and>
    rr_verdict (R02b_evaluate tz facts acct as_of ex) =
      (if \<not> lost then None else Some (if assisted \<and> delay \<le> 60 then Compliant else Violation))"
proof (intro conjI)
  have g: "\<not> as_of < RBC2025_commencement" using assms(1) by simp
  note simps = RELEASE_WINDOW_DAYS_def R02_RELEASE_WINDOW_DAYS_def EXTRA_WINDOW_DAYS_def
    COMPENSATION_PER_DAY_PAISE_def Let_def delay_def
  show "rr_verdict (R01_evaluate tz facts acct as_of ex) =
      (if lost then None else Some (if delay \<le> 30 then Compliant else Violation))"
    using g assms(2,4,5) by (simp add: R01_evaluate_def simps)
  show "rr_verdict (R02_evaluate tz facts acct as_of ex) =
      (if lost \<or> delay \<le> 30 then None
       else Some (if \<exists>p. paid = Some p \<and> (delay - 30) * 500000 \<le> p then Compliant else Violation))"
    using g assms(2,4-6) by (auto simp: R02_evaluate_def simps opt_fact_Inr_iff)
  show "rr_verdict (R02b_evaluate tz facts acct as_of ex) =
      (if \<not> lost then None else Some (if assisted \<and> delay \<le> 60 then Compliant else Violation))"
    using g assms(2-5) by (simp add: R02b_evaluate_def simps)
qed

theorem release_limbs_witness:
  "rr_verdict (R02_evaluate (\<lambda>_. 0)
     (sample_facts [(''full_repayment_date'', DateValue (Date 2025 12 1)),
        (''original_docs_released_date'', DateValue (Date 2026 1 10)),
        (''release_delay_compensation_paid'', MoneyValue 4999999 ''INR'')])
     sample_account (Date 2026 2 1) Map.empty) = Some Violation"
  (is "rr_verdict (R02_evaluate _ ?facts _ _ _) = _")
proof -
  have "days_between (Date 2026 1 10) (Date 2025 12 1) = 40"
    "valid_date (Date 2025 12 1)" "valid_date (Date 2026 1 10)" by code_simp+
  moreover have "RBC2025_commencement \<le> Date 2026 2 1" by (simp add: RBC2025_commencement_def)
  moreover have "\<not> has_fact ?facts ''docs_lost_flag''"
    "\<not> has_fact ?facts ''duplicate_docs_assistance_offered_flag''"
    by (simp_all add: has_fact_def)
  ultimately show ?thesis
    using release_limbs [of "Date 2026 2 1" ?facts False False "Date 2025 12 1"
        "Date 2026 1 10" "Some 4999999" "\<lambda>_. 0" sample_account Map.empty]
    by (simp add: missing_simps)
qed

text \<open>
  The computed fee load is off the exact annualised load by less than one basis point: half a
  point of rounding to an integer and what four float operations lose.
\<close>

lemma fee_load_error:
  assumes "0 \<le> fees" "0 < sanctioned" "0 < term_days"
    and "3650000 * of_int fees / (of_int sanctioned * of_int term_days) \<le> (10 ^ 12 :: rat)"
  shows "\<bar>of_int (fee_load_bps fees sanctioned term_days)
    - 3650000 * of_int fees / (of_int sanctioned * of_int term_days)\<bar> < (1 :: rat)"
proof -
  define x :: rat where "x = 3650000 * of_int fees / (of_int sanctioned * of_int term_days)"
  have t: "0 < fl (of_int term_days / 365)"
  proof -
    have "0 < (of_int term_days / 365 :: rat) * (1 - ulp_half)"
      using assms(3) ulp_half_small by (intro mult_pos_pos) auto
    also have "\<dots> \<le> fl (of_int term_days / 365)" using assms(3) by (intro fl_bounds) auto
    finally show ?thesis .
  qed
  define q where "q = float_div (float_mul (float_div (of_int fees) (of_int sanctioned)) 10000)
      (fl (of_int term_days / 365))"
  have x: "x = of_int fees / of_int sanctioned * 10000 / (of_int term_days / 365)"
    by (simp add: x_def)
  have "\<bar>q - x\<bar> \<le> 5 * ulp_half * x"
    unfolding q_def x using assms(1-3) by (intro quotient_chain_error) auto
  also have "\<dots> \<le> 5 * (1 / 1000000000000000) * 10 ^ 12"
    using assms ulp_half_small x_def by (intro mult_mono) auto
  also have "\<dots> < 1 / 2" by simp
  finally have "\<bar>q - x\<bar> < 1 / 2" .
  moreover have "\<bar>of_int (round_half_even q) - q\<bar> \<le> 1 / 2" by (rule round_half_even_error)
  moreover have "fee_load_bps fees sanctioned term_days = round_half_even q"
    using t by (simp add: fee_load_bps_def q_def float_div_def Let_def)
  ultimately show ?thesis unfolding x_def [symmetric] by (simp add: abs_if split: if_splits)
qed



text \<open>
  R26, where either fact of the Key Facts Statement is on record, is compliant exactly when
  the proposal number is present and the validity is at least three days.
\<close>

theorem R26_verdict:
  assumes "opt_fact (int_of facts ''kfs_validity_days'') = Inr validity"
    and "has_fact facts ''loan_proposal_number'' \<or> has_fact facts ''kfs_validity_days''"
  shows "rr_verdict (R26_evaluate tz facts acct as_of ex) =
    Some (if has_fact facts ''loan_proposal_number'' \<and> (\<exists>n. validity = Some n \<and> 3 \<le> n)
          then Compliant else Violation)"
  using assms by (auto simp: R26_evaluate_def Let_def MIN_VALIDITY_DAYS_def opt_fact_Inr_iff)

theorem R26_verdict_witness:
  "rr_verdict (R26_evaluate (\<lambda>_. 0) (sample_facts [(''loan_proposal_number'', StringValue ''P1''),
     (''kfs_validity_days'', DaysValue 3)]) sample_account (Date 2026 2 1) Map.empty)
   = Some Compliant"
  using R26_verdict [of "sample_facts [(''loan_proposal_number'', StringValue ''P1''),
      (''kfs_validity_days'', DaysValue 3)]" "Some 3"]
  by simp

end
