(* ===== verification/CC_Rules_Digital.thy ===== *)
theory CC_Rules_Digital
  imports CC_Rules_Base
begin

text \<open>
  The rules on digital lending, data and grievance redress: \<open>src/app/rules/r07 .. r15\<close>.
\<close>

section \<open>R07: cooling-off period\<close>

definition MIN_COOLING_OFF_DAYS :: int where
  "MIN_COOLING_OFF_DAYS = 1"

definition R07_evaluate :: evaluator where
  "R07_evaluate tz facts acct as_of ex =
     (if \<not> la_is_digital_lending acct then not_applicable
      else
        let cits = [cite ex ''DL2025/p10'']
        in try_missing (int_of facts ''cooling_off_period_days'')
          (ok Violation cits
            ''No cooling-off period is disclosed for this digital lending arrangement.'' [])
          (\<lambda>days.
            ebind (flag_of_default facts ''cooling_off_prepayment_penalty_flag'' False) (\<lambda>penalty.
              if days < MIN_COOLING_OFF_DAYS
              then ok Violation cits
                (''Disclosed cooling-off period of '' @ str_int days
                  @ '' day(s) is below the minimum of '' @ str_int MIN_COOLING_OFF_DAYS @ '' day.'')
                [(''cooling_off_period_days'', str_int days)]
              else if penalty
              then ok Violation cits
                ''A prepayment penalty is levied within the disclosed cooling-off period.''
                [(''cooling_off_period_days'', str_int days),
                 (''cooling_off_prepayment_penalty_flag'', ''true'')]
              else ok Compliant cits
                (''Cooling-off period of '' @ str_int days
                  @ '' day(s) disclosed with no prepayment penalty within it.'')
                [(''cooling_off_period_days'', str_int days)])))"

definition R07 :: rule where
  "R07 = \<lparr>rule_id = ''R07_cooling_off_disclosed'', check_key = ''R07_cooling_off_disclosed'',
     clause_paths = [''DL2025/p10''],
     consumes = [''cooling_off_period_days'', ''cooling_off_prepayment_penalty_flag''],
     valid_from = None, valid_to = None, evaluate = R07_evaluate\<rparr>"

section \<open>R08, R09, R10: flow of funds and fees\<close>

definition R08_evaluate :: evaluator where
  "R08_evaluate tz facts acct as_of ex =
     (if \<not> la_is_digital_lending acct then not_applicable
      else try_missing (string_of facts ''disbursal_credited_account_type'') not_applicable
        (\<lambda>account_type.
          let cits = [cite ex ''DL2025/p9/i'']
          in if account_type = ''borrower_own''
             then ok Compliant cits
               ''Disbursal was credited to the borrower's own account.''
               [(''disbursal_credited_account_type'', account_type)]
             else ok Violation cits
               (''Disbursal was credited to a ''
                 @ replace_char (CHR ''_'') (CHR '' '') account_type
                 @ '' account rather than the borrower's own account.'')
               [(''disbursal_credited_account_type'', account_type)]))"

definition R08 :: rule where
  "R08 = \<lparr>rule_id = ''R08_disbursal_to_borrower'', check_key = ''R08_disbursal_to_borrower'',
     clause_paths = [''DL2025/p9/i''], consumes = [''disbursal_credited_account_type''],
     valid_from = None, valid_to = None, evaluate = R08_evaluate\<rparr>"

definition R09_evaluate :: evaluator where
  "R09_evaluate tz facts acct as_of ex =
     (if \<not> la_is_digital_lending acct then not_applicable
      else try_missing (flag_of facts ''pass_through_account_used_flag'') not_applicable
        (\<lambda>pass_through.
          let cits = [cite ex ''DL2025/p9/ii'']
          in if pass_through
             then ok Violation cits
               ''Repayments flow through a lending-service-provider pass-through account.''
               [(''pass_through_account_used_flag'', ''true'')]
             else ok Compliant cits
               ''No pass-through account is used for repayment collection.''
               [(''pass_through_account_used_flag'', ''false'')]))"

definition R09 :: rule where
  "R09 = \<lparr>rule_id = ''R09_no_pool_account'', check_key = ''R09_no_pool_account'',
     clause_paths = [''DL2025/p9/ii''],
     consumes = [''repayment_debited_account_type'', ''pass_through_account_used_flag''],
     valid_from = None, valid_to = None, evaluate = R09_evaluate\<rparr>"

definition R10_evaluate :: evaluator where
  "R10_evaluate tz facts acct as_of ex =
     (if \<not> la_is_digital_lending acct then not_applicable
      else try_missing (string_of facts ''lsp_fee_borne_by'') not_applicable
        (\<lambda>borne_by.
          let cits = [cite ex ''DL2025/p9/iii'']
          in if borne_by = ''lender''
             then ok Compliant cits
               ''The lending service provider's fee is borne by the regulated entity.''
               [(''lsp_fee_borne_by'', borne_by)]
             else ok Violation cits
               (''The lending service provider's fee is borne by '' @ borne_by
                 @ '', not the regulated entity.'')
               [(''lsp_fee_borne_by'', borne_by)]))"

definition R10 :: rule where
  "R10 = \<lparr>rule_id = ''R10_lsp_fee_borne_by_lender'', check_key = ''R10_lsp_fee_borne_by_lender'',
     clause_paths = [''DL2025/p9/iii''], consumes = [''lsp_fee_borne_by''],
     valid_from = None, valid_to = None, evaluate = R10_evaluate\<rparr>"

section \<open>R11, R12: grievance redress\<close>

definition R11_evaluate :: evaluator where
  "R11_evaluate tz facts acct as_of ex =
     (let has_phone = has_fact facts ''grievance_officer_phone'';
          has_email = has_fact facts ''grievance_officer_email'';
          cits = [cite ex ''DL2025/p11'']
      in if has_phone \<and> has_email
         then ok Compliant cits
           ''Grievance officer's phone and email are both present in the KFS.''
           [(''grievance_officer_phone'', ''present''), (''grievance_officer_email'', ''present'')]
         else
           let missing = (if has_phone then [] else [''phone''])
                 @ (if has_email then [] else [''email''])
           in ok Violation cits
             (''Grievance officer's '' @ join '' and '' missing @ '' missing from the KFS.'')
             [(''missing'', join '','' missing)])"

definition R11 :: rule where
  "R11 = \<lparr>rule_id = ''R11_grievance_officer_in_kfs'',
     check_key = ''R11_grievance_officer_in_kfs'',
     clause_paths = [''DL2025/p11''],
     consumes = [''grievance_officer_phone'', ''grievance_officer_email''],
     valid_from = None, valid_to = None, evaluate = R11_evaluate\<rparr>"

definition R12_evaluate :: evaluator where
  "R12_evaluate tz facts acct as_of ex =
     (let cits = [cite ex ''DL2025/p11'']
      in if has_fact facts ''grievance_mechanism_clause_ref''
         then ok Compliant cits
           ''A grievance escalation mechanism is disclosed in the document set.''
           [(''grievance_mechanism_clause_ref'', ''present'')]
         else ok Violation cits
           ''No grievance escalation mechanism or 30-day reply window is disclosed.''
           [(''grievance_mechanism_clause_ref'', ''absent'')])"

definition R12 :: rule where
  "R12 = \<lparr>rule_id = ''R12_grievance_escalation_disclosed'',
     check_key = ''R12_grievance_escalation_disclosed'',
     clause_paths = [''DL2025/p11''], consumes = [''grievance_mechanism_clause_ref''],
     valid_from = None, valid_to = None, evaluate = R12_evaluate\<rparr>"

section \<open>R13, R14, R15: data and the recovery agent's identity\<close>

definition MAX_HOURS :: int where
  "MAX_HOURS = 24"

definition R13_evaluate :: evaluator where
  "R13_evaluate tz facts acct as_of ex =
     ebind (flag_of_default facts ''data_stored_offshore_flag'' False) (\<lambda>offshore.
       if \<not> offshore then not_applicable
       else
         let cits = [cite ex ''DL2025/p13'']
         in try_missing (int_of facts ''offshore_deletion_within_hours'')
           (ok Violation cits
             ''Data is processed offshore but no deletion window is disclosed.''
             [(''data_stored_offshore_flag'', ''true'')])
           (\<lambda>hours.
             if hours \<le> MAX_HOURS
             then ok Compliant cits
               (''Offshore-processed data is deleted within '' @ str_int hours
                 @ '' hour(s), within the '' @ str_int MAX_HOURS @ ''-hour requirement.'')
               [(''offshore_deletion_within_hours'', str_int hours)]
             else ok Violation cits
               (''Offshore-processed data is deleted within '' @ str_int hours
                 @ '' hour(s), exceeding the '' @ str_int MAX_HOURS @ ''-hour requirement.'')
               [(''offshore_deletion_within_hours'', str_int hours)]))"

definition R13 :: rule where
  "R13 = \<lparr>rule_id = ''R13_offshore_deletion'', check_key = ''R13_offshore_deletion'',
     clause_paths = [''DL2025/p13''],
     consumes = [''data_stored_offshore_flag'', ''offshore_deletion_within_hours''],
     valid_from = None, valid_to = None, evaluate = R13_evaluate\<rparr>"

definition R14_evaluate :: evaluator where
  "R14_evaluate tz facts acct as_of ex =
     ebind (flag_of_default facts ''biometric_data_collected_flag'' False) (\<lambda>collected.
       let cits = [cite ex ''DL2025/p13'']
       in if collected
          then ok Violation cits
            ''Biometric data is collected without a disclosed statutory mandate.''
            [(''biometric_data_collected_flag'', ''true'')]
          else ok Compliant cits
            ''No biometric data collection is on record.''
            [(''biometric_data_collected_flag'', ''false'')])"

definition R14 :: rule where
  "R14 = \<lparr>rule_id = ''R14_no_biometric'', check_key = ''R14_no_biometric'',
     clause_paths = [''DL2025/p13''], consumes = [''biometric_data_collected_flag''],
     valid_from = None, valid_to = None, evaluate = R14_evaluate\<rparr>"

definition R15_evaluate :: evaluator where
  "R15_evaluate tz facts acct as_of ex =
     try_missing (flag_of facts ''recovery_agent_identity_notified_before_contact_flag'')
       not_applicable
       (\<lambda>notified.
         let cits = [cite ex ''DL2025/p8'']
         in if notified
            then ok Compliant cits
              ''Recovery agent's identity was notified to the borrower before first contact.''
              [(''recovery_agent_identity_notified_before_contact_flag'', ''true'')]
            else ok Violation cits
              ''Recovery agent's identity was not notified to the borrower before first contact.''
              [(''recovery_agent_identity_notified_before_contact_flag'', ''false'')])"

definition R15 :: rule where
  "R15 = \<lparr>rule_id = ''R15_agent_identity_notified'', check_key = ''R15_agent_identity_notified'',
     clause_paths = [''DL2025/p8''],
     consumes = [''recovery_agent_identity_notified_before_contact_flag''],
     valid_from = None, valid_to = None, evaluate = R15_evaluate\<rparr>"

section \<open>The contract of the rules\<close>

interpretation r07: clause_rule R07
  by unfold_locales (simp_all add: R07_def R07_evaluate_def Let_def rule_law cong: if_cong)

interpretation r08: clause_rule R08
  by unfold_locales (simp_all add: R08_def R08_evaluate_def Let_def rule_law cong: if_cong)

interpretation r09: clause_rule R09
  by unfold_locales (simp_all add: R09_def R09_evaluate_def Let_def rule_law cong: if_cong)

interpretation r10: clause_rule R10
  by unfold_locales (simp_all add: R10_def R10_evaluate_def Let_def rule_law cong: if_cong)

interpretation r11: clause_rule R11
  by unfold_locales (simp_all add: R11_def R11_evaluate_def Let_def rule_law cong: if_cong)

interpretation r12: clause_rule R12
  by unfold_locales (simp_all add: R12_def R12_evaluate_def Let_def rule_law cong: if_cong)

interpretation r13: clause_rule R13
  by unfold_locales (simp_all add: R13_def R13_evaluate_def Let_def rule_law cong: if_cong)

interpretation r14: clause_rule R14
  by unfold_locales (simp_all add: R14_def R14_evaluate_def Let_def rule_law cong: if_cong)

interpretation r15: clause_rule R15
  by unfold_locales (simp_all add: R15_def R15_evaluate_def Let_def rule_law cong: if_cong)

section \<open>What the rules decide\<close>

text \<open>
  R07 on a digital-lending account is compliant exactly when a cooling-off period of at least
  one day is disclosed and no prepayment penalty applies within it; an undisclosed period is a
  violation, and an account outside digital lending is not assessed.
\<close>

theorem R07_verdict:
  assumes "opt_fact (int_of facts ''cooling_off_period_days'') = Inr days"
    and "flag_of_default facts ''cooling_off_prepayment_penalty_flag'' False = Inr penalty"
  shows "rr_verdict (R07_evaluate tz facts acct as_of ex) =
    (if \<not> la_is_digital_lending acct then None
     else Some (if (\<exists>n. days = Some n \<and> 1 \<le> n) \<and> \<not> penalty then Compliant else Violation))"
  using assms by (auto simp: R07_evaluate_def Let_def MIN_COOLING_OFF_DAYS_def opt_fact_Inr_iff)

theorem R07_verdict_witness:
  "rr_verdict (R07_evaluate (\<lambda>_. 0) (sample_facts [(''cooling_off_period_days'', DaysValue 3),
     (''cooling_off_prepayment_penalty_flag'', BoolValue True)])
     sample_account (Date 2026 2 1) Map.empty) = Some Violation"
  using R07_verdict [of "sample_facts [(''cooling_off_period_days'', DaysValue 3),
      (''cooling_off_prepayment_penalty_flag'', BoolValue True)]" "Some 3" True
      "\<lambda>_. 0" sample_account]
  by (simp add: sample_account_def)

end
