(* ===== verification/CC_Rules_Recovery.thy ===== *)
theory CC_Rules_Recovery
  imports CC_Rules_Base
begin

text \<open>
  The rules on recovery conduct and device restriction: \<open>src/app/rules/r16 .. r25\<close>. Each of
  the files but r17 has its own constant \<open>AMENDMENT_EFFECTIVE\<close>, with the same value; it is
  defined once here.
\<close>

definition AMENDMENT_EFFECTIVE :: date where
  "AMENDMENT_EFFECTIVE = Date 2027 1 1"

section \<open>R16, R17: contact hours\<close>

definition WINDOW_OPEN :: time where
  "WINDOW_OPEN = Time 8 0 0 0"

definition WINDOW_CLOSE :: time where
  "WINDOW_CLOSE = Time 19 0 0 0"

text \<open>The en dash between the two ends of the window, U+2013.\<close>

definition en_dash :: string where
  "en_dash = [CHR 0xE2, CHR 0x80, CHR 0x93]"

definition R16_evaluate :: evaluator where
  "R16_evaluate tz facts acct as_of ex =
     (if as_of < AMENDMENT_EFFECTIVE then not_applicable
      else ebind (datetime_of facts ''contact_datetime'') (\<lambda>ts.
        ebind (ist_time tz ts) (\<lambda>t.
          let cits = [cite ex ''RBC-AMD2026/p100W''];
              inside = (WINDOW_OPEN \<le> t \<and> t \<le> WINDOW_CLOSE)
          in ok (if inside then Compliant else Violation) cits
            (''Borrower contacted at '' @ time_hhmm t @ '' IST on ''
              @ date_isoformat (dt_date ts) @ '', '' @ (if inside then ''within'' else ''outside'')
              @ '' the permitted '' @ time_hhmm WINDOW_OPEN @ en_dash @ time_hhmm WINDOW_CLOSE
              @ '' window.'')
            [(''contact_datetime'', datetime_isoformat ts)])))"

definition R16 :: rule where
  "R16 = \<lparr>rule_id = ''R16_contact_window'', check_key = ''R16_contact_window'',
     clause_paths = [''RBC-AMD2026/p100W''], consumes = [''contact_datetime''],
     valid_from = Some AMENDMENT_EFFECTIVE, valid_to = None, evaluate = R16_evaluate\<rparr>"

definition R17_commencement :: date where
  "R17_commencement = Date 2025 11 28"

definition R17_evaluate :: evaluator where
  "R17_evaluate tz facts acct as_of ex =
     (if as_of < R17_commencement \<or> \<not> la_is_microfinance acct then not_applicable
      else ebind (datetime_of facts ''contact_datetime'') (\<lambda>ts.
        ebind (ist_time tz ts) (\<lambda>t.
          let cits = [cite ex ''RBC2025/p45''];
              inside = (WINDOW_OPEN \<le> t \<and> t \<le> WINDOW_CLOSE)
          in ok (if inside then Compliant else Violation) cits
            (''Microfinance borrower contacted at '' @ time_hhmm t @ '' IST on ''
              @ date_isoformat (dt_date ts) @ '', '' @ (if inside then ''within'' else ''outside'')
              @ '' the permitted '' @ time_hhmm WINDOW_OPEN @ en_dash @ time_hhmm WINDOW_CLOSE
              @ '' window.'')
            [(''contact_datetime'', datetime_isoformat ts)])))"

definition R17 :: rule where
  "R17 = \<lparr>rule_id = ''R17_microfinance_contact_hours'',
     check_key = ''R17_microfinance_contact_hours'',
     clause_paths = [''RBC2025/p45''], consumes = [''contact_datetime''],
     valid_from = Some R17_commencement, valid_to = None, evaluate = R17_evaluate\<rparr>"

section \<open>R18, R19: recordings and certification\<close>

definition MIN_RETENTION_DAYS :: int where
  "MIN_RETENTION_DAYS = 180"

definition R18_evaluate :: evaluator where
  "R18_evaluate tz facts acct as_of ex =
     (if as_of < AMENDMENT_EFFECTIVE then not_applicable
      else ebind (flag_of_default facts ''call_recorded_flag'' False) (\<lambda>recorded.
        if \<not> recorded then not_applicable
        else
          let cits = [cite ex ''RBC-AMD2026/p100N'']
          in try_missing (int_of facts ''recording_retention_days'')
            (ok Violation cits
              ''Call is recorded but no retention period is disclosed.''
              [(''call_recorded_flag'', ''true'')])
            (\<lambda>retention_days.
              if MIN_RETENTION_DAYS \<le> retention_days
              then ok Compliant cits
                (''Recording retention of '' @ str_int retention_days
                  @ '' day(s) meets the six-month minimum.'')
                [(''recording_retention_days'', str_int retention_days)]
              else ok Violation cits
                (''Recording retention of '' @ str_int retention_days
                  @ '' day(s) is below the six-month minimum.'')
                [(''recording_retention_days'', str_int retention_days)])))"

definition R18 :: rule where
  "R18 = \<lparr>rule_id = ''R18_recording_retention'', check_key = ''R18_recording_retention'',
     clause_paths = [''RBC-AMD2026/p100N''],
     consumes = [''call_recorded_flag'', ''recording_retention_days''],
     valid_from = Some AMENDMENT_EFFECTIVE, valid_to = None, evaluate = R18_evaluate\<rparr>"

definition R19_evaluate :: evaluator where
  "R19_evaluate tz facts acct as_of ex =
     (if as_of < AMENDMENT_EFFECTIVE then not_applicable
      else try_missing (flag_of facts ''agent_iibf_certified_flag'') not_applicable
        (\<lambda>certified.
          let cits = [cite ex ''RBC-AMD2026/p100F'']
          in if certified
             then ok Compliant cits
               ''Recovery agent holds the required certification.''
               [(''agent_iibf_certified_flag'', ''true'')]
             else ok Violation cits
               ''Recovery agent does not hold the required certification.''
               [(''agent_iibf_certified_flag'', ''false'')]))"

definition R19 :: rule where
  "R19 = \<lparr>rule_id = ''R19_agent_certified'', check_key = ''R19_agent_certified'',
     clause_paths = [''RBC-AMD2026/p100F''], consumes = [''agent_iibf_certified_flag''],
     valid_from = Some AMENDMENT_EFFECTIVE, valid_to = None, evaluate = R19_evaluate\<rparr>"

section \<open>R20, R21: third parties and social media\<close>

definition R20_evaluate :: evaluator where
  "R20_evaluate tz facts acct as_of ex =
     (if as_of < AMENDMENT_EFFECTIVE then not_applicable
      else try_missing (flag_of facts ''third_party_contacted_flag'') not_applicable
        (\<lambda>contacted.
          let cits = [cite ex ''RBC-AMD2026/p100X'']
          in if \<not> contacted
             then ok Compliant cits
               ''No third party was contacted for recovery purposes.''
               [(''third_party_contacted_flag'', ''false'')]
             else
               ebind (if has_fact facts ''third_party_relationship''
                      then string_of facts ''third_party_relationship''
                      else Inr ''unknown'') (\<lambda>relationship.
                 if relationship = ''guarantor''
                 then ok Compliant cits
                   (''Only the borrower's guarantor was contacted, which is not prohibited ''
                     @ ''third-party contact.'')
                   [(''third_party_relationship'', relationship)]
                 else ok Violation cits
                   (''A third party ('' @ relationship
                     @ '') was contacted for recovery purposes.'')
                   [(''third_party_contacted_flag'', ''true''),
                    (''third_party_relationship'', relationship)])))"

definition R20 :: rule where
  "R20 = \<lparr>rule_id = ''R20_no_third_party_contact'', check_key = ''R20_no_third_party_contact'',
     clause_paths = [''RBC-AMD2026/p100X''],
     consumes = [''third_party_contacted_flag'', ''third_party_relationship''],
     valid_from = Some AMENDMENT_EFFECTIVE, valid_to = None, evaluate = R20_evaluate\<rparr>"

definition R21_evaluate :: evaluator where
  "R21_evaluate tz facts acct as_of ex =
     (if as_of < AMENDMENT_EFFECTIVE then not_applicable
      else ebind (flag_of_default facts ''social_media_disclosure_flag'' False) (\<lambda>disclosed.
        let cits = [cite ex ''RBC-AMD2026/p100X'']
        in if disclosed
           then ok Violation cits
             ''Borrower's account status was disclosed on a social media platform.''
             [(''social_media_disclosure_flag'', ''true'')]
           else ok Compliant cits
             ''No social media disclosure about the borrower is on record.''
             [(''social_media_disclosure_flag'', ''false'')]))"

definition R21 :: rule where
  "R21 = \<lparr>rule_id = ''R21_no_social_media_disclosure'',
     check_key = ''R21_no_social_media_disclosure'',
     clause_paths = [''RBC-AMD2026/p100X''], consumes = [''social_media_disclosure_flag''],
     valid_from = Some AMENDMENT_EFFECTIVE, valid_to = None, evaluate = R21_evaluate\<rparr>"

section \<open>R22: intimation before a visit\<close>

definition MIN_INTIMATION_DAYS :: int where
  "MIN_INTIMATION_DAYS = 1"

definition R22_evaluate :: evaluator where
  "R22_evaluate tz facts acct as_of ex =
     (if as_of < AMENDMENT_EFFECTIVE then not_applicable
      else try_missing (date_of facts ''first_visit_date'') not_applicable
        (\<lambda>visit_date.
          let cits = [cite ex ''RBC-AMD2026/p100I'']
          in try_missing (date_of facts ''visit_prior_intimation_date'')
            (ok Violation cits
              ''A recovery visit occurred with no prior intimation on record.''
              [(''first_visit_date'', date_isoformat visit_date)])
            (\<lambda>intimation_date.
              let lead_days = days_between visit_date intimation_date
              in if MIN_INTIMATION_DAYS \<le> lead_days
                 then ok Compliant cits
                   (''Prior intimation given '' @ str_int lead_days
                     @ '' day(s) before the visit, meeting the ''
                     @ str_int MIN_INTIMATION_DAYS @ ''-day minimum.'')
                   [(''lead_days'', str_int lead_days)]
                 else ok Violation cits
                   (''Prior intimation given only '' @ str_int lead_days
                     @ '' day(s) before the visit, below the ''
                     @ str_int MIN_INTIMATION_DAYS @ ''-day minimum.'')
                   [(''lead_days'', str_int lead_days)])))"

definition R22 :: rule where
  "R22 = \<lparr>rule_id = ''R22_visit_prior_intimation'', check_key = ''R22_visit_prior_intimation'',
     clause_paths = [''RBC-AMD2026/p100I''],
     consumes = [''visit_prior_intimation_date'', ''first_visit_date''],
     valid_from = Some AMENDMENT_EFFECTIVE, valid_to = None, evaluate = R22_evaluate\<rparr>"

section \<open>R23, R24: device restriction\<close>

definition MIN_DAYS_PAST_DUE :: int where
  "MIN_DAYS_PAST_DUE = 60"

definition CLAUSE_PATHS :: "string list" where
  "CLAUSE_PATHS = [''RBC-AMD2026/p100Q'', ''RBC-AMD2026/p100R'', ''RBC-AMD2026/p100S'']"

text \<open>
  The list \<open>failures\<close> as \<open>evaluate\<close> accumulates it, from what the four reads gave: \<open>None\<close>
  where \<open>MissingFact\<close> was caught.
\<close>

definition R23_failures :: "bool \<Rightarrow> int option \<Rightarrow> date option \<Rightarrow> date option \<Rightarrow> string list" where
  "R23_failures financed days_past_due notice21 notice7 =
     (if financed then [] else [''the restricted device was not financed by this loan'']) @
     (case days_past_due of
        Some n \<Rightarrow>
          if n < MIN_DAYS_PAST_DUE
          then [''only '' @ str_int n @ '' day(s) past due, below the ''
                  @ str_int MIN_DAYS_PAST_DUE @ ''-day minimum'']
          else []
      | None \<Rightarrow> [''days past due at restriction is not on record'']) @
     (if notice21 = None then [''no 21-day cure notice is on record''] else []) @
     (if notice7 = None then [''no 7-day cure notice is on record''] else []) @
     (case (notice21, notice7) of
        (Some n21, Some n7) \<Rightarrow>
          if n7 \<le> n21
          then [''the 7-day cure notice was not sent strictly after the 21-day cure notice'']
          else []
      | _ \<Rightarrow> [])"

definition R23_evaluate :: evaluator where
  "R23_evaluate tz facts acct as_of ex =
     (if as_of < AMENDMENT_EFFECTIVE then not_applicable
      else ebind (flag_of_default facts ''device_restriction_applied_flag'' False) (\<lambda>applied.
        if \<not> applied then not_applicable
        else
          ebind (flag_of_default facts ''device_financed_by_loan_flag'' False) (\<lambda>financed.
          ebind (opt_fact (int_of facts ''days_past_due_at_contact'')) (\<lambda>days_past_due.
          ebind (opt_fact (date_of facts ''cure_notice_21day_sent_date'')) (\<lambda>notice21.
          ebind (opt_fact (date_of facts ''cure_notice_7day_sent_date'')) (\<lambda>notice7.
            let cits = map (cite ex) CLAUSE_PATHS;
                failures = R23_failures financed days_past_due notice21 notice7
            in if failures \<noteq> []
               then ok Violation cits
                 (''Device restriction preconditions not met: '' @ join ''; '' failures @ ''.'')
                 [(''device_restriction_applied_flag'', ''true'')]
               else (case days_past_due of
                   None \<Rightarrow> Inl (UnboundLocalError ''days_past_due'')
                 | Some n \<Rightarrow> ok Compliant cits
                     (''Device restriction preconditions (financed device, 60+ days past due, ''
                       @ ''sequenced cure notices) are all met.'')
                     [(''days_past_due_at_contact'', str_int n)])))))))"

definition R23 :: rule where
  "R23 = \<lparr>rule_id = ''R23_device_restriction_preconditions'',
     check_key = ''R23_device_restriction_preconditions'',
     clause_paths = CLAUSE_PATHS,
     consumes = [''device_restriction_applied_flag'', ''device_financed_by_loan_flag'',
       ''days_past_due_at_contact'', ''cure_notice_21day_sent_date'',
       ''cure_notice_7day_sent_date'', ''device_restriction_applied_date''],
     valid_from = Some AMENDMENT_EFFECTIVE, valid_to = None, evaluate = R23_evaluate\<rparr>"

definition MAX_REASONABLE_HOURS :: int where
  "MAX_REASONABLE_HOURS = 0"

definition R24_evaluate :: evaluator where
  "R24_evaluate tz facts acct as_of ex =
     (if as_of < AMENDMENT_EFFECTIVE then not_applicable
      else try_missing (int_of facts ''device_restoration_delay_hours'') not_applicable
        (\<lambda>delay_hours.
          let cits = [cite ex ''RBC-AMD2026/p100S'']
          in if delay_hours \<le> MAX_REASONABLE_HOURS
             then ok Compliant cits
               ''No wrongful delay in device restoration is on record.''
               [(''device_restoration_delay_hours'', str_int delay_hours)]
             else
               let owed_paise = delay_hours * 25000
               in ok Violation cits
                 (''Device restoration was wrongfully delayed by '' @ str_int delay_hours
                   @ '' hour(s); Rs '' @ str_int (owed_paise div 100) @ '' owed in compensation.'')
                 [(''device_restoration_delay_hours'', str_int delay_hours),
                  (''owed_paise'', str_int owed_paise)]))"

definition R24 :: rule where
  "R24 = \<lparr>rule_id = ''R24_restoration_compensation'',
     check_key = ''R24_restoration_compensation'',
     clause_paths = [''RBC-AMD2026/p100S''], consumes = [''device_restoration_delay_hours''],
     valid_from = Some AMENDMENT_EFFECTIVE, valid_to = None, evaluate = R24_evaluate\<rparr>"

section \<open>R25: grievance officer on recovery communications\<close>

definition R25_evaluate :: evaluator where
  "R25_evaluate tz facts acct as_of ex =
     (if as_of < AMENDMENT_EFFECTIVE then not_applicable
      else if \<not> has_fact facts ''grievance_officer_details_disclosed_flag'' then not_applicable
      else ebind (flag_of facts ''grievance_officer_details_disclosed_flag'') (\<lambda>disclosed.
        let cits = [cite ex ''RBC-AMD2026/p100Y'']
        in if disclosed
           then ok Compliant cits
             ''Grievance officer's details are disclosed on the recovery communication.''
             [(''grievance_officer_details_disclosed_flag'', ''true'')]
           else ok Violation cits
             ''Grievance officer's details are not disclosed on the recovery communication.''
             [(''grievance_officer_details_disclosed_flag'', ''false'')]))"

definition R25 :: rule where
  "R25 = \<lparr>rule_id = ''R25_grievance_officer_on_recovery_comms'',
     check_key = ''R25_grievance_officer_on_recovery_comms'',
     clause_paths = [''RBC-AMD2026/p100Y''],
     consumes = [''grievance_officer_details_disclosed_flag''],
     valid_from = Some AMENDMENT_EFFECTIVE, valid_to = None, evaluate = R25_evaluate\<rparr>"

section \<open>The contract of the rules\<close>

lemma well_cited_option [rule_law]:
  "well_cited ps ex (case m of None \<Rightarrow> a | Some x \<Rightarrow> f x) \<longleftrightarrow>
     (m = None \<longrightarrow> well_cited ps ex a) \<and> (\<forall>x. m = Some x \<longrightarrow> well_cited ps ex (f x))"
  by (cases m) auto

interpretation r16: clause_rule R16
  by unfold_locales (simp_all add: R16_def R16_evaluate_def Let_def rule_law cong: if_cong)

interpretation r17: clause_rule R17
  by unfold_locales (simp_all add: R17_def R17_evaluate_def Let_def rule_law cong: if_cong)

interpretation r18: clause_rule R18
  by unfold_locales (simp_all add: R18_def R18_evaluate_def Let_def rule_law cong: if_cong)

interpretation r19: clause_rule R19
  by unfold_locales (simp_all add: R19_def R19_evaluate_def Let_def rule_law cong: if_cong)

interpretation r20: clause_rule R20
  by unfold_locales (simp_all add: R20_def R20_evaluate_def Let_def rule_law cong: if_cong)

interpretation r21: clause_rule R21
  by unfold_locales (simp_all add: R21_def R21_evaluate_def Let_def rule_law cong: if_cong)

interpretation r22: clause_rule R22
  by unfold_locales (simp_all add: R22_def R22_evaluate_def Let_def rule_law cong: if_cong)

interpretation r23: clause_rule R23
  by unfold_locales (simp_all add: R23_def R23_evaluate_def Let_def CLAUSE_PATHS_def rule_law cong: if_cong)

interpretation r24: clause_rule R24
  by unfold_locales (simp_all add: R24_def R24_evaluate_def Let_def rule_law cong: if_cong)

interpretation r25: clause_rule R25
  by unfold_locales (simp_all add: R25_def R25_evaluate_def Let_def rule_law cong: if_cong)

section \<open>What the rules decide\<close>

lemma window_clock:
  assumes "valid_time c"
  shows "WINDOW_OPEN \<le> c \<and> c \<le> WINDOW_CLOSE \<longleftrightarrow>
    28800000000 \<le> time_micros c \<and> time_micros c \<le> 68400000000"
  using assms by (simp add: time_le_iff WINDOW_OPEN_def WINDOW_CLOSE_def)

text \<open>
  C8: Contact hours, on the instant of the contact. The verdict is compliant exactly when the
  Indian wall clock at that instant reads from 08:00:00 to 19:00:00 inclusive, whatever zone the
  timestamp carries; before 2027 only R17 decides, and only for a microfinance borrower from
  28 November 2025 on; from 2027 R16 decides for every borrower.
\<close>

theorem contact_hours:
  assumes "datetime_of facts ''contact_datetime'' = Inr ts"
    and "dt_offset ts = Some z" "valid_time (dt_time ts)" "ist_time tz ts = Inr c"
  defines "v \<equiv> (if 8 * 3600000000 \<le> ist_clock ts \<and> ist_clock ts \<le> 19 * 3600000000
    then Compliant else Violation)"
  shows "rr_verdict (R16_evaluate tz facts acct as_of ex) =
      (if as_of < Date 2027 1 1 then None else Some v) \<and>
    rr_verdict (R17_evaluate tz facts acct as_of ex) =
      (if as_of < Date 2025 11 28 \<or> \<not> la_is_microfinance acct then None else Some v)"
  using assms(1,4) window_clock ist_time_clock [OF assms(3,2,4)]
  by (simp add: R16_evaluate_def R17_evaluate_def Let_def AMENDMENT_EFFECTIVE_def
      R17_commencement_def v_def del: less_date_simp)

definition sample_contact :: datetime where
  "sample_contact = DateTime (Date 2027 3 1) (Time 13 30 0 1) (Some 0)"

text \<open>13:30:00.000001 UTC is one microsecond past 19:00 in India.\<close>

theorem contact_hours_witness:
  "rr_verdict (R16_evaluate (\<lambda>_. 0)
     (sample_facts [(''contact_datetime'', DateTimeValue sample_contact)])
     sample_account (Date 2027 3 1) Map.empty) = Some Violation"
  (is "rr_verdict (R16_evaluate _ ?facts _ _ _) = _")
proof -
  have "datetime_of ?facts ''contact_datetime'' = Inr sample_contact"
  proof -
    have "datetime_fromisoformat (datetime_json sample_contact) = Inr sample_contact" by code_simp
    then show ?thesis by (simp add: datetime_of_def read_key_def obj_get_def)
  qed
  moreover have "dt_offset sample_contact = Some 0" "valid_time (dt_time sample_contact)"
    "ist_time (\<lambda>_. 0) sample_contact = Inr (Time 19 0 0 1)"
    "ist_clock sample_contact = 68400000001" by code_simp+
  ultimately show ?thesis
    using contact_hours [of ?facts sample_contact 0 "\<lambda>_. 0" "Time 19 0 0 1" sample_account
        "Date 2027 3 1" Map.empty]
    by simp
qed

lemma R23_failures_none_iff:
  "R23_failures financed dpd n21 n7 = [] \<longleftrightarrow>
     financed \<and> (\<exists>n. dpd = Some n \<and> MIN_DAYS_PAST_DUE \<le> n) \<and>
     (\<exists>a b. n21 = Some a \<and> n7 = Some b \<and> a < b)"
  by (auto simp: R23_failures_def split: option.splits if_splits)

text \<open>
  R23, for a restricted device under the amendment, is compliant exactly when the loan
  financed the device, at least 60 days past due are on record, and both cure notices are on
  record with the 7-day notice strictly after the 21-day one; every other case, a missing record
  included, is a violation, and the local variable \<open>days_past_due\<close> is never read unbound.
\<close>

theorem R23_preconditions:
  assumes "AMENDMENT_EFFECTIVE \<le> as_of"
    and "flag_of_default facts ''device_restriction_applied_flag'' False = Inr True"
    and "flag_of_default facts ''device_financed_by_loan_flag'' False = Inr financed"
    and "opt_fact (int_of facts ''days_past_due_at_contact'') = Inr dpd"
    and "opt_fact (date_of facts ''cure_notice_21day_sent_date'') = Inr n21"
    and "opt_fact (date_of facts ''cure_notice_7day_sent_date'') = Inr n7"
  shows "rr_verdict (R23_evaluate tz facts acct as_of ex) =
    Some (if financed \<and> (\<exists>n. dpd = Some n \<and> 60 \<le> n) \<and>
             (\<exists>a b. n21 = Some a \<and> n7 = Some b \<and> a < b)
          then Compliant else Violation)"
proof -
  have "\<not> as_of < AMENDMENT_EFFECTIVE" using assms(1) by simp
  with assms(2-6) show ?thesis
    by (auto simp: R23_evaluate_def Let_def R23_failures_none_iff MIN_DAYS_PAST_DUE_def)
qed

theorem R23_preconditions_witness:
  "rr_verdict (R23_evaluate (\<lambda>_. 0)
     (sample_facts [(''device_restriction_applied_flag'', BoolValue True),
        (''device_financed_by_loan_flag'', BoolValue True),
        (''days_past_due_at_contact'', IntValue 60),
        (''cure_notice_21day_sent_date'', DateValue (Date 2027 3 1)),
        (''cure_notice_7day_sent_date'', DateValue (Date 2027 3 1))])
     sample_account (Date 2027 4 1) Map.empty) = Some Violation"
  (is "rr_verdict (R23_evaluate _ ?facts _ _ _) = _")
proof -
  have "AMENDMENT_EFFECTIVE \<le> Date 2027 4 1" "valid_date (Date 2027 3 1)"
    by (simp add: AMENDMENT_EFFECTIVE_def, code_simp)
  then show ?thesis
    using R23_preconditions [of "Date 2027 4 1" ?facts True "Some 60"
        "Some (Date 2027 3 1)" "Some (Date 2027 3 1)" "\<lambda>_. 0" sample_account Map.empty]
    by simp
qed

text \<open>
  R22, where a first visit is on record, is compliant exactly when an intimation is on record
  with a strictly earlier calendar date.
\<close>

theorem R22_verdict:
  assumes "AMENDMENT_EFFECTIVE \<le> as_of"
    and "date_of facts ''first_visit_date'' = Inr visit"
    and "opt_fact (date_of facts ''visit_prior_intimation_date'') = Inr intimation"
    and "valid_date visit" "\<And>d. intimation = Some d \<Longrightarrow> valid_date d"
  shows "rr_verdict (R22_evaluate tz facts acct as_of ex) =
    Some (if \<exists>d. intimation = Some d \<and> d < visit then Compliant else Violation)"
proof -
  have "\<not> as_of < AMENDMENT_EFFECTIVE" using assms(1) by simp
  moreover have "1 \<le> days_between visit d \<longleftrightarrow> d < visit" if "intimation = Some d" for d
    using days_between_pos_iff [of visit d] assms(4,5) that by auto
  ultimately show ?thesis
    using assms(2,3) by (auto simp: R22_evaluate_def Let_def MIN_INTIMATION_DAYS_def opt_fact_Inr_iff)
qed

theorem R22_verdict_witness:
  "rr_verdict (R22_evaluate (\<lambda>_. 0)
     (sample_facts [(''first_visit_date'', DateValue (Date 2027 3 1)),
        (''visit_prior_intimation_date'', DateValue (Date 2027 2 28))])
     sample_account (Date 2027 4 1) Map.empty) = Some Compliant"
  (is "rr_verdict (R22_evaluate _ ?facts _ _ _) = _")
proof -
  have "AMENDMENT_EFFECTIVE \<le> Date 2027 4 1" by (simp add: AMENDMENT_EFFECTIVE_def)
  moreover have "valid_date (Date 2027 3 1)" "valid_date (Date 2027 2 28)" by code_simp+
  ultimately show ?thesis
    using R22_verdict [of "Date 2027 4 1" ?facts "Date 2027 3 1" "Some (Date 2027 2 28)"
        "\<lambda>_. 0" sample_account Map.empty]
    by simp
qed

text \<open>
  R20 is a violation exactly when a third party was contacted that is not on record as the
  borrower's guarantor; a contact of unrecorded relationship counts as a violation.
\<close>

theorem R20_verdict:
  assumes "AMENDMENT_EFFECTIVE \<le> as_of"
    and "flag_of facts ''third_party_contacted_flag'' = Inr contacted"
    and "opt_fact (string_of facts ''third_party_relationship'') = Inr relationship"
  shows "rr_verdict (R20_evaluate tz facts acct as_of ex) =
    Some (if contacted \<and> relationship \<noteq> Some ''guarantor'' then Violation else Compliant)"
proof -
  have g: "\<not> as_of < AMENDMENT_EFFECTIVE" using assms(1) by simp
  show ?thesis
  proof (cases "has_fact facts ''third_party_relationship''")
    case True
    then have "\<not> (\<exists>k. string_of facts ''third_party_relationship'' = Inl (MissingFact k))"
      by (auto simp: string_of_def read_key_def get_fact_def has_fact_def fact_value_of_def
          obj_get_def ebind_def split: option.splits sum.splits)
    with assms(3) obtain x where
      "string_of facts ''third_party_relationship'' = Inr x" "relationship = Some x"
      by (auto simp: opt_fact_Inr_iff)
    with True g assms(2) show ?thesis by (simp add: R20_evaluate_def Let_def)
  next
    case False
    then show ?thesis using g assms(2,3)
      by (auto simp: R20_evaluate_def Let_def opt_fact_Inr_iff missing_simps)
  qed
qed

theorem R20_verdict_witness:
  "rr_verdict (R20_evaluate (\<lambda>_. 0)
     (sample_facts [(''third_party_contacted_flag'', BoolValue True),
        (''third_party_relationship'', EnumValue ''guarantor'')])
     sample_account (Date 2027 4 1) Map.empty) = Some Compliant"
  (is "rr_verdict (R20_evaluate _ ?facts _ _ _) = _")
proof -
  have "AMENDMENT_EFFECTIVE \<le> Date 2027 4 1" by (simp add: AMENDMENT_EFFECTIVE_def)
  then show ?thesis
    using R20_verdict [of "Date 2027 4 1" ?facts True "Some ''guarantor''" "\<lambda>_. 0"
        sample_account Map.empty]
    by simp
qed

end
