(* ===== verification/CC_Registry.thy ===== *)
theory CC_Registry
  imports CC_Rules_Lending CC_Rules_Digital CC_Rules_Recovery
begin

text \<open>
  \<open>src/app/rules/registry.py\<close> and \<open>src/app/verdict/severity.py\<close>: the registry as the dict it
  is (an association list in insertion order), registration with its check of the canonical
  path form, dispatch by field, shadow mode, and the static severity map. \<open>shipped_registry\<close>
  is what importing \<open>app.rules\<close> registers (\<open>src/app/rules/__init__.py\<close>).
\<close>

section \<open>Canonical clause paths\<close>

definition is_upper :: "char \<Rightarrow> bool" where
  "is_upper c \<longleftrightarrow> 65 \<le> (of_char c :: nat) \<and> (of_char c :: nat) \<le> 90"

definition is_lower :: "char \<Rightarrow> bool" where
  "is_lower c \<longleftrightarrow> 97 \<le> (of_char c :: nat) \<and> (of_char c :: nat) \<le> 122"

definition is_letter :: "char \<Rightarrow> bool" where
  "is_letter c \<longleftrightarrow> is_upper c \<or> is_lower c"

text \<open>\<open>[A-Za-z0-9-]+\<close>.\<close>

definition is_instrument_seg :: "string \<Rightarrow> bool" where
  "is_instrument_seg s \<longleftrightarrow>
     s \<noteq> [] \<and> list_all (\<lambda>c. is_letter c \<or> is_digit c \<or> c = CHR ''-'') s"

text \<open>\<open>p[0-9]+[A-Za-z]?|annex[A-Za-z]\<close>.\<close>

definition is_para_seg :: "string \<Rightarrow> bool" where
  "is_para_seg s \<longleftrightarrow>
     (let t = drop 1 s; digits = takeWhile is_digit t; r = dropWhile is_digit t in
        take 1 s = ''p'' \<and> digits \<noteq> [] \<and> length r \<le> 1 \<and> list_all is_letter r) \<or>
     (startswith s ''annex'' \<and> length s = 6 \<and> is_letter (s ! 5))"

definition full_canonical :: "string \<Rightarrow> bool" where
  "full_canonical s \<longleftrightarrow>
     (case split_on (CHR ''/'') s of
        a # b # rest \<Rightarrow>
          is_instrument_seg a \<and> is_para_seg b \<and> length rest \<le> 2 \<and> list_all (\<lambda>r. r \<noteq> []) rest
      | _ \<Rightarrow> False)"

text \<open>\<open>CANONICAL_PATH_RE.match(s)\<close>: \<open>$\<close> also matches before a final newline.\<close>

definition canonical_path :: "string \<Rightarrow> bool" where
  "canonical_path s \<longleftrightarrow>
     full_canonical s \<or> (s \<noteq> [] \<and> last s = CHR 0x0A \<and> full_canonical (butlast s))"

section \<open>The registry\<close>

record registration =
  rg_rule :: rule
  rg_shadow_if_unverified :: bool
  rg_severity :: severity

type_synonym registry = "(string \<times> registration) list"

text \<open>
  The decorator: the first path that is not canonical raises \<open>ValueError\<close> and registers
  nothing (the message starts with the rule id; its remaining text is not modelled).
\<close>

definition register :: "bool \<Rightarrow> severity \<Rightarrow> rule \<Rightarrow> registry \<Rightarrow> registry res" where
  "register shadow sev r reg =
     (if list_all canonical_path (clause_paths r)
      then Inr (alist_put (rule_id r)
        \<lparr>rg_rule = r, rg_shadow_if_unverified = shadow, rg_severity = sev\<rparr> reg)
      else Inl (ValueError (rule_id r)))"

definition rules_for_field :: "registry \<Rightarrow> string \<Rightarrow> rule list" where
  "rules_for_field reg k =
     filter (\<lambda>r. k \<in> set (consumes r)) (map (\<lambda>e. rg_rule (snd e)) reg)"

definition get_rule :: "registry \<Rightarrow> string \<Rightarrow> rule res" where
  "get_rule reg i = (case map_of reg i of None \<Rightarrow> Inl (KeyError i) | Some e \<Rightarrow> Inr (rg_rule e))"

definition is_shadow :: "registry \<Rightarrow> string \<Rightarrow> (string \<rightharpoonup> string) \<Rightarrow> bool res" where
  "is_shadow reg i instrument_verification =
     (case map_of reg i of
        None \<Rightarrow> Inl (KeyError i)
      | Some e \<Rightarrow>
          if \<not> rg_shadow_if_unverified e then Inr False
          else Inr (list_ex (\<lambda>p. dict_get instrument_verification (before_slash p) ''unverified''
                       \<noteq> ''rbi_verified'') (clause_paths (rg_rule e))))"

definition clear_registry_for_testing :: "registry \<Rightarrow> registry" where
  "clear_registry_for_testing reg = []"

text \<open>The decorators of the rule modules, in the order \<open>app.rules\<close> imports them.\<close>

definition rule_modules :: "(severity \<times> rule) list" where
  "rule_modules =
     [(Critical, R01), (Critical, R02), (Critical, R02b), (Critical, R03), (Major, R04),
      (Major, R05), (Major, R06), (Major, R07), (Critical, R08), (Critical, R09), (Major, R10),
      (Minor, R11), (Minor, R12), (Major, R13), (Major, R14), (Major, R15), (Major, R16),
      (Major, R17), (Minor, R18), (Major, R19), (Critical, R20), (Major, R21), (Major, R22),
      (Critical, R23), (Major, R24), (Minor, R25), (Minor, R26), (Minor, R27)]"

fun register_all :: "(severity \<times> rule) list \<Rightarrow> registry \<Rightarrow> registry res" where
  "register_all [] reg = Inr reg"
| "register_all ((s, r) # rs) reg = ebind (register True s r reg) (register_all rs)"

definition shipped_registry :: registry where
  "shipped_registry =
     map (\<lambda>(s, r). (rule_id r, \<lparr>rg_rule = r, rg_shadow_if_unverified = True, rg_severity = s\<rparr>))
       rule_modules"

section \<open>Severity\<close>

definition SEVERITY :: "(string \<times> severity) list" where
  "SEVERITY =
     [(''R01_docs_release_30d'', Critical),
      (''R02_docs_release_compensation'', Critical),
      (''R02b_lost_documents'', Critical),
      (''R03_apr_consistency'', Critical),
      (''R04_apr_computation'', Critical),
      (''R05_penal_not_interest'', Major),
      (''R06_no_capitalisation'', Major),
      (''R07_cooling_off_disclosed'', Major),
      (''R08_disbursal_to_borrower'', Critical),
      (''R09_no_pool_account'', Critical),
      (''R10_lsp_fee_borne_by_lender'', Major),
      (''R11_grievance_officer_in_kfs'', Minor),
      (''R12_grievance_escalation_disclosed'', Minor),
      (''R13_offshore_deletion'', Critical),
      (''R14_no_biometric'', Critical),
      (''R15_agent_identity_notified'', Minor),
      (''R16_contact_window'', Major),
      (''R17_microfinance_contact_hours'', Major),
      (''R18_recording_retention'', Minor),
      (''R19_agent_certified'', Major),
      (''R20_no_third_party_contact'', Critical),
      (''R21_no_social_media_disclosure'', Critical),
      (''R22_visit_prior_intimation'', Major),
      (''R23_device_restriction_preconditions'', Critical),
      (''R24_restoration_compensation'', Critical),
      (''R25_grievance_officer_on_recovery_comms'', Minor),
      (''R26_kfs_validity'', Major),
      (''R27_kfs_summary_reproduced'', Minor)]"

definition FIELD_SEVERITY_DEFAULT :: "(string \<times> severity) list" where
  "FIELD_SEVERITY_DEFAULT =
     [(''sanction'', Major), (''collections'', Major), (''closure'', Critical),
      (''servicing'', Minor), (''origination'', Minor), (''disbursement'', Major)]"

text \<open>\<open>if rule_id:\<close> is false for \<open>None\<close> and for the empty string.\<close>

definition severity_for :: "string option \<Rightarrow> string option \<Rightarrow> verdict \<Rightarrow> severity res" where
  "severity_for rid stage v =
     (if v = NoClauseFound then Inr Informational
      else if rid \<noteq> None \<and> rid \<noteq> Some []
      then (case map_of SEVERITY (the rid) of
              Some s \<Rightarrow> Inr s
            | None \<Rightarrow> Inl (UnknownRuleError (the rid)))
      else (case stage of
              None \<Rightarrow> Inl (ValueError ''severity_for requires lifecycle_stage when rule_id is None'')
            | Some st \<Rightarrow> (case map_of FIELD_SEVERITY_DEFAULT st of
                Some s \<Rightarrow> Inr s
              | None \<Rightarrow> Inl (KeyError st))))"

section \<open>What is registered\<close>

lemmas rule_record_defs =
  R01_def R02_def R02b_def R03_def R04_def R05_def R06_def R07_def R08_def R09_def R10_def
  R11_def R12_def R13_def R14_def R15_def R16_def R17_def R18_def R19_def R20_def R21_def
  R22_def R23_def R24_def R25_def R26_def R27_def CLAUSE_PATHS_def

definition rule_ids :: "string list" where
  "rule_ids = map fst SEVERITY"

lemma rule_module_ids: "map (rule_id \<circ> snd) rule_modules = rule_ids"
  by (simp add: rule_modules_def rule_ids_def SEVERITY_def rule_record_defs)

lemma distinct_rule_ids: "distinct rule_ids"
  unfolding rule_ids_def SEVERITY_def by code_simp

lemma registry_keys: "map fst shipped_registry = rule_ids"
  using rule_module_ids by (simp add: shipped_registry_def comp_def case_prod_unfold)

lemma canonical_modules: "list_all (\<lambda>m. list_all canonical_path (clause_paths (snd m))) rule_modules"
proof -
  have "map (clause_paths \<circ> snd) rule_modules =
      [[''RBC2025/p35''], [''RBC2025/p39''], [''RBC2025/p40''], [''KFS2024/annexA/part1/9''],
       [''KFS2024/annexA/part1/9''], [''RBC2025/p30/1''], [''RBC2025/p30/2''], [''DL2025/p10''],
       [''DL2025/p9/i''], [''DL2025/p9/ii''], [''DL2025/p9/iii''], [''DL2025/p11''],
       [''DL2025/p11''], [''DL2025/p13''], [''DL2025/p13''], [''DL2025/p8''],
       [''RBC-AMD2026/p100W''], [''RBC2025/p45''], [''RBC-AMD2026/p100N''],
       [''RBC-AMD2026/p100F''], [''RBC-AMD2026/p100X''], [''RBC-AMD2026/p100X''],
       [''RBC-AMD2026/p100I''],
       [''RBC-AMD2026/p100Q'', ''RBC-AMD2026/p100R'', ''RBC-AMD2026/p100S''],
       [''RBC-AMD2026/p100S''], [''RBC-AMD2026/p100Y''], [''KFS2024/p1''], [''KFS2024/p2'']]"
    (is "_ = ?ps")
    by (simp add: rule_modules_def rule_record_defs)
  moreover have "list_all (list_all canonical_path) ?ps" by code_simp
  ultimately have "list_all (list_all canonical_path) (map (clause_paths \<circ> snd) rule_modules)"
    by simp
  then show ?thesis by (simp add: list_all_iff)
qed

lemma register_all_appends:
  assumes "list_all (\<lambda>m. list_all canonical_path (clause_paths (snd m))) ms"
    and "distinct (map (rule_id \<circ> snd) ms)"
    and "set (map (rule_id \<circ> snd) ms) \<inter> fst ` set reg = {}"
  shows "register_all ms reg = Inr (reg @ map (\<lambda>(s, r).
    (rule_id r, \<lparr>rg_rule = r, rg_shadow_if_unverified = True, rg_severity = s\<rparr>)) ms)"
  using assms
proof (induction ms arbitrary: reg)
  case Nil
  then show ?case by simp
next
  case (Cons m ms)
  obtain s r where m: "m = (s, r)" by (cases m)
  let ?reg' = "reg @ [(rule_id r, \<lparr>rg_rule = r, rg_shadow_if_unverified = True, rg_severity = s\<rparr>)]"
  have "register True s r reg = Inr ?reg'"
    using Cons.prems m by (auto simp: register_def alist_put_new)
  moreover have "set (map (rule_id \<circ> snd) ms) \<inter> fst ` set ?reg' = {}"
    using Cons.prems m by auto
  ultimately show ?case using Cons.IH [of ?reg'] Cons.prems m by simp
qed

lemma modules_are_rules: "m \<in> set rule_modules \<Longrightarrow> clause_rule (snd m)"
  unfolding rule_modules_def
  using r01.clause_rule_axioms r02.clause_rule_axioms r02b.clause_rule_axioms
    r03.clause_rule_axioms r04.clause_rule_axioms r05.clause_rule_axioms
    r06.clause_rule_axioms r07.clause_rule_axioms r08.clause_rule_axioms
    r09.clause_rule_axioms r10.clause_rule_axioms r11.clause_rule_axioms
    r12.clause_rule_axioms r13.clause_rule_axioms r14.clause_rule_axioms
    r15.clause_rule_axioms r16.clause_rule_axioms r17.clause_rule_axioms
    r18.clause_rule_axioms r19.clause_rule_axioms r20.clause_rule_axioms
    r21.clause_rule_axioms r22.clause_rule_axioms r23.clause_rule_axioms
    r24.clause_rule_axioms r25.clause_rule_axioms r26.clause_rule_axioms
    r27.clause_rule_axioms
  by auto

lemma registered_rule:
  assumes "(i, e) \<in> set shipped_registry"
  shows "clause_rule (rg_rule e)" "rule_id (rg_rule e) = i" "rg_shadow_if_unverified e"
    "list_all canonical_path (clause_paths (rg_rule e))"
  using assms modules_are_rules canonical_modules
  by (auto simp: shipped_registry_def list_all_iff)

lemma get_rule_shipped:
  assumes "get_rule shipped_registry i = Inr r"
  obtains e where "(i, e) \<in> set shipped_registry" "r = rg_rule e"
  using assms by (auto simp: get_rule_def split: option.splits dest: map_of_SomeD)

text \<open>A rule for examples.\<close>

lemma get_R12: "get_rule shipped_registry ''R12_grievance_escalation_disclosed'' = Inr R12"
  by (simp add: get_rule_def shipped_registry_def rule_modules_def rule_record_defs)

lemma shadow_R12:
  "is_shadow shipped_registry ''R12_grievance_escalation_disclosed'' iv =
     Inr (dict_get iv ''DL2025'' ''unverified'' \<noteq> ''rbi_verified'')"
  by (simp add: is_shadow_def shipped_registry_def rule_modules_def rule_record_defs before_slash_def)

lemma rules_for_field_iff:
  "r \<in> set (rules_for_field reg k) \<longleftrightarrow> (\<exists>i e. (i, e) \<in> set reg \<and> r = rg_rule e \<and> k \<in> set (consumes r))"
  by (force simp: rules_for_field_def)

lemma rules_for_field_registered:
  assumes "r \<in> set (rules_for_field shipped_registry k)"
  shows "clause_rule r" "map_of shipped_registry (rule_id r) \<noteq> None" "rule_id r \<in> set rule_ids"
proof -
  obtain i e where e: "(i, e) \<in> set shipped_registry" "r = rg_rule e"
    using assms by (auto simp: rules_for_field_iff)
  then show "clause_rule r" using registered_rule by simp
  have i: "i \<in> fst ` set shipped_registry" "rule_id r = i"
    using e registered_rule(2) [OF e(1)] by force+
  then show "map_of shipped_registry (rule_id r) \<noteq> None" by (simp add: map_of_eq_None_iff)
  show "rule_id r \<in> set rule_ids" using i by (simp flip: registry_keys)
qed

lemma severity_of_rule_id:
  assumes "i \<in> set rule_ids"
  obtains s where "map_of SEVERITY i = Some s"
proof -
  have "i \<in> fst ` set SEVERITY" using assms by (simp add: rule_ids_def)
  then have "map_of SEVERITY i \<noteq> None" by (simp add: map_of_eq_None_iff)
  then show ?thesis using that by auto
qed

lemma rule_ids_nonempty: "i \<in> set rule_ids \<Longrightarrow> i \<noteq> []"
  by (auto simp: rule_ids_def SEVERITY_def)

section \<open>Properties\<close>

text \<open>
  Importing the rules package registers all 28 rules, each under its own id and none under
  another's, and raises nothing: every clause path is in canonical form.
\<close>

theorem registry_loads:
  "register_all rule_modules [] = Inr shipped_registry \<and> length shipped_registry = 28 \<and>
   distinct (map fst shipped_registry)"
proof -
  have "register_all rule_modules [] = Inr shipped_registry"
    using register_all_appends [OF canonical_modules, of "[]"] distinct_rule_ids rule_module_ids
    by (simp add: shipped_registry_def)
  moreover have "length shipped_registry = 28" by (simp add: shipped_registry_def rule_modules_def)
  ultimately show ?thesis using distinct_rule_ids registry_keys by simp
qed

text \<open>
  C1: Whatever a registered rule concludes is conclusive, cites decisively and in order exactly the
  clauses the rule declares (at least one), quotes for each the excerpt it was given, and is never
  reached before the rule's commencement date.
\<close>

theorem registered_outcome:
  assumes "get_rule shipped_registry i = Inr r"
    and "evaluate r tz facts acct as_of ex = Inr (Outcome oc)"
  shows "oc_verdict oc \<noteq> NoClauseFound \<and> oc_citations oc = map (cite ex) (clause_paths r) \<and>
    clause_paths r \<noteq> [] \<and> (\<forall>d. valid_from r = Some d \<longrightarrow> d \<le> as_of)"
proof -
  obtain e where e: "(i, e) \<in> set shipped_registry" "r = rg_rule e"
    using assms(1) by (rule get_rule_shipped)
  have cr: "clause_rule r" using registered_rule(1) [OF e(1)] e(2) by simp
  show ?thesis
    using clause_rule.outcome_citations [OF cr assms(2)] clause_rule.basis [OF cr]
      clause_rule.outcome_conclusive [OF cr assms(2)]
      clause_rule.outcome_not_before_commencement [OF cr assms(2)]
    by blast
qed

theorem registered_outcome_witness:
  "clause_paths R12 \<noteq> [] \<and>
   (\<exists>oc. evaluate R12 (\<lambda>_. 0) Map.empty sample_account (Date 2026 1 1) Map.empty = Inr (Outcome oc)
     \<and> oc_citations oc = map (cite Map.empty) (clause_paths R12))"
proof -
  have "get_rule shipped_registry ''R12_grievance_escalation_disclosed'' = Inr R12"
    by (rule get_R12)
  moreover obtain oc where
    "evaluate R12 (\<lambda>_. 0) Map.empty sample_account (Date 2026 1 1) Map.empty = Inr (Outcome oc)"
    by (simp add: R12_def R12_evaluate_def has_fact_def ok_def)
  ultimately show ?thesis using registered_outcome by blast
qed

text \<open>
  Dispatch by field misses no rule: a registered rule whose evaluation changes when the
  fact under one key changes is among \<open>rules_for_field\<close> of that key.
\<close>

theorem dispatch_complete:
  assumes "get_rule shipped_registry i = Inr r"
    and "evaluate r tz (facts(k := x)) acct as_of ex \<noteq> evaluate r tz facts acct as_of ex"
  shows "r \<in> set (rules_for_field shipped_registry k)"
proof -
  obtain e where e: "(i, e) \<in> set shipped_registry" "r = rg_rule e"
    using assms(1) by (rule get_rule_shipped)
  have cr: "clause_rule r" using registered_rule(1) [OF e(1)] e(2) by simp
  have "k \<in> set (consumes r)"
  proof (rule ccontr)
    assume "k \<notin> set (consumes r)"
    then have "evaluate r tz (facts(k := x)) acct as_of ex = evaluate r tz facts acct as_of ex"
      by (intro clause_rule.same_consumed_facts [OF cr]) auto
    with assms(2) show False by simp
  qed
  with e show ?thesis by (auto simp: rules_for_field_iff)
qed

theorem dispatch_complete_witness:
  "R12 \<in> set (rules_for_field shipped_registry ''grievance_mechanism_clause_ref'')"
proof -
  let ?k = "''grievance_mechanism_clause_ref''"
  have "get_rule shipped_registry ''R12_grievance_escalation_disclosed'' = Inr R12"
    by (rule get_R12)
  moreover have "evaluate R12 (\<lambda>_. 0) (Map.empty(?k := Some (stored_fact ?k (StringValue ''c4''))))
      sample_account (Date 2026 1 1) Map.empty \<noteq>
    evaluate R12 (\<lambda>_. 0) Map.empty sample_account (Date 2026 1 1) Map.empty"
    by (simp add: R12_def R12_evaluate_def has_fact_def ok_def)
  ultimately show ?thesis by (rule dispatch_complete)
qed

text \<open>
  The severity map is exhaustive over the registry: for every registered rule, stage and
  verdict \<open>severity_for\<close> returns, \<open>informational\<close> exactly when no clause was found.
\<close>

theorem severity_total:
  assumes "get_rule shipped_registry i = Inr r"
  shows "\<exists>s. severity_for (Some (rule_id r)) stage v = Inr s \<and>
    (s = Informational \<longleftrightarrow> v = NoClauseFound)"
proof -
  obtain e where e: "(i, e) \<in> set shipped_registry" "r = rg_rule e"
    using assms by (rule get_rule_shipped)
  have "i \<in> set rule_ids" using e(1) by (force simp flip: registry_keys)
  then have ids: "rule_id r \<in> set rule_ids" using registered_rule(2) [OF e(1)] e(2) by simp
  obtain s where s: "map_of SEVERITY (rule_id r) = Some s" using ids by (rule severity_of_rule_id)
  have "\<forall>p \<in> set SEVERITY. snd p \<noteq> Informational" by (simp add: SEVERITY_def)
  then have "s \<noteq> Informational" using map_of_SomeD [OF s] by force
  with s rule_ids_nonempty [OF ids] show ?thesis by (simp add: severity_for_def)
qed

theorem severity_total_witness:
  "\<exists>s. severity_for (Some (rule_id R12)) None Violation = Inr s \<and>
     (s = Informational \<longleftrightarrow> Violation = NoClauseFound)"
  by (rule severity_total [OF get_R12])

text \<open>
  A registered rule is in shadow exactly when some instrument behind its clause paths is not
  \<open>rbi_verified\<close>, an instrument that the snapshot does not list included.
\<close>

theorem shadow_iff_unverified:
  assumes "get_rule shipped_registry i = Inr r"
  shows "is_shadow shipped_registry i iv = Inr (\<not> (\<forall>p \<in> set (clause_paths r).
    iv (before_slash p) = Some ''rbi_verified''))"
proof -
  obtain e where m: "map_of shipped_registry i = Some e" and r: "r = rg_rule e"
    using assms by (auto simp: get_rule_def split: option.splits)
  have "rg_shadow_if_unverified e" using registered_rule(3) [OF map_of_SomeD [OF m]] .
  moreover have "dict_get iv (before_slash p) ''unverified'' \<noteq> ''rbi_verified'' \<longleftrightarrow>
      iv (before_slash p) \<noteq> Some ''rbi_verified''" for p
    by (cases "iv (before_slash p)") simp_all
  ultimately show ?thesis using m r by (auto simp: is_shadow_def list_ex_iff)
qed

theorem shadow_iff_unverified_witness:
  "is_shadow shipped_registry ''R23_device_restriction_preconditions''
     [''RBC-AMD2026'' \<mapsto> ''secondary_sourced''] = Inr True"
proof -
  have "get_rule shipped_registry ''R23_device_restriction_preconditions'' = Inr R23"
    by (simp add: get_rule_def shipped_registry_def rule_modules_def rule_record_defs)
  from shadow_iff_unverified [OF this, of "[''RBC-AMD2026'' \<mapsto> ''secondary_sourced'']"]
  show ?thesis by (simp add: R23_def CLAUSE_PATHS_def before_slash_def)
qed

text \<open>The severities given to \<open>@register\<close> that the severity map contradicts.\<close>

lemma register_severity_disagrees:
  "map (rule_id \<circ> snd) (filter (\<lambda>(s, r). map_of SEVERITY (rule_id r) \<noteq> Some s) rule_modules) =
     [''R04_apr_computation'', ''R13_offshore_deletion'', ''R14_no_biometric'',
      ''R15_agent_identity_notified'', ''R21_no_social_media_disclosure'',
      ''R24_restoration_compensation'', ''R26_kfs_validity'']"
  by code_simp

end
