(* ===== verification/CC_Fusion.thy ===== *)
theory CC_Fusion
  imports CC_Domain "HOL-Library.Char_ord" "HOL-Library.List_Lexorder"
    "HOL-Library.Product_Lexorder"
begin

text \<open>
  Reciprocal rank fusion, \<open>src/app/retrieve/fusion.py\<close>. The dicts \<open>scores\<close>, \<open>best_candidate\<close>
  and \<open>best_source\<close> are association lists in insertion order; scores are floats
  (\<open>CC_Float\<close>); the sort is stable and on the key \<open>(-score, source order, path)\<close>.
  (\<open>best_rank\<close> is written and never read, so it is left out.)
\<close>

section \<open>Definitions\<close>

fun SOURCE_ORDER :: "retrieval_source \<Rightarrow> nat" where
  "SOURCE_ORDER Pinned = 0"
| "SOURCE_ORDER Vector = 1"
| "SOURCE_ORDER Lexical = 2"
| "SOURCE_ORDER ReferenceHop = 3"

record rrf_state =
  rs_scores :: "(string \<times> rat) list"
  rs_best :: "(string \<times> (retrieval_source \<times> clause_candidate)) list"

definition rrf_init :: rrf_state where
  "rrf_init = \<lparr>rs_scores = [], rs_best = []\<rparr>"

text \<open>The body of the inner loop.\<close>

definition rrf_step ::
  "int \<Rightarrow> (retrieval_source \<rightharpoonup> rat) \<Rightarrow> retrieval_source \<Rightarrow> clause_candidate \<Rightarrow>
   rrf_state \<Rightarrow> rrf_state res" where
  "rrf_step k weights src c st =
     (let weight = dict_get weights src 1; path = cc_path c; d = k + int (cc_rank c) in
      if d = 0 then Inl ZeroDivisionError
      else
        let contribution = float_div weight (of_int d);
            old = dict_get (map_of (rs_scores st)) path 0;
            better = (case map_of (rs_best st) path of
                        None \<Rightarrow> True
                      | Some (s, _) \<Rightarrow> SOURCE_ORDER src < SOURCE_ORDER s)
        in Inr \<lparr>rs_scores = alist_put path (float_add old contribution) (rs_scores st),
                rs_best = (if better then alist_put path (src, c) (rs_best st)
                           else rs_best st)\<rparr>)"

fun rrf_source ::
  "int \<Rightarrow> (retrieval_source \<rightharpoonup> rat) \<Rightarrow> retrieval_source \<Rightarrow> clause_candidate list \<Rightarrow>
   rrf_state \<Rightarrow> rrf_state res" where
  "rrf_source k weights src [] st = Inr st"
| "rrf_source k weights src (c # cs) st =
     ebind (rrf_step k weights src c st) (rrf_source k weights src cs)"

fun rrf_scan ::
  "int \<Rightarrow> (retrieval_source \<rightharpoonup> rat) \<Rightarrow> (retrieval_source \<times> clause_candidate list) list \<Rightarrow>
   rrf_state \<Rightarrow> rrf_state res" where
  "rrf_scan k weights [] st = Inr st"
| "rrf_scan k weights ((src, cs) # rest) st =
     ebind (rrf_source k weights src cs st) (rrf_scan k weights rest)"

definition score_of :: "rrf_state \<Rightarrow> string \<Rightarrow> rat" where
  "score_of st p = the (map_of (rs_scores st) p)"

definition best_source :: "rrf_state \<Rightarrow> string \<Rightarrow> retrieval_source" where
  "best_source st p = fst (the (map_of (rs_best st) p))"

definition best_candidate :: "rrf_state \<Rightarrow> string \<Rightarrow> clause_candidate" where
  "best_candidate st p = snd (the (map_of (rs_best st) p))"

definition rrf_sort_key :: "rrf_state \<Rightarrow> string \<Rightarrow> rat \<times> nat \<times> string" where
  "rrf_sort_key st p = (- score_of st p, SOURCE_ORDER (best_source st p), p)"

definition ordered_paths :: "rrf_state \<Rightarrow> string list" where
  "ordered_paths st = sort_key (rrf_sort_key st) (map fst (rs_scores st))"

text \<open>The rebuilt candidate: exclusion reason and context note fall back to their defaults.\<close>

definition fused_candidate :: "rrf_state \<Rightarrow> nat \<Rightarrow> string \<Rightarrow> clause_candidate" where
  "fused_candidate st new_rank p =
     (best_candidate st p)\<lparr>cc_rank := new_rank, cc_score := score_of st p,
        cc_exclusion := None, cc_note := None\<rparr>"

definition fuse :: "rrf_state \<Rightarrow> clause_candidate list" where
  "fuse st =
     map (\<lambda>(n, p). fused_candidate st n p) (zip [1..<Suc (length (ordered_paths st))] (ordered_paths st))"

definition rrf ::
  "(retrieval_source \<times> clause_candidate list) list \<Rightarrow> int \<Rightarrow> (retrieval_source \<rightharpoonup> rat) \<Rightarrow>
   clause_candidate list res" where
  "rrf result_lists k weights =
     ebind (rrf_scan k weights result_lists rrf_init) (\<lambda>st. Inr (fuse st))"

section \<open>The scan as one pass over the occurrences\<close>

definition occurrences ::
  "(retrieval_source \<times> clause_candidate list) list \<Rightarrow> (retrieval_source \<times> clause_candidate) list" where
  "occurrences ls = concat (map (\<lambda>(s, cs). map (Pair s) cs) ls)"

fun rrf_run ::
  "int \<Rightarrow> (retrieval_source \<rightharpoonup> rat) \<Rightarrow> (retrieval_source \<times> clause_candidate) list \<Rightarrow>
   rrf_state \<Rightarrow> rrf_state res" where
  "rrf_run k w [] st = Inr st"
| "rrf_run k w ((s, c) # es) st = ebind (rrf_step k w s c st) (rrf_run k w es)"

lemma rrf_run_append: "rrf_run k w (xs @ ys) st = ebind (rrf_run k w xs st) (rrf_run k w ys)"
proof (induction k w xs st rule: rrf_run.induct)
  case (2 k w s c es st)
  then show ?case by (cases "rrf_step k w s c st") auto
qed simp

lemma rrf_source_run: "rrf_source k w s cs st = rrf_run k w (map (Pair s) cs) st"
proof (induction k w s cs st rule: rrf_source.induct)
  case (2 k w s c cs st)
  then show ?case by (cases "rrf_step k w s c st") auto
qed simp

lemma rrf_scan_run: "rrf_scan k w ls st = rrf_run k w (occurrences ls) st"
proof (induction k w ls st rule: rrf_scan.induct)
  case (2 k w s cs rest st)
  then show ?case
    by (cases "rrf_source k w s cs st") (auto simp: occurrences_def rrf_run_append rrf_source_run)
qed (simp add: occurrences_def)

lemma rrf_run_succeeds:
  assumes "\<forall>(s, c) \<in> set es. k + int (cc_rank c) \<noteq> 0"
  shows "\<exists>st'. rrf_run k w es st = Inr st'"
  using assms by (induction k w es st rule: rrf_run.induct) (auto simp: rrf_step_def Let_def)

text \<open>The exact value of the fused score, and how often a path occurs.\<close>

definition exact_score ::
  "int \<Rightarrow> (retrieval_source \<rightharpoonup> rat) \<Rightarrow> (retrieval_source \<times> clause_candidate) list \<Rightarrow> string \<Rightarrow> rat" where
  "exact_score k w es p =
     (\<Sum>(s, c)\<leftarrow>filter (\<lambda>(s, c). cc_path c = p) es. dict_get w s 1 / of_int (k + int (cc_rank c)))"

definition hits :: "(retrieval_source \<times> clause_candidate) list \<Rightarrow> string \<Rightarrow> nat" where
  "hits es p = length (filter (\<lambda>(s, c). cc_path c = p) es)"

definition rrf_inv ::
  "(retrieval_source \<times> clause_candidate) list \<Rightarrow> rrf_state \<Rightarrow> bool" where
  "rrf_inv es st \<longleftrightarrow>
     distinct (map fst (rs_scores st)) \<and>
     set (map fst (rs_scores st)) = (cc_path \<circ> snd) ` set es \<and>
     (\<forall>p. map_of (rs_best st) p = None \<longrightarrow> p \<notin> (cc_path \<circ> snd) ` set es) \<and>
     (\<forall>p s c. map_of (rs_best st) p = Some (s, c) \<longrightarrow>
        (s, c) \<in> set es \<and> cc_path c = p \<and>
        (\<forall>(s', c') \<in> set es. cc_path c' = p \<longrightarrow> SOURCE_ORDER s \<le> SOURCE_ORDER s'))"

lemma rrf_step_inv:
  assumes "rrf_inv es st" "rrf_step k w s c st = Inr st'"
  shows "rrf_inv (es @ [(s, c)]) st'"
proof -
  let ?p = "cc_path c"
  obtain x where sc: "rs_scores st' = alist_put ?p x (rs_scores st)"
    using assms(2) by (auto simp: rrf_step_def Let_def split: if_splits)
  have best: "rs_best st' = (if (case map_of (rs_best st) ?p of None \<Rightarrow> True
                      | Some (s', _) \<Rightarrow> SOURCE_ORDER s < SOURCE_ORDER s')
     then alist_put ?p (s, c) (rs_best st) else rs_best st)"
    using assms(2) by (auto simp: rrf_step_def Let_def split: if_splits)
  have "distinct (map fst (rs_scores st'))"
    using assms(1) by (simp add: sc rrf_inv_def distinct_alist_put)
  moreover have "set (map fst (rs_scores st')) = (cc_path \<circ> snd) ` set (es @ [(s, c)])"
    using assms(1) by (simp add: sc rrf_inv_def set_keys_alist_put)
  moreover have "map_of (rs_best st') p = None \<longrightarrow> p \<notin> (cc_path \<circ> snd) ` set (es @ [(s, c)])" for p
    using assms(1) by (auto simp: best rrf_inv_def map_of_alist_put split: option.splits)
  moreover have "(s1, c1) \<in> set (es @ [(s, c)]) \<and> cc_path c1 = p \<and>
      (\<forall>(s', c') \<in> set (es @ [(s, c)]). cc_path c' = p \<longrightarrow> SOURCE_ORDER s1 \<le> SOURCE_ORDER s')"
    if found: "map_of (rs_best st') p = Some (s1, c1)" for p s1 c1
  proof (cases "map_of (rs_best st) p")
    case None
    then have "p \<notin> (cc_path \<circ> snd) ` set es" using assms(1) by (simp add: rrf_inv_def)
    moreover have "p = ?p" "s1 = s" "c1 = c"
      using found None by (auto simp: best map_of_alist_put split: if_splits option.splits)
    ultimately show ?thesis by force
  next
    case (Some sc0)
    obtain s0 c0 where sc0: "sc0 = (s0, c0)" by (cases sc0)
    have old: "(s0, c0) \<in> set es" "cc_path c0 = p"
      "\<forall>(s', c') \<in> set es. cc_path c' = p \<longrightarrow> SOURCE_ORDER s0 \<le> SOURCE_ORDER s'"
      using assms(1) Some sc0 by (auto simp: rrf_inv_def)
    have "map_of (rs_best st') p =
        (if p = ?p \<and> SOURCE_ORDER s < SOURCE_ORDER s0 then Some (s, c) else Some (s0, c0))"
      using Some sc0 by (cases "p = ?p") (simp_all add: best map_of_alist_put)
    then consider "p = ?p" "SOURCE_ORDER s < SOURCE_ORDER s0" "s1 = s" "c1 = c"
      | "p \<noteq> ?p \<or> SOURCE_ORDER s0 \<le> SOURCE_ORDER s" "s1 = s0" "c1 = c0"
      using found by (cases "p = ?p \<and> SOURCE_ORDER s < SOURCE_ORDER s0") auto
    then show ?thesis
    proof cases
      case 1
      then show ?thesis using old(3) by (force intro: less_imp_le order.strict_trans2)
    next
      case 2
      then show ?thesis using old by auto
    qed
  qed
  ultimately show ?thesis unfolding rrf_inv_def by blast
qed

lemma rrf_run_inv: "rrf_run k w es rrf_init = Inr st \<Longrightarrow> rrf_inv es st"
proof (induction es arbitrary: st rule: rev_induct)
  case Nil
  then show ?case by (auto simp: rrf_inv_def rrf_init_def)
next
  case (snoc e es)
  obtain s c where e: "e = (s, c)" by (cases e)
  from snoc.prems e obtain st1 where "rrf_run k w es rrf_init = Inr st1" "rrf_step k w s c st1 = Inr st"
    by (auto simp: rrf_run_append ebind_Inr_iff)
  then show ?case using snoc.IH rrf_step_inv e by blast
qed

section \<open>Scores against exact arithmetic\<close>

lemma float_accumulate:
  assumes "0 \<le> S" "0 \<le> x" "S * (1 - ulp_half) ^ Suc m \<le> a" "a \<le> S * (1 + ulp_half) ^ Suc m"
  shows "(S + x) * (1 - ulp_half) ^ Suc (Suc m) \<le> float_add a (fl x)"
    "float_add a (fl x) \<le> (S + x) * (1 + ulp_half) ^ Suc (Suc m)"
proof -
  let ?u = ulp_half
  have u: "0 < ?u" "?u < 1" using ulp_half_small by auto
  have a0: "0 \<le> a"
  proof -
    have "0 \<le> S * (1 - ?u) ^ Suc m" using assms(1) u by (intro mult_nonneg_nonneg) auto
    then show ?thesis using assms(3) by linarith
  qed
  have sum0: "0 \<le> a + fl x" using a0 fl_nonneg [OF assms(2)] by simp
  have "x * (1 - ?u) ^ Suc m \<le> x * (1 - ?u)"
    using assms(2) u power_le_one [of "1 - ?u" m]
    by (intro mult_left_mono) (auto intro: mult_left_le)
  with fl_bounds(1) [OF assms(2)] have "x * (1 - ?u) ^ Suc m \<le> fl x" by linarith
  then have "(S + x) * (1 - ?u) ^ Suc m \<le> a + fl x"
    using assms(3) by (simp only: distrib_right add_mono)
  then have "(S + x) * (1 - ?u) ^ Suc m * (1 - ?u) \<le> (a + fl x) * (1 - ?u)"
    using u by (intro mult_right_mono) auto
  with fl_bounds(1) [OF sum0] show "(S + x) * (1 - ?u) ^ Suc (Suc m) \<le> float_add a (fl x)"
    by (simp add: float_add_def mult_ac)
  have "x * (1 + ?u) \<le> x * (1 + ?u) ^ Suc m"
    using assms(2) u one_le_power [of "1 + ?u" m]
    by (intro mult_left_mono) (auto intro: mult_left_le)
  with fl_bounds(2) [OF assms(2)] have "fl x \<le> x * (1 + ?u) ^ Suc m" by linarith
  then have "a + fl x \<le> (S + x) * (1 + ?u) ^ Suc m"
    using assms(4) by (simp only: distrib_right add_mono)
  then have "(a + fl x) * (1 + ?u) \<le> (S + x) * (1 + ?u) ^ Suc m * (1 + ?u)"
    using u by (intro mult_right_mono) auto
  with fl_bounds(2) [OF sum0] show "float_add a (fl x) \<le> (S + x) * (1 + ?u) ^ Suc (Suc m)"
    by (simp add: float_add_def mult_ac)
qed

definition sane_weights :: "int \<Rightarrow> (retrieval_source \<rightharpoonup> rat) \<Rightarrow>
  (retrieval_source \<times> clause_candidate) list \<Rightarrow> bool" where
  "sane_weights k w es \<longleftrightarrow>
     (\<forall>(s, c) \<in> set es. 0 \<le> dict_get w s 1 \<and> 0 < k + int (cc_rank c))"

lemma exact_score_nonneg: "sane_weights k w es \<Longrightarrow> 0 \<le> exact_score k w es p"
  by (induction es) (auto simp: exact_score_def sane_weights_def)

lemma rrf_run_score:
  assumes "sane_weights k w es" "rrf_run k w es rrf_init = Inr st"
  shows "exact_score k w es p * (1 - ulp_half) ^ Suc (hits es p)
      \<le> dict_get (map_of (rs_scores st)) p 0 \<and>
    dict_get (map_of (rs_scores st)) p 0 \<le> exact_score k w es p * (1 + ulp_half) ^ Suc (hits es p)"
  using assms
proof (induction es arbitrary: st rule: rev_induct)
  case Nil
  then show ?case by (auto simp: exact_score_def hits_def rrf_init_def dict_get_def)
next
  case (snoc e es)
  obtain s c where e: "e = (s, c)" by (cases e)
  have sane: "sane_weights k w es" "0 \<le> dict_get w s 1" "0 < k + int (cc_rank c)"
    using snoc.prems(1) e by (auto simp: sane_weights_def)
  from snoc.prems e obtain st1 where
    st1: "rrf_run k w es rrf_init = Inr st1" "rrf_step k w s c st1 = Inr st"
    by (auto simp: rrf_run_append ebind_Inr_iff)
  define x where "x = dict_get w s 1 / of_int (k + int (cc_rank c))"
  have x: "0 \<le> x" using sane by (simp add: x_def)
  have sc: "rs_scores st = alist_put (cc_path c)
      (float_add (dict_get (map_of (rs_scores st1)) (cc_path c) 0) (fl x)) (rs_scores st1)"
    using st1(2) by (auto simp: rrf_step_def Let_def float_div_def x_def split: if_splits)
  note IH = snoc.IH [OF sane(1) st1(1)]
  show ?case
  proof (cases "cc_path c = p")
    case True
    then have "exact_score k w (es @ [e]) p = exact_score k w es p + x" "hits (es @ [e]) p = Suc (hits es p)"
      by (simp_all add: exact_score_def hits_def e x_def)
    moreover have "dict_get (map_of (rs_scores st)) p 0 =
        float_add (dict_get (map_of (rs_scores st1)) p 0) (fl x)"
      using True by (simp add: sc map_of_alist_put)
    ultimately show ?thesis
      using float_accumulate [OF exact_score_nonneg [OF sane(1)] x] IH by metis
  next
    case False
    then show ?thesis
      using IH by (simp add: sc map_of_alist_put exact_score_def hits_def e dict_get_def)
  qed
qed

section \<open>The fused list\<close>

lemma ordered_paths_props:
  assumes "rrf_inv es st"
  shows "distinct (ordered_paths st)" "set (ordered_paths st) = (cc_path \<circ> snd) ` set es"
    "sorted (map (rrf_sort_key st) (ordered_paths st))"
  using assms by (auto simp: ordered_paths_def rrf_inv_def)

lemma best_candidate_props:
  assumes "rrf_inv es st" "p \<in> (cc_path \<circ> snd) ` set es"
  shows "(best_source st p, best_candidate st p) \<in> set es" "cc_path (best_candidate st p) = p"
proof -
  obtain s c where "map_of (rs_best st) p = Some (s, c)"
    using assms by (cases "map_of (rs_best st) p") (auto simp: rrf_inv_def)
  then show "(best_source st p, best_candidate st p) \<in> set es" "cc_path (best_candidate st p) = p"
    using assms(1) by (auto simp: best_source_def best_candidate_def rrf_inv_def)
qed

lemma fuse_nth:
  assumes "n < length (ordered_paths st)"
  shows "fuse st ! n = fused_candidate st (Suc n) (ordered_paths st ! n)"
  using assms by (simp add: fuse_def del: upt_Suc)

lemma length_fuse [simp]: "length (fuse st) = length (ordered_paths st)"
  by (simp add: fuse_def del: upt_Suc)

lemma fuse_paths:
  assumes "rrf_inv es st"
  shows "map cc_path (fuse st) = ordered_paths st"
proof (rule nth_equalityI)
  fix n assume n: "n < length (map cc_path (fuse st))"
  then have "ordered_paths st ! n \<in> (cc_path \<circ> snd) ` set es"
    using ordered_paths_props(2) [OF assms] nth_mem by fastforce
  then have "cc_path (best_candidate st (ordered_paths st ! n)) = ordered_paths st ! n"
    using best_candidate_props(2) [OF assms] by blast
  with n show "map cc_path (fuse st) ! n = ordered_paths st ! n"
    by (simp add: fuse_nth fused_candidate_def)
qed simp

text \<open>A fused candidate is one of the input candidates, re-ranked and re-scored.\<close>

definition same_clause :: "clause_candidate \<Rightarrow> clause_candidate \<Rightarrow> bool" where
  "same_clause a b \<longleftrightarrow>
     cc_id a = cc_id b \<and> cc_path a = cc_path b \<and> cc_instrument a = cc_instrument b \<and>
     cc_from a = cc_from b \<and> cc_to a = cc_to b \<and> cc_citable a = cc_citable b \<and>
     cc_heading a = cc_heading b \<and> cc_text a = cc_text b \<and> cc_source a = cc_source b"

lemma fuse_same_clause:
  assumes "rrf_inv es st" "c \<in> set (fuse st)"
  shows "\<exists>(s, c') \<in> set es. same_clause c c'"
proof -
  obtain n where n: "n < length (ordered_paths st)" "c = fuse st ! n"
    using assms(2) by (auto simp: in_set_conv_nth)
  let ?p = "ordered_paths st ! n"
  have "?p \<in> (cc_path \<circ> snd) ` set es" using ordered_paths_props(2) [OF assms(1)] n(1) nth_mem by fastforce
  from best_candidate_props(1) [OF assms(1) this] n show ?thesis
    by (intro bexI [of _ "(best_source st ?p, best_candidate st ?p)"])
      (auto simp: fuse_nth fused_candidate_def same_clause_def)
qed

lemma rrf_cases:
  assumes "rrf ls k w = Inr out"
  obtains st where "rrf_run k w (occurrences ls) rrf_init = Inr st" "rrf_inv (occurrences ls) st"
    "out = fuse st"
  using assms rrf_run_inv by (auto simp: rrf_def rrf_scan_run ebind_Inr_iff)

lemma rrf_succeeds:
  assumes "\<forall>(s, c) \<in> set (occurrences ls). k + int (cc_rank c) \<noteq> 0"
  obtains st where "rrf ls k w = Inr (fuse st)" "rrf_inv (occurrences ls) st"
  using rrf_run_succeeds [OF assms] rrf_run_inv that
  by (metis (no_types) ebind_simps(1) rrf_def rrf_scan_run)

lemma recorded_score:
  assumes "rrf_inv es st" "r \<in> (cc_path \<circ> snd) ` set es"
  shows "dict_get (map_of (rs_scores st)) r 0 = score_of st r"
  using assms by (cases "map_of (rs_scores st) r")
    (auto simp: score_of_def rrf_inv_def map_of_eq_None_iff)

lemma sort_key_less_position:
  assumes "sorted (map f xs)" "distinct xs" "a \<in> set xs" "b \<in> set xs" "f a < f b"
  obtains i j where "i < j" "j < length xs" "xs ! i = a" "xs ! j = b"
proof -
  obtain i j where ij: "i < length xs" "xs ! i = a" "j < length xs" "xs ! j = b"
    using assms(3,4) by (auto simp: in_set_conv_nth)
  have "i < j"
  proof (rule ccontr)
    assume "\<not> i < j"
    then have "f (xs ! j) \<le> f (xs ! i)" using assms(1) ij sorted_nth_mono [of "map f xs" j i] by simp
    with ij assms(5) show False by simp
  qed
  with ij that show ?thesis by blast
qed

section \<open>Properties\<close>

definition sample_candidate :: "string \<Rightarrow> retrieval_source \<Rightarrow> nat \<Rightarrow> clause_candidate" where
  "sample_candidate p src r =
     \<lparr>cc_id = 1, cc_path = p, cc_instrument = before_slash p, cc_from = None, cc_to = None,
      cc_citable = True, cc_heading = None, cc_text = p, cc_source = src, cc_rank = r,
      cc_score = 0, cc_exclusion = None, cc_note = None\<rparr>"

definition sample_lists :: "(retrieval_source \<times> clause_candidate list) list" where
  "sample_lists =
     [(Pinned, [sample_candidate ''A/p1'' Pinned 1]),
      (Vector, [sample_candidate ''B/p2'' Vector 1]),
      (Lexical, [sample_candidate ''B/p2'' Lexical 1]), (ReferenceHop, [])]"

definition sample_weights :: "retrieval_source \<rightharpoonup> rat" where
  "sample_weights = [Pinned \<mapsto> 5 / 2, Vector \<mapsto> 1, Lexical \<mapsto> 1, ReferenceHop \<mapsto> 1]"

text \<open>
  Fusion neither loses nor invents nor repeats a clause: the fused list has each path of
  the input lists exactly once, ranks 1 to n in order, and every entry is one of the input
  candidates with only rank, score and annotations changed. It fails only for a rank \<open>-k\<close>.
\<close>

theorem rrf_union:
  assumes "\<forall>(s, c) \<in> set (occurrences ls). k + int (cc_rank c) \<noteq> 0"
  shows "\<exists>out. rrf ls k w = Inr out \<and> distinct (map cc_path out) \<and>
    set (map cc_path out) = (\<Union>(s, cs) \<in> set ls. cc_path ` set cs) \<and>
    map cc_rank out = [1..<Suc (length out)] \<and>
    (\<forall>c \<in> set out. \<exists>(s, cs) \<in> set ls. \<exists>c' \<in> set cs. same_clause c c')"
proof -
  obtain st where st: "rrf ls k w = Inr (fuse st)" and inv: "rrf_inv (occurrences ls) st"
    using assms by (rule rrf_succeeds)
  have paths: "(cc_path \<circ> snd) ` set (occurrences ls) = (\<Union>(s, cs) \<in> set ls. cc_path ` set cs)"
    by (force simp: occurrences_def)
  have ranks: "map cc_rank (fuse st) = [1..<Suc (length (fuse st))]"
    by (rule nth_equalityI) (simp_all add: fuse_nth fused_candidate_def del: upt_Suc)
  have "\<exists>(s, cs) \<in> set ls. \<exists>c' \<in> set cs. same_clause c c'" if "c \<in> set (fuse st)" for c
    using fuse_same_clause [OF inv that] by (fastforce simp: occurrences_def)
  moreover have "distinct (map cc_path (fuse st))"
    "set (map cc_path (fuse st)) = (\<Union>(s, cs) \<in> set ls. cc_path ` set cs)"
    using ordered_paths_props(1,2) [OF inv] paths by (simp_all only: fuse_paths [OF inv])
  ultimately show ?thesis using st ranks by (intro exI [of _ "fuse st"] conjI ballI)
qed

theorem rrf_union_witness:
  "\<exists>out. rrf sample_lists 60 sample_weights = Inr out \<and> distinct (map cc_path out)"
proof -
  have "\<forall>(s, c) \<in> set (occurrences sample_lists). 60 + int (cc_rank c) \<noteq> 0" by auto
  from rrf_union [OF this] show ?thesis by blast
qed

text \<open>
  C7: The score of a fused clause is the reciprocal-rank sum
  \<open>\<Sum> weight / (k + rank)\<close> over the lists it occurs in, up to a relative error of one rounding per
  operation, for non-negative weights and positive denominators.
\<close>

theorem rrf_score:
  assumes "sane_weights k w (occurrences ls)" "rrf ls k w = Inr out" "c \<in> set out"
  defines "S \<equiv> exact_score k w (occurrences ls) (cc_path c)"
    and "m \<equiv> Suc (hits (occurrences ls) (cc_path c))"
  shows "S * (1 - 1 / 2 ^ 53) ^ m \<le> cc_score c \<and> cc_score c \<le> S * (1 + 1 / 2 ^ 53) ^ m"
proof -
  obtain st where st: "rrf_run k w (occurrences ls) rrf_init = Inr st"
      "rrf_inv (occurrences ls) st" "out = fuse st"
    using assms(2) by (rule rrf_cases)
  obtain n where n: "n < length (ordered_paths st)" "c = fuse st ! n"
    using assms(3) st(3) by (auto simp: in_set_conv_nth)
  let ?p = "ordered_paths st ! n"
  have "?p \<in> set (ordered_paths st)" using n(1) by (rule nth_mem)
  then have p: "?p \<in> (cc_path \<circ> snd) ` set (occurrences ls)"
    using ordered_paths_props(2) [OF st(2)] by simp
  have "cc_path c = ?p" using fuse_paths [OF st(2)] n by (metis length_fuse nth_map)
  moreover have "cc_score c = score_of st ?p" using n by (simp add: fuse_nth fused_candidate_def)
  ultimately show ?thesis
    using rrf_run_score [OF assms(1) st(1), of ?p] recorded_score [OF st(2) p]
    by (simp add: S_def m_def ulp_half_def)
qed

theorem rrf_score_witness:
  "\<exists>out. rrf sample_lists 60 sample_weights = Inr out \<and> (\<forall>c \<in> set out. cc_score c \<le>
     exact_score 60 sample_weights (occurrences sample_lists) (cc_path c) *
       (1 + 1 / 2 ^ 53) ^ Suc (hits (occurrences sample_lists) (cc_path c)))"
proof -
  have sane: "sane_weights 60 sample_weights (occurrences sample_lists)"
    by (simp add: sane_weights_def occurrences_def sample_lists_def sample_weights_def dict_get_def)
  have "\<forall>(s, c) \<in> set (occurrences sample_lists). 60 + int (cc_rank c) \<noteq> 0" by auto
  then obtain st where "rrf sample_lists 60 sample_weights = Inr (fuse st)" by (rule rrf_succeeds)
  then show ?thesis using rrf_score [OF sane] by blast
qed

lemma sum_list_bound:
  "(\<And>x. x \<in> set xs \<Longrightarrow> f x \<le> (b::rat)) \<Longrightarrow> sum_list (map f xs) \<le> of_nat (length xs) * b"
  by (induction xs) (auto simp: algebra_simps intro: add_mono)

lemma found_score_upper:
  assumes "sane_weights 60 w es" "rrf_run 60 w es rrf_init = Inr st"
    and "dict_get w Vector 1 = 1" "dict_get w Lexical 1 = 1"
    and "\<forall>(s, c) \<in> set es. cc_path c = q \<longrightarrow> s \<in> {Vector, Lexical} \<and> 1 \<le> cc_rank c" "hits es q \<le> 2"
  shows "dict_get (map_of (rs_scores st)) q 0 \<le> 2 / 61 * (1 + ulp_half) ^ 3"
proof -
  let ?f = "\<lambda>(s, c). dict_get w s 1 / of_int (60 + int (cc_rank c))"
  have one: "1 / (60 + of_nat n) \<le> (1 / 61 :: rat)" if "1 \<le> n" for n
    using that by (simp add: field_simps)
  have "exact_score 60 w es q \<le> of_nat (hits es q) * (1 / 61)"
    unfolding exact_score_def hits_def
    using assms(3-5) one by (intro sum_list_bound) auto
  also have "\<dots> \<le> 2 / 61" using assms(6) by simp
  finally have e: "exact_score 60 w es q \<le> 2 / 61" .
  have "dict_get (map_of (rs_scores st)) q 0 \<le> exact_score 60 w es q * (1 + ulp_half) ^ Suc (hits es q)"
    using rrf_run_score [OF assms(1,2)] by simp
  also have "\<dots> \<le> 2 / 61 * (1 + ulp_half) ^ 3"
    using e assms(6) ulp_half_small exact_score_nonneg [OF assms(1)]
    by (intro mult_mono power_increasing) auto
  finally show ?thesis .
qed

lemma pinned_score_lower:
  assumes "sane_weights 60 w es" "rrf_run 60 w es rrf_init = Inr st"
    and "dict_get w Pinned 1 = 5 / 2" "(Pinned, cp) \<in> set es" "cc_rank cp = 1"
    and "hits es (cc_path cp) \<le> 4"
  shows "5 / 2 / 61 * (1 - ulp_half) ^ 5 \<le> dict_get (map_of (rs_scores st)) (cc_path cp) 0"
proof -
  let ?f = "\<lambda>(s, c). dict_get w s 1 / of_int (60 + int (cc_rank c))" and ?p = "cc_path cp"
  let ?es = "filter (\<lambda>(s, c). cc_path c = ?p) es"
  have "?f (Pinned, cp) \<le> exact_score 60 w es ?p"
    unfolding exact_score_def
    using assms(1,4) by (intro member_le_sum_list) (auto simp: sane_weights_def)
  then have "5 / 2 / 61 \<le> exact_score 60 w es ?p" using assms(3,5) by simp
  then have "5 / 2 / 61 * (1 - ulp_half) ^ 5 \<le> exact_score 60 w es ?p * (1 - ulp_half) ^ Suc (hits es ?p)"
    using assms(6) ulp_half_small exact_score_nonneg [OF assms(1)]
    by (intro mult_mono power_decreasing) auto
  also have "\<dots> \<le> dict_get (map_of (rs_scores st)) ?p 0"
    using rrf_run_score [OF assms(1,2)] by simp
  finally show ?thesis .
qed



end
