(* ===== verification/CC_Retrieve.thy ===== *)
theory CC_Retrieve
  imports CC_Fusion
begin

text \<open>
  Retrieval, \<open>src/app/retrieve/\<close>: the applicability predicates as the SQL fragments state them
  (\<open>applicability.py\<close>), the pinned, vector and lexical sources, the reference hop, the
  context-only re-query and \<open>retrieve_candidates\<close> (\<open>service.py\<close>, \<open>vector.py\<close>, \<open>lexical.py\<close>,
  \<open>expand_parent_to_descendants\<close> of \<open>corpus/pinning.py\<close>).

  The tables \<open>clause\<close>, \<open>regulation_instrument\<close> and \<open>clause_reference\<close> are lists of rows; a query
  without \<open>ORDER BY\<close> returns its rows in table order. PostgreSQL's index scan and text search
  are parameters (record \<open>engine\<close>): the order in which the HNSW index yields rows for a
  query vector and its distances, the text-search match and rank. The pins of
  \<open>pinning.yaml\<close> and the lexical query string are arguments.
\<close>

section \<open>The corpus tables\<close>

record instrument =
  in_id :: uuid
  in_snapshot :: uuid
  in_code :: string
  in_from :: "date option"
  in_to :: "date option"
  in_status :: instrument_status
  in_entity_types :: "string list"
  in_citable :: bool
  in_verification :: string

record clause_row =
  cl_id :: uuid
  cl_snapshot :: uuid
  cl_instrument_id :: uuid
  cl_instrument_code :: string
  cl_path :: string
  cl_heading :: "string option"
  cl_text :: string
  cl_from :: "date option"
  cl_to :: "date option"
  cl_citable :: bool
  cl_borrower_classes :: "string list"
  cl_embedded :: bool

record reference_row =
  rf_snapshot :: uuid
  rf_from_clause :: uuid
  rf_to_instrument :: string
  rf_kind :: string

record corpus =
  co_clauses :: "clause_row list"
  co_instruments :: "instrument list"
  co_references :: "reference_row list"

text \<open>The bind parameters that every applicability query takes.\<close>

record scope =
  sc_snapshot :: uuid
  sc_entity_type :: string
  sc_borrower_class :: string
  sc_as_of :: date

text \<open>\<open>FROM clause c JOIN regulation_instrument i ON i.id = c.instrument_id\<close>.\<close>

definition clause_join :: "corpus \<Rightarrow> (clause_row \<times> instrument) list" where
  "clause_join co =
     concat (map (\<lambda>c. map (Pair c) (filter (\<lambda>i. in_id i = cl_instrument_id c) (co_instruments co)))
       (co_clauses co))"

section \<open>Applicability\<close>

definition in_window :: "date option \<Rightarrow> date option \<Rightarrow> date \<Rightarrow> bool" where
  "in_window f t d \<longleftrightarrow>
     (case f of None \<Rightarrow> True | Some x \<Rightarrow> x \<le> d) \<and> (case t of None \<Rightarrow> True | Some x \<Rightarrow> d < x)"

definition borrower_ok :: "scope \<Rightarrow> clause_row \<Rightarrow> bool" where
  "borrower_ok sc c \<longleftrightarrow>
     cl_borrower_classes c = [] \<or> sc_borrower_class sc \<in> set (cl_borrower_classes c)"

text \<open>\<open>CONTEXT_ONLY_SQL_NO_DATES\<close>.\<close>

definition context_no_dates :: "scope \<Rightarrow> clause_row \<Rightarrow> instrument \<Rightarrow> bool" where
  "context_no_dates sc c i \<longleftrightarrow>
     cl_snapshot c = sc_snapshot sc \<and> cl_citable c \<and> in_citable i \<and>
     sc_entity_type sc \<in> set (in_entity_types i) \<and> in_status i \<noteq> StatusDraft"

text \<open>\<open>APPLICABILITY_SQL\<close>.\<close>

definition applicable :: "scope \<Rightarrow> clause_row \<Rightarrow> instrument \<Rightarrow> bool" where
  "applicable sc c i \<longleftrightarrow>
     cl_snapshot c = sc_snapshot sc \<and> cl_citable c \<and> in_citable i \<and>
     sc_entity_type sc \<in> set (in_entity_types i) \<and> borrower_ok sc c \<and>
     in_window (cl_from c) (cl_to c) (sc_as_of sc) \<and>
     in_window (in_from i) (in_to i) (sc_as_of sc) \<and> in_status i \<noteq> StatusDraft"

text \<open>\<open>CONTEXT_ONLY_BORROWER_SCOPE_SQL\<close>.\<close>

definition context_borrower_scope :: "scope \<Rightarrow> clause_row \<Rightarrow> instrument \<Rightarrow> bool" where
  "context_borrower_scope sc c i \<longleftrightarrow>
     cl_snapshot c = sc_snapshot sc \<and> cl_citable c \<and> in_citable i \<and>
     sc_entity_type sc \<in> set (in_entity_types i) \<and> \<not> borrower_ok sc c \<and>
     in_window (cl_from c) (cl_to c) (sc_as_of sc) \<and>
     in_window (in_from i) (in_to i) (sc_as_of sc) \<and> in_status i \<noteq> StatusDraft"

definition require_as_of :: "date option \<Rightarrow> date res" where
  "require_as_of d =
     (case d of
        None \<Rightarrow> Inl (ApplicabilityError ''retrieval requires an explicit as_of date'')
      | Some x \<Rightarrow> Inr x)"

section \<open>Sources\<close>

definition mk_candidate :: "retrieval_source \<Rightarrow> nat \<Rightarrow> rat \<Rightarrow> clause_row \<Rightarrow> clause_candidate" where
  "mk_candidate src rank score c =
     \<lparr>cc_id = cl_id c, cc_path = cl_path c, cc_instrument = cl_instrument_code c,
      cc_from = cl_from c, cc_to = cl_to c, cc_citable = cl_citable c,
      cc_heading = cl_heading c, cc_text = cl_text c, cc_source = src, cc_rank = rank,
      cc_score = score, cc_exclusion = None, cc_note = None\<rparr>"

text \<open>\<open>enumerate(xs, start=1)\<close>.\<close>

definition enumerate1 :: "'a list \<Rightarrow> (nat \<times> 'a) list" where
  "enumerate1 xs = zip [1..<Suc (length xs)] xs"

text \<open>\<open>list(dict.fromkeys(xs))\<close>: the first occurrence of each element.\<close>

fun dedupe :: "'a list \<Rightarrow> 'a list" where
  "dedupe [] = []"
| "dedupe (x # xs) = x # dedupe (filter (\<lambda>y. y \<noteq> x) xs)"

definition expand_parent_to_descendants :: "string \<Rightarrow> string list \<Rightarrow> string list" where
  "expand_parent_to_descendants p all_paths =
     p # filter (\<lambda>q. startswith q (p @ ''/'')) all_paths"

type_synonym pins = "string \<rightharpoonup> string list"

definition expanded_pins :: "corpus \<Rightarrow> scope \<Rightarrow> pins \<Rightarrow> string \<Rightarrow> string list" where
  "expanded_pins co sc pins k =
     (let all_paths = map cl_path (filter (\<lambda>c. cl_snapshot c = sc_snapshot sc) (co_clauses co))
      in dedupe (concat (map (\<lambda>p. expand_parent_to_descendants p all_paths) (dict_get pins k []))))"

text \<open>The rows of the pinned lookup, and the dict built from them.\<close>

definition pinned_rows :: "pins \<Rightarrow> string \<Rightarrow> corpus \<Rightarrow> scope \<Rightarrow> clause_row list" where
  "pinned_rows pins k co sc =
     map fst (filter (\<lambda>(c, i). applicable sc c i \<and> cl_path c \<in> set (expanded_pins co sc pins k))
       (clause_join co))"

definition pinned_by_path :: "pins \<Rightarrow> string \<Rightarrow> corpus \<Rightarrow> scope \<Rightarrow> string \<rightharpoonup> clause_row" where
  "pinned_by_path pins k co sc = map_of (rev (map (\<lambda>r. (cl_path r, r)) (pinned_rows pins k co sc)))"

definition pinned_candidates ::
  "pins \<Rightarrow> string \<Rightarrow> corpus \<Rightarrow> scope \<Rightarrow> clause_candidate list \<times> string list" where
  "pinned_candidates pins k co sc =
     (if dict_get pins k [] = [] then ([], [])
      else
        let expanded = expanded_pins co sc pins k;
            candidates = concat (map (\<lambda>(rank, path).
              case pinned_by_path pins k co sc path of None \<Rightarrow> [] | Some r \<Rightarrow> [mk_candidate Pinned rank 0 r])
              (enumerate1 expanded))
        in (candidates, expanded))"

text \<open>
  What PostgreSQL decides: the rows an HNSW scan yields for a query vector and \<open>ef_search\<close>, in
  order, with \<open>1 - distance\<close>; the text-search match of a row and its rank.
\<close>

record 'v engine =
  eng_hnsw :: "'v \<Rightarrow> nat \<Rightarrow> (clause_row \<times> instrument) list \<Rightarrow> (clause_row \<times> instrument) list"
  eng_similarity :: "'v \<Rightarrow> clause_row \<Rightarrow> rat"
  eng_ts_match :: "string \<Rightarrow> clause_row \<Rightarrow> bool"
  eng_ts_rank :: "string \<Rightarrow> clause_row \<Rightarrow> rat"

definition ann_search ::
  "'v engine \<Rightarrow> 'v \<Rightarrow> nat \<Rightarrow> nat \<Rightarrow> corpus \<Rightarrow> scope \<Rightarrow> clause_candidate list" where
  "ann_search eng qvec k ef co sc =
     (let rows = take k (filter (\<lambda>(c, i). cl_embedded c \<and> applicable sc c i)
        (eng_hnsw eng qvec ef (clause_join co)))
      in map (\<lambda>(rank, (c, i)). mk_candidate Vector rank (eng_similarity eng qvec c) c)
        (enumerate1 rows))"

definition fts_search ::
  "'v engine \<Rightarrow> string \<Rightarrow> nat \<Rightarrow> corpus \<Rightarrow> scope \<Rightarrow> clause_candidate list" where
  "fts_search eng q k co sc =
     (let rows = take k (sort_key (\<lambda>(c, i). - eng_ts_rank eng q c)
        (filter (\<lambda>(c, i). applicable sc c i \<and> eng_ts_match eng q c) (clause_join co)))
      in map (\<lambda>(rank, (c, i)). mk_candidate Lexical rank (eng_ts_rank eng q c) c)
        (enumerate1 rows))"

text \<open>The WHERE clause of \<open>_HOP_CANDIDATES_SQL\<close>.\<close>

definition hop_target :: "scope \<Rightarrow> string \<Rightarrow> clause_row \<Rightarrow> instrument \<Rightarrow> bool" where
  "hop_target sc code c i \<longleftrightarrow>
     cl_snapshot c = sc_snapshot sc \<and> cl_instrument_code c = code \<and>
     cl_citable c \<and> in_citable i \<and> in_status i \<noteq> StatusDraft"

definition reference_hop_candidates ::
  "corpus \<Rightarrow> scope \<Rightarrow> uuid list \<Rightarrow> int \<Rightarrow> clause_candidate list" where
  "reference_hop_candidates co sc seeds hops =
     (if hops < 1 \<or> seeds = [] then []
      else
        let edges = filter (\<lambda>e. rf_snapshot e = sc_snapshot sc \<and> rf_from_clause e \<in> set seeds \<and>
              rf_kind e = ''incorporates'') (co_references co);
            rows = concat (map (\<lambda>e. filter (\<lambda>(c, i). hop_target sc (rf_to_instrument e) c i)
              (clause_join co)) edges)
        in map (\<lambda>(rank, (c, i)). mk_candidate ReferenceHop rank 0 c) (enumerate1 rows))"

section \<open>Context-only clauses\<close>

definition temporal_reason :: "date \<Rightarrow> clause_row \<Rightarrow> exclusion_reason" where
  "temporal_reason d c =
     (if (case cl_from c of None \<Rightarrow> False | Some f \<Rightarrow> d < f) then NotYetInForce else Superseded)"

definition temporal_note :: "date \<Rightarrow> clause_row \<Rightarrow> string" where
  "temporal_note d c =
     (case cl_from c of
        Some f \<Rightarrow>
          if d < f
          then ''Not yet in force on '' @ date_isoformat d @ ''; commences '' @ date_isoformat f @ ''.''
          else (case cl_to c of
              Some t \<Rightarrow> if t \<le> d then ''Superseded as of '' @ date_isoformat t @ '', before ''
                          @ date_isoformat d @ ''.''
                        else ''Not in force on '' @ date_isoformat d
            | None \<Rightarrow> ''Not in force on '' @ date_isoformat d)
      | None \<Rightarrow> (case cl_to c of
              Some t \<Rightarrow> if t \<le> d then ''Superseded as of '' @ date_isoformat t @ '', before ''
                          @ date_isoformat d @ ''.''
                        else ''Not in force on '' @ date_isoformat d
            | None \<Rightarrow> ''Not in force on '' @ date_isoformat d))"

definition context_entry :: "exclusion_reason \<Rightarrow> string \<Rightarrow> clause_row \<Rightarrow> clause_candidate" where
  "context_entry why note c =
     (mk_candidate Pinned 0 0 c)\<lparr>cc_exclusion := Some why, cc_note := Some note\<rparr>"

definition scope_note :: "scope \<Rightarrow> string" where
  "scope_note sc =
     ''Scoped to a different borrower class than '' @ [CHR 0x27] @ sc_borrower_class sc
       @ [CHR 0x27] @ ''.''"

definition context_only_candidates ::
  "corpus \<Rightarrow> scope \<Rightarrow> string set \<Rightarrow> clause_candidate list" where
  "context_only_candidates co sc seed_paths =
     (if seed_paths = {} then []
      else
        let temporal = filter (\<lambda>(c, i). context_no_dates sc c i \<and> cl_path c \<in> seed_paths)
              (clause_join co);
            scoped = filter (\<lambda>(c, i). context_borrower_scope sc c i \<and> cl_path c \<in> seed_paths)
              (clause_join co)
        in map (\<lambda>(c, i). context_entry (temporal_reason (sc_as_of sc) c)
               (temporal_note (sc_as_of sc) c) c)
             (filter (\<lambda>(c, i). \<not> in_window (cl_from c) (cl_to c) (sc_as_of sc)) temporal)
           @ map (\<lambda>(c, i). context_entry BorrowerScope (scope_note sc) c) scoped)"

section \<open>retrieve\_candidates\<close>

record settings =
  st_vector_k :: nat
  st_lexical_k :: nat
  st_final_k :: nat
  st_rrf_k :: int
  st_weight_pinned :: rat
  st_weight_vector :: rat
  st_weight_lexical :: rat
  st_hops :: int
  st_ef_search :: nat

definition default_settings :: settings where
  "default_settings =
     \<lparr>st_vector_k = 12, st_lexical_k = 12, st_final_k = 8, st_rrf_k = 60,
      st_weight_pinned = 5 / 2, st_weight_vector = 1, st_weight_lexical = 1,
      st_hops = 1, st_ef_search = 120\<rparr>"

definition source_weights :: "settings \<Rightarrow> (retrieval_source \<rightharpoonup> rat)" where
  "source_weights st =
     [Pinned \<mapsto> st_weight_pinned st, Vector \<mapsto> st_weight_vector st,
      Lexical \<mapsto> st_weight_lexical st, ReferenceHop \<mapsto> 1]"

definition result_lists ::
  "'v engine \<Rightarrow> settings \<Rightarrow> pins \<Rightarrow> corpus \<Rightarrow> scope \<Rightarrow> string \<Rightarrow> string \<Rightarrow> 'v option \<Rightarrow>
   (retrieval_source \<times> clause_candidate list) list" where
  "result_lists eng st pins co sc k lexical_query qvec =
     (let pinned = fst (pinned_candidates pins k co sc);
          vector_results = (case qvec of
              None \<Rightarrow> []
            | Some v \<Rightarrow> ann_search eng v (st_vector_k st) (st_ef_search st) co sc);
          lexical_results = fts_search eng lexical_query (st_lexical_k st) co sc;
          seed_ids = map cc_id (pinned @ vector_results)
      in [(Pinned, pinned), (Vector, vector_results), (Lexical, lexical_results),
          (ReferenceHop, reference_hop_candidates co sc seed_ids (st_hops st))])"

definition retrieve_candidates ::
  "'v engine \<Rightarrow> settings \<Rightarrow> pins \<Rightarrow> corpus \<Rightarrow> uuid \<Rightarrow> string \<Rightarrow> string \<Rightarrow> date option \<Rightarrow> string \<Rightarrow>
   string \<Rightarrow> 'v option \<Rightarrow> candidate_set res" where
  "retrieve_candidates eng st pins co snapshot entity borrower as_of k lexical_query qvec =
     ebind (require_as_of as_of) (\<lambda>d.
       let sc = \<lparr>sc_snapshot = snapshot, sc_entity_type = entity, sc_borrower_class = borrower,
                 sc_as_of = d\<rparr>;
           ls = result_lists eng st pins co sc k lexical_query qvec;
           vector_paths = (case qvec of
               None \<Rightarrow> []
             | Some v \<Rightarrow> map cc_path (ann_search eng v (st_vector_k st) (st_ef_search st) co sc));
           seed_paths = set (snd (pinned_candidates pins k co sc)) \<union> set vector_paths
       in ebind (rrf ls (st_rrf_k st) (source_weights st)) (\<lambda>fused.
            Inr \<lparr>cs_as_of = d, cs_entity_type = entity, cs_borrower_class = borrower,
                 cs_candidates = take (st_final_k st) fused,
                 cs_context_only = context_only_candidates co sc seed_paths,
                 cs_snapshot_id = snapshot\<rparr>))"

section \<open>The contract of a source\<close>

text \<open>
  A retrieval source only offers clauses that the applicability filter lets through, under its
  own name and with ranks from 1. The pinned, vector and lexical sources keep it; the reference
  hop does not, and is no instance.
\<close>

locale candidate_source =
  fixes src :: "corpus \<Rightarrow> scope \<Rightarrow> clause_candidate list" and kind :: retrieval_source
  assumes offers: "c \<in> set (src co sc) \<Longrightarrow>
    \<exists>r i n s. applicable sc r i \<and> c = mk_candidate kind n s r"
    and ranks: "c \<in> set (src co sc) \<Longrightarrow> 1 \<le> cc_rank c"
begin

lemma offers_citable: "c \<in> set (src co sc) \<Longrightarrow> cc_citable c"
  using offers [of c co sc] by (auto simp: applicable_def mk_candidate_def)

lemma offers_in_force:
  "c \<in> set (src co sc) \<Longrightarrow> in_window (cc_from c) (cc_to c) (sc_as_of sc)"
  using offers [of c co sc] by (auto simp: applicable_def mk_candidate_def)

end

lemma enumerate1_iff: "(n, x) \<in> set (enumerate1 xs) \<longleftrightarrow> 1 \<le> n \<and> n \<le> length xs \<and> x = xs ! (n - 1)"
proof
  assume "(n, x) \<in> set (enumerate1 xs)"
  then obtain j where "j < length xs" "n = Suc j" "x = xs ! j"
    by (auto simp: enumerate1_def in_set_conv_nth simp del: upt_Suc)
  then show "1 \<le> n \<and> n \<le> length xs \<and> x = xs ! (n - 1)" by simp
next
  assume "1 \<le> n \<and> n \<le> length xs \<and> x = xs ! (n - 1)"
  then show "(n, x) \<in> set (enumerate1 xs)"
    unfolding enumerate1_def in_set_conv_nth
    by (intro exI [of _ "n - 1"]) (auto simp del: upt_Suc)
qed

lemma enumerate1_in: "(n, x) \<in> set (enumerate1 xs) \<Longrightarrow> 1 \<le> n \<and> x \<in> set xs"
  by (auto simp: enumerate1_iff)

lemma in_enumerate1:
  assumes "x \<in> set xs"
  obtains n where "(n, x) \<in> set (enumerate1 xs)"
proof -
  obtain j where "j < length xs" "x = xs ! j" using assms by (auto simp: in_set_conv_nth)
  then have "(Suc j, x) \<in> set (enumerate1 xs)" by (simp add: enumerate1_iff)
  then show ?thesis by (rule that)
qed

lemma clause_join_iff:
  "(c, i) \<in> set (clause_join co) \<longleftrightarrow>
     c \<in> set (co_clauses co) \<and> i \<in> set (co_instruments co) \<and> in_id i = cl_instrument_id c"
  by (auto simp: clause_join_def)

lemma pinned_by_path_Some:
  "pinned_by_path pins k co sc p = Some r \<Longrightarrow> r \<in> set (pinned_rows pins k co sc) \<and> cl_path r = p"
  by (auto simp: pinned_by_path_def dest!: map_of_SomeD)

lemma pinned_by_path_None:
  "pinned_by_path pins k co sc p = None \<longleftrightarrow> p \<notin> cl_path ` set (pinned_rows pins k co sc)"
  by (auto simp: pinned_by_path_def map_of_eq_None_iff image_image)

lemma pinned_rows_iff:
  "r \<in> set (pinned_rows pins k co sc) \<longleftrightarrow>
     (\<exists>i. (r, i) \<in> set (clause_join co) \<and> applicable sc r i) \<and>
     cl_path r \<in> set (expanded_pins co sc pins k)"
  by (force simp: pinned_rows_def)

lemma lookup_comprehension:
  "c \<in> set (concat (map (\<lambda>(n, p). case f p of None \<Rightarrow> [] | Some r \<Rightarrow> [g n r]) xs)) \<longleftrightarrow>
     (\<exists>n p r. (n, p) \<in> set xs \<and> f p = Some r \<and> c = g n r)"
proof
  let ?h = "\<lambda>(n, p). case f p of None \<Rightarrow> [] | Some r \<Rightarrow> [g n r]"
  assume "c \<in> set (concat (map ?h xs))"
  then obtain x where x: "x \<in> set xs" "c \<in> set (?h x)"
    unfolding set_concat set_map by blast
  obtain n p where "x = (n, p)" by (cases x)
  with x show "\<exists>n p r. (n, p) \<in> set xs \<and> f p = Some r \<and> c = g n r"
    by (cases "f p") auto
next
  assume "\<exists>n p r. (n, p) \<in> set xs \<and> f p = Some r \<and> c = g n r"
  then obtain n p r where "(n, p) \<in> set xs" "f p = Some r" "c = g n r" by blast
  then show "c \<in> set (concat (map (\<lambda>(n, p). case f p of None \<Rightarrow> [] | Some r \<Rightarrow> [g n r]) xs))"
    unfolding set_concat set_map by (intro UnionI [of "{g n r}"] image_eqI [of _ set "[g n r]"]
        image_eqI [of _ _ "(n, p)"]) auto
qed

lemma pinned_candidates_iff:
  assumes "dict_get pins k [] \<noteq> []"
  shows "c \<in> set (fst (pinned_candidates pins k co sc)) \<longleftrightarrow>
    (\<exists>n p r. (n, p) \<in> set (enumerate1 (expanded_pins co sc pins k)) \<and>
       pinned_by_path pins k co sc p = Some r \<and> c = mk_candidate Pinned n 0 r)"
  using assms by (simp add: pinned_candidates_def Let_def lookup_comprehension del: set_concat)

lemma pinned_candidate_row:
  assumes "c \<in> set (fst (pinned_candidates pins k co sc))"
  obtains r i n where "(r, i) \<in> set (clause_join co)" "applicable sc r i" "1 \<le> n"
    "c = mk_candidate Pinned n 0 r"
proof -
  have "dict_get pins k [] \<noteq> []" using assms by (auto simp: pinned_candidates_def)
  with assms obtain n p r where r: "(n, p) \<in> set (enumerate1 (expanded_pins co sc pins k))"
      "pinned_by_path pins k co sc p = Some r" "c = mk_candidate Pinned n 0 r"
    by (auto simp: pinned_candidates_iff)
  obtain i where "(r, i) \<in> set (clause_join co)" "applicable sc r i"
    using pinned_by_path_Some [OF r(2)] by (auto simp: pinned_rows_iff)
  with r enumerate1_in [OF r(1)] show ?thesis by (intro that) auto
qed

interpretation pinned: candidate_source
  "\<lambda>co sc. fst (pinned_candidates pins k co sc)" Pinned for pins k
proof
  fix c co sc
  assume "c \<in> set (fst (pinned_candidates pins k co sc))"
  then obtain r i n where "applicable sc r i" "1 \<le> n" "c = mk_candidate Pinned n 0 r"
    by (rule pinned_candidate_row)
  then show "\<exists>r i n s. applicable sc r i \<and> c = mk_candidate Pinned n s r" "1 \<le> cc_rank c"
    by (auto simp: mk_candidate_def)
qed

interpretation ann: candidate_source "ann_search eng qvec k ef" Vector for eng qvec k ef
proof
  fix c co sc
  assume "c \<in> set (ann_search eng qvec k ef co sc)"
  then show "\<exists>r i n s. applicable sc r i \<and> c = mk_candidate Vector n s r" "1 \<le> cc_rank c"
    by (force simp: ann_search_def Let_def mk_candidate_def dest!: enumerate1_in in_set_takeD)+
qed

interpretation fts: candidate_source "fts_search eng q k" Lexical for eng q k
proof
  fix c co sc
  assume "c \<in> set (fts_search eng q k co sc)"
  then show "\<exists>r i n s. applicable sc r i \<and> c = mk_candidate Lexical n s r" "1 \<le> cc_rank c"
    by (force simp: fts_search_def Let_def mk_candidate_def dest!: enumerate1_in in_set_takeD)+
qed

section \<open>What retrieval offers\<close>

lemma hop_candidate_row:
  assumes "c \<in> set (reference_hop_candidates co sc seeds hops)"
  shows "\<exists>r i n. (r, i) \<in> set (clause_join co) \<and> cl_snapshot r = sc_snapshot sc \<and> cl_citable r \<and>
    in_citable i \<and> in_status i \<noteq> StatusDraft \<and> 1 \<le> n \<and> c = mk_candidate ReferenceHop n 0 r"
  using assms
  by (fastforce simp: reference_hop_candidates_def Let_def hop_target_def split: if_splits
      dest!: enumerate1_in)

lemma listed_candidate:
  assumes "(s, cs) \<in> set (result_lists eng st pins co sc k q qvec)" "c \<in> set cs"
  shows "cc_source c = s \<and> 1 \<le> cc_rank c \<and>
    (s \<noteq> ReferenceHop \<longrightarrow> (\<exists>r i n x. applicable sc r i \<and> c = mk_candidate s n x r))"
proof -
  have hop: "cc_source c = ReferenceHop \<and> 1 \<le> cc_rank c"
    if "c \<in> set (reference_hop_candidates co sc seeds hops)" for seeds hops
    using hop_candidate_row [OF that] by (auto simp: mk_candidate_def)
  have src: "cc_source c = s" if "c = mk_candidate s n x r" for n x r
    using that by (simp add: mk_candidate_def)
  consider "s = Pinned" "c \<in> set (fst (pinned_candidates pins k co sc))"
    | v where "s = Vector" "c \<in> set (ann_search eng v (st_vector_k st) (st_ef_search st) co sc)"
    | "s = Lexical" "c \<in> set (fts_search eng q (st_lexical_k st) co sc)"
    | seeds where "s = ReferenceHop" "c \<in> set (reference_hop_candidates co sc seeds (st_hops st))"
    using assms by (auto simp: result_lists_def Let_def split: option.splits)
  then show ?thesis
    by cases (use src pinned.offers pinned.ranks ann.offers ann.ranks fts.offers fts.ranks hop in metis)+
qed

lemma result_lists_run:
  assumes "0 \<le> st_rrf_k st"
  shows "\<exists>fused. rrf (result_lists eng st pins co sc k q qvec) (st_rrf_k st) w = Inr fused"
proof -
  have "\<forall>(s, c) \<in> set (occurrences (result_lists eng st pins co sc k q qvec)).
      st_rrf_k st + int (cc_rank c) \<noteq> 0"
    using assms listed_candidate [of _ _ eng st pins co sc k q qvec]
    by (fastforce simp: occurrences_def)
  then show ?thesis using rrf_succeeds by metis
qed

lemma fused_candidate_listed:
  assumes "rrf ls k w = Inr fused" "c \<in> set fused"
  obtains s cs c' where "(s, cs) \<in> set ls" "c' \<in> set cs" "same_clause c c'"
proof -
  obtain st where "rrf_inv (occurrences ls) st" "fused = fuse st"
    using assms(1) by (rule rrf_cases)
  then show ?thesis
    using fuse_same_clause [of "occurrences ls" st c] assms(2) that by (auto simp: occurrences_def)
qed

lemma retrieve_unfold:
  assumes "retrieve_candidates eng st pins co snapshot entity borrower as_of k q qvec = Inr cs"
  defines "sc d \<equiv> \<lparr>sc_snapshot = snapshot, sc_entity_type = entity, sc_borrower_class = borrower,
    sc_as_of = d\<rparr>"
  obtains d fused seeds where "as_of = Some d"
    "rrf (result_lists eng st pins co (sc d) k q qvec) (st_rrf_k st) (source_weights st) = Inr fused"
    "cs_candidates cs = take (st_final_k st) fused"
    "cs_context_only cs = context_only_candidates co (sc d) seeds"
    "set (snd (pinned_candidates pins k co (sc d))) \<subseteq> seeds"
    "cs_as_of cs = d"
  using assms(1)
  by (auto simp: retrieve_candidates_def require_as_of_def Let_def ebind_Inr_iff sc_def
      intro: that split: option.splits)

lemma context_only_row:
  assumes "e \<in> set (context_only_candidates co sc seeds)"
  obtains r i where "(r, i) \<in> set (clause_join co)" "context_no_dates sc r i"
    "cc_id e = cl_id r" "cc_path e = cl_path r" "cc_text e = cl_text r"
    "\<not> in_window (cl_from r) (cl_to r) (sc_as_of sc) \<and>
       cc_exclusion e = Some (temporal_reason (sc_as_of sc) r) \<or>
     context_borrower_scope sc r i \<and> cc_exclusion e = Some BorrowerScope"
proof -
  have "context_no_dates sc r i" if "context_borrower_scope sc r i" for r i
    using that by (simp add: context_no_dates_def context_borrower_scope_def)
  note scoped = this
  have "(\<exists>r i. (r, i) \<in> set (clause_join co) \<and> context_no_dates sc r i \<and>
        \<not> in_window (cl_from r) (cl_to r) (sc_as_of sc) \<and>
        e = context_entry (temporal_reason (sc_as_of sc) r) (temporal_note (sc_as_of sc) r) r) \<or>
      (\<exists>r i. (r, i) \<in> set (clause_join co) \<and> context_borrower_scope sc r i \<and>
        e = context_entry BorrowerScope (scope_note sc) r)"
    using assms by (auto simp: context_only_candidates_def Let_def split: if_splits)
  then consider (temporal) r i nt where "(r, i) \<in> set (clause_join co)" "context_no_dates sc r i"
      "\<not> in_window (cl_from r) (cl_to r) (sc_as_of sc)"
      "e = context_entry (temporal_reason (sc_as_of sc) r) nt r"
    | (borrower) r i nt where "(r, i) \<in> set (clause_join co)" "context_borrower_scope sc r i"
      "e = context_entry BorrowerScope nt r"
    by blast
  then show ?thesis
  proof cases
    case temporal
    then show ?thesis by (intro that [of r i]) (simp_all add: context_entry_def mk_candidate_def)
  next
    case borrower
    then show ?thesis
      by (intro that [of r i]) (simp_all add: context_entry_def mk_candidate_def scoped)
  qed
qed

lemma context_only_lists:
  assumes "(r, i) \<in> set (clause_join co)" "context_no_dates sc r i" "cl_path r \<in> seeds"
    and "\<not> in_window (cl_from r) (cl_to r) (sc_as_of sc) \<or> context_borrower_scope sc r i"
  shows "\<exists>e \<in> set (context_only_candidates co sc seeds). cc_path e = cl_path r"
  using assms(4)
proof
  assume "\<not> in_window (cl_from r) (cl_to r) (sc_as_of sc)"
  with assms(1-3) have "context_entry (temporal_reason (sc_as_of sc) r) (temporal_note (sc_as_of sc) r) r
      \<in> set (context_only_candidates co sc seeds)"
    by (auto simp: context_only_candidates_def Let_def intro!: image_eqI [of _ _ "(r, i)"])
  then show ?thesis by (rule bexI [rotated]) (simp add: context_entry_def mk_candidate_def)
next
  assume "context_borrower_scope sc r i"
  with assms(1,3) have "context_entry BorrowerScope (scope_note sc) r
      \<in> set (context_only_candidates co sc seeds)"
    by (auto simp: context_only_candidates_def Let_def intro!: image_eqI [of _ _ "(r, i)"])
  then show ?thesis by (rule bexI [rotated]) (simp add: context_entry_def mk_candidate_def)
qed

lemma temporal_reason_cases:
  assumes "\<not> in_window (cl_from r) (cl_to r) d"
  shows "temporal_reason d r = NotYetInForce \<and> (\<exists>f. cl_from r = Some f \<and> d < f) \<or>
    temporal_reason d r = Superseded \<and> (\<exists>t. cl_to r = Some t \<and> t \<le> d)"
  using assms by (auto simp: in_window_def temporal_reason_def split: option.splits)

section \<open>Properties\<close>

text \<open>
  A corpus of three clauses: a general clause that incorporates an instrument not yet in force,
  a clause for microfinance borrowers, and a clause of the instrument not yet in force. Searching
  finds nothing beyond the pins.
\<close>

definition sample_instrument :: "uuid \<Rightarrow> string \<Rightarrow> date \<Rightarrow> instrument" where
  "sample_instrument i code d =
     \<lparr>in_id = i, in_snapshot = 1, in_code = code, in_from = Some d, in_to = None,
      in_status = InForce, in_entity_types = [''nbfc''], in_citable = True,
      in_verification = ''rbi_verified''\<rparr>"

definition sample_row :: "uuid \<Rightarrow> uuid \<Rightarrow> string \<Rightarrow> string list \<Rightarrow> date \<Rightarrow> clause_row" where
  "sample_row i inst p classes d =
     \<lparr>cl_id = i, cl_snapshot = 1, cl_instrument_id = inst, cl_instrument_code = before_slash p,
      cl_path = p, cl_heading = None, cl_text = p, cl_from = Some d, cl_to = None,
      cl_citable = True, cl_borrower_classes = classes, cl_embedded = False\<rparr>"

definition sample_corpus :: corpus where
  "sample_corpus =
     \<lparr>co_clauses =
        [sample_row 11 1 ''RBC2025/p1'' [] (Date 2025 11 28),
         sample_row 12 1 ''RBC2025/p45'' [''microfinance''] (Date 2025 11 28),
         sample_row 13 2 ''AMD/p1'' [] (Date 2027 1 1)],
      co_instruments =
        [sample_instrument 1 ''RBC2025'' (Date 2025 11 28),
         sample_instrument 2 ''AMD'' (Date 2027 1 1)],
      co_references =
        [\<lparr>rf_snapshot = 1, rf_from_clause = 11, rf_to_instrument = ''AMD'',
          rf_kind = ''incorporates''\<rparr>]\<rparr>"

definition sample_engine :: "unit engine" where
  "sample_engine =
     \<lparr>eng_hnsw = (\<lambda>_ _ rows. rows), eng_similarity = (\<lambda>_ _. 0),
      eng_ts_match = (\<lambda>_ _. False), eng_ts_rank = (\<lambda>_ _. 0)\<rparr>"

definition sample_pins :: pins where
  "sample_pins = [''contact_datetime'' \<mapsto> [''RBC2025/p1'', ''RBC2025/p45'', ''AMD/p1'']]"

definition sample_scope :: scope where
  "sample_scope = \<lparr>sc_snapshot = 1, sc_entity_type = ''nbfc'', sc_borrower_class = ''general'',
     sc_as_of = Date 2026 1 1\<rparr>"

definition sample_retrieval :: "candidate_set res" where
  "sample_retrieval =
     retrieve_candidates sample_engine default_settings sample_pins sample_corpus 1 ''nbfc''
       ''general'' (Some (Date 2026 1 1)) ''contact_datetime'' ''q'' None"

definition sample_pinned_hit :: clause_candidate where
  "sample_pinned_hit = mk_candidate Pinned 1 0 (sample_row 11 1 ''RBC2025/p1'' [] (Date 2025 11 28))"

definition sample_hop_hit :: clause_candidate where
  "sample_hop_hit = mk_candidate ReferenceHop 1 0 (sample_row 13 2 ''AMD/p1'' [] (Date 2027 1 1))"

lemma sample_pinned:
  "pinned_candidates sample_pins ''contact_datetime'' sample_corpus sample_scope =
     ([sample_pinned_hit], [''RBC2025/p1'', ''RBC2025/p45'', ''AMD/p1''])"
  by code_simp

lemma sample_hop:
  "reference_hop_candidates sample_corpus sample_scope [11] 1 = [sample_hop_hit]"
  by code_simp

lemma sample_context:
  "map (\<lambda>e. (cc_path e, cc_exclusion e)) (context_only_candidates sample_corpus sample_scope
     {''RBC2025/p1'', ''RBC2025/p45'', ''AMD/p1''}) =
   [(''AMD/p1'', Some NotYetInForce), (''RBC2025/p45'', Some BorrowerScope)]"
  by code_simp

lemma sample_hits:
  "cc_path sample_pinned_hit = ''RBC2025/p1''" "cc_source sample_pinned_hit = Pinned"
  "cc_path sample_hop_hit = ''AMD/p1''" "cc_from sample_hop_hit = Some (Date 2027 1 1)"
  "cc_id sample_pinned_hit = 11" "cc_rank sample_pinned_hit = 1" "cc_rank sample_hop_hit = 1"
  by (simp_all add: sample_pinned_hit_def sample_hop_hit_def mk_candidate_def sample_row_def)

lemma sample_result_lists:
  "result_lists sample_engine default_settings sample_pins sample_corpus sample_scope
     ''contact_datetime'' ''q'' None =
   [(Pinned, [sample_pinned_hit]), (Vector, []), (Lexical, []), (ReferenceHop, [sample_hop_hit])]"
proof -
  have "fts_search sample_engine ''q'' n sample_corpus sample_scope = []" for n
    by (simp add: fts_search_def sample_engine_def enumerate1_def case_prod_unfold)
  then show ?thesis
    by (simp add: result_lists_def Let_def sample_pinned sample_hits sample_hop default_settings_def)
qed

lemma sample_retrieval_cases:
  obtains cs a b e where "sample_retrieval = Inr cs" "cs_as_of cs = Date 2026 1 1"
    "a \<in> set (cs_candidates cs)" "cc_source a \<noteq> ReferenceHop"
    "b \<in> set (cs_candidates cs)" "cc_from b = Some (Date 2027 1 1)"
    "e \<in> set (cs_context_only cs)"
proof -
  let ?ls = "result_lists sample_engine default_settings sample_pins sample_corpus sample_scope
     ''contact_datetime'' ''q'' None"
  let ?w = "source_weights default_settings"
  have "\<forall>(s, c) \<in> set (occurrences ?ls). 60 + int (cc_rank c) \<noteq> 0" by auto
  then obtain st where st: "rrf ?ls 60 ?w = Inr (fuse st)" "rrf_inv (occurrences ?ls) st"
    by (rule rrf_succeeds)
  have paths: "distinct (map cc_path (fuse st))"
    "set (map cc_path (fuse st)) = {''RBC2025/p1'', ''AMD/p1''}"
    using ordered_paths_props(1,2) [OF st(2)]
    by (auto simp: fuse_paths [OF st(2)] sample_result_lists occurrences_def sample_hits)
  then have "length (fuse st) = 2" using distinct_card [OF paths(1)] by simp
  then have all: "take (st_final_k default_settings) (fuse st) = fuse st"
    by (simp add: default_settings_def)
  have hit: "\<exists>c \<in> set (fuse st). cc_path c = p" if "p \<in> {''RBC2025/p1'', ''AMD/p1''}" for p
    using that unfolding paths(2) [symmetric] by auto
  obtain a where a: "a \<in> set (fuse st)" "cc_path a = ''RBC2025/p1''" using hit by blast
  obtain b where b: "b \<in> set (fuse st)" "cc_path b = ''AMD/p1''" using hit by blast
  have "same_clause a sample_pinned_hit" "same_clause b sample_hop_hit"
    using fuse_same_clause [OF st(2) a(1)] fuse_same_clause [OF st(2) b(1)] a(2) b(2)
    by (auto simp: sample_result_lists occurrences_def same_clause_def sample_hits)
  then have ab: "cc_source a \<noteq> ReferenceHop" "cc_from b = Some (Date 2027 1 1)"
    by (simp_all add: same_clause_def sample_hits)
  let ?ctx = "context_only_candidates sample_corpus sample_scope
     {''RBC2025/p1'', ''RBC2025/p45'', ''AMD/p1''}"
  obtain e where e: "e \<in> set ?ctx" using sample_context by (cases ?ctx) auto
  have "sample_retrieval = Inr \<lparr>cs_as_of = Date 2026 1 1, cs_entity_type = ''nbfc'',
      cs_borrower_class = ''general'', cs_candidates = fuse st, cs_context_only = ?ctx,
      cs_snapshot_id = 1\<rparr>"
    using st(1) all sample_pinned
    by (simp add: sample_retrieval_def retrieve_candidates_def require_as_of_def Let_def
        sample_scope_def insert_commute default_settings_def)
  from that [OF this] show ?thesis using a(1) b(1) ab e by simp
qed



text \<open>
  Context-only clauses: each is a citable clause of a citable instrument that is no draft,
  it is not applicable, and the reason given is the true one: it commences after the date, it
  ended on or before the date, or all but its borrower class applies.
\<close>

theorem context_only_excluded:
  assumes "retrieve_candidates eng st pins co snapshot entity borrower (Some d) k q qvec = Inr cs"
    and "e \<in> set (cs_context_only cs)"
  defines "sc \<equiv> \<lparr>sc_snapshot = snapshot, sc_entity_type = entity, sc_borrower_class = borrower,
    sc_as_of = d\<rparr>"
  shows "\<exists>r i. (r, i) \<in> set (clause_join co) \<and> cc_path e = cl_path r \<and> cc_text e = cl_text r \<and>
    cl_citable r \<and> in_citable i \<and> in_status i \<noteq> StatusDraft \<and> \<not> applicable sc r i \<and>
    (cc_exclusion e = Some NotYetInForce \<and> (\<exists>f. cl_from r = Some f \<and> d < f) \<or>
     cc_exclusion e = Some Superseded \<and> (\<exists>t. cl_to r = Some t \<and> t \<le> d) \<or>
     cc_exclusion e = Some BorrowerScope \<and> \<not> borrower_ok sc r \<and>
       applicable sc (r\<lparr>cl_borrower_classes := []\<rparr>) i)"
proof -
  obtain seeds where "cs_context_only cs = context_only_candidates co sc seeds"
    using assms(1) by (rule retrieve_unfold) (simp add: sc_def)
  then obtain r i where ri: "(r, i) \<in> set (clause_join co)" "context_no_dates sc r i"
      "cc_path e = cl_path r" "cc_text e = cl_text r"
      "\<not> in_window (cl_from r) (cl_to r) d \<and> cc_exclusion e = Some (temporal_reason d r) \<or>
       context_borrower_scope sc r i \<and> cc_exclusion e = Some BorrowerScope"
    using assms(2) context_only_row [of e co sc seeds] by (metis scope.select_convs(4) sc_def)
  have out: "\<not> applicable sc r i"
    using ri(5) by (auto simp: applicable_def context_borrower_scope_def sc_def)
  show ?thesis
    using ri out temporal_reason_cases [of r d]
    by (intro exI [of _ r] exI [of _ i])
      (auto simp: context_no_dates_def context_borrower_scope_def applicable_def borrower_ok_def)
qed

theorem context_only_excluded_witness:
  "\<exists>cs e r i. sample_retrieval = Inr cs \<and> e \<in> set (cs_context_only cs) \<and>
     (r, i) \<in> set (clause_join sample_corpus) \<and> cc_path e = cl_path r \<and>
     \<not> applicable \<lparr>sc_snapshot = 1, sc_entity_type = ''nbfc'', sc_borrower_class = ''general'',
       sc_as_of = Date 2026 1 1\<rparr> r i"
proof -
  obtain cs e where "sample_retrieval = Inr cs" "e \<in> set (cs_context_only cs)"
    by (rule sample_retrieval_cases)
  with context_only_excluded [OF this(1) [unfolded sample_retrieval_def]] show ?thesis by blast
qed

text \<open>
  C11: A pinned clause is not silently dropped: a clause under a pinned path that would be citable
  for the entity, with its instrument in force, is either applicable and among the pinned
  candidates or listed as context.
\<close>

theorem pinned_clause_surfaces:
  assumes "retrieve_candidates eng st pins co snapshot entity borrower (Some d) k q qvec = Inr cs"
  defines "sc \<equiv> \<lparr>sc_snapshot = snapshot, sc_entity_type = entity, sc_borrower_class = borrower,
    sc_as_of = d\<rparr>"
  assumes "(r, i) \<in> set (clause_join co)" "cl_path r \<in> set (expanded_pins co sc pins k)"
    and "context_no_dates sc r i" "in_window (in_from i) (in_to i) d"
  shows "cl_path r \<in> cc_path ` set (fst (pinned_candidates pins k co sc)) \<or>
    cl_path r \<in> cc_path ` set (cs_context_only cs)"
proof -
  have pins: "dict_get pins k [] \<noteq> []" using assms(4) by (auto simp: expanded_pins_def)
  obtain d' fused seeds where "Some d = Some d'"
      "cs_context_only cs = context_only_candidates co \<lparr>sc_snapshot = snapshot,
         sc_entity_type = entity, sc_borrower_class = borrower, sc_as_of = d'\<rparr> seeds"
      "set (snd (pinned_candidates pins k co \<lparr>sc_snapshot = snapshot,
         sc_entity_type = entity, sc_borrower_class = borrower, sc_as_of = d'\<rparr>)) \<subseteq> seeds"
    using assms(1) by (rule retrieve_unfold)
  then have ctx: "cs_context_only cs = context_only_candidates co sc seeds"
    and seeds: "set (snd (pinned_candidates pins k co sc)) \<subseteq> seeds" by (simp_all add: sc_def)
  have seed: "cl_path r \<in> seeds"
    using seeds assms(4) pins by (auto simp: pinned_candidates_def Let_def)
  show ?thesis
  proof (cases "applicable sc r i")
    case True
    then have "r \<in> set (pinned_rows pins k co sc)" using assms(3,4) by (auto simp: pinned_rows_iff)
    then obtain r' where r': "pinned_by_path pins k co sc (cl_path r) = Some r'"
      using pinned_by_path_None by fastforce
    obtain n where "(n, cl_path r) \<in> set (enumerate1 (expanded_pins co sc pins k))"
      using assms(4) by (rule in_enumerate1)
    with r' have "mk_candidate Pinned n 0 r' \<in> set (fst (pinned_candidates pins k co sc))"
      using pinned_candidates_iff [OF pins] by blast
    moreover have "cc_path (mk_candidate Pinned n 0 r') = cl_path r"
      using pinned_by_path_Some [OF r'] by (simp add: mk_candidate_def)
    ultimately show ?thesis by (metis imageI)
  next
    case False
    then have "\<not> in_window (cl_from r) (cl_to r) d \<or> context_borrower_scope sc r i"
      using assms(5,6) by (auto simp: applicable_def context_no_dates_def
          context_borrower_scope_def sc_def)
    then obtain e where "e \<in> set (context_only_candidates co sc seeds)" "cc_path e = cl_path r"
      using context_only_lists [OF assms(3,5) seed] by (auto simp: sc_def)
    then show ?thesis by (metis ctx imageI)
  qed
qed

theorem pinned_clause_surfaces_witness:
  "\<exists>cs. sample_retrieval = Inr cs \<and>
     (''RBC2025/p45'' \<in> cc_path ` set (fst (pinned_candidates sample_pins ''contact_datetime''
        sample_corpus \<lparr>sc_snapshot = 1, sc_entity_type = ''nbfc'',
          sc_borrower_class = ''general'', sc_as_of = Date 2026 1 1\<rparr>)) \<or>
      ''RBC2025/p45'' \<in> cc_path ` set (cs_context_only cs))"
proof -
  let ?r = "sample_row 12 1 ''RBC2025/p45'' [''microfinance''] (Date 2025 11 28)"
  let ?i = "sample_instrument 1 ''RBC2025'' (Date 2025 11 28)"
  let ?sc = "\<lparr>sc_snapshot = 1, sc_entity_type = ''nbfc'', sc_borrower_class = ''general'',
    sc_as_of = Date 2026 1 1\<rparr>"
  obtain cs where cs: "sample_retrieval = Inr cs" by (rule sample_retrieval_cases)
  have "(?r, ?i) \<in> set (clause_join sample_corpus)"
    by (simp add: clause_join_iff sample_corpus_def sample_row_def sample_instrument_def)
  moreover have "cl_path ?r \<in> set (expanded_pins sample_corpus ?sc sample_pins ''contact_datetime'')"
    "context_no_dates ?sc ?r ?i" "in_window (in_from ?i) (in_to ?i) (Date 2026 1 1)"
    by code_simp+
  ultimately show ?thesis
    using pinned_clause_surfaces [OF cs [unfolded sample_retrieval_def], of ?r ?i] cs
    by (intro exI [of _ cs]) (simp add: sample_row_def)
qed

text \<open>The hop offers, as a candidate, a clause that is not in force.\<close>

lemma hop_offers_clause_not_in_force:
  "\<exists>cs c f. sample_retrieval = Inr cs \<and> c \<in> set (cs_candidates cs) \<and> cc_from c = Some f \<and>
     cs_as_of cs < f"
proof -
  obtain cs b where "sample_retrieval = Inr cs" "cs_as_of cs = Date 2026 1 1"
      "b \<in> set (cs_candidates cs)" "cc_from b = Some (Date 2027 1 1)"
    by (rule sample_retrieval_cases)
  then show ?thesis by (intro exI [of _ cs] exI [of _ b] exI [of _ "Date 2027 1 1"]) simp
qed

end
