(* ===== verification/CC_Validator.thy ===== *)
theory CC_Validator
  imports CC_Domain "HOL-Library.Multiset"
begin

text \<open>
  The citation validator, \<open>src/app/verdict/validator.py\<close>: what it makes of every citation of a
  draft (\<open>check_citation\<close>, the body of the loop), the loop, and the outcome. The theorems say
  what a verdict that passes is worth: no conclusive verdict without a decisive citation of
  an offered, citable clause in force, quoted literally.
\<close>

section \<open>Definitions\<close>

definition CONCLUSIVE :: "verdict set" where
  "CONCLUSIVE = {Compliant, Violation, Ambiguous}"

definition normalise_ws :: "string \<Rightarrow> string" where
  "normalise_ws s = strip_spaces (ws_collapse s)"

definition is_literal_substring :: "string \<Rightarrow> string \<Rightarrow> bool" where
  "is_literal_substring excerpt clause_text \<longleftrightarrow>
     (if excerpt = [] then False
      else contains (normalise_ws excerpt) (normalise_ws clause_text))"

record validation_outcome =
  vo_verdict :: verdict
  vo_citations :: "citation list"
  vo_downgraded :: bool
  vo_reason :: "string option"
  vo_rejected :: "(citation \<times> citation_reject_reason) list"

definition as_context :: "citation list \<Rightarrow> citation list" where
  "as_context cs = map (\<lambda>c. c\<lparr>cit_role := ContextOnly\<rparr>) cs"

text \<open>The body of the loop over \<open>draft.citations\<close>: \<open>None\<close> keeps the citation.\<close>

definition check_citation ::
  "candidate_set \<Rightarrow> date \<Rightarrow> citation \<Rightarrow> citation_reject_reason option" where
  "check_citation cs as_of cit =
     (if cit_role cit = ContextOnly
      then
        if cit_path cit \<notin> set (map cc_path (cs_context_only cs)) then Some NotOffered
        else (case by_path cs (cit_path cit) of
            None \<Rightarrow> Some ExcerptNotSubstring
          | Some clause \<Rightarrow>
              if \<not> is_literal_substring (cit_excerpt cit) (cc_text clause)
              then Some ExcerptNotSubstring else None)
      else if cit_path cit \<notin> cs_paths cs then Some NotOffered
      else (case by_path cs (cit_path cit) of
          None \<Rightarrow> Some NotCitable
        | Some clause \<Rightarrow>
            if \<not> cc_citable clause then Some NotCitable
            else if (case cc_from clause of None \<Rightarrow> False | Some d \<Rightarrow> as_of < d) then Some NotInForce
            else if (case cc_to clause of None \<Rightarrow> False | Some d \<Rightarrow> d \<le> as_of) then Some NotInForce
            else if \<not> is_literal_substring (cit_excerpt cit) (cc_text clause)
            then Some ExcerptNotSubstring else None))"

fun check_loop ::
  "candidate_set \<Rightarrow> date \<Rightarrow> citation list \<Rightarrow>
   citation list \<Rightarrow> (citation \<times> citation_reject_reason) list \<Rightarrow>
   citation list \<times> (citation \<times> citation_reject_reason) list" where
  "check_loop cs as_of [] kept rejected = (kept, rejected)"
| "check_loop cs as_of (c # rest) kept rejected =
     (case check_citation cs as_of c of
        Some why \<Rightarrow> check_loop cs as_of rest kept (rejected @ [(c, why)])
      | None \<Rightarrow> check_loop cs as_of rest (kept @ [c]) rejected)"

definition validate :: "verdict_draft \<Rightarrow> candidate_set \<Rightarrow> date \<Rightarrow> validation_outcome" where
  "validate draft cs as_of =
     (let (kept, rejected) = check_loop cs as_of (vd_citations draft) [] [];
          decisive = filter (\<lambda>c. cit_role c = Decisive) kept
      in if vd_verdict draft \<in> CONCLUSIVE \<and> decisive = []
         then \<lparr>vo_verdict = NoClauseFound, vo_citations = as_context kept, vo_downgraded = True,
               vo_reason = Some ''no_valid_decisive_citation'', vo_rejected = rejected\<rparr>
         else if vd_verdict draft = Ambiguous \<and> length decisive < 2
         then \<lparr>vo_verdict = Ambiguous, vo_citations = kept, vo_downgraded = False,
               vo_reason = Some ''single_decisive_citation_recorded'', vo_rejected = rejected\<rparr>
         else if vd_verdict draft = NoClauseFound \<and> decisive \<noteq> []
         then \<lparr>vo_verdict = NoClauseFound, vo_citations = as_context kept, vo_downgraded = True,
               vo_reason = Some ''abstention_with_citations'', vo_rejected = rejected\<rparr>
         else \<lparr>vo_verdict = vd_verdict draft, vo_citations = kept, vo_downgraded = False,
               vo_reason = None, vo_rejected = rejected\<rparr>)"

section \<open>The loop\<close>

definition kept_of :: "candidate_set \<Rightarrow> date \<Rightarrow> citation list \<Rightarrow> citation list" where
  "kept_of cs as_of cits = filter (\<lambda>c. check_citation cs as_of c = None) cits"

definition rejected_of ::
  "candidate_set \<Rightarrow> date \<Rightarrow> citation list \<Rightarrow> (citation \<times> citation_reject_reason) list" where
  "rejected_of cs as_of cits =
     map (\<lambda>c. (c, the (check_citation cs as_of c)))
       (filter (\<lambda>c. check_citation cs as_of c \<noteq> None) cits)"

lemma check_loop_filters:
  "check_loop cs as_of cits k r = (k @ kept_of cs as_of cits, r @ rejected_of cs as_of cits)"
  by (induction cs as_of cits k r rule: check_loop.induct)
    (auto simp: kept_of_def rejected_of_def split: option.splits)

definition in_force :: "clause_candidate \<Rightarrow> date \<Rightarrow> bool" where
  "in_force c as_of \<longleftrightarrow>
     (\<forall>d. cc_from c = Some d \<longrightarrow> d \<le> as_of) \<and> (\<forall>d. cc_to c = Some d \<longrightarrow> as_of < d)"

text \<open>What it takes for a citation to be kept.\<close>

definition grounded :: "candidate_set \<Rightarrow> date \<Rightarrow> citation \<Rightarrow> bool" where
  "grounded cs as_of cit \<longleftrightarrow>
     (\<exists>c. by_path cs (cit_path cit) = Some c \<and> cit_excerpt cit \<noteq> [] \<and>
        contains (normalise_ws (cit_excerpt cit)) (normalise_ws (cc_text c)) \<and>
        (if cit_role cit = ContextOnly then cit_path cit \<in> cc_path ` set (cs_context_only cs)
         else c \<in> set (cs_candidates cs) \<and> cc_citable c \<and> in_force c as_of))"

lemma by_path_in_candidates:
  assumes "by_path cs p = Some c" "p \<in> cs_paths cs"
  shows "c \<in> set (cs_candidates cs)"
  using by_path_candidate [OF assms(2)] assms(1) by auto

lemma by_path_of_candidate:
  "by_path cs (cc_path c) = Some c \<Longrightarrow> c \<in> set (cs_candidates cs) \<Longrightarrow> cc_path c \<in> cs_paths cs"
  by (simp add: cs_paths_def)

lemma check_citation_None_iff: "check_citation cs as_of cit = None \<longleftrightarrow> grounded cs as_of cit"
proof (cases "cit_role cit = ContextOnly")
  case True
  then show ?thesis
    by (auto simp: check_citation_def grounded_def is_literal_substring_def split: option.splits)
next
  case False
  have "p \<in> cs_paths cs" if "by_path cs p = Some c" "c \<in> set (cs_candidates cs)" for p c
    using that by_path_Some(1) [OF that(1)] by (auto simp: cs_paths_def)
  with False show ?thesis
    by (auto simp: check_citation_def grounded_def is_literal_substring_def in_force_def
        dest: by_path_in_candidates split: option.splits)
qed

lemma validate_eq:
  "validate draft cs as_of =
     (let kept = kept_of cs as_of (vd_citations draft);
          rejected = rejected_of cs as_of (vd_citations draft);
          decisive = filter (\<lambda>c. cit_role c = Decisive) kept
      in if vd_verdict draft \<in> CONCLUSIVE \<and> decisive = []
         then \<lparr>vo_verdict = NoClauseFound, vo_citations = as_context kept, vo_downgraded = True,
               vo_reason = Some ''no_valid_decisive_citation'', vo_rejected = rejected\<rparr>
         else if vd_verdict draft = Ambiguous \<and> length decisive < 2
         then \<lparr>vo_verdict = Ambiguous, vo_citations = kept, vo_downgraded = False,
               vo_reason = Some ''single_decisive_citation_recorded'', vo_rejected = rejected\<rparr>
         else if vd_verdict draft = NoClauseFound \<and> decisive \<noteq> []
         then \<lparr>vo_verdict = NoClauseFound, vo_citations = as_context kept, vo_downgraded = True,
               vo_reason = Some ''abstention_with_citations'', vo_rejected = rejected\<rparr>
         else \<lparr>vo_verdict = vd_verdict draft, vo_citations = kept, vo_downgraded = False,
               vo_reason = None, vo_rejected = rejected\<rparr>)"
  by (simp add: validate_def check_loop_filters Let_def)

lemma validate_cases:
  fixes draft cs as_of
  defines "kept \<equiv> kept_of cs as_of (vd_citations draft)"
    and "out \<equiv> validate draft cs as_of"
  obtains (downgrade) "vo_verdict out = NoClauseFound" "vo_citations out = as_context kept"
      "vo_downgraded out" "vo_rejected out = rejected_of cs as_of (vd_citations draft)"
      "(vd_verdict draft \<noteq> NoClauseFound) \<noteq> (\<exists>c \<in> set kept. cit_role c = Decisive)"
    | (pass) "vo_verdict out = vd_verdict draft" "vo_citations out = kept" "\<not> vo_downgraded out"
      "vo_rejected out = rejected_of cs as_of (vd_citations draft)"
      "(vd_verdict draft \<noteq> NoClauseFound) = (\<exists>c \<in> set kept. cit_role c = Decisive)"
proof -
  have c: "v \<in> CONCLUSIVE \<longleftrightarrow> v \<noteq> NoClauseFound" for v
    by (cases v) (simp_all add: CONCLUSIVE_def)
  have d: "filter (\<lambda>c. cit_role c = Decisive) kept = [] \<longleftrightarrow> \<not> (\<exists>c \<in> set kept. cit_role c = Decisive)"
    by (auto simp: filter_empty_conv)
  show ?thesis
  proof (cases "(vd_verdict draft \<noteq> NoClauseFound) = (\<exists>c \<in> set kept. cit_role c = Decisive)")
    case True
    then show ?thesis
      using c d by (intro pass; cases "vd_verdict draft = NoClauseFound";
          simp add: out_def validate_eq Let_def flip: kept_def)
  next
    case False
    then show ?thesis
      using c d by (intro downgrade; cases "vd_verdict draft = NoClauseFound";
          simp add: out_def validate_eq Let_def flip: kept_def)
  qed
qed

lemma kept_grounded: "c \<in> set (kept_of cs as_of cits) \<longleftrightarrow> c \<in> set cits \<and> grounded cs as_of c"
  by (auto simp: kept_of_def check_citation_None_iff)

lemma grounded_quote:
  assumes "grounded cs as_of cit"
  shows "\<exists>c \<in> set (cs_candidates cs) \<union> set (cs_context_only cs).
    cc_path c = cit_path cit \<and> is_literal_substring (cit_excerpt cit) (cc_text c) \<and>
    (cit_role cit \<noteq> ContextOnly \<longrightarrow> c \<in> set (cs_candidates cs) \<and> cc_citable c \<and> in_force c as_of)"
  using assms unfolding grounded_def is_literal_substring_def
  by (metis by_path_Some)

lemma kept_rejected_mset:
  "mset (as_context (kept_of cs as_of cits)) + mset (as_context (map fst (rejected_of cs as_of cits)))
     = mset (as_context cits)"
  by (induction cits) (auto simp: kept_of_def rejected_of_def as_context_def)

section \<open>Properties\<close>

definition sample_clause :: "string \<Rightarrow> string \<Rightarrow> clause_candidate" where
  "sample_clause p t =
     \<lparr>cc_id = 1, cc_path = p, cc_instrument = before_slash p, cc_from = Some (Date 2025 11 28),
      cc_to = None, cc_citable = True, cc_heading = None, cc_text = t, cc_source = Pinned,
      cc_rank = 1, cc_score = 1, cc_exclusion = None, cc_note = None\<rparr>"

definition sample_set :: candidate_set where
  "sample_set =
     \<lparr>cs_as_of = Date 2026 1 1, cs_entity_type = ''nbfc'', cs_borrower_class = ''general'',
      cs_candidates = [sample_clause ''RBC2025/p35'' ''released within  30 days''],
      cs_context_only = [], cs_snapshot_id = 1\<rparr>"

definition sample_draft :: verdict_draft where
  "sample_draft =
     \<lparr>vd_verdict = Violation,
      vd_citations =
        [\<lparr>cit_path = ''RBC2025/p35'', cit_role = Decisive, cit_excerpt = ''within 30'',
          cit_note = None\<rparr>,
         \<lparr>cit_path = ''RBC2025/p36'', cit_role = Decisive, cit_excerpt = ''x'', cit_note = None\<rparr>],
      vd_rationale = ''late'', vd_confidence = High\<rparr>"

lemma sample_validation:
  "vo_verdict (validate sample_draft sample_set (Date 2026 1 1)) = Violation"
  "vo_downgraded (validate sample_draft sample_set (Date 2026 1 1)) = False"
  by code_simp+

text \<open>
  C2: The guarantee of the validator. A verdict that passes as conclusive carries a decisive
  citation whose clause was offered as a candidate, is citable, is in force on the assessment
  date, and contains the quoted excerpt literally up to runs of white space.
\<close>

theorem conclusive_has_grounded_citation:
  assumes "vo_verdict (validate draft cs as_of) \<noteq> NoClauseFound"
  shows "\<exists>cit \<in> set (vo_citations (validate draft cs as_of)). cit_role cit = Decisive \<and>
    (\<exists>c \<in> set (cs_candidates cs). cc_path c = cit_path cit \<and> cc_citable c \<and> in_force c as_of \<and>
       cit_excerpt cit \<noteq> [] \<and>
       (\<exists>p s. normalise_ws (cc_text c) = p @ normalise_ws (cit_excerpt cit) @ s))"
proof (rule validate_cases [where draft = draft and cs = cs and as_of = as_of])
  assume "vo_verdict (validate draft cs as_of) = NoClauseFound"
  with assms show ?thesis by simp
next
  assume pass: "vo_verdict (validate draft cs as_of) = vd_verdict draft"
    "vo_citations (validate draft cs as_of) = kept_of cs as_of (vd_citations draft)"
    "(vd_verdict draft \<noteq> NoClauseFound) =
      (\<exists>c \<in> set (kept_of cs as_of (vd_citations draft)). cit_role c = Decisive)"
  then obtain cit where cit: "cit \<in> set (kept_of cs as_of (vd_citations draft))"
      "cit_role cit = Decisive"
    using assms by auto
  then have "grounded cs as_of cit" by (simp add: kept_grounded)
  from grounded_quote [OF this] cit show ?thesis
    unfolding pass(2) is_literal_substring_def
    by (intro bexI [of _ cit]) (auto simp: contains_iff split: if_splits)
qed

theorem conclusive_has_grounded_citation_witness:
  "\<exists>cit \<in> set (vo_citations (validate sample_draft sample_set (Date 2026 1 1))).
     cit_role cit = Decisive"
  using conclusive_has_grounded_citation [of sample_draft sample_set "Date 2026 1 1"]
  by (auto simp: sample_validation)

text \<open>
  No fabricated citation survives, in any role and on any branch: every citation of the
  outcome names an offered clause and quotes it literally, and one that is not demoted to context
  names a citable candidate in force.
\<close>

theorem citations_grounded:
  "\<forall>cit \<in> set (vo_citations (validate draft cs as_of)).
     \<exists>c \<in> set (cs_candidates cs) \<union> set (cs_context_only cs).
       cc_path c = cit_path cit \<and> is_literal_substring (cit_excerpt cit) (cc_text c) \<and>
       (cit_role cit \<noteq> ContextOnly \<longrightarrow>
          c \<in> set (cs_candidates cs) \<and> cc_citable c \<and> in_force c as_of)"
proof -
  have kept: "\<exists>c \<in> set (cs_candidates cs) \<union> set (cs_context_only cs).
       cc_path c = cit_path cit \<and> is_literal_substring (cit_excerpt cit) (cc_text c) \<and>
       (cit_role cit \<noteq> ContextOnly \<longrightarrow>
          c \<in> set (cs_candidates cs) \<and> cc_citable c \<and> in_force c as_of)"
    if "cit \<in> set (kept_of cs as_of (vd_citations draft))" for cit
    using that grounded_quote by (simp add: kept_grounded)
  show ?thesis
    by (rule validate_cases [where draft = draft and cs = cs and as_of = as_of])
      (use kept in \<open>fastforce simp: as_context_def\<close>)+
qed

theorem citations_grounded_witness:
  "\<exists>cit \<in> set (vo_citations (validate sample_draft sample_set (Date 2026 1 1))).
     \<exists>c \<in> set (cs_candidates sample_set) \<union> set (cs_context_only sample_set).
       cc_path c = cit_path cit \<and> is_literal_substring (cit_excerpt cit) (cc_text c)"
proof -
  have "vo_citations (validate sample_draft sample_set (Date 2026 1 1)) \<noteq> []" by code_simp
  then obtain cit where
    cit: "cit \<in> set (vo_citations (validate sample_draft sample_set (Date 2026 1 1)))"
    by (meson last_in_set)
  with citations_grounded [of sample_draft sample_set "Date 2026 1 1"] show ?thesis by blast
qed

text \<open>
  The audit trail is complete: what the outcome keeps and what it rejects are, up to the
  demotion of a kept citation to context, exactly the citations of the draft, each once, and a
  citation is rejected precisely for the reason the checks give.
\<close>

theorem validation_partitions:
  "mset (as_context (vo_citations (validate draft cs as_of))) +
     mset (as_context (map fst (vo_rejected (validate draft cs as_of)))) =
     mset (as_context (vd_citations draft)) \<and>
   (\<forall>(c, why) \<in> set (vo_rejected (validate draft cs as_of)).
      check_citation cs as_of c = Some why)"
proof -
  let ?r = "rejected_of cs as_of (vd_citations draft)"
  have idem: "as_context (as_context xs) = as_context xs" for xs
    by (simp add: as_context_def)
  have r: "\<forall>(c, why) \<in> set ?r. check_citation cs as_of c = Some why"
    by (auto simp: rejected_of_def)
  show ?thesis
    by (rule validate_cases [where draft = draft and cs = cs and as_of = as_of])
      (use kept_rejected_mset r idem in simp_all)
qed

theorem validation_partitions_witness:
  "\<exists>c. (c, NotOffered) \<in> set (vo_rejected (validate sample_draft sample_set (Date 2026 1 1))) \<and>
     check_citation sample_set (Date 2026 1 1) c = Some NotOffered"
proof -
  have "map snd (vo_rejected (validate sample_draft sample_set (Date 2026 1 1))) = [NotOffered]"
    by code_simp
  then obtain c where "(c, NotOffered) \<in> set (vo_rejected (validate sample_draft sample_set (Date 2026 1 1)))"
    by (cases "vo_rejected (validate sample_draft sample_set (Date 2026 1 1))") auto
  with validation_partitions [of sample_draft sample_set "Date 2026 1 1"] show ?thesis by blast
qed

text \<open>
  Verdict fidelity. The outcome's verdict is the draft's or \<open>no_clause_found\<close>; it is
  downgraded exactly when the draft concludes without a surviving decisive citation or abstains
  with one; and a draft that passes, validated again with the citations it kept, passes unchanged.
\<close>

theorem validation_fidelity:
  fixes draft cs as_of
  defines "out \<equiv> validate draft cs as_of"
  shows "vo_verdict out \<in> {vd_verdict draft, NoClauseFound} \<and>
    (vo_downgraded out \<longleftrightarrow>
       (vd_verdict draft \<noteq> NoClauseFound) \<noteq>
       (\<exists>c \<in> set (vd_citations draft). cit_role c = Decisive \<and> check_citation cs as_of c = None)) \<and>
    (\<not> vo_downgraded out \<longrightarrow>
       (let again = validate (draft\<lparr>vd_citations := vo_citations out\<rparr>) cs as_of
        in vo_verdict again = vo_verdict out \<and> vo_citations again = vo_citations out \<and>
           vo_rejected again = []))"
proof -
  let ?k = "kept_of cs as_of (vd_citations draft)"
  have dec: "(\<exists>c \<in> set ?k. cit_role c = Decisive) \<longleftrightarrow>
      (\<exists>c \<in> set (vd_citations draft). cit_role c = Decisive \<and> check_citation cs as_of c = None)"
    by (auto simp: kept_of_def)
  have kk: "kept_of cs as_of ?k = ?k" "rejected_of cs as_of ?k = []"
    by (auto simp: kept_of_def rejected_of_def filter_empty_conv)
  show ?thesis
  proof (rule validate_cases [where draft = draft and cs = cs and as_of = as_of])
    assume pass: "vo_verdict (validate draft cs as_of) = vd_verdict draft"
      "vo_citations (validate draft cs as_of) = ?k" "\<not> vo_downgraded (validate draft cs as_of)"
      "(vd_verdict draft \<noteq> NoClauseFound) = (\<exists>c \<in> set ?k. cit_role c = Decisive)"
    let ?again = "validate (draft\<lparr>vd_citations := ?k\<rparr>) cs as_of"
    have "vo_verdict ?again = vd_verdict draft \<and> vo_citations ?again = ?k \<and> vo_rejected ?again = []"
      by (rule validate_cases [where draft = "draft\<lparr>vd_citations := ?k\<rparr>" and cs = cs and as_of = as_of])
        (use pass(4) kk in simp_all)
    then show ?thesis using pass dec by (simp add: out_def)
  qed (use dec in \<open>simp add: out_def\<close>)
qed

theorem validation_fidelity_witness:
  "let out = validate sample_draft sample_set (Date 2026 1 1);
       again = validate (sample_draft\<lparr>vd_citations := vo_citations out\<rparr>) sample_set (Date 2026 1 1)
   in vo_verdict again = Violation \<and> vo_rejected again = []"
  using validation_fidelity [of sample_draft sample_set "Date 2026 1 1"]
  by (simp add: sample_validation Let_def)

text \<open>An excerpt of white space alone counts as quoted from every clause.\<close>

lemma blank_excerpt_accepted: "is_literal_substring '' '' clause_text"
proof -
  have "normalise_ws '' '' = []" by code_simp
  then show ?thesis by (simp add: is_literal_substring_def)
qed

end
