(* ===== verification/CC_Store.thy ===== *)
theory CC_Store
  imports CC_Retrieve CC_Validator
begin

text \<open>
  The tables that assessment writes, and the two writers: \<open>_persist\<close> of
  \<open>src/app/verdict/assess.py\<close> and \<open>recompute_loan_compliance_state\<close> of
  \<open>src/app/verdict/state.py\<close>.

  A database is the record \<open>store\<close>, with each table as the list of its rows in insertion order.
  A statement either succeeds or raises, and a raise aborts the transaction, so an operation
  returns the new store or the exception. \<open>uuid7\<close> is third-party code: \<open>gen n\<close> is the id of the
  n-th call, and \<open>db_uuids\<close> counts the calls. \<open>now\<close> is the transaction's timestamp. The
  Prometheus counters are a log of increments.
\<close>

section \<open>Tables\<close>

type_synonym timestamp = int

record fact_row =
  fx_id :: uuid
  fx_document :: uuid
  fx_loan :: uuid
  fx_field_key :: string
  fx_value_type :: "string option"
  fx_value :: "json_obj option"
  fx_is_absent :: bool
  fx_created :: timestamp

record assessment_row =
  as_id :: uuid
  as_tenant :: uuid
  as_loan :: uuid
  as_document :: "uuid option"
  as_result :: assessment_result
  as_is_whatif :: bool
  as_serving_mode :: string
  as_request_id :: string
  as_superseded_by :: "uuid option"
  as_created :: timestamp

record citation_row =
  ac_id :: uuid
  ac_assessment :: uuid
  ac_clause :: uuid
  ac_path :: string
  ac_instrument :: string
  ac_role :: citation_role
  ac_excerpt :: string
  ac_note :: "string option"

record audit_row =
  au_id :: uuid
  au_tenant :: uuid
  au_entity :: uuid
  au_request_id :: string
  au_reason :: citation_reject_reason
  au_path :: string

record conflict_row =
  fc_id :: uuid
  fc_tenant :: uuid
  fc_loan :: uuid
  fc_group :: string
  fc_field :: string
  fc_fact_a :: uuid
  fc_fact_b :: uuid
  fc_type :: conflict_type
  fc_delta :: json_obj
  fc_operator :: string
  fc_status :: string

record compliance_state =
  lc_tenant :: uuid
  lc_open_violations :: nat
  lc_open_ambiguous :: nat
  lc_open_no_clause :: nat
  lc_unresolved_conflicts :: nat
  lc_highest_severity :: "severity option"
  lc_checks_run :: nat
  lc_last_assessed_at :: timestamp
  lc_snapshot :: uuid
  lc_version :: nat

datatype metric =
    VerdictCounted verdict severity decided_by bool
  | CitationRejected citation_reject_reason
  | ConflictDetected string conflict_type

record store =
  db_documents :: "(uuid \<times> string) list"
  db_facts :: "fact_row list"
  db_corpus :: corpus
  db_assessments :: "assessment_row list"
  db_citations :: "citation_row list"
  db_audit :: "audit_row list"
  db_conflicts :: "conflict_row list"
  db_states :: "uuid \<rightharpoonup> compliance_state"
  db_uuids :: nat
  db_metrics :: "metric list"

definition as_check_key :: "assessment_row \<Rightarrow> string" where
  "as_check_key r = ar_check_key (as_result r)"

definition as_verdict :: "assessment_row \<Rightarrow> verdict" where
  "as_verdict r = ar_verdict (as_result r)"

definition as_severity :: "assessment_row \<Rightarrow> severity" where
  "as_severity r = ar_severity (as_result r)"

definition as_is_shadow :: "assessment_row \<Rightarrow> bool" where
  "as_is_shadow r = ar_is_shadow (as_result r)"

text \<open>\<open>ORDER BY created_at DESC LIMIT 1\<close>.\<close>

definition latest_by :: "('a \<Rightarrow> timestamp) \<Rightarrow> 'a list \<Rightarrow> 'a option" where
  "latest_by f rows = (case sort_key (\<lambda>r. - f r) rows of [] \<Rightarrow> None | r # _ \<Rightarrow> Some r)"

lemma latest_by_None [simp]: "latest_by f rows = None \<longleftrightarrow> rows = []"
proof -
  have "sort_key (\<lambda>r. - f r) rows = [] \<longleftrightarrow> rows = []" by (metis length_0_conv length_sort)
  then show ?thesis by (auto simp: latest_by_def split: list.splits)
qed

lemma latest_by_Some:
  assumes "latest_by f rows = Some r"
  shows "r \<in> set rows" "\<And>x. x \<in> set rows \<Longrightarrow> f x \<le> f r"
proof -
  obtain rs where s: "sort_key (\<lambda>r. - f r) rows = r # rs"
    using assms by (auto simp: latest_by_def split: list.splits)
  have "set (r # rs) = set rows" by (metis s set_sort)
  then show "r \<in> set rows" by auto
  have "sorted (map (\<lambda>r. - f r) (r # rs))" by (metis s sorted_sort_key)
  then show "f x \<le> f r" if "x \<in> set rows" for x
    using that \<open>set (r # rs) = set rows\<close> by auto
qed

section \<open>persist\<close>

definition is_open :: "uuid \<Rightarrow> string \<Rightarrow> assessment_row \<Rightarrow> bool" where
  "is_open loan key r \<longleftrightarrow>
     as_loan r = loan \<and> as_check_key r = key \<and> as_superseded_by r = None \<and> \<not> as_is_whatif r"

definition prior_open :: "store \<Rightarrow> uuid \<Rightarrow> string \<Rightarrow> assessment_row option" where
  "prior_open db loan key = latest_by as_created (filter (is_open loan key) (db_assessments db))"

record persist_args =
  pa_tenant :: uuid
  pa_loan :: uuid
  pa_document :: "uuid option"
  pa_result :: assessment_result
  pa_clause_ids :: "string \<rightharpoonup> uuid"
  pa_is_whatif :: bool
  pa_serving_mode :: string
  pa_request_id :: string
  pa_rejected :: "(citation \<times> citation_reject_reason) list"

definition new_assessment :: "timestamp \<Rightarrow> uuid \<Rightarrow> persist_args \<Rightarrow> assessment_row" where
  "new_assessment now aid pa =
     \<lparr>as_id = aid, as_tenant = pa_tenant pa, as_loan = pa_loan pa, as_document = pa_document pa,
      as_result = pa_result pa, as_is_whatif = pa_is_whatif pa,
      as_serving_mode = pa_serving_mode pa, as_request_id = pa_request_id pa,
      as_superseded_by = None, as_created = now\<rparr>"

definition insert_assessment ::
  "(nat \<Rightarrow> uuid) \<Rightarrow> timestamp \<Rightarrow> persist_args \<Rightarrow> store \<Rightarrow> store" where
  "insert_assessment gen now pa db =
     (let r = pa_result pa in
      db\<lparr>db_assessments := db_assessments db @ [new_assessment now (gen (db_uuids db)) pa],
         db_uuids := Suc (db_uuids db),
         db_metrics := db_metrics db
           @ [VerdictCounted (ar_verdict r) (ar_severity r) (ar_decided_by r) (ar_is_shadow r)]\<rparr>)"

fun insert_citations ::
  "(nat \<Rightarrow> uuid) \<Rightarrow> uuid \<Rightarrow> (string \<rightharpoonup> uuid) \<Rightarrow> citation list \<Rightarrow> store \<Rightarrow> store res" where
  "insert_citations gen aid ids [] db = Inr db"
| "insert_citations gen aid ids (c # cs) db =
     (case ids (cit_path c) of
        None \<Rightarrow> Inl (AssertionError (cit_path c))
      | Some clause_id \<Rightarrow>
          insert_citations gen aid ids cs
            (db\<lparr>db_citations := db_citations db
                  @ [\<lparr>ac_id = gen (db_uuids db), ac_assessment = aid, ac_clause = clause_id,
                      ac_path = cit_path c, ac_instrument = before_slash (cit_path c),
                      ac_role = cit_role c, ac_excerpt = cit_excerpt c, ac_note = cit_note c\<rparr>],
                db_uuids := Suc (db_uuids db)\<rparr>))"

fun insert_rejected ::
  "(nat \<Rightarrow> uuid) \<Rightarrow> uuid \<Rightarrow> persist_args \<Rightarrow> (citation \<times> citation_reject_reason) list \<Rightarrow> store \<Rightarrow>
   store" where
  "insert_rejected gen aid pa [] db = db"
| "insert_rejected gen aid pa ((c, why) # rs) db =
     insert_rejected gen aid pa rs
       (db\<lparr>db_audit := db_audit db
             @ [\<lparr>au_id = gen (db_uuids db), au_tenant = pa_tenant pa, au_entity = aid,
                 au_request_id = pa_request_id pa, au_reason = why, au_path = cit_path c\<rparr>],
           db_uuids := Suc (db_uuids db),
           db_metrics := db_metrics db @ [CitationRejected why]\<rparr>)"

text \<open>\<open>UPDATE assessment SET superseded_by_id = :new_id WHERE id = :old_id\<close>.\<close>

definition supersede :: "uuid \<Rightarrow> uuid \<Rightarrow> store \<Rightarrow> store" where
  "supersede old new db =
     db\<lparr>db_assessments := map (\<lambda>r. if as_id r = old then r\<lparr>as_superseded_by := Some new\<rparr> else r)
        (db_assessments db)\<rparr>"

definition persist ::
  "(nat \<Rightarrow> uuid) \<Rightarrow> timestamp \<Rightarrow> persist_args \<Rightarrow> store \<Rightarrow> (store \<times> uuid) res" where
  "persist gen now pa db =
     (let prior = prior_open db (pa_loan pa) (ar_check_key (pa_result pa));
          aid = gen (db_uuids db)
      in ebind (insert_citations gen aid (pa_clause_ids pa) (ar_citations (pa_result pa))
                  (insert_assessment gen now pa db)) (\<lambda>db1.
           let db2 = insert_rejected gen aid pa (pa_rejected pa) db1
           in Inr (case prior of
                     None \<Rightarrow> (db2, aid)
                   | Some r \<Rightarrow> (if pa_is_whatif pa then db2 else supersede (as_id r) aid db2, aid))))"

section \<open>recompute\_loan\_compliance\_state\<close>

fun SEVERITY_RANK :: "severity \<Rightarrow> nat" where
  "SEVERITY_RANK Critical = 4"
| "SEVERITY_RANK Major = 3"
| "SEVERITY_RANK Minor = 2"
| "SEVERITY_RANK Informational = 1"

definition counted_rows :: "store \<Rightarrow> uuid \<Rightarrow> uuid \<Rightarrow> assessment_row list" where
  "counted_rows db tenant loan =
     filter (\<lambda>r. as_tenant r = tenant \<and> as_loan r = loan \<and> as_superseded_by r = None \<and>
        \<not> as_is_shadow r \<and> \<not> as_is_whatif r) (db_assessments db)"

text \<open>\<open>SELECT verdict, severity, COUNT(*) ... GROUP BY verdict, severity\<close>.\<close>

definition open_counts :: "store \<Rightarrow> uuid \<Rightarrow> uuid \<Rightarrow> (verdict \<times> severity \<times> nat) list" where
  "open_counts db tenant loan =
     (let rows = counted_rows db tenant loan
      in map (\<lambda>(v, s). (v, s, length (filter (\<lambda>r. as_verdict r = v \<and> as_severity r = s) rows)))
           (dedupe (map (\<lambda>r. (as_verdict r, as_severity r)) rows)))"

record tally =
  tl_violations :: nat
  tl_ambiguous :: nat
  tl_no_clause :: nat
  tl_highest :: "severity option"

fun tally_row :: "verdict \<times> severity \<times> nat \<Rightarrow> tally \<Rightarrow> tally" where
  "tally_row (v, s, n) t =
     (let t1 = (if v = Violation then t\<lparr>tl_violations := tl_violations t + n\<rparr>
                else if v = Ambiguous then t\<lparr>tl_ambiguous := tl_ambiguous t + n\<rparr>
                else if v = NoClauseFound then t\<lparr>tl_no_clause := tl_no_clause t + n\<rparr>
                else t);
          rank = (case tl_highest t1 of None \<Rightarrow> 0 | Some h \<Rightarrow> SEVERITY_RANK h)
      in if rank < SEVERITY_RANK s then t1\<lparr>tl_highest := Some s\<rparr> else t1)"

definition tally_rows :: "(verdict \<times> severity \<times> nat) list \<Rightarrow> tally" where
  "tally_rows rows =
     fold tally_row rows
       \<lparr>tl_violations = 0, tl_ambiguous = 0, tl_no_clause = 0, tl_highest = None\<rparr>"

definition checks_run :: "store \<Rightarrow> uuid \<Rightarrow> uuid \<Rightarrow> nat" where
  "checks_run db tenant loan =
     length (dedupe (map as_check_key (filter (\<lambda>r. as_tenant r = tenant \<and> as_loan r = loan \<and>
       as_superseded_by r = None \<and> \<not> as_is_whatif r) (db_assessments db))))"

definition unresolved_conflicts :: "store \<Rightarrow> uuid \<Rightarrow> uuid \<Rightarrow> nat" where
  "unresolved_conflicts db tenant loan =
     length (filter (\<lambda>c. fc_tenant c = tenant \<and> fc_loan c = loan \<and> fc_status c = ''open'')
       (db_conflicts db))"

text \<open>The upsert: on conflict the tenant stays and the version grows by one.\<close>

definition recompute_loan_compliance_state ::
  "timestamp \<Rightarrow> uuid \<Rightarrow> uuid \<Rightarrow> uuid \<Rightarrow> store \<Rightarrow> store" where
  "recompute_loan_compliance_state now tenant loan snapshot db =
     (let t = tally_rows (open_counts db tenant loan);
          fresh = \<lparr>lc_tenant = tenant, lc_open_violations = tl_violations t,
            lc_open_ambiguous = tl_ambiguous t, lc_open_no_clause = tl_no_clause t,
            lc_unresolved_conflicts = unresolved_conflicts db tenant loan,
            lc_highest_severity = tl_highest t, lc_checks_run = checks_run db tenant loan,
            lc_last_assessed_at = now, lc_snapshot = snapshot, lc_version = 1\<rparr>
      in db\<lparr>db_states := (db_states db)(loan \<mapsto>
           (case db_states db loan of
              None \<Rightarrow> fresh
            | Some old \<Rightarrow> fresh\<lparr>lc_tenant := lc_tenant old, lc_version := lc_version old + 1\<rparr>))\<rparr>)"

section \<open>What persisting changes\<close>

definition citation_row_of ::
  "(nat \<Rightarrow> uuid) \<Rightarrow> uuid \<Rightarrow> (string \<rightharpoonup> uuid) \<Rightarrow> nat \<Rightarrow> citation \<Rightarrow> citation_row" where
  "citation_row_of gen aid ids n c =
     \<lparr>ac_id = gen n, ac_assessment = aid, ac_clause = the (ids (cit_path c)),
      ac_path = cit_path c, ac_instrument = before_slash (cit_path c),
      ac_role = cit_role c, ac_excerpt = cit_excerpt c, ac_note = cit_note c\<rparr>"

lemma insert_citations_Inr:
  assumes "insert_citations gen aid ids cs db = Inr db'"
  shows "db' = db\<lparr>db_citations := db_citations db
      @ map (\<lambda>(n, c). citation_row_of gen aid ids n c) (zip [db_uuids db..<db_uuids db + length cs] cs),
      db_uuids := db_uuids db + length cs\<rparr> \<and>
    (\<forall>c \<in> set cs. ids (cit_path c) \<noteq> None)"
  using assms
proof (induction gen aid ids cs db arbitrary: db' rule: insert_citations.induct)
  case (2 gen aid ids c cs db)
  then obtain i where i: "ids (cit_path c) = Some i" by (auto split: option.splits)
  have "[db_uuids db..<db_uuids db + length (c # cs)] =
      db_uuids db # [Suc (db_uuids db)..<Suc (db_uuids db) + length cs]"
    by (simp add: upt_conv_Cons del: upt_Suc)
  then show ?case using 2 i by (simp add: citation_row_of_def)
qed simp

lemma insert_citations_succeeds:
  "\<forall>c \<in> set cs. ids (cit_path c) \<noteq> None \<Longrightarrow> \<exists>db'. insert_citations gen aid ids cs db = Inr db'"
  by (induction gen aid ids cs db rule: insert_citations.induct) auto

lemma insert_citations_fails:
  "c \<in> set cs \<Longrightarrow> ids (cit_path c) = None \<Longrightarrow>
     \<exists>x \<in> set cs. ids (cit_path x) = None \<and>
       insert_citations gen aid ids cs db = Inl (AssertionError (cit_path x))"
  by (induction gen aid ids cs db rule: insert_citations.induct) (auto split: option.splits)

lemma insert_rejected_simps:
  "db_assessments (insert_rejected gen aid pa rs db) = db_assessments db"
  "db_citations (insert_rejected gen aid pa rs db) = db_citations db"
  "db_states (insert_rejected gen aid pa rs db) = db_states db"
  "db_facts (insert_rejected gen aid pa rs db) = db_facts db"
  "db_corpus (insert_rejected gen aid pa rs db) = db_corpus db"
  "db_conflicts (insert_rejected gen aid pa rs db) = db_conflicts db"
  "db_documents (insert_rejected gen aid pa rs db) = db_documents db"
  "db_uuids (insert_rejected gen aid pa rs db) = db_uuids db + length rs"
  by (induction gen aid pa rs db rule: insert_rejected.induct) simp_all

lemma persist_Inr:
  assumes "persist gen now pa db = Inr (db', aid)"
  defines "new \<equiv> new_assessment now (gen (db_uuids db)) pa"
  shows "aid = gen (db_uuids db)"
    "db_assessments db' = (case prior_open db (pa_loan pa) (ar_check_key (pa_result pa)) of
       None \<Rightarrow> db_assessments db @ [new]
     | Some r \<Rightarrow> (if pa_is_whatif pa then db_assessments db @ [new]
         else map (\<lambda>x. if as_id x = as_id r then x\<lparr>as_superseded_by := Some aid\<rparr> else x)
           (db_assessments db @ [new])))"
    "db_citations db' = db_citations db @ map (\<lambda>(n, c). citation_row_of gen aid (pa_clause_ids pa) n c)
      (zip [Suc (db_uuids db)..<Suc (db_uuids db) + length (ar_citations (pa_result pa))]
        (ar_citations (pa_result pa)))"
    "db_states db' = db_states db" "db_facts db' = db_facts db" "db_corpus db' = db_corpus db"
    "db_conflicts db' = db_conflicts db" "db_documents db' = db_documents db"
    "db_uuids db < db_uuids db'"
    "\<forall>c \<in> set (ar_citations (pa_result pa)). pa_clause_ids pa (cit_path c) \<noteq> None"
proof -
  let ?aid = "gen (db_uuids db)" and ?db0 = "insert_assessment gen now pa db"
  obtain db1 where db1: "insert_citations gen ?aid (pa_clause_ids pa) (ar_citations (pa_result pa)) ?db0 = Inr db1"
    and db': "db' = (case prior_open db (pa_loan pa) (ar_check_key (pa_result pa)) of
        None \<Rightarrow> insert_rejected gen ?aid pa (pa_rejected pa) db1
      | Some r \<Rightarrow> if pa_is_whatif pa then insert_rejected gen ?aid pa (pa_rejected pa) db1
          else supersede (as_id r) ?aid (insert_rejected gen ?aid pa (pa_rejected pa) db1))"
    and aid: "aid = ?aid"
  proof -
    obtain db1 where one:
      "insert_citations gen ?aid (pa_clause_ids pa) (ar_citations (pa_result pa)) ?db0 = Inr db1"
      and two: "(case prior_open db (pa_loan pa) (ar_check_key (pa_result pa)) of
          None \<Rightarrow> (insert_rejected gen ?aid pa (pa_rejected pa) db1, ?aid)
        | Some r \<Rightarrow> (if pa_is_whatif pa then insert_rejected gen ?aid pa (pa_rejected pa) db1
            else supersede (as_id r) ?aid (insert_rejected gen ?aid pa (pa_rejected pa) db1), ?aid))
        = (db', aid)"
      using assms(1) unfolding persist_def Let_def ebind_Inr_iff by blast
    from one show thesis
      by (rule that) (use two in \<open>auto split: option.splits if_splits\<close>)
  qed
  note d1 = insert_citations_Inr [OF db1]
  show "aid = gen (db_uuids db)" by (rule aid)
  show "db_states db' = db_states db" "db_facts db' = db_facts db" "db_corpus db' = db_corpus db"
    "db_conflicts db' = db_conflicts db" "db_documents db' = db_documents db"
    "db_uuids db < db_uuids db'"
    using d1 by (auto simp: db' supersede_def insert_rejected_simps insert_assessment_def Let_def
        split: option.splits)
  show "\<forall>c \<in> set (ar_citations (pa_result pa)). pa_clause_ids pa (cit_path c) \<noteq> None"
    using d1 by blast
  show "db_citations db' = db_citations db @ map (\<lambda>(n, c). citation_row_of gen aid (pa_clause_ids pa) n c)
      (zip [Suc (db_uuids db)..<Suc (db_uuids db) + length (ar_citations (pa_result pa))]
        (ar_citations (pa_result pa)))"
    using d1 by (auto simp: db' aid supersede_def insert_rejected_simps insert_assessment_def Let_def
        simp del: upt_Suc split: option.splits)
  show "db_assessments db' = (case prior_open db (pa_loan pa) (ar_check_key (pa_result pa)) of
       None \<Rightarrow> db_assessments db @ [new]
     | Some r \<Rightarrow> (if pa_is_whatif pa then db_assessments db @ [new]
         else map (\<lambda>x. if as_id x = as_id r then x\<lparr>as_superseded_by := Some aid\<rparr> else x)
           (db_assessments db @ [new])))"
    using d1 by (simp add: db' aid new_def supersede_def insert_rejected_simps insert_assessment_def
        Let_def split: option.splits)
qed

lemma persist_succeeds:
  assumes "\<forall>c \<in> set (ar_citations (pa_result pa)). pa_clause_ids pa (cit_path c) \<noteq> None"
  shows "\<exists>db'. persist gen now pa db = Inr (db', gen (db_uuids db))"
proof -
  obtain db1 where "insert_citations gen (gen (db_uuids db)) (pa_clause_ids pa)
      (ar_citations (pa_result pa)) (insert_assessment gen now pa db) = Inr db1"
    using insert_citations_succeeds [OF assms] by blast
  then show ?thesis
    by (cases "prior_open db (pa_loan pa) (ar_check_key (pa_result pa))")
      (simp_all add: persist_def Let_def)
qed

lemma persist_fails:
  assumes "c \<in> set (ar_citations (pa_result pa))" "pa_clause_ids pa (cit_path c) = None"
  shows "\<exists>x \<in> set (ar_citations (pa_result pa)). pa_clause_ids pa (cit_path x) = None \<and>
    persist gen now pa db = Inl (AssertionError (cit_path x))"
  using insert_citations_fails [OF assms(1), of "pa_clause_ids pa" gen "gen (db_uuids db)"
      "insert_assessment gen now pa db"] assms(2)
  by (auto simp: persist_def Let_def)

section \<open>Invariants of the store\<close>

text \<open>
  Ids come from the generator, each once; at most one real assessment of a check is open; a
  superseded one points to a later row.
\<close>

definition fresh_ids :: "(nat \<Rightarrow> uuid) \<Rightarrow> store \<Rightarrow> bool" where
  "fresh_ids gen db \<longleftrightarrow>
     inj gen \<and> distinct (map as_id (db_assessments db)) \<and>
     (\<forall>r \<in> set (db_assessments db). \<exists>n < db_uuids db. as_id r = gen n)"

definition one_open :: "store \<Rightarrow> bool" where
  "one_open db \<longleftrightarrow> (\<forall>loan key. length (filter (is_open loan key) (db_assessments db)) \<le> 1)"

definition linked :: "store \<Rightarrow> bool" where
  "linked db \<longleftrightarrow>
     (\<forall>i < length (db_assessments db). \<forall>s. as_superseded_by (db_assessments db ! i) = Some s \<longrightarrow>
        (\<exists>j. i < j \<and> j < length (db_assessments db) \<and> as_id (db_assessments db ! j) = s))"

definition open_inv :: "(nat \<Rightarrow> uuid) \<Rightarrow> store \<Rightarrow> bool" where
  "open_inv gen db \<longleftrightarrow> fresh_ids gen db \<and> one_open db \<and> linked db"

lemma new_assessment_simps [simp]:
  "as_id (new_assessment now aid pa) = aid" "as_loan (new_assessment now aid pa) = pa_loan pa"
  "as_superseded_by (new_assessment now aid pa) = None"
  "as_is_whatif (new_assessment now aid pa) = pa_is_whatif pa"
  "as_result (new_assessment now aid pa) = pa_result pa"
  "as_tenant (new_assessment now aid pa) = pa_tenant pa"
  by (simp_all add: new_assessment_def)

lemma fresh_id_new: "fresh_ids gen db \<Longrightarrow> r \<in> set (db_assessments db) \<Longrightarrow> as_id r \<noteq> gen (db_uuids db)"
  unfolding fresh_ids_def by (metis injD less_irrefl)

lemma prior_open_Some:
  assumes "one_open db" "prior_open db loan key = Some r"
  shows "filter (is_open loan key) (db_assessments db) = [r]" "r \<in> set (db_assessments db)"
    "is_open loan key r"
proof -
  let ?f = "filter (is_open loan key) (db_assessments db)"
  have r: "r \<in> set ?f" using latest_by_Some(1) assms(2) unfolding prior_open_def by metis
  then show "r \<in> set (db_assessments db)" "is_open loan key r" by simp_all
  have "length ?f \<le> 1" using assms(1) by (simp add: one_open_def)
  with r show "?f = [r]" by (cases ?f) auto
qed

lemma filter_superseded:
  assumes "\<And>x. x \<in> set xs \<Longrightarrow> P x \<Longrightarrow> as_id x \<noteq> old"
    and "\<And>x. x \<in> set xs \<Longrightarrow> as_id x = old \<Longrightarrow> \<not> P (x\<lparr>as_superseded_by := Some new\<rparr>)"
  shows "filter P (map (\<lambda>x. if as_id x = old then x\<lparr>as_superseded_by := Some new\<rparr> else x) xs) =
    filter P xs"
  using assms by (induction xs) auto

lemma persist_open_rows:
  assumes "open_inv gen db" "persist gen now pa db = Inr (db', aid)"
  shows "filter (is_open loan key) (db_assessments db') =
    (if \<not> pa_is_whatif pa \<and> loan = pa_loan pa \<and> key = ar_check_key (pa_result pa)
     then [new_assessment now aid pa] else filter (is_open loan key) (db_assessments db))"
proof -
  let ?k = "ar_check_key (pa_result pa)" and ?new = "new_assessment now aid pa"
  let ?rows = "db_assessments db"
  note p = persist_Inr [OF assms(2)]
  have inv: "fresh_ids gen db" "one_open db" using assms(1) by (simp_all add: open_inv_def)
  have new: "is_open loan key ?new \<longleftrightarrow> \<not> pa_is_whatif pa \<and> loan = pa_loan pa \<and> key = ?k"
    by (auto simp: is_open_def as_check_key_def)
  have closed: "\<not> is_open l k (x\<lparr>as_superseded_by := Some a\<rparr>)" for l k x a
    by (simp add: is_open_def)
  show ?thesis
  proof (cases "prior_open db (pa_loan pa) ?k")
    case None
    then have "filter (is_open (pa_loan pa) ?k) ?rows = []" by (simp add: prior_open_def)
    with None p(1,2) new show ?thesis by simp
  next
    case (Some r)
    note r = prior_open_Some [OF inv(2) Some]
    show ?thesis
    proof (cases "pa_is_whatif pa")
      case True
      with Some p(1,2) new show ?thesis by simp
    next
      case False
      let ?f = "\<lambda>x. if as_id x = as_id r then x\<lparr>as_superseded_by := Some aid\<rparr> else x"
      have rows': "db_assessments db' = map ?f ?rows @ [?new]"
        using Some False p(1,2) fresh_id_new [OF inv(1) r(2)] by auto
      have ids: "x = r" if "x \<in> set ?rows" "as_id x = as_id r" for x
        using inv(1) r(2) that by (auto simp: fresh_ids_def distinct_map inj_on_def)
      show ?thesis
      proof (cases "loan = pa_loan pa \<and> key = ?k")
        case True
        have "filter (is_open loan key) (map ?f ?rows) = []"
        proof -
          have "x = r" if "x \<in> set ?rows" "is_open loan key x" for x
          proof -
            have "x \<in> set (filter (is_open (pa_loan pa) ?k) ?rows)" using that True by simp
            then show ?thesis by (simp add: r(1))
          qed
          then have "\<not> is_open loan key (?f x)" if "x \<in> set ?rows" for x
            using that closed by (cases "as_id x = as_id r") auto
          then show ?thesis unfolding filter_empty_conv set_map by blast
        qed
        with rows' new True False show ?thesis by simp
      next
        case other: False
        have "filter (is_open loan key) (map ?f ?rows) = filter (is_open loan key) ?rows"
        proof (rule filter_superseded)
          show "as_id x \<noteq> as_id r" if "x \<in> set ?rows" "is_open loan key x" for x
            using ids [OF that(1)] that(2) r(3) other by (auto simp: is_open_def)
        qed (rule closed)
        with rows' new other show ?thesis by auto
      qed
    qed
  qed
qed


lemma persist_ids:
  assumes "persist gen now pa db = Inr (db', aid)"
  shows "map as_id (db_assessments db') = map as_id (db_assessments db) @ [aid]"
  using persist_Inr(1,2) [OF assms] by (auto simp: comp_def split: option.splits)

lemma persist_fresh:
  assumes "fresh_ids gen db" "persist gen now pa db = Inr (db', aid)"
  shows "fresh_ids gen db'"
proof -
  have ids: "map as_id (db_assessments db') = map as_id (db_assessments db) @ [aid]"
    by (rule persist_ids [OF assms(2)])
  note p = persist_Inr [OF assms(2)]
  have "aid \<notin> set (map as_id (db_assessments db))" using fresh_id_new [OF assms(1)] p(1) by force
  moreover have "\<exists>n < db_uuids db'. i = gen n" if "i \<in> set (map as_id (db_assessments db'))" for i
  proof -
    have "i = gen (db_uuids db) \<or> (\<exists>n < db_uuids db. i = gen n)"
      using that assms(1) p(1) unfolding ids by (auto simp: fresh_ids_def)
    then show ?thesis using p(9) by (metis order.strict_trans)
  qed
  moreover have "distinct (map as_id (db_assessments db'))"
    using assms(1) calculation(1) unfolding ids by (simp add: fresh_ids_def)
  ultimately show ?thesis using assms(1) by (simp add: fresh_ids_def)
qed

lemma persist_nth:
  assumes "persist gen now pa db = Inr (db', aid)"
  shows "length (db_assessments db') = Suc (length (db_assessments db))"
    "as_id (db_assessments db' ! length (db_assessments db)) = aid"
    "i < length (db_assessments db) \<Longrightarrow>
       as_superseded_by (db_assessments db' ! i) \<in> {as_superseded_by (db_assessments db ! i), Some aid}"
proof -
  have ids: "map as_id (db_assessments db') = map as_id (db_assessments db) @ [aid]"
    by (rule persist_ids [OF assms])
  then show l: "length (db_assessments db') = Suc (length (db_assessments db))"
    by (metis length_append_singleton length_map)
  show "as_id (db_assessments db' ! length (db_assessments db)) = aid"
    using ids l by (metis length_map lessI nth_append_length nth_map)
  show "as_superseded_by (db_assessments db' ! i) \<in> {as_superseded_by (db_assessments db ! i), Some aid}"
    if "i < length (db_assessments db)"
    using that persist_Inr(2) [OF assms] by (auto simp: nth_append split: option.splits if_splits)
qed

lemma persist_linked:
  assumes "fresh_ids gen db" "linked db" "persist gen now pa db = Inr (db', aid)"
  shows "linked db'"
proof -
  let ?rows = "db_assessments db" and ?rows' = "db_assessments db'"
  note n = persist_nth [OF assms(3)]
  have ids: "as_id (?rows' ! j) = as_id (?rows ! j)" if "j < length ?rows" for j
    using persist_ids [OF assms(3)] that n(1) by (metis length_map less_SucI nth_append nth_map)
  have last: "as_superseded_by (?rows' ! length ?rows) = None"
  proof -
    have "as_id r \<noteq> aid" if "prior_open db l k = Some r" for l k r
    proof -
      have "r \<in> set (filter (is_open l k) ?rows)"
        using that latest_by_Some(1) unfolding prior_open_def by fast
      then show ?thesis
        using fresh_id_new [OF assms(1)] persist_Inr(1) [OF assms(3)] by auto
    qed
    then show ?thesis
      using persist_Inr(1,2) [OF assms(3)] by (fastforce simp: nth_append split: option.splits)
  qed
  show ?thesis
    unfolding linked_def n(1)
  proof (intro allI impI)
    fix i s
    assume i: "i < Suc (length ?rows)" and s: "as_superseded_by (?rows' ! i) = Some s"
    then have lt: "i < length ?rows" using last by (metis less_SucE option.distinct(1))
    then consider "as_superseded_by (?rows ! i) = Some s" | "s = aid" using n(3) [OF lt] s by auto
    then show "\<exists>j > i. j < Suc (length ?rows) \<and> as_id (?rows' ! j) = s"
    proof cases
      case 1
      then obtain j where "i < j" "j < length ?rows" "as_id (?rows ! j) = s"
        using assms(2) lt by (auto simp: linked_def)
      then show ?thesis using ids [of j] by auto
    next
      case 2
      then show ?thesis using lt n(2) by blast
    qed
  qed
qed

lemma persist_open_inv:
  assumes "open_inv gen db" "persist gen now pa db = Inr (db', aid)"
  shows "open_inv gen db'"
proof -
  have "one_open db'"
    using assms(1) unfolding one_open_def persist_open_rows [OF assms]
    by (auto simp: open_inv_def one_open_def)
  then show ?thesis
    using assms persist_fresh persist_linked by (auto simp: open_inv_def)
qed

text \<open>
  Every conclusive assessment has a decisive citation, and every citation row names a clause of
  the corpus by its id and its path and quotes it; only an empty clause is quoted by nothing.
\<close>

definition quotes :: "string \<Rightarrow> clause_row \<Rightarrow> bool" where
  "quotes excerpt r \<longleftrightarrow>
     contains (normalise_ws excerpt) (normalise_ws (cl_text r)) \<and> (excerpt = [] \<longrightarrow> cl_text r = [])"

definition cite_inv :: "store \<Rightarrow> bool" where
  "cite_inv db \<longleftrightarrow>
     (\<forall>a \<in> set (db_assessments db). as_verdict a \<noteq> NoClauseFound \<longrightarrow>
        (\<exists>c \<in> set (db_citations db). ac_assessment c = as_id a \<and> ac_role c = Decisive)) \<and>
     (\<forall>c \<in> set (db_citations db). \<exists>r \<in> set (co_clauses (db_corpus db)).
        cl_id r = ac_clause c \<and> cl_path r = ac_path c \<and> quotes (ac_excerpt c) r)"

text \<open>What the callers of \<open>persist\<close> owe it.\<close>

definition admissible :: "store \<Rightarrow> persist_args \<Rightarrow> bool" where
  "admissible db pa \<longleftrightarrow>
     (ar_verdict (pa_result pa) \<noteq> NoClauseFound \<longrightarrow>
        (\<exists>c \<in> set (ar_citations (pa_result pa)). cit_role c = Decisive)) \<and>
     (\<forall>c \<in> set (ar_citations (pa_result pa)). \<forall>i. pa_clause_ids pa (cit_path c) = Some i \<longrightarrow>
        (\<exists>r \<in> set (co_clauses (db_corpus db)).
           cl_id r = i \<and> cl_path r = cit_path c \<and> quotes (cit_excerpt c) r))"

lemma persist_rows_results:
  assumes "persist gen now pa db = Inr (db', aid)" "a \<in> set (db_assessments db')"
  shows "(as_id a = aid \<and> as_result a = pa_result pa) \<or>
    (\<exists>a0 \<in> set (db_assessments db). as_id a = as_id a0 \<and> as_result a = as_result a0)"
proof -
  let ?f = "\<lambda>r. (as_id r, as_result r)"
  have eq: "map ?f (db_assessments db') = map ?f (db_assessments db) @ [(aid, pa_result pa)]"
    using persist_Inr(1,2) [OF assms(1)] by (auto simp: comp_def split: option.splits)
  have "?f a \<in> set (map ?f (db_assessments db'))" using assms(2) by simp
  then have "?f a \<in> set (map ?f (db_assessments db) @ [(aid, pa_result pa)])" by (simp only: eq)
  then show ?thesis by auto
qed

lemma persist_results:
  assumes "persist gen now pa db = Inr (db', aid)"
  shows "map as_result (db_assessments db') = map as_result (db_assessments db) @ [pa_result pa]"
  using persist_Inr(1,2) [OF assms] by (auto simp: comp_def split: option.splits)

lemma persist_citations:
  assumes "persist gen now pa db = Inr (db', aid)"
  shows "set (db_citations db) \<subseteq> set (db_citations db')"
    "c \<in> set (ar_citations (pa_result pa)) \<Longrightarrow>
       \<exists>n. citation_row_of gen aid (pa_clause_ids pa) n c \<in> set (db_citations db')"
    "x \<in> set (db_citations db') \<Longrightarrow> x \<in> set (db_citations db) \<or>
       (\<exists>n. \<exists>c \<in> set (ar_citations (pa_result pa)). x = citation_row_of gen aid (pa_clause_ids pa) n c)"
proof -
  let ?cs = "ar_citations (pa_result pa)" and ?u = "Suc (db_uuids db)"
  note p = persist_Inr(3) [OF assms]
  have zip: "(n, c) \<in> set (zip [?u..<?u + length ?cs] ?cs) \<Longrightarrow> c \<in> set ?cs" for n c
    by (rule set_zip_rightD)
  show "set (db_citations db) \<subseteq> set (db_citations db')" unfolding p by simp
  show "\<exists>n. citation_row_of gen aid (pa_clause_ids pa) n c \<in> set (db_citations db')"
    if c: "c \<in> set ?cs"
  proof -
    obtain i where "i < length ?cs" "?cs ! i = c" using c by (auto simp: in_set_conv_nth)
    then have "(?u + i, c) \<in> set (zip [?u..<?u + length ?cs] ?cs)"
      by (auto simp: set_zip simp del: upt_Suc intro!: exI [of _ i])
    then show ?thesis unfolding p by (intro exI [of _ "?u + i"]) force
  qed
  show "x \<in> set (db_citations db) \<or>
       (\<exists>n. \<exists>c \<in> set ?cs. x = citation_row_of gen aid (pa_clause_ids pa) n c)"
    if "x \<in> set (db_citations db')"
    using that zip unfolding p by fastforce
qed

lemma persist_cite_inv:
  assumes "cite_inv db" "admissible db pa" "persist gen now pa db = Inr (db', aid)"
  shows "cite_inv db'"
proof -
  note p = persist_Inr [OF assms(3)] and cits = persist_citations [OF assms(3)]
  have row: "ac_assessment (citation_row_of gen aid ids n c) = aid"
    "ac_role (citation_row_of gen aid ids n c) = cit_role c"
    "ac_path (citation_row_of gen aid ids n c) = cit_path c"
    "ac_clause (citation_row_of gen aid ids n c) = the (ids (cit_path c))"
    "ac_excerpt (citation_row_of gen aid ids n c) = cit_excerpt c" for ids n c
    by (simp_all add: citation_row_of_def)
  have "\<exists>c \<in> set (db_citations db'). ac_assessment c = as_id a \<and> ac_role c = Decisive"
    if a: "a \<in> set (db_assessments db')" "as_verdict a \<noteq> NoClauseFound" for a
    using persist_rows_results [OF assms(3) a(1)]
  proof
    assume "as_id a = aid \<and> as_result a = pa_result pa"
    moreover from this obtain c where "c \<in> set (ar_citations (pa_result pa))" "cit_role c = Decisive"
      using a(2) assms(2) by (auto simp: admissible_def as_verdict_def)
    ultimately show ?thesis using cits(2) row by metis
  next
    assume "\<exists>a0 \<in> set (db_assessments db). as_id a = as_id a0 \<and> as_result a = as_result a0"
    then show ?thesis
      using assms(1) a(2) cits(1) unfolding cite_inv_def as_verdict_def by (metis subsetD)
  qed
  moreover have "\<exists>r \<in> set (co_clauses (db_corpus db')). cl_id r = ac_clause x \<and>
      cl_path r = ac_path x \<and> quotes (ac_excerpt x) r"
    if "x \<in> set (db_citations db')" for x
    using cits(3) [OF that]
  proof
    assume "x \<in> set (db_citations db)"
    then show ?thesis using assms(1) by (simp add: cite_inv_def p(6))
  next
    assume "\<exists>n. \<exists>c \<in> set (ar_citations (pa_result pa)). x = citation_row_of gen aid (pa_clause_ids pa) n c"
    then obtain n c where c: "c \<in> set (ar_citations (pa_result pa))"
        "x = citation_row_of gen aid (pa_clause_ids pa) n c" by blast
    moreover obtain i where "pa_clause_ids pa (cit_path c) = Some i" using p(10) c(1) by blast
    ultimately show ?thesis using assms(2) by (simp add: admissible_def row p(6))
  qed
  ultimately show ?thesis unfolding cite_inv_def by blast
qed

section \<open>The interface to the client\<close>

text \<open>
  An invariant of the store that both writers keep. What is proved of the assessment pipeline
  for every such invariant holds for each instance below. \<open>mode\<close> says which runs it is an
  invariant of, by their \<open>is_whatif\<close>, tenant and account; the compliance state is recomputed in real
  runs only.
\<close>

locale store_invariant =
  fixes gen :: "nat \<Rightarrow> uuid" and mode :: "bool \<Rightarrow> uuid \<Rightarrow> uuid \<Rightarrow> bool" and I :: "store \<Rightarrow> bool"
  assumes persist_keeps: "mode (pa_is_whatif pa) (pa_tenant pa) (pa_loan pa) \<Longrightarrow> I db \<Longrightarrow> admissible db pa \<Longrightarrow>
      persist gen now pa db = Inr (db', aid) \<Longrightarrow> I db'"
    and recompute_keeps: "mode False tenant loan \<Longrightarrow> I db \<Longrightarrow>
      I (recompute_loan_compliance_state now tenant loan snap db)"

lemma recompute_simps [simp]:
  "db_assessments (recompute_loan_compliance_state now t l s db) = db_assessments db"
  "db_citations (recompute_loan_compliance_state now t l s db) = db_citations db"
  "db_corpus (recompute_loan_compliance_state now t l s db) = db_corpus db"
  "db_facts (recompute_loan_compliance_state now t l s db) = db_facts db"
  "db_conflicts (recompute_loan_compliance_state now t l s db) = db_conflicts db"
  "db_documents (recompute_loan_compliance_state now t l s db) = db_documents db"
  "db_uuids (recompute_loan_compliance_state now t l s db) = db_uuids db"
  by (simp_all add: recompute_loan_compliance_state_def Let_def)

interpretation open_rows: store_invariant gen "\<lambda>_ _ _. True" "open_inv gen" for gen
proof
  show "open_inv gen db'" if "open_inv gen db" "persist gen now pa db = Inr (db', aid)" for db now pa db' aid
    using that by (rule persist_open_inv)
qed (simp add: open_inv_def fresh_ids_def one_open_def linked_def)

interpretation cited_rows: store_invariant gen "\<lambda>_ _ _. True" cite_inv for gen
proof
  show "cite_inv db'" if "cite_inv db" "admissible db pa" "persist gen now pa db = Inr (db', aid)"
    for db now pa db' aid
    using that by (rule persist_cite_inv)
qed (simp add: cite_inv_def)

interpretation inputs_fixed: store_invariant gen "\<lambda>_ _ _. True"
  "\<lambda>db. db_corpus db = co \<and> db_facts db = fs" for gen co fs
  by unfold_locales (use persist_Inr(5,6) in auto)

text \<open>What a what-if run leaves as it was: the open assessments and the compliance states.\<close>

definition standing :: "store \<Rightarrow> (uuid \<Rightarrow> string \<Rightarrow> assessment_row list) \<times> (uuid \<rightharpoonup> compliance_state)" where
  "standing db = (\<lambda>loan key. filter (is_open loan key) (db_assessments db), db_states db)"

interpretation whatif_frame: store_invariant gen "\<lambda>whatif _ _. whatif"
  "\<lambda>db. open_inv gen db \<and> standing db = st" for gen st
proof
  show "open_inv gen db' \<and> standing db' = st"
    if "pa_is_whatif pa" "open_inv gen db \<and> standing db = st"
      "persist gen now pa db = Inr (db', aid)" for db now pa db' aid
    using that persist_open_inv [of gen db now pa db' aid] persist_open_rows [of gen db now pa db' aid]
      persist_Inr(4) [OF that(3)]
    by (auto simp: standing_def fun_eq_iff)
qed simp

text \<open>
  The rows of everyone but one account of one tenant. An assessment of that account leaves them as they
  were: rows it updates or refers to are the account's own, since ids are not shared.
\<close>

definition ids_of_loan :: "uuid \<Rightarrow> store \<Rightarrow> uuid set" where
  "ids_of_loan loan db = as_id ` {a \<in> set (db_assessments db). as_loan a = loan}"

definition elsewhere :: "uuid \<Rightarrow> uuid \<Rightarrow> store \<Rightarrow>
    assessment_row list \<times> citation_row list \<times> audit_row list \<times> (uuid \<rightharpoonup> compliance_state)" where
  "elsewhere tenant loan db =
     (filter (\<lambda>a. as_loan a \<noteq> loan) (db_assessments db),
      filter (\<lambda>c. ac_assessment c \<notin> ids_of_loan loan db) (db_citations db),
      filter (\<lambda>a. au_tenant a \<noteq> tenant) (db_audit db),
      (db_states db)(loan := None))"

definition ids_inv :: "(nat \<Rightarrow> uuid) \<Rightarrow> store \<Rightarrow> bool" where
  "ids_inv gen db \<longleftrightarrow> fresh_ids gen db \<and> ac_assessment ` set (db_citations db) \<subseteq> as_id ` set (db_assessments db)"

lemma persist_audit:
  assumes "persist gen now pa db = Inr (db', aid)"
  shows "filter (\<lambda>a. au_tenant a \<noteq> pa_tenant pa) (db_audit db') = filter (\<lambda>a. au_tenant a \<noteq> pa_tenant pa) (db_audit db)"
proof -
  let ?out = "\<lambda>db. filter (\<lambda>a. au_tenant a \<noteq> pa_tenant pa) (db_audit db)"
  have rejected: "?out (insert_rejected gen aid pa rs db) = ?out db" for aid rs db
    by (induction gen aid pa rs db rule: insert_rejected.induct) simp_all
  obtain db1 where "insert_citations gen (gen (db_uuids db)) (pa_clause_ids pa) (ar_citations (pa_result pa))
      (insert_assessment gen now pa db) = Inr db1"
    and db': "db_audit db' = db_audit (insert_rejected gen (gen (db_uuids db)) pa (pa_rejected pa) db1)"
    using assms by (auto simp: persist_def Let_def ebind_Inr_iff supersede_def split: option.splits if_splits)
  from insert_citations_Inr [OF this(1)] have "db_audit db1 = db_audit db"
    by (auto simp: insert_assessment_def Let_def)
  then show ?thesis using rejected [of "gen (db_uuids db)" "pa_rejected pa" db1] by (simp add: db')
qed

lemma persist_elsewhere:
  assumes "ids_inv gen db" "persist gen now pa db = Inr (db', aid)"
  shows "ids_inv gen db' \<and> elsewhere (pa_tenant pa) (pa_loan pa) db' = elsewhere (pa_tenant pa) (pa_loan pa) db"
proof -
  note p = persist_Inr [OF assms(2)]
  let ?l = "pa_loan pa" and ?key = "ar_check_key (pa_result pa)" and ?new = "new_assessment now aid pa"
  have fresh: "fresh_ids gen db" and refs: "ac_assessment ` set (db_citations db) \<subseteq> as_id ` set (db_assessments db)"
    using assms(1) by (simp_all add: ids_inv_def)
  have aid: "aid \<notin> as_id ` set (db_assessments db)" using fresh_id_new [OF fresh] p(1) by force
  have ids: "as_id ` set (db_assessments db') = insert aid (as_id ` set (db_assessments db))"
    using arg_cong [OF persist_ids [OF assms(2)], of set] by simp
  have rows: "filter (\<lambda>a. as_loan a \<noteq> ?l) (db_assessments db') = filter (\<lambda>a. as_loan a \<noteq> ?l) (db_assessments db)
      \<and> map (\<lambda>a. (as_id a, as_loan a)) (db_assessments db')
        = map (\<lambda>a. (as_id a, as_loan a)) (db_assessments db) @ [(aid, ?l)]"
  proof (cases "prior_open db ?l ?key")
    case None
    then show ?thesis using p(1,2) by simp
  next
    case (Some r)
    have r: "r \<in> set (db_assessments db)" "as_loan r = ?l"
      using latest_by_Some(1) [of as_created "filter (is_open ?l ?key) (db_assessments db)" r] Some
      by (simp_all add: prior_open_def is_open_def)
    have same: "x = r" if "x \<in> set (db_assessments db)" "as_id x = as_id r" for x
      using fresh that r(1) unfolding fresh_ids_def distinct_map by (metis inj_onD)
    have loan: "as_loan x = ?l" if "x \<in> set (db_assessments db @ [?new])" "as_id x = as_id r" for x
      using that same r by auto
    have "filter (\<lambda>a. as_loan a \<noteq> ?l) (map (\<lambda>x. if as_id x = as_id r then x\<lparr>as_superseded_by := Some aid\<rparr> else x)
        (db_assessments db @ [?new])) = filter (\<lambda>a. as_loan a \<noteq> ?l) (db_assessments db @ [?new])"
      by (rule filter_superseded) (use loan in auto)
    then show ?thesis using Some p(1,2) by (auto simp: comp_def)
  qed
  have own: "ids_of_loan ?l db' = insert aid (ids_of_loan ?l db)"
  proof -
    have view: "ids_of_loan ?l x = fst ` {q \<in> set (map (\<lambda>a. (as_id a, as_loan a)) (db_assessments x)). snd q = ?l}" for x
      by (force simp: ids_of_loan_def)
    show ?thesis unfolding view conjunct2 [OF rows] by force
  qed
  have new: "ac_assessment x = aid"
    if "x \<in> set (map (\<lambda>(n, c). citation_row_of gen aid (pa_clause_ids pa) n c) zs)" for x zs
    using that by (auto simp: citation_row_of_def)
  have cits: "filter (\<lambda>c. ac_assessment c \<notin> ids_of_loan ?l db') (db_citations db')
      = filter (\<lambda>c. ac_assessment c \<notin> ids_of_loan ?l db) (db_citations db)"
  proof -
    have "filter (\<lambda>c. ac_assessment c \<notin> ids_of_loan ?l db') (db_citations db)
        = filter (\<lambda>c. ac_assessment c \<notin> ids_of_loan ?l db) (db_citations db)"
      by (rule filter_cong) (use refs aid own in auto)
    moreover have "filter (\<lambda>c. ac_assessment c \<notin> ids_of_loan ?l db')
        (map (\<lambda>(n, c). citation_row_of gen aid (pa_clause_ids pa) n c) zs) = []" for zs
      using new own by (auto simp: filter_empty_conv)
    ultimately show ?thesis unfolding p(3) by simp
  qed
  have "ac_assessment ` set (db_citations db') \<subseteq> as_id ` set (db_assessments db')"
    using refs unfolding ids p(3) by (auto simp: citation_row_of_def simp del: upt_Suc)
  then show ?thesis
    using persist_fresh [OF fresh assms(2)] rows cits persist_audit [OF assms(2)] p(4)
    by (simp add: ids_inv_def elsewhere_def)
qed

interpretation other_accounts: store_invariant gen "\<lambda>_ t l. t = tenant \<and> l = loan"
  "\<lambda>db. ids_inv gen db \<and> elsewhere tenant loan db = x" for gen tenant loan x
proof
  show "ids_inv gen (recompute_loan_compliance_state now t l snap db) \<and>
      elsewhere tenant loan (recompute_loan_compliance_state now t l snap db) = x"
    if "t = tenant \<and> l = loan" "ids_inv gen db \<and> elsewhere tenant loan db = x" for now t l snap db
    using that
    by (auto simp: ids_inv_def fresh_ids_def elsewhere_def ids_of_loan_def recompute_loan_compliance_state_def Let_def)
qed (use persist_elsewhere in auto)

text \<open>Neither writer touches the conflicts or the documents.\<close>

interpretation conflicts_fixed: store_invariant gen "\<lambda>_ _ _. True"
  "\<lambda>db. db_conflicts db = cs \<and> db_documents db = ds" for gen cs ds
  by unfold_locales (use persist_Inr(7,8) in auto)

section \<open>The compliance state\<close>

lemma set_dedupe [simp]: "set (dedupe xs) = set xs"
  by (induction xs rule: dedupe.induct) auto

lemma distinct_dedupe [simp]: "distinct (dedupe xs)"
  by (induction xs rule: dedupe.induct) auto

lemma length_dedupe: "length (dedupe xs) = card (set xs)"
  by (metis distinct_card distinct_dedupe set_dedupe)

lemma grouped_count:
  assumes "distinct ps" "f ` set rows \<subseteq> set ps"
  shows "(\<Sum>p\<leftarrow>ps. if Q p then length (filter (\<lambda>r. f r = p) rows) else 0) =
    length (filter (\<lambda>r. Q (f r)) rows)"
  using assms(2)
proof (induction rows)
  case Nil
  then show ?case by (simp add: sum_list_distinct_conv_sum_set [OF assms(1)])
next
  case (Cons r rows)
  have "(\<Sum>p\<leftarrow>ps. if Q p then length (filter (\<lambda>r. f r = p) (r # rows)) else 0) =
      (\<Sum>p\<leftarrow>ps. (if Q p then length (filter (\<lambda>r. f r = p) rows) else 0) +
        (if p = f r then (if Q (f r) then 1 else 0) else 0))"
    by (rule arg_cong [where f = sum_list]) auto
  also have "\<dots> = length (filter (\<lambda>r. Q (f r)) rows) + (if Q (f r) then 1 else 0)"
    using Cons by (simp add: sum_list_addf sum_list_distinct_conv_sum_set [OF assms(1)])
  finally show ?case by simp
qed

lemma tally_fold:
  "tl_violations (fold tally_row rows t) =
     tl_violations t + (\<Sum>(v, s, n)\<leftarrow>rows. if v = Violation then n else 0)"
  "tl_ambiguous (fold tally_row rows t) =
     tl_ambiguous t + (\<Sum>(v, s, n)\<leftarrow>rows. if v = Ambiguous then n else 0)"
  "tl_no_clause (fold tally_row rows t) =
     tl_no_clause t + (\<Sum>(v, s, n)\<leftarrow>rows. if v = NoClauseFound then n else 0)"
  by (induction rows arbitrary: t) (auto simp: Let_def)

definition rank_of :: "severity option \<Rightarrow> nat" where
  "rank_of h = (case h of None \<Rightarrow> 0 | Some s \<Rightarrow> SEVERITY_RANK s)"

lemma SEVERITY_RANK_pos [simp]: "SEVERITY_RANK s \<noteq> 0"
  by (cases s) simp_all

lemma tally_highest_row:
  "tl_highest (tally_row (v, s, n) t) = (if rank_of (tl_highest t) < SEVERITY_RANK s then Some s
     else tl_highest t)"
  by (simp add: Let_def rank_of_def)

lemma tally_highest:
  fixes rows t
  defines "h \<equiv> tl_highest (fold tally_row rows t)"
  shows "h = tl_highest t \<or> h \<in> (\<lambda>(v, s, n). Some s) ` set rows"
    "rank_of (tl_highest t) \<le> rank_of h"
    "(v, s, n) \<in> set rows \<Longrightarrow> SEVERITY_RANK s \<le> rank_of h"
proof -
  have "(h = tl_highest t \<or> h \<in> (\<lambda>(v, s, n). Some s) ` set rows) \<and> rank_of (tl_highest t) \<le> rank_of h \<and>
      (\<forall>(v, s, n) \<in> set rows. SEVERITY_RANK s \<le> rank_of h)"
    unfolding h_def
  proof (induction rows arbitrary: t)
    case (Cons row rows)
    obtain v s n where row: "row = (v, s, n)" by (cases row) auto
    let ?t = "tally_row row t"
    have t: "rank_of (tl_highest t) \<le> rank_of (tl_highest ?t)"
      "SEVERITY_RANK s \<le> rank_of (tl_highest ?t)" "tl_highest ?t \<in> {tl_highest t, Some s}"
      unfolding row tally_highest_row by (auto simp: rank_of_def)
    note IH = Cons.IH [of ?t]
    show ?case using IH t row by (auto simp del: tally_row.simps intro: le_trans)
  qed simp
  then show "h = tl_highest t \<or> h \<in> (\<lambda>(v, s, n). Some s) ` set rows"
    "rank_of (tl_highest t) \<le> rank_of h"
    "(v, s, n) \<in> set rows \<Longrightarrow> SEVERITY_RANK s \<le> rank_of h" by auto
qed

lemma open_counts_sum:
  "(\<Sum>(v, s, n)\<leftarrow>open_counts db tenant loan. if v = w then n else 0) =
     length (filter (\<lambda>r. as_verdict r = w) (counted_rows db tenant loan))"
proof -
  let ?rows = "counted_rows db tenant loan" and ?f = "\<lambda>r. (as_verdict r, as_severity r)"
  have "(\<Sum>(v, s, n)\<leftarrow>open_counts db tenant loan. if v = w then n else 0) =
      (\<Sum>p\<leftarrow>dedupe (map ?f ?rows). if fst p = w then length (filter (\<lambda>r. ?f r = p) ?rows) else 0)"
    unfolding open_counts_def Let_def map_map
    by (rule arg_cong [where f = sum_list], rule map_cong) (auto simp: case_prod_unfold)
  also have "\<dots> = length (filter (\<lambda>r. fst (?f r) = w) ?rows)"
    by (rule grouped_count) auto
  finally show ?thesis by simp
qed

lemma open_counts_severities:
  "(\<lambda>(v, s, n). s) ` set (open_counts db tenant loan) = as_severity ` set (counted_rows db tenant loan)"
  by (force simp: open_counts_def Let_def image_image)

text \<open>
  C4: The compliance state says what is open: after a recomputation the three counters are the
  numbers of open violations, ambiguities and abstentions among the real, citable assessments of
  the account, the highest severity is a maximal one among these rows whatever order the groups
  come in (none exactly when there are no such rows), \<open>checks_run\<close> counts the checks with an open
  real assessment, and the version grows by one.
\<close>

theorem recomputed_state:
  fixes now tenant loan snap db
  defines "rows \<equiv> counted_rows db tenant loan"
  shows "\<exists>s. db_states (recompute_loan_compliance_state now tenant loan snap db) loan = Some s \<and>
    lc_open_violations s = length (filter (\<lambda>r. as_verdict r = Violation) rows) \<and>
    lc_open_ambiguous s = length (filter (\<lambda>r. as_verdict r = Ambiguous) rows) \<and>
    lc_open_no_clause s = length (filter (\<lambda>r. as_verdict r = NoClauseFound) rows) \<and>
    (lc_highest_severity s = None \<longleftrightarrow> rows = []) \<and>
    (\<forall>h. lc_highest_severity s = Some h \<longrightarrow>
       (\<exists>r \<in> set rows. as_severity r = h) \<and>
       (\<forall>r \<in> set rows. SEVERITY_RANK (as_severity r) \<le> SEVERITY_RANK h)) \<and>
    lc_checks_run s = card (as_check_key ` {r \<in> set (db_assessments db).
       as_tenant r = tenant \<and> as_loan r = loan \<and> as_superseded_by r = None \<and> \<not> as_is_whatif r}) \<and>
    lc_version s = (case db_states db loan of None \<Rightarrow> 1 | Some old \<Rightarrow> Suc (lc_version old))"
proof -
  let ?t = "tally_rows (open_counts db tenant loan)"
  let ?init = "\<lparr>tl_violations = 0, tl_ambiguous = 0, tl_no_clause = 0, tl_highest = None\<rparr>"
  define h where "h = tl_highest ?t"
  have hdef: "h = tl_highest (fold tally_row (open_counts db tenant loan) ?init)"
    by (simp add: h_def tally_rows_def)
  have counts: "tl_violations ?t = length (filter (\<lambda>r. as_verdict r = Violation) rows)"
    "tl_ambiguous ?t = length (filter (\<lambda>r. as_verdict r = Ambiguous) rows)"
    "tl_no_clause ?t = length (filter (\<lambda>r. as_verdict r = NoClauseFound) rows)"
    by (simp_all add: tally_rows_def tally_fold open_counts_sum rows_def)
  have top: "SEVERITY_RANK (as_severity r) \<le> rank_of h" if "r \<in> set rows" for r
  proof -
    have "as_severity r \<in> (\<lambda>(v, s, n). s) ` set (open_counts db tenant loan)"
      using that by (simp add: open_counts_severities rows_def)
    then show ?thesis using tally_highest(3) [of _ _ _ "open_counts db tenant loan" ?init]
      by (auto simp: hdef)
  qed
  have some: "\<exists>r \<in> set rows. h = Some (as_severity r)" if "h \<noteq> None"
  proof -
    have "h \<in> (\<lambda>(v, s, n). Some s) ` set (open_counts db tenant loan)"
      using tally_highest(1) [of "open_counts db tenant loan" ?init] that
      unfolding hdef [symmetric] by simp
    then obtain s where "h = Some s" "s \<in> (\<lambda>(v, s, n). s) ` set (open_counts db tenant loan)"
      by force
    then show ?thesis by (auto simp: open_counts_severities rows_def)
  qed
  have none: "h = None \<longleftrightarrow> rows = []"
  proof
    assume "h = None"
    then show "rows = []" using top [of "hd rows"] by (cases rows) (simp_all add: rank_of_def)
  qed (use some in \<open>cases h; simp\<close>)
  have checks: "checks_run db tenant loan = card (as_check_key ` {r \<in> set (db_assessments db).
       as_tenant r = tenant \<and> as_loan r = loan \<and> as_superseded_by r = None \<and> \<not> as_is_whatif r})"
    by (simp add: checks_run_def length_dedupe)
  show ?thesis
    using counts none some top checks
    by (auto simp: recompute_loan_compliance_state_def Let_def h_def [symmetric] rank_of_def
        split: option.splits)
qed

section \<open>Examples and properties\<close>

definition sample_result :: "verdict \<Rightarrow> severity \<Rightarrow> assessment_result" where
  "sample_result v s =
     \<lparr>ar_check_key = ''R01_docs_release_30d'', ar_field_key = Some ''full_repayment_date'',
      ar_event_date = Date 2026 1 1, ar_verdict = v, ar_severity = s, ar_confidence = High,
      ar_rationale = [], ar_decided_by = ByRule, ar_rule_id = Some ''R01_docs_release_30d'',
      ar_is_shadow = False, ar_is_whatif = False, ar_citations = [],
      ar_telemetry = empty_telemetry, ar_snapshot_id = 1, ar_candidate_count = 0\<rparr>"

definition sample_args :: "verdict \<Rightarrow> severity \<Rightarrow> persist_args" where
  "sample_args v s =
     \<lparr>pa_tenant = 7, pa_loan = 1, pa_document = None, pa_result = sample_result v s,
      pa_clause_ids = Map.empty, pa_is_whatif = False, pa_serving_mode = ''hosted_baseline'',
      pa_request_id = ''r'', pa_rejected = []\<rparr>"

text \<open>A store with one open assessment of the check, a compliant one.\<close>

definition sample_store :: store where
  "sample_store =
     \<lparr>db_documents = [], db_facts = [], db_corpus = sample_corpus,
      db_assessments = [new_assessment 5 0 (sample_args Compliant Critical)], db_citations = [],
      db_audit = [], db_conflicts = [], db_states = Map.empty, db_uuids = 1, db_metrics = []\<rparr>"

lemma sample_store_inv: "open_inv (\<lambda>n. n) sample_store"
  by (auto simp: open_inv_def fresh_ids_def one_open_def linked_def sample_store_def)

text \<open>
  C3: History is kept and never doubled. From a store in which every check has at most one open
  real assessment, \<open>_persist\<close> leads to such a store again; a real run makes its own row the open
  one of its check and closes the previous one by a link to it, a what-if run opens and closes
  nothing, and no run touches the open assessment of another check or account.
\<close>

theorem persist_history:
  assumes "open_inv gen db" "persist gen now pa db = Inr (db', aid)"
  shows "open_inv gen db' \<and>
    (\<forall>loan key. filter (is_open loan key) (db_assessments db') =
       (if \<not> pa_is_whatif pa \<and> loan = pa_loan pa \<and> key = ar_check_key (pa_result pa)
        then [new_assessment now aid pa] else filter (is_open loan key) (db_assessments db)))"
  using persist_open_inv [OF assms] persist_open_rows [OF assms] by blast

theorem persist_history_witness:
  "\<exists>db' aid. persist (\<lambda>n. n) 6 (sample_args Violation Critical) sample_store = Inr (db', aid) \<and>
     open_inv (\<lambda>n. n) db' \<and>
     filter (is_open 1 ''R01_docs_release_30d'') (db_assessments db') =
       [new_assessment 6 aid (sample_args Violation Critical)]"
proof -
  have "\<forall>c \<in> set (ar_citations (pa_result (sample_args Violation Critical))).
      pa_clause_ids (sample_args Violation Critical) (cit_path c) \<noteq> None"
    by (simp add: sample_args_def sample_result_def)
  then obtain db' aid where
    p: "persist (\<lambda>n. n) 6 (sample_args Violation Critical) sample_store = Inr (db', aid)"
    using persist_succeeds by blast
  show ?thesis
    using persist_history [OF sample_store_inv p] p
    by (auto simp: sample_args_def sample_result_def)
qed

theorem recomputed_state_witness:
  "\<exists>s. db_states (recompute_loan_compliance_state 9 7 1 1 sample_store) 1 = Some s \<and>
     lc_open_violations s = 0 \<and> lc_version s = 1"
proof -
  have "counted_rows sample_store 7 1 = [new_assessment 5 0 (sample_args Compliant Critical)]"
    by (simp add: counted_rows_def sample_store_def sample_args_def sample_result_def as_is_shadow_def)
  moreover have "as_verdict (new_assessment 5 0 (sample_args Compliant Critical)) = Compliant"
    by (simp add: as_verdict_def sample_args_def sample_result_def)
  moreover have "db_states sample_store 1 = None" by (simp add: sample_store_def)
  ultimately show ?thesis
    using recomputed_state [where now = 9 and tenant = 7 and loan = 1 and snap = 1 and db = sample_store]
    by auto
qed

text \<open>An account whose only open assessment is compliant is shown at the highest severity.\<close>

lemma compliant_account_shows_critical:
  "\<exists>s. db_states (recompute_loan_compliance_state 9 7 1 1 sample_store) 1 = Some s \<and>
     lc_open_violations s = 0 \<and> lc_open_ambiguous s = 0 \<and> lc_open_no_clause s = 0 \<and>
     lc_highest_severity s = Some Critical"
  by (simp add: recompute_loan_compliance_state_def open_counts_def counted_rows_def tally_rows_def
      sample_store_def sample_args_def sample_result_def as_is_shadow_def as_verdict_def
      as_severity_def Let_def)

end
