(* ===== verification/CC_Schema.thy ===== *)
theory CC_Schema
  imports CC_Domain
begin

text \<open>
  The field registry, \<open>src/app/schema/registry.py\<close>: loading, lookup and validation of the field
  declarations. YAML parsing is library code, so the loader starts from the list of parsed
  entries. No code of the program reads the value of a normalisation directive, so
  \<open>normalisation\<close> is the list of the directives' names. A validation error is a value of
  \<open>schema_error\<close>; the wording of its message is not modelled.
\<close>

section \<open>Field specifications\<close>

record field_spec =
  fs_key :: string
  fs_label :: string
  fs_type :: string
  fs_doc_types :: "string list"
  fs_lifecycle_stage :: string
  fs_required_for :: "string list"
  fs_enum_values :: "string list option"
  fs_redaction_exempt :: bool
  fs_normalisation :: "string list"
  fs_description :: string

definition value_types :: "string list" where
  "value_types =
     [''date'', ''datetime'', ''time'', ''money'', ''rate_bps'', ''integer'', ''duration_days'',
      ''boolean'', ''enum'', ''string'']"

definition KNOWN_NORMALISATION_DIRECTIVES :: "string list" where
  "KNOWN_NORMALISATION_DIRECTIVES =
     [''unit'', ''max'', ''formats'', ''prefer'', ''timezone'', ''assume_local'']"

record field_registry =
  fg_fields :: "(string \<times> field_spec) list"
  fg_duplicate_keys :: "string list"

definition add_field :: "field_spec \<Rightarrow> field_registry \<Rightarrow> field_registry" where
  "add_field spec reg =
     (let dups = (if map_of (fg_fields reg) (fs_key spec) \<noteq> None
                  then fg_duplicate_keys reg @ [fs_key spec] else fg_duplicate_keys reg)
      in reg\<lparr>fg_fields := alist_put (fs_key spec) spec (fg_fields reg), fg_duplicate_keys := dups\<rparr>)"

definition load_fields :: "field_spec list \<Rightarrow> field_registry" where
  "load_fields specs = fold add_field specs \<lparr>fg_fields = [], fg_duplicate_keys = []\<rparr>"

definition field_get :: "field_registry \<Rightarrow> string \<Rightarrow> field_spec res" where
  "field_get reg k =
     (case map_of (fg_fields reg) k of None \<Rightarrow> Inl (KeyError k) | Some spec \<Rightarrow> Inr spec)"

definition for_doc_type :: "field_registry \<Rightarrow> string \<Rightarrow> field_spec list" where
  "for_doc_type reg dt = filter (\<lambda>f. dt \<in> set (fs_doc_types f)) (map snd (fg_fields reg))"

definition required_for :: "field_registry \<Rightarrow> string \<Rightarrow> string list" where
  "required_for reg dt = map fs_key (filter (\<lambda>f. dt \<in> set (fs_required_for f)) (map snd (fg_fields reg)))"

definition all_keys :: "field_registry \<Rightarrow> string set" where
  "all_keys reg = set (map fst (fg_fields reg))"

section \<open>Validation\<close>

datatype schema_error =
    DuplicateKey string
  | EnumWithoutValues string
  | UnknownValueType string string
  | UnknownDocType string string
  | RequiredForAbsent string string
  | UnknownDirectives string "string set"

definition field_errors :: "string \<Rightarrow> field_spec \<Rightarrow> schema_error list" where
  "field_errors key spec =
     (if fs_type spec = ''enum'' \<and> (case fs_enum_values spec of None \<Rightarrow> True | Some vs \<Rightarrow> vs = [])
      then [EnumWithoutValues key] else [])
     @ (if fs_type spec \<notin> set value_types then [UnknownValueType key (fs_type spec)] else [])
     @ map (UnknownDocType key) (filter (\<lambda>dt. dt \<notin> set doc_types) (fs_doc_types spec))
     @ map (RequiredForAbsent key) (filter (\<lambda>dt. dt \<notin> set (fs_doc_types spec)) (fs_required_for spec))
     @ (let unknown = set (fs_normalisation spec) - set KNOWN_NORMALISATION_DIRECTIVES
        in if unknown \<noteq> {} then [UnknownDirectives key unknown] else [])"

definition registry_errors :: "field_registry \<Rightarrow> schema_error list" where
  "registry_errors reg =
     map DuplicateKey (fg_duplicate_keys reg)
     @ concat (map (\<lambda>(key, spec). field_errors key spec) (fg_fields reg))"

text \<open>\<open>validate\<close> and \<open>validate_external_references\<close>: \<open>Inl\<close> carries what the error names.\<close>

definition validate_registry :: "field_registry \<Rightarrow> schema_error list + unit" where
  "validate_registry reg = (let errors = registry_errors reg in if errors \<noteq> [] then Inl errors else Inr ())"

definition validate_external_references :: "field_registry \<Rightarrow> string set \<Rightarrow> string set + unit" where
  "validate_external_references reg referenced =
     (let unknown = referenced - all_keys reg in if unknown \<noteq> {} then Inl unknown else Inr ())"

section \<open>What loading and validation guarantee\<close>

definition well_declared :: "field_spec \<Rightarrow> bool" where
  "well_declared s \<longleftrightarrow>
     fs_type s \<in> set value_types \<and>
     (fs_type s = ''enum'' \<longrightarrow> (\<exists>v vs. fs_enum_values s = Some (v # vs))) \<and>
     set (fs_doc_types s) \<subseteq> set doc_types \<and> set (fs_required_for s) \<subseteq> set (fs_doc_types s) \<and>
     set (fs_normalisation s) \<subseteq> set KNOWN_NORMALISATION_DIRECTIVES"

lemma field_errors_Nil_iff: "field_errors key s = [] \<longleftrightarrow> well_declared s"
  by (auto simp: field_errors_def well_declared_def Let_def filter_empty_conv neq_Nil_conv
      split: option.splits)

lemma load_distinct:
  assumes "distinct (map fs_key specs)" "fs_key ` set specs \<inter> fst ` set (fg_fields reg) = {}"
  shows "fold add_field specs reg =
    reg\<lparr>fg_fields := fg_fields reg @ map (\<lambda>s. (fs_key s, s)) specs\<rparr>"
  using assms
proof (induction specs arbitrary: reg)
  case (Cons s specs)
  have new: "fs_key s \<notin> fst ` set (fg_fields reg)" using Cons.prems by auto
  then have "map_of (fg_fields reg) (fs_key s) = None" by (simp add: map_of_eq_None_iff)
  moreover have "alist_put (fs_key s) s (fg_fields reg) = fg_fields reg @ [(fs_key s, s)]"
    using new by (rule alist_put_new)
  ultimately show ?case
    using Cons.prems Cons.IH [of "reg\<lparr>fg_fields := fg_fields reg @ [(fs_key s, s)]\<rparr>"]
    by (simp add: add_field_def Let_def)
qed simp

lemma load_keeps_duplicates: "fg_duplicate_keys reg \<noteq> [] \<Longrightarrow> fg_duplicate_keys (fold add_field specs reg) \<noteq> []"
  by (induction specs arbitrary: reg) (simp_all add: add_field_def Let_def)

lemma load_duplicates:
  assumes "\<not> (distinct (map fs_key specs) \<and> fs_key ` set specs \<inter> fst ` set (fg_fields reg) = {})"
  shows "fg_duplicate_keys (fold add_field specs reg) \<noteq> []"
  using assms
proof (induction specs arbitrary: reg)
  case (Cons s specs)
  show ?case
  proof (cases "map_of (fg_fields reg) (fs_key s) = None")
    case True
    then have "\<not> (distinct (map fs_key specs) \<and>
        fs_key ` set specs \<inter> fst ` set (fg_fields (add_field s reg)) = {})"
      using Cons.prems by (auto simp: add_field_def Let_def set_keys_alist_put map_of_eq_None_iff)
    then show ?thesis using Cons.IH by simp
  next
    case False
    then have "fg_duplicate_keys (add_field s reg) \<noteq> []" by (simp add: add_field_def Let_def)
    then show ?thesis using load_keeps_duplicates by simp
  qed
qed simp

lemma load_fields_distinct:
  assumes "distinct (map fs_key specs)"
  shows "load_fields specs = \<lparr>fg_fields = map (\<lambda>s. (fs_key s, s)) specs, fg_duplicate_keys = []\<rparr>"
  using load_distinct [OF assms, of "\<lparr>fg_fields = [], fg_duplicate_keys = []\<rparr>"]
  by (simp add: load_fields_def)

text \<open>
  Validation of the field registry accepts exactly the declarations it should: distinct keys,
  known value types, enums with values, known document types, \<open>required_for\<close> within
  \<open>doc_types\<close>, and known normalisation directives only.
\<close>

theorem schema_validation:
  "validate_registry (load_fields specs) = Inr () \<longleftrightarrow>
     distinct (map fs_key specs) \<and> (\<forall>s \<in> set specs. well_declared s)"
proof (cases "distinct (map fs_key specs)")
  case True
  have "registry_errors (load_fields specs) = [] \<longleftrightarrow> (\<forall>s \<in> set specs. field_errors (fs_key s) s = [])"
    by (simp add: load_fields_distinct [OF True] registry_errors_def)
  then show ?thesis using True by (auto simp: validate_registry_def Let_def field_errors_Nil_iff)
next
  case False
  then have "fg_duplicate_keys (load_fields specs) \<noteq> []"
    using load_duplicates [of specs "\<lparr>fg_fields = [], fg_duplicate_keys = []\<rparr>"]
    by (simp add: load_fields_def)
  then show ?thesis using False by (simp add: validate_registry_def registry_errors_def Let_def)
qed

end
