(* ===== verification/CC_Fields.thy ===== *)
theory CC_Fields
  imports CC_Schema
begin

text \<open>
  The 82 field declarations the program ships, \<open>src/app/schema/fields.yaml\<close>, group by group, and
  the proof that they pass validation.
\<close>

definition field ::
  "string \<Rightarrow> string \<Rightarrow> string \<Rightarrow> string list \<Rightarrow> string \<Rightarrow> string list \<Rightarrow> string list option \<Rightarrow> bool \<Rightarrow>
   string list \<Rightarrow> string \<Rightarrow> field_spec" where
  "field key label ty docs stage required enums exempt directives description =
     \<lparr>fs_key = key, fs_label = label, fs_type = ty, fs_doc_types = docs, fs_lifecycle_stage = stage,
      fs_required_for = required, fs_enum_values = enums, fs_redaction_exempt = exempt,
      fs_normalisation = directives, fs_description = description\<rparr>"

definition sanction_disclosure_fields :: "field_spec list" where
  "sanction_disclosure_fields =
     [field ''loan_proposal_number'' ''Loan proposal / account number'' ''string''
        [''kfs''] ''sanction''
        [''kfs''] None False []
        ''The unique identifier assigned by the lender to this loan proposal.'',
      field ''loan_type'' ''Type of loan'' ''enum''
        [''kfs'', ''loan_agreement'', ''sanction_letter''] ''sanction''
        [] (Some [''personal'', ''microfinance'', ''gold'', ''vehicle'', ''business'', ''consumer_durable'', ''other'']) False []
        ''The product category as stated in the document.'',
      field ''sanctioned_amount'' ''Sanctioned loan amount'' ''money''
        [''kfs'', ''loan_agreement'', ''sanction_letter''] ''sanction''
        [''kfs''] None False []
        ''The principal amount sanctioned under the loan agreement, in rupees.'',
      field ''disbursal_schedule_text'' ''Disbursal schedule'' ''string''
        [''kfs'', ''loan_agreement'', ''sanction_letter''] ''sanction''
        [] None False []
        ''The manner and stages in which the sanctioned amount is disbursed.'',
      field ''loan_term_days'' ''Loan term'' ''duration_days''
        [''kfs'', ''loan_agreement'', ''sanction_letter''] ''sanction''
        [] None False []
        ''The tenor of the loan, converted to days.'',
      field ''instalment_amount'' ''Instalment amount'' ''money''
        [''kfs'', ''loan_agreement''] ''sanction''
        [] None False []
        ''The amount payable per instalment.'',
      field ''instalment_count'' ''Number of instalments'' ''integer''
        [''kfs'', ''loan_agreement''] ''sanction''
        [] None False []
        ''The total number of instalments over the loan term.'',
      field ''interest_rate_bps'' ''Interest rate'' ''rate_bps''
        [''kfs'', ''loan_agreement'', ''sanction_letter''] ''sanction''
        [] None False [''unit'']
        ''The annualised interest rate as disclosed, before fees.'',
      field ''interest_rate_type'' ''Interest rate type'' ''enum''
        [''kfs'', ''loan_agreement''] ''sanction''
        [] (Some [''fixed'', ''floating'']) False []
        ''Whether the interest rate is fixed or resets against a benchmark.'',
      field ''benchmark_name'' ''Benchmark used for rate reset'' ''string''
        [''kfs'', ''loan_agreement''] ''sanction''
        [] None False []
        ''The external benchmark the floating rate is referenced to, if any.'',
      field ''spread_bps'' ''Spread over benchmark'' ''rate_bps''
        [''kfs'', ''loan_agreement''] ''sanction''
        [] None False [''unit'']
        ''The spread added to the benchmark for a floating-rate loan.'',
      field ''reset_periodicity_months'' ''Rate reset periodicity'' ''integer''
        [''kfs'', ''loan_agreement''] ''sanction''
        [] None False []
        ''How often, in months, a floating rate resets.'',
      field ''fees_total'' ''Total fees and charges'' ''money''
        [''kfs'', ''loan_agreement'', ''sanction_letter''] ''sanction''
        [] None False []
        ''The sum of all fees and charges disclosed, excluding interest.'',
      field ''processing_fee'' ''Processing fee'' ''money''
        [''kfs'', ''loan_agreement'', ''sanction_letter''] ''sanction''
        [] None False []
        ''The one-time processing fee charged at sanction.'',
      field ''insurance_premium_collected'' ''Insurance premium collected'' ''money''
        [''kfs'', ''loan_agreement''] ''sanction''
        [] None False []
        ''Any insurance premium collected as part of the loan.'',
      field ''apr_bps'' ''Annual Percentage Rate'' ''rate_bps''
        [''kfs'', ''loan_agreement'', ''sanction_letter''] ''sanction''
        [''kfs''] None False [''unit'', ''max'']
        (''The all-in annualised cost of credit as disclosed. Extract the figure presented as APR or Annual Percentage Rate; do not compute it from components.'' @ [CHR 0x0A]),
      field ''contingent_charges_text'' ''Contingent charges'' ''string''
        [''kfs''] ''sanction''
        [] None False []
        ''Charges that may become payable only in specified contingencies.'',
      field ''recovery_agent_clause_ref'' ''Recovery agent clause reference'' ''string''
        [''loan_agreement''] ''sanction''
        [] None False []
        ''The clause in the loan agreement governing recovery agent engagement, if referenced.'',
      field ''grievance_mechanism_clause_ref'' ''Grievance mechanism clause reference'' ''string''
        [''kfs'', ''loan_agreement''] ''sanction''
        [] None False []
        ''The clause describing the grievance escalation mechanism, if referenced.'',
      field ''grievance_officer_name'' ''Grievance officer name'' ''string''
        [''kfs''] ''sanction''
        [] None True []
        ''Name of the officer designated to handle borrower grievances.'',
      field ''grievance_officer_phone'' ''Grievance officer phone'' ''string''
        [''kfs''] ''sanction''
        [''kfs''] None True []
        ''Telephone number of the designated grievance officer.'',
      field ''grievance_officer_email'' ''Grievance officer email'' ''string''
        [''kfs''] ''sanction''
        [] None True []
        ''Email address of the designated grievance officer.'',
      field ''loan_transferable_flag'' ''Loan transferable to third party'' ''boolean''
        [''loan_agreement''] ''sanction''
        [] None False []
        ''Whether the agreement permits assignment of the loan to a third party.'',
      field ''colending_partner_name'' ''Co-lending partner name'' ''string''
        [''sanction_letter'', ''loan_agreement''] ''sanction''
        [] None False []
        ''The name of the co-lending partner, if the loan is co-originated.'',
      field ''colending_proportion_pct'' ''Co-lending proportion'' ''integer''
        [''sanction_letter''] ''sanction''
        [] None False []
        ''The percentage of the loan held by the co-lending partner.'',
      field ''blended_rate_bps'' ''Blended interest rate'' ''rate_bps''
        [''sanction_letter''] ''sanction''
        [] None False [''unit'']
        ''The weighted average rate across co-lending partners.'',
      field ''cooling_off_period_days'' ''Cooling-off / look-up period'' ''duration_days''
        [''kfs'', ''loan_agreement''] ''sanction''
        [] None False []
        ''The period during which the borrower may exit without penalty.'',
      field ''cooling_off_prepayment_penalty_flag'' ''Prepayment penalty within cooling-off'' ''boolean''
        [''kfs'', ''loan_agreement''] ''sanction''
        [] None False []
        ''Whether a prepayment penalty is charged if the borrower exits during cooling-off.'',
      field ''lsp_recovery_agent_named'' ''Lending service provider named as recovery agent'' ''boolean''
        [''loan_agreement''] ''sanction''
        [] None False []
        ''Whether the lending service provider is named as a recovery agent in the agreement.'',
      field ''kfs_validity_days'' ''Key Facts Statement validity'' ''duration_days''
        [''kfs''] ''sanction''
        [] None False []
        ''The number of days the Key Facts Statement remains valid for acceptance.'',
      field ''kfs_summary_in_agreement_flag'' ''KFS summary reproduced in agreement'' ''boolean''
        [''loan_agreement''] ''sanction''
        [] None False []
        ''Whether the Key Facts Statement particulars are reproduced as a summary box in the agreement.'',
      field ''kfs_issued_date'' ''KFS issued date'' ''date''
        [''kfs''] ''sanction''
        [''kfs''] None False [''formats'', ''prefer'']
        ''The date the Key Facts Statement was issued to the borrower.'']"

definition digital_lending_fields :: "field_spec list" where
  "digital_lending_fields =
     [field ''disbursal_credited_account_type'' ''Disbursal account type'' ''enum''
        [''disbursement_memo'', ''loan_agreement''] ''disbursement''
        [] (Some [''borrower_own'', ''third_party'', ''lsp_pool'', ''unknown'']) False []
        ''Whose bank account the disbursed amount was credited into.'',
      field ''repayment_debited_account_type'' ''Repayment account type'' ''enum''
        [''loan_agreement'', ''account_statement''] ''servicing''
        [] (Some [''lender_own'', ''lsp_pool'', ''unknown'']) False []
        ''Which account repayments are collected into.'',
      field ''pass_through_account_used_flag'' ''Pass-through account used'' ''boolean''
        [''loan_agreement'', ''disbursement_memo''] ''disbursement''
        [] None False []
        ''Whether any lending-service-provider pass-through account is used in the flow of funds.'',
      field ''lsp_name'' ''Lending service provider name'' ''string''
        [''loan_agreement''] ''origination''
        [] None False []
        ''The name of the lending service provider facilitating the digital loan, if any.'',
      field ''dla_name'' ''Digital lending app name'' ''string''
        [''loan_agreement''] ''origination''
        [] None False []
        ''The name of the digital lending application through which the loan was sourced.'',
      field ''lsp_fee_borne_by'' ''LSP fee borne by'' ''enum''
        [''loan_agreement''] ''sanction''
        [] (Some [''lender'', ''borrower'', ''unknown'']) False []
        ''Who bears the fee payable to the lending service provider.'',
      field ''data_stored_offshore_flag'' ''Data stored offshore'' ''boolean''
        [''loan_agreement''] ''origination''
        [] None False []
        ''Whether the agreement discloses that borrower data is processed or stored outside India.'',
      field ''offshore_deletion_within_hours'' ''Offshore deletion window'' ''integer''
        [''loan_agreement''] ''origination''
        [] None False []
        ''The disclosed number of hours within which offshore-processed data is deleted.'',
      field ''biometric_data_collected_flag'' ''Biometric data collected'' ''boolean''
        [''kyc_set'', ''loan_agreement''] ''origination''
        [] None False []
        ''Whether biometric data is collected as part of onboarding.'',
      field ''privacy_policy_url'' ''Privacy policy URL'' ''string''
        [''loan_agreement''] ''origination''
        [] None False []
        ''The URL of the privacy policy referenced in the agreement.'',
      field ''recovery_agent_identity_notified_before_contact_flag'' ''Recovery agent identity notified before contact'' ''boolean''
        [''call_transcript'', ''field_visit_report''] ''collections''
        [] None False []
        ''Whether the recovery agent disclosed their identity and the lender's identity before the first point of contact.'']"

definition servicing_fields :: "field_spec list" where
  "servicing_fields =
     [field ''penal_charge_amount'' ''Penal charge amount'' ''money''
        [''penal_charge_notice''] ''servicing''
        [] None False []
        ''The penal charge amount levied for non-compliance with loan terms.'',
      field ''penal_charge_basis_text'' ''Penal charge basis'' ''string''
        [''penal_charge_notice''] ''servicing''
        [] None False []
        ''The stated basis on which the penal charge was computed.'',
      field ''penal_charge_capitalised_flag'' ''Penal charge capitalised'' ''boolean''
        [''penal_charge_notice'', ''account_statement''] ''servicing''
        [] None False []
        ''Whether the penal charge was added to principal and interest computed on it.'',
      field ''penal_charge_described_as_interest_flag'' ''Penal charge described as interest'' ''boolean''
        [''penal_charge_notice''] ''servicing''
        [] None False []
        ''Whether the notice describes the penal charge as penal interest added to the rate.'',
      field ''reset_notice_sent_date'' ''Rate reset notice sent date'' ''date''
        [''rate_reset_notice''] ''servicing''
        [] None False [''formats'', ''prefer'']
        ''The date the borrower was notified of a rate reset.'',
      field ''reset_effective_date'' ''Rate reset effective date'' ''date''
        [''rate_reset_notice''] ''servicing''
        [] None False [''formats'', ''prefer'']
        ''The date the reset rate takes effect.'',
      field ''borrower_option_offered_flag'' ''Borrower option offered on reset'' ''boolean''
        [''rate_reset_notice''] ''servicing''
        [] None False []
        ''Whether the borrower was offered a choice (e.g. extend tenor or revise instalment) on a rate reset.'']"

definition collections_fields :: "field_spec list" where
  "collections_fields =
     [field ''contact_datetime'' ''Collections contact timestamp'' ''datetime''
        [''call_transcript'', ''field_visit_report'', ''reminder_notice''] ''collections''
        [''call_transcript''] None False [''timezone'', ''assume_local'']
        (''When the contact with the borrower occurred. Prefer an explicit timestamp in the transcript header over any time mentioned in the conversation body.'' @ [CHR 0x0A]),
      field ''contact_channel'' ''Contact channel'' ''enum''
        [''call_transcript'', ''field_visit_report''] ''collections''
        [] (Some [''call'', ''visit'', ''sms'', ''email'', ''whatsapp'', ''other'']) False []
        ''The channel through which contact was made.'',
      field ''agent_name'' ''Recovery agent name'' ''string''
        [''call_transcript'', ''field_visit_report''] ''collections''
        [] None False []
        ''The name of the recovery agent, if disclosed.'',
      field ''agency_name'' ''Recovery agency name'' ''string''
        [''call_transcript'', ''field_visit_report''] ''collections''
        [] None False []
        ''The name of the recovery agency the agent represents, if disclosed.'',
      field ''agent_iibf_certified_flag'' ''Agent certified'' ''boolean''
        [''call_transcript'', ''field_visit_report''] ''collections''
        [] None False []
        ''Whether the transcript or report states the agent holds a recognised certification.'',
      field ''agent_id_disclosed_flag'' ''Agent identity disclosed'' ''boolean''
        [''call_transcript'', ''field_visit_report''] ''collections''
        [] None False []
        ''Whether the agent disclosed their own identity during contact.'',
      field ''call_recorded_flag'' ''Call recorded'' ''boolean''
        [''call_transcript''] ''collections''
        [] None False []
        ''Whether the call was recorded.'',
      field ''recording_retention_days'' ''Recording retention period'' ''duration_days''
        [''call_transcript''] ''collections''
        [] None False []
        ''The disclosed retention period for the call recording.'',
      field ''third_party_contacted_flag'' ''Third party contacted'' ''boolean''
        [''call_transcript'', ''field_visit_report''] ''collections''
        [] None False []
        ''Whether anyone other than the borrower or a co-borrower was contacted.'',
      field ''third_party_relationship'' ''Relationship of third party contacted'' ''enum''
        [''call_transcript'', ''field_visit_report''] ''collections''
        [] (Some [''none'', ''spouse'', ''parent'', ''sibling'', ''other_relative'', ''employer'', ''colleague'', ''neighbour'', ''reference'', ''guarantor'', ''unknown'']) False []
        (''If anyone other than the borrower or a co-borrower was contacted, their stated relationship to the borrower. Use 'none' when only the borrower was contacted.'' @ [CHR 0x0A]),
      field ''abusive_language_flag'' ''Abusive language used'' ''boolean''
        [''call_transcript''] ''collections''
        [] None False []
        ''Whether abusive or threatening language is present in the transcript.'',
      field ''threat_made_flag'' ''Threat made'' ''boolean''
        [''call_transcript''] ''collections''
        [] None False []
        ''Whether a threat of any kind was made during the contact.'',
      field ''social_media_disclosure_flag'' ''Social media disclosure made'' ''boolean''
        [''call_transcript''] ''collections''
        [] None False []
        ''Whether the agent disclosed or threatened to disclose the borrower's account status on social media.'',
      field ''grievance_officer_details_disclosed_flag'' ''Grievance officer details disclosed'' ''boolean''
        [''reminder_notice'', ''demand_notice''] ''collections''
        [] None False []
        ''Whether the communication discloses the grievance officer's contact details.'',
      field ''visit_prior_intimation_date'' ''Prior intimation date before visit'' ''date''
        [''field_visit_report''] ''collections''
        [] None False [''formats'', ''prefer'']
        ''The date the borrower was given prior intimation of the visit.'',
      field ''first_visit_date'' ''First visit date'' ''date''
        [''field_visit_report''] ''collections''
        [] None False [''formats'', ''prefer'']
        ''The date of the first recovery visit to the borrower.'',
      field ''days_past_due_at_contact'' ''Days past due at contact'' ''integer''
        [''call_transcript'', ''field_visit_report''] ''collections''
        [] None False []
        ''The number of days the account was past due at the time of contact.'',
      field ''device_restriction_applied_flag'' ''Device restriction applied'' ''boolean''
        [''field_visit_report''] ''collections''
        [] None False []
        ''Whether access to a financed device was restricted.'',
      field ''device_restriction_applied_date'' ''Device restriction applied date'' ''date''
        [''field_visit_report''] ''collections''
        [] None False [''formats'', ''prefer'']
        ''The date on which device access was restricted.'',
      field ''device_financed_by_loan_flag'' ''Device financed by this loan'' ''boolean''
        [''field_visit_report'', ''loan_agreement''] ''collections''
        [] None False []
        ''Whether the restricted device was itself financed by this loan.'',
      field ''cure_notice_21day_sent_date'' ''21-day cure notice sent date'' ''date''
        [''reminder_notice''] ''collections''
        [] None False [''formats'', ''prefer'']
        ''The date the first (21-day) cure notice was sent.'',
      field ''cure_notice_7day_sent_date'' ''7-day cure notice sent date'' ''date''
        [''reminder_notice''] ''collections''
        [] None False [''formats'', ''prefer'']
        ''The date the second (7-day) cure notice was sent.'',
      field ''device_restoration_delay_hours'' ''Device restoration delay'' ''integer''
        [''field_visit_report''] ''collections''
        [] None False []
        ''The number of hours between the borrower remedying the default and device access being restored.'']"

definition closure_fields :: "field_spec list" where
  "closure_fields =
     [field ''full_repayment_date'' ''Full repayment date'' ''date''
        [''closure_statement''] ''closure''
        [''closure_statement''] None False [''formats'', ''prefer'']
        ''The date the loan was fully repaid or settled.'',
      field ''closure_statement_date'' ''Closure statement date'' ''date''
        [''closure_statement''] ''closure''
        [] None False [''formats'', ''prefer'']
        ''The date the closure statement itself was issued.'',
      field ''original_docs_released_date'' ''Original documents released on'' ''date''
        [''docs_release_ack'', ''closure_statement'', ''noc''] ''closure''
        [''docs_release_ack''] None False [''formats'', ''prefer'']
        (''The date on which original movable or immovable property documents were handed back to the borrower.'' @ [CHR 0x0A]),
      field ''charge_satisfaction_filed_date'' ''Charge satisfaction filed date'' ''date''
        [''charge_satisfaction''] ''closure''
        [] None False [''formats'', ''prefer'']
        ''The date the charge satisfaction was filed with the relevant registry.'',
      field ''noc_issued_date'' ''No-objection certificate issued date'' ''date''
        [''noc''] ''closure''
        [] None False [''formats'', ''prefer'']
        ''The date the no-objection certificate was issued to the borrower.'',
      field ''docs_lost_flag'' ''Documents lost or damaged'' ''boolean''
        [''docs_release_ack''] ''closure''
        [] None False []
        ''Whether the original documents were reported lost or damaged.'',
      field ''duplicate_docs_assistance_offered_flag'' ''Duplicate document assistance offered'' ''boolean''
        [''docs_release_ack''] ''closure''
        [] None False []
        ''Whether the lender assisted the borrower in obtaining duplicate documents.'',
      field ''release_delay_compensation_paid'' ''Release delay compensation paid'' ''money''
        [''docs_release_ack''] ''closure''
        [] None False []
        ''The compensation amount paid to the borrower for delayed document release.'',
      field ''release_delay_days'' ''Release delay in days'' ''integer''
        [''docs_release_ack''] ''closure''
        [] None False []
        ''The number of days the document release was delayed beyond the permitted window.'']"

definition shipped_fields :: "field_spec list" where
  "shipped_fields =
     sanction_disclosure_fields @ digital_lending_fields @ servicing_fields @ collections_fields @ closure_fields"

definition shipped_field_registry :: field_registry where
  "shipped_field_registry = load_fields shipped_fields"

lemma shipped_keys_distinct: "distinct (map fs_key shipped_fields)"
  by code_simp

lemma shipped_fields_checked: "list_all (\<lambda>s. field_errors (fs_key s) s = []) shipped_fields"
  by code_simp

lemma shipped_fields_count: "length shipped_fields = 82"
  by code_simp

lemma shipped_field_registry_eq:
  "fg_fields shipped_field_registry = map (\<lambda>s. (fs_key s, s)) shipped_fields"
  by (simp add: shipped_field_registry_def load_fields_distinct [OF shipped_keys_distinct])

lemma shipped_field_get:
  assumes "list_ex (\<lambda>s. fs_key s = k) shipped_fields"
  obtains spec where "field_get shipped_field_registry k = Inr spec"
    "spec \<in> set shipped_fields" "fs_key spec = k"
proof -
  obtain s where "s \<in> set shipped_fields" "fs_key s = k" using assms by (auto simp: list_ex_iff)
  then have "k \<in> fst ` set (fg_fields shipped_field_registry)"
    by (force simp: shipped_field_registry_eq)
  then obtain spec where spec: "map_of (fg_fields shipped_field_registry) k = Some spec"
    by (metis map_of_eq_None_iff option.exhaust)
  from map_of_SomeD [OF this] have "spec \<in> set shipped_fields" "fs_key spec = k"
    by (auto simp: shipped_field_registry_eq)
  with spec show ?thesis by (intro that [of spec]) (simp_all add: field_get_def)
qed

theorem schema_validation_witness:
  "validate_registry shipped_field_registry = Inr ()"
proof -
  have "\<forall>s \<in> set shipped_fields. well_declared s"
    using shipped_fields_checked by (simp add: list_all_iff field_errors_Nil_iff)
  with shipped_keys_distinct show ?thesis
    unfolding shipped_field_registry_def schema_validation by blast
qed

end
