(* ===== verification/CC_Assess.thy ===== *)
theory CC_Assess
  imports CC_Registry CC_Store CC_Fields
begin

text \<open>
  Verdict orchestration, \<open>src/app/verdict/assess.py\<close>: the fact index, instrument verification
  and clause lookups, the rendering of the prompt, and \<open>assess_fact\<close> with its two paths, rules
  first and then retrieval, model and validator.

  What \<open>assess_fact\<close> reaches outside of its own database is the record \<open>env\<close>: the rule
  registry, the loaded field registry, the pins, the prompt template, the lexical query built for a
  field, the search engine, the id generator, the clock, and the model client's two calls,
  \<open>embed\<close> and \<open>structured\<close>, each a function that may raise.
\<close>

section \<open>Lookups\<close>

definition record_of_row :: "fact_row \<Rightarrow> fact_record" where
  "record_of_row r =
     \<lparr>fr_field_key = fx_field_key r, fr_value_type = fx_value_type r, fr_value = fx_value r,
      fr_is_absent = fx_is_absent r\<rparr>"

text \<open>\<open>SELECT DISTINCT ON (field_key) ... ORDER BY field_key, created_at DESC\<close>.\<close>

definition load_fact_index :: "store \<Rightarrow> uuid \<Rightarrow> fact_index" where
  "load_fact_index db loan k =
     map_option record_of_row
       (latest_by fx_created (filter (\<lambda>r. fx_loan r = loan \<and> fx_field_key r = k) (db_facts db)))"

definition load_instrument_verification :: "store \<Rightarrow> uuid \<Rightarrow> (string \<rightharpoonup> string)" where
  "load_instrument_verification db snapshot =
     map_of (rev (map (\<lambda>i. (in_code i, in_verification i))
       (filter (\<lambda>i. in_snapshot i = snapshot) (co_instruments (db_corpus db)))))"

text \<open>Path to clause row: the id and the text are read off it.\<close>

definition load_clause_refs :: "store \<Rightarrow> uuid \<Rightarrow> string list \<Rightarrow> (string \<rightharpoonup> clause_row)" where
  "load_clause_refs db snapshot paths =
     (if paths = [] then Map.empty
      else map_of (rev (map (\<lambda>c. (cl_path c, c))
        (filter (\<lambda>c. cl_snapshot c = snapshot \<and> cl_path c \<in> set paths)
          (co_clauses (db_corpus db))))))"

section \<open>The prompt\<close>

text \<open>\<open>str(value.v)\<close>; a datetime is rendered with a space between date and time.\<close>

definition datetime_str :: "datetime \<Rightarrow> string" where
  "datetime_str t =
     date_isoformat (dt_date t) @ '' '' @ time_isoformat (dt_time t) @
       (case dt_offset t of None \<Rightarrow> [] | Some z \<Rightarrow> offset_isoformat z)"

fun value_str :: "fact_value \<Rightarrow> string" where
  "value_str (MoneyValue p _) = ''paise '' @ str_int p"
| "value_str (RateValue b) = str_int b @ '' bps''"
| "value_str (DaysValue n) = str_int n @ '' days''"
| "value_str (DateValue d) = date_isoformat d"
| "value_str (DateTimeValue t) = datetime_str t"
| "value_str (TimeValue t) = time_isoformat t"
| "value_str (IntValue i) = str_int i"
| "value_str (BoolValue b) = str_bool b"
| "value_str (EnumValue s) = s"
| "value_str (StringValue s) = s"

definition render_value_display :: "fact_out \<Rightarrow> string" where
  "render_value_display f =
     (if fo_is_absent f then ''(absent)''
      else (case fo_value f of None \<Rightarrow> ''(absent)'' | Some v \<Rightarrow> value_str v))"

definition newline :: string where
  "newline = [CHR 0x0A]"

text \<open>An em dash, U+2014, between spaces.\<close>

definition em_dash :: string where
  "em_dash = '' '' @ [CHR 0xE2, CHR 0x80, CHR 0x94] @ '' ''"

definition render_clause_block :: "clause_candidate list \<Rightarrow> string" where
  "render_clause_block cs =
     (if cs = [] then ''(none)''
      else join (newline @ newline) (map (\<lambda>c.
        ''['' @ cc_path c @ '']'' @
        (case cc_heading c of None \<Rightarrow> [] | Some h \<Rightarrow> if h = [] then [] else em_dash @ h) @
        newline @ cc_text c) cs))"

definition render_context_block :: "clause_candidate list \<Rightarrow> string" where
  "render_context_block cs =
     (if cs = [] then ''(none)''
      else join (newline @ newline) (map (\<lambda>c.
        ''['' @ cc_path c @ '']'' @
        (case cc_note c of None \<Rightarrow> [] | Some n \<Rightarrow> if n = [] then [] else '' ('' @ n @ '')'') @
        newline @ cc_text c) cs))"

text \<open>
  \<open>template.format(...)\<close> for templates whose replacement fields are plain names.
\<close>

function py_format :: "(string \<rightharpoonup> string) \<Rightarrow> string \<Rightarrow> string res" where
  "py_format args [] = Inr []"
| "py_format args (c # cs) =
     (if c = CHR ''{''
      then
        if take 1 cs = ''{'' then ebind (py_format args (drop 1 cs)) (\<lambda>r. Inr (CHR ''{'' # r))
        else
          let name = takeWhile (\<lambda>x. x \<noteq> CHR ''}'') cs;
              rest = dropWhile (\<lambda>x. x \<noteq> CHR ''}'') cs
          in if rest = [] then Inl (ValueError ''expected '}' before end of string'')
             else (case args name of
                 None \<Rightarrow> Inl (KeyError name)
               | Some v \<Rightarrow> ebind (py_format args (drop 1 rest)) (\<lambda>r. Inr (v @ r)))
      else if c = CHR ''}''
      then
        if take 1 cs = ''}'' then ebind (py_format args (drop 1 cs)) (\<lambda>r. Inr (CHR ''}'' # r))
        else Inl (ValueError ''Single '}' encountered in format string'')
      else ebind (py_format args cs) (\<lambda>r. Inr (c # r)))"
  by pat_completeness auto
termination
proof (relation "measure (\<lambda>(args, s). length s)")
  fix args :: "string \<rightharpoonup> string" and c :: char and cs name rest :: string and v :: string
  assume "rest = dropWhile (\<lambda>x. x \<noteq> CHR ''}'') cs"
  then show "((args, drop 1 rest), (args, c # cs)) \<in> measure (\<lambda>(args, s). length s)"
    using length_dropWhile_le [of "\<lambda>x. x \<noteq> CHR ''}''" cs] by simp
qed simp_all

record prompt_args =
  pr_field_label :: string
  pr_field_key :: string
  pr_value_display :: string
  pr_doc_type :: string
  pr_doc_event_date :: date
  pr_quoted_span :: string
  pr_event_date :: date

definition render_prompt ::
  "string \<Rightarrow> prompt_args \<Rightarrow> loan_account \<Rightarrow> candidate_set \<Rightarrow> string res" where
  "render_prompt template pr acct cs =
     py_format
       [''event_date'' \<mapsto> date_isoformat (pr_event_date pr),
        ''field_label'' \<mapsto> pr_field_label pr,
        ''field_key'' \<mapsto> pr_field_key pr,
        ''value_display'' \<mapsto> pr_value_display pr,
        ''doc_type'' \<mapsto> pr_doc_type pr,
        ''doc_event_date'' \<mapsto> date_isoformat (pr_doc_event_date pr),
        ''quoted_span'' \<mapsto> pr_quoted_span pr,
        ''product_type'' \<mapsto> la_product_type acct,
        ''is_microfinance'' \<mapsto> str_bool (la_is_microfinance acct),
        ''is_digital_lending'' \<mapsto> str_bool (la_is_digital_lending acct),
        ''device_financed'' \<mapsto> str_bool (la_device_financed acct),
        ''candidate_block'' \<mapsto> render_clause_block (cs_candidates cs),
        ''context_block'' \<mapsto> render_context_block (cs_context_only cs)]
       template"


section \<open>assess\_fact\<close>

record call_record =
  cr_model :: string
  cr_adapter_id :: "string option"
  cr_tokens_in :: int
  cr_tokens_out :: int
  cr_cost_usd :: rat
  cr_wall_clock_ms :: int

record 'v env =
  ev_gen :: "nat \<Rightarrow> uuid"
  ev_now :: timestamp
  ev_tz :: "datetime \<Rightarrow> int"
  ev_rules :: registry
  ev_fields :: field_registry
  ev_settings :: settings
  ev_serving_mode :: string
  ev_pins :: pins
  ev_template :: string
  ev_lexical_query :: "string \<Rightarrow> string \<Rightarrow> string"
  ev_engine :: "'v engine"
  ev_embed :: "string \<Rightarrow> 'v list res"
  ev_structured :: "string \<Rightarrow> (verdict_draft \<times> call_record) res"

definition PROMPT_VERSION :: string where
  "PROMPT_VERSION = ''assess_fact.v2''"

definition from_rule_outcome ::
  "rule \<Rightarrow> rule_outcome \<Rightarrow> string \<Rightarrow> date \<Rightarrow> bool \<Rightarrow> uuid \<Rightarrow> assessment_result res" where
  "from_rule_outcome r oc field_key event_date shadow snapshot =
     ebind (severity_for (Some (rule_id r)) None (oc_verdict oc)) (\<lambda>sev.
       Inr \<lparr>ar_check_key = check_key r, ar_field_key = Some field_key,
            ar_event_date = event_date, ar_verdict = oc_verdict oc, ar_severity = sev,
            ar_confidence = High, ar_rationale = oc_rationale oc,
            ar_decided_by = (if shadow then ByShadow else ByRule), ar_rule_id = Some (rule_id r),
            ar_is_shadow = shadow, ar_is_whatif = False, ar_citations = oc_citations oc,
            ar_telemetry = empty_telemetry, ar_snapshot_id = snapshot,
            ar_candidate_count = length (oc_citations oc)\<rparr>)"

text \<open>The arguments of one run.\<close>

record job =
  jb_fact :: fact_out
  jb_account :: loan_account
  jb_document_event_date :: date
  jb_snapshot :: uuid
  jb_request_id :: string
  jb_as_of :: "date option"

definition jb_event_date :: "job \<Rightarrow> date" where
  "jb_event_date j = (case jb_as_of j of Some d \<Rightarrow> d | None \<Rightarrow> jb_document_event_date j)"

definition jb_is_whatif :: "job \<Rightarrow> bool" where
  "jb_is_whatif j \<longleftrightarrow> jb_as_of j \<noteq> None"

definition persist_args_of ::
  "'v env \<Rightarrow> job \<Rightarrow> assessment_result \<Rightarrow> (string \<rightharpoonup> uuid) \<Rightarrow>
   (citation \<times> citation_reject_reason) list \<Rightarrow> persist_args" where
  "persist_args_of ev j result ids rejected =
     \<lparr>pa_tenant = la_tenant_id (jb_account j), pa_loan = fo_loan_account_id (jb_fact j),
      pa_document = Some (fo_document_id (jb_fact j)), pa_result = result,
      pa_clause_ids = ids, pa_is_whatif = jb_is_whatif j,
      pa_serving_mode = ev_serving_mode ev, pa_request_id = jb_request_id j,
      pa_rejected = rejected\<rparr>"

text \<open>
  The loop over \<open>rules_for_field\<close>: \<open>None\<close> of \<open>run_rule\<close> is \<open>continue\<close>.
\<close>

definition run_rule ::
  "'v env \<Rightarrow> job \<Rightarrow> fact_index \<Rightarrow> store \<Rightarrow> rule \<Rightarrow> rule_outcome option res" where
  "run_rule ev j facts db r =
     (let refs = load_clause_refs db (jb_snapshot j) (clause_paths r);
          excerpts = (\<lambda>p. map_option cl_text (refs p))
      in try_missing
           (evaluate r (ev_tz ev) facts (jb_account j) (jb_event_date j) excerpts)
           (Inr None)
           (\<lambda>res. case res of NotApplicable \<Rightarrow> Inr None | Outcome oc \<Rightarrow> Inr (Some oc)))"

fun rules_loop ::
  "'v env \<Rightarrow> job \<Rightarrow> fact_index \<Rightarrow> (string \<rightharpoonup> string) \<Rightarrow> rule list \<Rightarrow>
   store \<Rightarrow> assessment_result list \<Rightarrow> bool \<Rightarrow> (store \<times> assessment_result list \<times> bool) res" where
  "rules_loop ev j facts iv [] db results decided = Inr (db, results, decided)"
| "rules_loop ev j facts iv (r # rs) db results decided =
     ebind (run_rule ev j facts db r) (\<lambda>res.
       case res of
         None \<Rightarrow> rules_loop ev j facts iv rs db results decided
       | Some oc \<Rightarrow>
           ebind (is_shadow (ev_rules ev) (rule_id r) iv) (\<lambda>shadow.
           ebind (from_rule_outcome r oc (fo_field_key (jb_fact j)) (jb_event_date j) shadow
                    (jb_snapshot j)) (\<lambda>result.
           ebind (persist (ev_gen ev) (ev_now ev)
                    (persist_args_of ev j result
                      (\<lambda>p. map_option cl_id (load_clause_refs db (jb_snapshot j) (clause_paths r) p))
                      []) db) (\<lambda>(db', _).
             rules_loop ev j facts iv rs db' (results @ [result]) (decided \<or> \<not> shadow)))))"

definition recompute_unless_whatif :: "'v env \<Rightarrow> job \<Rightarrow> store \<Rightarrow> store" where
  "recompute_unless_whatif ev j db =
     (if jb_is_whatif j then db
      else recompute_loan_compliance_state (ev_now ev) (la_tenant_id (jb_account j))
             (fo_loan_account_id (jb_fact j)) (jb_snapshot j) db)"

definition model_result ::
  "job \<Rightarrow> verdict_draft \<Rightarrow> call_record \<Rightarrow> validation_outcome \<Rightarrow> candidate_set \<Rightarrow> severity \<Rightarrow>
   assessment_result" where
  "model_result j draft call validated cs sev =
     \<lparr>ar_check_key = ''F:'' @ fo_field_key (jb_fact j),
      ar_field_key = Some (fo_field_key (jb_fact j)), ar_event_date = jb_event_date j,
      ar_verdict = vo_verdict validated, ar_severity = sev,
      ar_confidence = vd_confidence draft, ar_rationale = vd_rationale draft,
      ar_decided_by = (if vo_downgraded validated then ValidatorDowngrade else ByModel),
      ar_rule_id = None, ar_is_shadow = False, ar_is_whatif = jb_is_whatif j,
      ar_citations = vo_citations validated,
      ar_telemetry = empty_telemetry\<lparr>tm_stage_c_ms := Some (cr_wall_clock_ms call),
        tm_tokens_in := Some (cr_tokens_in call), tm_tokens_out := Some (cr_tokens_out call),
        tm_cost_usd := Some (cr_cost_usd call), tm_model_id := Some (cr_model call),
        tm_adapter_id := cr_adapter_id call, tm_prompt_version := Some PROMPT_VERSION\<rparr>,
      ar_snapshot_id = jb_snapshot j, ar_candidate_count = length (cs_candidates cs)\<rparr>"

text \<open>\<open>{c.clause_path: c.clause_id for c in [*candidates, *context_only]}\<close>: the last one wins.\<close>

definition candidate_ids :: "candidate_set \<Rightarrow> (string \<rightharpoonup> uuid)" where
  "candidate_ids cs =
     map_of (rev (map (\<lambda>c. (cc_path c, cc_id c)) (cs_candidates cs @ cs_context_only cs)))"

definition prompt_args_of :: "job \<Rightarrow> field_spec \<Rightarrow> prompt_args" where
  "prompt_args_of j spec =
     \<lparr>pr_field_label = fs_label spec, pr_field_key = fo_field_key (jb_fact j),
      pr_value_display = render_value_display (jb_fact j),
      pr_doc_type = (case fs_doc_types spec of [] \<Rightarrow> ''unknown'' | d # _ \<Rightarrow> d),
      pr_doc_event_date = jb_event_date j,
      pr_quoted_span = (case fo_span (jb_fact j) of None \<Rightarrow> [] | Some sp \<Rightarrow> span_quoted sp),
      pr_event_date = jb_event_date j\<rparr>"

definition model_path ::
  "'v env \<Rightarrow> job \<Rightarrow> field_spec \<Rightarrow> store \<Rightarrow> assessment_result list \<Rightarrow>
   (store \<times> assessment_result list) res" where
  "model_path ev j spec db results =
     (let acct = jb_account j;
          borrower = (if la_is_microfinance acct then borrower_microfinance else borrower_general);
          summary = render_value_display (jb_fact j)
      in ebind (ev_embed ev (fs_label spec @ '': '' @ summary)) (\<lambda>vectors.
         ebind (case vectors of [] \<Rightarrow> Inl IndexError | v # _ \<Rightarrow> Inr v) (\<lambda>qvec.
         ebind (retrieve_candidates (ev_engine ev) (ev_settings ev) (ev_pins ev) (db_corpus db)
                  (jb_snapshot j) (la_entity_type acct) borrower (Some (jb_event_date j))
                  (fo_field_key (jb_fact j)) (ev_lexical_query ev (fs_label spec) summary)
                  (Some qvec)) (\<lambda>cs.
         ebind (render_prompt (ev_template ev) (prompt_args_of j spec) acct cs) (\<lambda>prompt.
         ebind (ev_structured ev prompt) (\<lambda>(draft, call).
           let validated = validate draft cs (jb_event_date j)
           in ebind (severity_for None (Some (fs_lifecycle_stage spec)) (vo_verdict validated)) (\<lambda>sev.
              let result = model_result j draft call validated cs sev
              in ebind (persist (ev_gen ev) (ev_now ev)
                   (persist_args_of ev j result (candidate_ids cs) (vo_rejected validated)) db)
                   (\<lambda>(db', _). Inr (recompute_unless_whatif ev j db', results @ [result])))))))))"

definition assess_fact :: "'v env \<Rightarrow> job \<Rightarrow> store \<Rightarrow> (store \<times> assessment_result list) res" where
  "assess_fact ev j db =
     ebind (field_get (ev_fields ev) (fo_field_key (jb_fact j))) (\<lambda>spec.
       let facts = load_fact_index db (fo_loan_account_id (jb_fact j));
           iv = load_instrument_verification db (jb_snapshot j)
       in ebind (rules_loop ev j facts iv
              (rules_for_field (ev_rules ev) (fo_field_key (jb_fact j))) db [] False)
            (\<lambda>(db', results, decided).
              if decided then Inr (recompute_unless_whatif ev j db', results)
              else model_path ev j spec db' results))"

section \<open>What is persisted is admissible\<close>

text \<open>The index scan yields rows of the table it scans.\<close>

definition engine_sound :: "'v engine \<Rightarrow> bool" where
  "engine_sound eng \<longleftrightarrow> (\<forall>v n rows. set (eng_hnsw eng v n rows) \<subseteq> set rows)"

text \<open>A candidate carries the id, path and text of a clause row of the snapshot.\<close>

definition offers_row :: "corpus \<Rightarrow> uuid \<Rightarrow> clause_candidate \<Rightarrow> bool" where
  "offers_row co snap c \<longleftrightarrow>
     (\<exists>r \<in> set (co_clauses co). cl_snapshot r = snap \<and> cl_id r = cc_id c \<and> cl_path r = cc_path c \<and>
        cl_text r = cc_text c)"

text \<open>\<open>UniqueConstraint("snapshot_id", "clause_path")\<close> of the clause table.\<close>

definition unique_paths :: "corpus \<Rightarrow> bool" where
  "unique_paths co \<longleftrightarrow>
     distinct (map (\<lambda>r. (cl_snapshot r, cl_path r)) (co_clauses co))"

lemma unique_pathsD:
  assumes "unique_paths co" "r \<in> set (co_clauses co)" "r' \<in> set (co_clauses co)"
    and "cl_snapshot r = cl_snapshot r'" "cl_path r = cl_path r'"
  shows "r = r'"
  using assms by (auto simp: unique_paths_def distinct_map inj_on_def)

lemma offers_row_mk:
  "(r, i) \<in> set (clause_join co) \<Longrightarrow> cl_snapshot r = snap \<Longrightarrow> offers_row co snap (mk_candidate s n x r)"
  by (auto simp: offers_row_def mk_candidate_def clause_join_iff)

lemma applicable_snapshot: "applicable sc r i \<Longrightarrow> cl_snapshot r = sc_snapshot sc"
  by (simp add: applicable_def)

lemma ann_row:
  assumes "engine_sound eng" "c \<in> set (ann_search eng v k ef co sc)"
  shows "offers_row co (sc_snapshot sc) c"
proof -
  obtain n r i where "(n, r, i) \<in> set (enumerate1 (take k (filter (\<lambda>(c, i). cl_embedded c \<and> applicable sc c i)
        (eng_hnsw eng v ef (clause_join co)))))" "c = mk_candidate Vector n (eng_similarity eng v r) r"
    using assms(2) by (auto simp: ann_search_def Let_def)
  moreover from this(1) have "(r, i) \<in> set (eng_hnsw eng v ef (clause_join co)) \<and> applicable sc r i"
    by (auto dest!: enumerate1_in in_set_takeD)
  then have "(r, i) \<in> set (clause_join co) \<and> applicable sc r i"
    using assms(1) unfolding engine_sound_def by blast
  ultimately show ?thesis using offers_row_mk [of r i co] applicable_snapshot [of sc r i] by blast
qed

lemma fts_row:
  assumes "c \<in> set (fts_search eng q k co sc)"
  shows "offers_row co (sc_snapshot sc) c"
proof -
  obtain n r i where "(n, r, i) \<in> set (enumerate1 (take k (sort_key (\<lambda>(c, i). - eng_ts_rank eng q c)
        (filter (\<lambda>(c, i). applicable sc c i \<and> eng_ts_match eng q c) (clause_join co)))))"
      "c = mk_candidate Lexical n (eng_ts_rank eng q r) r"
    using assms by (auto simp: fts_search_def Let_def)
  moreover from this(1) have "(r, i) \<in> set (clause_join co) \<and> applicable sc r i"
    by (auto dest!: enumerate1_in in_set_takeD)
  ultimately show ?thesis using offers_row_mk [of r i co] applicable_snapshot [of sc r i] by blast
qed

lemma pinned_row:
  assumes "c \<in> set (fst (pinned_candidates pins k co sc))"
  shows "offers_row co (sc_snapshot sc) c"
  using assms by (rule pinned_candidate_row) (simp add: offers_row_mk applicable_snapshot)

lemma listed_row:
  assumes "engine_sound eng" "(s, cs) \<in> set (result_lists eng st pins co sc k q qvec)" "c \<in> set cs"
  shows "offers_row co (sc_snapshot sc) c"
proof -
  consider "c \<in> set (fst (pinned_candidates pins k co sc))"
    | v where "c \<in> set (ann_search eng v (st_vector_k st) (st_ef_search st) co sc)"
    | "c \<in> set (fts_search eng q (st_lexical_k st) co sc)"
    | seeds where "c \<in> set (reference_hop_candidates co sc seeds (st_hops st))"
    using assms(2,3) by (auto simp: result_lists_def Let_def split: option.splits)
  then show ?thesis
  proof cases
    case 4
    from hop_candidate_row [OF this] show ?thesis using offers_row_mk by auto
  qed (use ann_row [OF assms(1)] fts_row pinned_row in simp_all)
qed

lemma retrieved_row:
  assumes "engine_sound eng"
    and "retrieve_candidates eng st pins co snapshot entity borrower as_of k q qvec = Inr cs"
    and "c \<in> set (cs_candidates cs) \<union> set (cs_context_only cs)"
  shows "offers_row co snapshot c"
proof -
  let ?sc = "\<lambda>d. \<lparr>sc_snapshot = snapshot, sc_entity_type = entity, sc_borrower_class = borrower,
      sc_as_of = d\<rparr>"
  obtain d fused seeds where d:
      "rrf (result_lists eng st pins co (?sc d) k q qvec) (st_rrf_k st) (source_weights st) = Inr fused"
      "cs_candidates cs = take (st_final_k st) fused"
      "cs_context_only cs = context_only_candidates co (?sc d) seeds"
    using assms(2) by (rule retrieve_unfold)
  show ?thesis
  proof (cases "c \<in> set (cs_candidates cs)")
    case True
    then have "c \<in> set fused" using d(2) in_set_takeD by fastforce
    with d(1) obtain s xs c' where "(s, xs) \<in> set (result_lists eng st pins co (?sc d) k q qvec)"
        "c' \<in> set xs" "same_clause c c'"
      by (rule fused_candidate_listed)
    moreover from this have "offers_row co snapshot c'" using listed_row [OF assms(1)] by fastforce
    ultimately show ?thesis by (simp add: same_clause_def offers_row_def)
  next
    case False
    then have "c \<in> set (context_only_candidates co (?sc d) seeds)" using assms(3) d(3) by simp
    then show ?thesis
      by (rule context_only_row) (auto simp: offers_row_def clause_join_iff context_no_dates_def)
  qed
qed

lemma candidate_ids_Some:
  assumes "candidate_ids cs p = Some i"
  shows "\<exists>c \<in> set (cs_candidates cs) \<union> set (cs_context_only cs). cc_path c = p \<and> cc_id c = i"
  using map_of_SomeD [OF assms [unfolded candidate_ids_def]] by auto

lemma load_clause_refs_Some:
  assumes "load_clause_refs db snap ps p = Some r"
  shows "r \<in> set (co_clauses (db_corpus db))" "cl_path r = p" "cl_snapshot r = snap"
proof -
  have "(p, r) \<in> set (map (\<lambda>c. (cl_path c, c)) (filter (\<lambda>c. cl_snapshot c = snap \<and> cl_path c \<in> set ps)
          (co_clauses (db_corpus db))))"
    using assms map_of_SomeD unfolding load_clause_refs_def by (fastforce split: if_splits)
  then show "r \<in> set (co_clauses (db_corpus db))" "cl_path r = p" "cl_snapshot r = snap" by auto
qed

lemma run_rule_Some:
  assumes "run_rule ev j facts db r = Inr (Some oc)"
  shows "evaluate r (ev_tz ev) facts (jb_account j) (jb_event_date j)
    (\<lambda>p. map_option cl_text (load_clause_refs db (jb_snapshot j) (clause_paths r) p)) = Inr (Outcome oc)"
proof -
  obtain x where x: "evaluate r (ev_tz ev) facts (jb_account j) (jb_event_date j)
      (\<lambda>p. map_option cl_text (load_clause_refs db (jb_snapshot j) (clause_paths r) p)) = Inr x"
    and "(case x of NotApplicable \<Rightarrow> Inr None | Outcome oc \<Rightarrow> Inr (Some oc)) =
      (Inr (Some oc) :: rule_outcome option res)"
    using assms unfolding run_rule_def Let_def try_missing_Inr_iff by auto
  then have "x = Outcome oc" by (cases x) simp_all
  with x show ?thesis by simp
qed

lemma from_rule_outcome_Inr:
  assumes "from_rule_outcome r oc k d sh snap = Inr result"
  shows "ar_verdict result = oc_verdict oc" "ar_citations result = oc_citations oc"
    "ar_is_shadow result = sh" "ar_decided_by result = (if sh then ByShadow else ByRule)"
    "ar_check_key result = check_key r" "ar_rule_id result = Some (rule_id r)"
  using assms by (auto simp: from_rule_outcome_def ebind_Inr_iff)

lemma persist_args_of_simps [simp]:
  "pa_tenant (persist_args_of ev j result ids rj) = la_tenant_id (jb_account j)"
  "pa_result (persist_args_of ev j result ids rj) = result"
  "pa_clause_ids (persist_args_of ev j result ids rj) = ids"
  "pa_is_whatif (persist_args_of ev j result ids rj) = jb_is_whatif j"
  "pa_loan (persist_args_of ev j result ids rj) = fo_loan_account_id (jb_fact j)"
  "pa_rejected (persist_args_of ev j result ids rj) = rj"
  by (simp_all add: persist_args_of_def)

lemma rule_args_admissible:
  assumes "clause_rule r" "run_rule ev j facts db r = Inr (Some oc)"
    and "from_rule_outcome r oc k d sh snap = Inr result"
  shows "admissible db (persist_args_of ev j result
    (\<lambda>p. map_option cl_id (load_clause_refs db (jb_snapshot j) (clause_paths r) p)) rj)"
proof -
  note cited = clause_rule.outcome_has_decisive [OF assms(1) run_rule_Some [OF assms(2)]]
  have "\<exists>x \<in> set (co_clauses (db_corpus db)). cl_id x = i \<and> cl_path x = cit_path c \<and>
      quotes (cit_excerpt c) x"
    if c: "c \<in> set (oc_citations oc)"
      "map_option cl_id (load_clause_refs db (jb_snapshot j) (clause_paths r) (cit_path c)) = Some i" for c i
  proof -
    obtain x where x: "load_clause_refs db (jb_snapshot j) (clause_paths r) (cit_path c) = Some x"
        "cl_id x = i" using c(2) by auto
    have "cit_excerpt c = cl_text x"
      using c(1) x(1) clause_rule.outcome_citations [OF assms(1) run_rule_Some [OF assms(2)]] by auto
    with x load_clause_refs_Some [OF x(1)] show ?thesis by (auto simp: quotes_def contains_refl)
  qed
  then show ?thesis
    using cited unfolding admissible_def by (auto simp: from_rule_outcome_Inr [OF assms(3)])
qed

text \<open>Under the unique constraint the row behind an id is the one whose text was quoted.\<close>

lemma kept_citation_quotes:
  assumes "unique_paths co" "\<forall>c \<in> set (cs_candidates cs) \<union> set (cs_context_only cs). offers_row co snap c"
    and "grounded cs d cit" "candidate_ids cs (cit_path cit) = Some i"
  shows "\<exists>r \<in> set (co_clauses co). cl_id r = i \<and> cl_path r = cit_path cit \<and> quotes (cit_excerpt cit) r"
proof -
  obtain c where c: "c \<in> set (cs_candidates cs) \<union> set (cs_context_only cs)" "cc_path c = cit_path cit"
      "is_literal_substring (cit_excerpt cit) (cc_text c)"
    using grounded_quote [OF assms(3)] by blast
  obtain c' where c': "c' \<in> set (cs_candidates cs) \<union> set (cs_context_only cs)"
      "cc_path c' = cit_path cit" "cc_id c' = i"
    using candidate_ids_Some [OF assms(4)] by blast
  obtain r where r: "r \<in> set (co_clauses co)" "cl_snapshot r = snap" "cl_path r = cit_path cit"
      "cl_text r = cc_text c"
    using assms(2) c(1,2) unfolding offers_row_def by metis
  obtain r' where r': "r' \<in> set (co_clauses co)" "cl_snapshot r' = snap" "cl_path r' = cit_path cit"
      "cl_id r' = i"
    using assms(2) c'(1,2,3) unfolding offers_row_def by metis
  have "r = r'" using unique_pathsD [OF assms(1) r(1) r'(1)] r(2,3) r'(2,3) by simp
  with r r' c(3) show ?thesis by (auto simp: quotes_def is_literal_substring_def split: if_splits)
qed

lemma validated_citation_grounded:
  assumes "cit \<in> set (vo_citations (validate draft cs d))"
  obtains kept where "grounded cs d kept" "cit_path kept = cit_path cit" "cit_excerpt kept = cit_excerpt cit"
  using validate_cases [of draft cs d]
proof cases
  case downgrade
  then obtain k where "k \<in> set (kept_of cs d (vd_citations draft))" "cit = k\<lparr>cit_role := ContextOnly\<rparr>"
    using assms by (auto simp: as_context_def)
  then show ?thesis by (intro that [of k]) (simp_all add: kept_grounded)
next
  case pass
  then show ?thesis using assms by (intro that [of cit]) (simp_all add: kept_grounded)
qed

lemma model_args_admissible:
  assumes "engine_sound eng" "unique_paths (db_corpus db)"
    and "retrieve_candidates eng st pins (db_corpus db) snapshot entity borrower as_of k q qvec = Inr cs"
  shows "admissible db (persist_args_of ev j (model_result j' draft call (validate draft cs d) cs sev)
    (candidate_ids cs) rj)"
proof -
  have "\<exists>c \<in> set (vo_citations (validate draft cs d)). cit_role c = Decisive"
    if "vo_verdict (validate draft cs d) \<noteq> NoClauseFound"
    using that by (cases rule: validate_cases [of draft cs d]) auto
  moreover have "\<exists>r \<in> set (co_clauses (db_corpus db)). cl_id r = i \<and> cl_path r = cit_path c \<and>
      quotes (cit_excerpt c) r"
    if c: "c \<in> set (vo_citations (validate draft cs d))" "candidate_ids cs (cit_path c) = Some i" for c i
  proof -
    obtain k where k: "grounded cs d k" "cit_path k = cit_path c" "cit_excerpt k = cit_excerpt c"
      using c(1) by (rule validated_citation_grounded)
    have "\<forall>c \<in> set (cs_candidates cs) \<union> set (cs_context_only cs). offers_row (db_corpus db) snapshot c"
      using retrieved_row [OF assms(1,3)] by blast
    from kept_citation_quotes [OF assms(2) this k(1)] show ?thesis using k(2,3) c(2) by simp
  qed
  ultimately show ?thesis by (simp add: admissible_def model_result_def)
qed

lemma rules_loop_Cons_Inr:
  assumes "rules_loop ev j facts iv (r # rs) db results decided = Inr out"
  obtains (skip) "run_rule ev j facts db r = Inr None"
      "rules_loop ev j facts iv rs db results decided = Inr out"
    | (fire) oc shadow result db' aid where "run_rule ev j facts db r = Inr (Some oc)"
      "is_shadow (ev_rules ev) (rule_id r) iv = Inr shadow"
      "from_rule_outcome r oc (fo_field_key (jb_fact j)) (jb_event_date j) shadow (jb_snapshot j) = Inr result"
      "persist (ev_gen ev) (ev_now ev) (persist_args_of ev j result
         (\<lambda>p. map_option cl_id (load_clause_refs db (jb_snapshot j) (clause_paths r) p)) []) db
       = Inr (db', aid)"
      "rules_loop ev j facts iv rs db' (results @ [result]) (decided \<or> \<not> shadow) = Inr out"
proof -
  obtain res where res: "run_rule ev j facts db r = Inr res"
    using assms by (auto simp: ebind_Inr_iff)
  show ?thesis
  proof (cases res)
    case None
    with assms res show ?thesis by (intro skip) simp_all
  next
    case (Some oc)
    with assms res show ?thesis by (auto simp: ebind_Inr_iff intro: fire)
  qed
qed

lemma model_path_Inr:
  assumes "model_path ev j spec db results = Inr (db'', out)"
  obtains qvec cs draft call sev db' aid where
    "retrieve_candidates (ev_engine ev) (ev_settings ev) (ev_pins ev) (db_corpus db)
       (jb_snapshot j) (la_entity_type (jb_account j))
       (if la_is_microfinance (jb_account j) then borrower_microfinance else borrower_general)
       (Some (jb_event_date j)) (fo_field_key (jb_fact j))
       (ev_lexical_query ev (fs_label spec) (render_value_display (jb_fact j))) (Some qvec) = Inr cs"
    "persist (ev_gen ev) (ev_now ev) (persist_args_of ev j
       (model_result j draft call (validate draft cs (jb_event_date j)) cs sev) (candidate_ids cs)
       (vo_rejected (validate draft cs (jb_event_date j)))) db = Inr (db', aid)"
    "db'' = recompute_unless_whatif ev j db'"
    "out = results @ [model_result j draft call (validate draft cs (jb_event_date j)) cs sev]"
  using assms unfolding model_path_def Let_def
  by (elim ebind_InrE) (auto simp: ebind_Inr_iff intro: that split: prod.splits)

lemma assess_fact_Inr:
  assumes "assess_fact ev j db = Inr (db', results)"
  obtains spec db1 rs decided where "field_get (ev_fields ev) (fo_field_key (jb_fact j)) = Inr spec"
    "rules_loop ev j (load_fact_index db (fo_loan_account_id (jb_fact j)))
       (load_instrument_verification db (jb_snapshot j))
       (rules_for_field (ev_rules ev) (fo_field_key (jb_fact j))) db [] False
     = Inr (db1, rs, decided)"
    "(if decided then Inr (recompute_unless_whatif ev j db1, rs)
      else model_path ev j spec db1 rs) = Inr (db', results)"
  using assms
  by (auto simp: assess_fact_def Let_def ebind_Inr_iff intro: that split: option.splits)

section \<open>Every store invariant survives an assessment\<close>

context store_invariant
begin

lemma rules_loop_keeps:
  assumes "rules_loop ev j facts iv rs db results decided = Inr (db', results', decided')"
    and "ev_gen ev = gen" "mode (jb_is_whatif j) (la_tenant_id (jb_account j)) (fo_loan_account_id (jb_fact j))" "\<forall>r \<in> set rs. clause_rule r" "I db"
  shows "I db'"
  using assms(1,4,5)
proof (induction rs arbitrary: db results decided)
  case (Cons r rs)
  from Cons.prems(1) show ?case
  proof (cases rule: rules_loop_Cons_Inr)
    case skip
    then show ?thesis using Cons by simp
  next
    case (fire oc shadow result db1 aid)
    have "I db1"
      using persist_keeps [OF _ Cons.prems(3) rule_args_admissible [OF _ fire(1,3)]] fire(4)
        Cons.prems(2) assms(2,3) by simp
    then show ?thesis using Cons.IH [OF fire(5)] Cons.prems(2) by simp
  qed
qed simp

end

lemma rules_loop_inputs:
  assumes "rules_loop ev j facts iv rs db results decided = Inr (db', results', decided')"
    and "\<forall>r \<in> set rs. clause_rule r"
  shows "db_corpus db' = db_corpus db \<and> db_facts db' = db_facts db"
  using inputs_fixed.rules_loop_keeps [OF assms(1) refl _ assms(2)] by simp

context store_invariant
begin

lemma recompute_unless_whatif_keeps:
  "mode (jb_is_whatif j) (la_tenant_id (jb_account j)) (fo_loan_account_id (jb_fact j)) \<Longrightarrow> I db \<Longrightarrow> I (recompute_unless_whatif ev j db)"
  using recompute_keeps by (cases "jb_is_whatif j") (simp_all add: recompute_unless_whatif_def)

lemma model_path_keeps:
  assumes "model_path ev j spec db results = Inr (db', out)"
    and "ev_gen ev = gen" "mode (jb_is_whatif j) (la_tenant_id (jb_account j)) (fo_loan_account_id (jb_fact j))" "engine_sound (ev_engine ev)" "unique_paths (db_corpus db)"
    and "I db"
  shows "I db'"
  using assms(1)
proof (cases rule: model_path_Inr)
  case (1 qvec cs draft call sev db1 aid)
  have "I db1"
    using persist_keeps [OF _ assms(6) model_args_admissible [OF assms(4,5) 1(1)]] 1(2) assms(2,3)
    by simp
  then show ?thesis using 1(3) recompute_unless_whatif_keeps assms(3) by simp
qed

lemma assess_fact_keeps:
  assumes "assess_fact ev j db = Inr (db', results)"
    and "ev_gen ev = gen" "mode (jb_is_whatif j) (la_tenant_id (jb_account j)) (fo_loan_account_id (jb_fact j))" "engine_sound (ev_engine ev)"
    and "unique_paths (db_corpus db)" "ev_rules ev = shipped_registry" "I db"
  shows "I db'"
proof -
  let ?k = "fo_field_key (jb_fact j)"
  obtain spec db1 rs decided where loop: "rules_loop ev j
        (load_fact_index db (fo_loan_account_id (jb_fact j)))
        (load_instrument_verification db (jb_snapshot j))
        (rules_for_field (ev_rules ev) ?k) db [] False = Inr (db1, rs, decided)"
    and rest: "(if decided then Inr (recompute_unless_whatif ev j db1, rs)
        else model_path ev j spec db1 rs) = Inr (db', results)"
    using assms(1) by (rule assess_fact_Inr)
  have rules: "\<forall>r \<in> set (rules_for_field (ev_rules ev) ?k). clause_rule r"
    using rules_for_field_registered(1) assms(6) by simp
  have "I db1" using rules_loop_keeps [OF loop assms(2,3) rules assms(7)] .
  moreover have "unique_paths (db_corpus db1)"
    using rules_loop_inputs [OF loop rules] assms(5) by simp
  ultimately show ?thesis
    using rest recompute_unless_whatif_keeps model_path_keeps [OF _ assms(2-4)] assms(3)
    by (cases decided) auto
qed

end

section \<open>What an assessment returns\<close>

lemma rules_loop_results:
  assumes "rules_loop ev j facts iv rs db results decided = Inr (db', results', decided')"
  shows "\<exists>new. results' = results @ new \<and>
    (\<forall>r \<in> set new. ar_decided_by r = (if ar_is_shadow r then ByShadow else ByRule) \<and> ar_rule_id r \<noteq> None) \<and>
    (decided' \<longleftrightarrow> decided \<or> (\<exists>r \<in> set new. \<not> ar_is_shadow r)) \<and>
    map as_result (db_assessments db') = map as_result (db_assessments db) @ new"
  using assms
proof (induction rs arbitrary: db results decided)
  case (Cons r rs)
  from Cons.prems show ?case
  proof (cases rule: rules_loop_Cons_Inr)
    case skip
    then show ?thesis using Cons.IH by blast
  next
    case (fire oc shadow result db1 aid)
    obtain new where new: "results' = (results @ [result]) @ new"
        "\<forall>r \<in> set new. ar_decided_by r = (if ar_is_shadow r then ByShadow else ByRule) \<and> ar_rule_id r \<noteq> None"
        "decided' \<longleftrightarrow> (decided \<or> \<not> shadow) \<or> (\<exists>r \<in> set new. \<not> ar_is_shadow r)"
        "map as_result (db_assessments db') = map as_result (db_assessments db1) @ new"
      using Cons.IH [OF fire(5)] by blast
    show ?thesis
      using new from_rule_outcome_Inr [OF fire(3)] persist_results [OF fire(4)]
      by (intro exI [of _ "result # new"]) auto
  qed
qed simp

lemma recompute_unless_whatif_rows [simp]:
  "db_assessments (recompute_unless_whatif ev j db) = db_assessments db"
  by (simp add: recompute_unless_whatif_def)

lemma model_path_results:
  assumes "model_path ev j spec db results = Inr (db', out)"
  shows "\<exists>m. out = results @ [m] \<and> ar_rule_id m = None \<and> \<not> ar_is_shadow m \<and>
    ar_decided_by m \<in> {ByModel, ValidatorDowngrade} \<and>
    ar_check_key m = ''F:'' @ fo_field_key (jb_fact j) \<and>
    map as_result (db_assessments db') = map as_result (db_assessments db) @ [m]"
  using assms
proof (cases rule: model_path_Inr)
  case (1 qvec cs draft call sev db1 aid)
  show ?thesis using 1(3,4) persist_results [OF 1(2)] by (simp add: model_result_def)
qed

text \<open>The rule loop reads nothing of the environment that only the model path uses.\<close>

definition with_model ::
  "pins \<Rightarrow> string \<Rightarrow> (string \<Rightarrow> string \<Rightarrow> string) \<Rightarrow> 'v engine \<Rightarrow> (string \<Rightarrow> 'v list res) \<Rightarrow>
   (string \<Rightarrow> (verdict_draft \<times> call_record) res) \<Rightarrow> 'v env \<Rightarrow> 'v env" where
  "with_model pins template lexical engine emb draft ev =
     ev\<lparr>ev_pins := pins, ev_template := template, ev_lexical_query := lexical,
        ev_engine := engine, ev_embed := emb, ev_structured := draft\<rparr>"

lemma rules_loop_with_model:
  "rules_loop (with_model pins template lexical engine emb draft ev) j facts iv rs db results decided =
   rules_loop ev j facts iv rs db results decided"
proof (induction rs arbitrary: db results decided)
  case (Cons r rs)
  have "run_rule (with_model pins template lexical engine emb draft ev) j facts db r =
      run_rule ev j facts db r" for db
    by (simp add: run_rule_def with_model_def)
  moreover have "persist_args_of (with_model pins template lexical engine emb draft ev) j =
      persist_args_of ev j"
    by (simp add: persist_args_of_def with_model_def fun_eq_iff)
  moreover have "ev_rules (with_model pins template lexical engine emb draft ev) = ev_rules ev"
    "ev_gen (with_model pins template lexical engine emb draft ev) = ev_gen ev"
    "ev_now (with_model pins template lexical engine emb draft ev) = ev_now ev"
    by (simp_all add: with_model_def)
  ultimately show ?case using Cons.IH by simp
qed simp

text \<open>An account with one missing grievance clause, under a corpus that holds the clause.\<close>

definition grievance_store :: "string \<Rightarrow> store" where
  "grievance_store verification =
     \<lparr>db_documents = [], db_facts = [],
      db_corpus = \<lparr>co_clauses = [sample_row 11 1 ''DL2025/p11'' [] (Date 2025 5 8)],
        co_instruments = [(sample_instrument 1 ''DL2025'' (Date 2025 5 8))\<lparr>in_verification := verification\<rparr>],
        co_references = []\<rparr>,
      db_assessments = [], db_citations = [], db_audit = [], db_conflicts = [],
      db_states = Map.empty, db_uuids = 0, db_metrics = []\<rparr>"

definition grievance_job :: "date option \<Rightarrow> job" where
  "grievance_job as_of =
     \<lparr>jb_fact = \<lparr>fo_id = 5, fo_document_id = 6, fo_loan_account_id = 1,
        fo_field_key = ''grievance_mechanism_clause_ref'', fo_value = None, fo_value_raw = None,
        fo_is_absent = True, fo_confidence = 1, fo_span = None\<rparr>,
      jb_account = sample_account, jb_document_event_date = Date 2026 1 1, jb_snapshot = 1,
      jb_request_id = ''r'', jb_as_of = as_of\<rparr>"

definition sample_call :: call_record where
  "sample_call = \<lparr>cr_model = ''m'', cr_adapter_id = None, cr_tokens_in = 1, cr_tokens_out = 1,
     cr_cost_usd = 0, cr_wall_clock_ms = 1\<rparr>"

definition sample_env :: "unit env" where
  "sample_env =
     \<lparr>ev_gen = (\<lambda>n. n), ev_now = 9, ev_tz = (\<lambda>_. 0), ev_rules = shipped_registry,
      ev_fields = shipped_field_registry,
      ev_settings = default_settings, ev_serving_mode = ''hosted_baseline'',
      ev_pins = Map.empty, ev_template = ''{candidate_block}'', ev_lexical_query = (\<lambda>l s. l),
      ev_engine = sample_engine, ev_embed = (\<lambda>_. Inr [()]),
      ev_structured = (\<lambda>_. Inr (\<lparr>vd_verdict = NoClauseFound, vd_citations = [], vd_rationale = [],
        vd_confidence = Low\<rparr>, sample_call))\<rparr>"

lemma sample_rules: "rules_for_field shipped_registry ''grievance_mechanism_clause_ref'' = [R12]"
  by (simp add: rules_for_field_def shipped_registry_def rule_modules_def rule_record_defs)

lemma mechanism_spec:
  obtains spec where "field_get shipped_field_registry ''grievance_mechanism_clause_ref'' = Inr spec"
    "fs_type spec = ''string''"
proof -
  have one: "list_ex (\<lambda>s. fs_key s = ''grievance_mechanism_clause_ref'' \<and> fs_type s = ''string'') shipped_fields"
    by code_simp
  then obtain s where s: "s \<in> set shipped_fields" "fs_key s = ''grievance_mechanism_clause_ref''" "fs_type s = ''string''"
    by (auto simp: list_ex_iff)
  then have "list_ex (\<lambda>s. fs_key s = ''grievance_mechanism_clause_ref'') shipped_fields"
    by (auto simp: list_ex_iff)
  then obtain spec where "field_get shipped_field_registry ''grievance_mechanism_clause_ref'' = Inr spec"
    "spec \<in> set shipped_fields" "fs_key spec = ''grievance_mechanism_clause_ref''"
    by (rule shipped_field_get)
  moreover from this s have "spec = s"
    using shipped_keys_distinct unfolding distinct_map by (metis inj_onD)
  ultimately show thesis using s(3) that by blast
qed

lemma grievance_run:
  "\<exists>db' r. assess_fact sample_env (grievance_job as_of) (grievance_store ''rbi_verified'') = Inr (db', [r]) \<and>
     ar_verdict r = Violation \<and> ar_decided_by r = ByRule"
proof -
  obtain spec where spec: "field_get shipped_field_registry ''grievance_mechanism_clause_ref'' = Inr spec"
    by (rule mechanism_spec)
  have sev: "severity_for (Some ''R12_grievance_escalation_disclosed'') None Violation = Inr Minor"
    by (simp add: severity_for_def SEVERITY_def)
  show ?thesis
    by (simp add: assess_fact_def sample_env_def grievance_job_def spec sample_rules run_rule_def Let_def
      R12_def R12_evaluate_def has_fact_def load_fact_index_def grievance_store_def latest_by_def
      load_clause_refs_def load_instrument_verification_def sample_row_def sample_instrument_def
      shadow_R12 from_rule_outcome_def sev ok_def persist_def prior_open_def persist_args_of_def)
qed

section \<open>Properties\<close>

lemma sample_env_sound:
  "ev_rules sample_env = shipped_registry" "engine_sound (ev_engine sample_env)"
  "unique_paths (db_corpus (grievance_store v))" "ev_gen sample_env = (\<lambda>n. n)"
  "cite_inv (grievance_store v)" "open_inv (\<lambda>n. n) (grievance_store v)"
  by (simp_all add: sample_env_def engine_sound_def sample_engine_def unique_paths_def
      grievance_store_def cite_inv_def open_inv_def fresh_ids_def one_open_def linked_def)



text \<open>
  An assessment keeps the history sound, with one open real assessment per check at most and
  every superseded one linked to a later one; it leaves the facts and the corpus alone; and a
  what-if run changes neither the open assessments nor any compliance state.
\<close>

theorem assess_history:
  assumes "assess_fact ev j db = Inr (db', results)" "open_inv (ev_gen ev) db"
    and "ev_rules ev = shipped_registry" "engine_sound (ev_engine ev)" "unique_paths (db_corpus db)"
  shows "open_inv (ev_gen ev) db' \<and> db_corpus db' = db_corpus db \<and> db_facts db' = db_facts db \<and>
    (jb_is_whatif j \<longrightarrow> standing db' = standing db)"
proof -
  note run = assms(1) refl _ assms(4,5,3)
  have "open_inv (ev_gen ev) db'" using open_rows.assess_fact_keeps [OF run assms(2)] by simp
  moreover have "db_corpus db' = db_corpus db \<and> db_facts db' = db_facts db"
    using inputs_fixed.assess_fact_keeps [OF run] by simp
  moreover have "standing db' = standing db" if "jb_is_whatif j"
    using whatif_frame.assess_fact_keeps [OF run, of "standing db"] that assms(2) by simp
  ultimately show ?thesis by blast
qed

theorem assess_history_witness:
  "\<exists>db' r. assess_fact sample_env (grievance_job (Some (Date 2027 1 1))) (grievance_store ''rbi_verified'')
     = Inr (db', [r]) \<and> standing db' = standing (grievance_store ''rbi_verified'')"
proof -
  obtain db' r where run: "assess_fact sample_env (grievance_job (Some (Date 2027 1 1)))
      (grievance_store ''rbi_verified'') = Inr (db', [r])"
    using grievance_run by blast
  have "open_inv (ev_gen sample_env) (grievance_store ''rbi_verified'')"
    by (simp only: sample_env_sound)
  from assess_history [OF run this sample_env_sound(1,2,3)] run show ?thesis
    by (auto simp: jb_is_whatif_def grievance_job_def)
qed

text \<open>
  What is returned is what is recorded, in order, one row each, and somebody citable decides:
  either the results are all of rules and one of them is out of shadow, or they are shadow
  results followed by one result of the model under the key of the field.
\<close>

theorem results_recorded:
  assumes "assess_fact ev j db = Inr (db', results)"
  shows "map as_result (db_assessments db') = map as_result (db_assessments db) @ results \<and>
    ((\<forall>r \<in> set results. ar_rule_id r \<noteq> None) \<and>
       (\<exists>r \<in> set results. \<not> ar_is_shadow r \<and> ar_decided_by r = ByRule) \<or>
     (\<exists>shadows m. results = shadows @ [m] \<and>
       (\<forall>r \<in> set shadows. ar_is_shadow r \<and> ar_decided_by r = ByShadow) \<and>
       ar_rule_id m = None \<and> \<not> ar_is_shadow m \<and> ar_decided_by m \<in> {ByModel, ValidatorDowngrade} \<and>
       ar_check_key m = ''F:'' @ fo_field_key (jb_fact j)))"
  using assms
proof (rule assess_fact_Inr)
  fix spec db1 rs decided
  assume loop: "rules_loop ev j (load_fact_index db (fo_loan_account_id (jb_fact j)))
       (load_instrument_verification db (jb_snapshot j))
       (rules_for_field (ev_rules ev) (fo_field_key (jb_fact j))) db [] False = Inr (db1, rs, decided)"
    and rest: "(if decided then Inr (recompute_unless_whatif ev j db1, rs)
      else model_path ev j spec db1 rs) = Inr (db', results)"
  obtain new where new: "rs = new"
      "\<forall>r \<in> set new. ar_decided_by r = (if ar_is_shadow r then ByShadow else ByRule) \<and> ar_rule_id r \<noteq> None"
      "decided \<longleftrightarrow> (\<exists>r \<in> set new. \<not> ar_is_shadow r)"
      "map as_result (db_assessments db1) = map as_result (db_assessments db) @ new"
    using rules_loop_results [OF loop] by auto
  show ?thesis
  proof (cases decided)
    case True
    with rest new show ?thesis by auto
  next
    case False
    with rest have "model_path ev j spec db1 rs = Inr (db', results)" by simp
    from model_path_results [OF this] False new show ?thesis by auto
  qed
qed

theorem results_recorded_witness:
  "\<exists>db' r. assess_fact sample_env (grievance_job None) (grievance_store ''rbi_verified'') = Inr (db', [r]) \<and>
     map as_result (db_assessments db') = [r] \<and> ar_rule_id r \<noteq> None"
proof -
  obtain db' r where run: "assess_fact sample_env (grievance_job None) (grievance_store ''rbi_verified'') =
      Inr (db', [r])" "ar_decided_by r = ByRule"
    using grievance_run by blast
  have "map as_result (db_assessments (grievance_store ''rbi_verified'')) = []"
    by (simp add: grievance_store_def)
  with results_recorded [OF run(1)] run show ?thesis by auto
qed





end
