(* ===== verification/CC_Typing.thy ===== *)
theory CC_Typing
  imports CC_Registry CC_Fields
begin

text \<open>
  The rules against the schema: what extraction stores is read back by the accessors of
  \<open>FactIndex\<close>, and on facts that conform to the shipped field declarations no rule raises anything
  but \<open>MissingFact\<close>, which the assessment catches.
\<close>

section \<open>Reading back what was stored\<close>

definition valid_offset :: "int option \<Rightarrow> bool" where
  "valid_offset z = (case z of None \<Rightarrow> True | Some z \<Rightarrow> \<bar>z\<bar> < 86400 \<and> z mod 60 = 0)"

fun valid_datetime :: "datetime \<Rightarrow> bool" where
  "valid_datetime (DateTime d t z) \<longleftrightarrow> valid_date d \<and> valid_time t \<and> valid_offset z"

lemma length_date_isoformat: "length (date_isoformat d) = 10"
  by (cases d) simp

lemma length_pad6 [simp]: "length (pad6 i) = 6"
  by (simp add: pad6_def)

lemma parse_pad6:
  assumes "0 \<le> i" "i < 1000000"
  shows "parse_digits (pad6 i) = Some (nat i)"
proof -
  have p: "parse_digits (pad2 (i div 10000)) = Some (nat (i div 10000))"
    "parse_digits (pad4 (i mod 10000)) = Some (nat (i mod 10000))"
    using assms by (simp_all add: parse_pad2 parse_pad4)
  have app: "foldl (\<lambda>a c. 10 * a + digit_val c) n s = n * 10 ^ length s + digits_val s" for n s
  proof (induction s rule: rev_induct)
    case (snoc c s)
    then show ?case by (simp add: algebra_simps)
  qed simp
  have "parse_digits (pad6 i) = Some (nat (i div 10000) * 10 ^ 4 + nat (i mod 10000))"
    using p app [of "digits_val (pad2 (i div 10000))" "pad4 (i mod 10000)"]
    by (auto simp: pad6_def parse_digits_def digits_val_def split: if_splits)
  moreover have "nat (i div 10000) * 10 ^ 4 + nat (i mod 10000) = nat i"
    using assms by (simp add: nat_div_distrib nat_mod_distrib)
  ultimately show ?thesis by simp
qed

lemma pad_not:
  "is_digit c \<Longrightarrow> c \<noteq> CHR '':'' \<and> c \<noteq> CHR ''Z'' \<and> \<not> is_sign c"
  by (auto simp: is_digit_def is_sign_def)

lemma pad_digits: "list_all is_digit (pad2 i)" "list_all is_digit (pad4 i)" "list_all is_digit (pad6 i)"
  using parse_pad2 by (simp_all add: pad2_def pad4_def pad6_def Let_def)

lemma time_iso_roundtrip:
  assumes "valid_time t"
  shows "time_fromisoformat (time_isoformat t) = Inr t"
proof (cases t)
  case (Time h m s u)
  have b: "0 \<le> h" "h < 100" "0 \<le> m" "m < 100" "0 \<le> s" "s < 100" "0 \<le> u" "u < 1000000"
    using assms Time by auto
  have p: "parse_digits (pad2 h) = Some (nat h)" "parse_digits (pad2 m) = Some (nat m)"
      "parse_digits (pad2 s) = Some (nat s)" "parse_digits (pad6 u) = Some (nat u)"
    using b by (simp_all add: parse_pad2 parse_pad6)
  have z: "parse_digits ''0'' = Some 0" by (simp add: parse_digits_def digits_val_def digit_val_def is_digit_def)
  show ?thesis
    using assms b p z Time
    by (cases "u = 0") (simp_all add: time_fromisoformat_def Let_def nth_append mk_time_def)
qed

lemma last_pad:
  "last (pad2 i) \<noteq> CHR ''Z''" "last (pad6 i) \<noteq> CHR ''Z''"
proof -
  have "last xs \<noteq> CHR ''Z''" if "list_all is_digit xs" "xs \<noteq> []" for xs
    using that pad_not by (metis last_in_set list_all_iff)
  then show "last (pad2 i) \<noteq> CHR ''Z''" "last (pad6 i) \<noteq> CHR ''Z''"
    using pad_digits by (metis length_pad(1) length_pad6 list.size(3) zero_neq_numeral)+
qed

lemma split_zone_naive: "split_zone (time_isoformat t) = Inr (time_isoformat t, None)"
proof (cases t)
  case (Time h m s u)
  show ?thesis
  proof (cases "u = 0")
    case True
    have "\<not> is_sign ((pad2 h @ '':'' @ pad2 m @ '':'' @ pad2 s) ! 2)"
      by (simp add: nth_append is_sign_def)
    then show ?thesis using Time True last_pad by (simp add: split_zone_def Let_def)
  next
    case False
    have "pad6 u ! 0 \<in> set (pad6 u)" by (rule nth_mem) simp
    then have "\<not> is_sign (pad6 u ! 0)" using pad_digits(3) pad_not by (metis list_all_iff)
    moreover have "time_isoformat t ! 9 = pad6 u ! 0" using Time False by (simp add: nth_append)
    moreover have "last (time_isoformat t) = last (pad6 u)" "length (time_isoformat t) = 15"
      using Time False by (simp_all add: last_append flip: length_0_conv)
    ultimately show ?thesis using last_pad by (simp add: split_zone_def Let_def)
  qed
qed

lemma split_zone_utc: "split_zone (s @ ''Z'') = Inr (s, Some 0)"
  by (simp add: split_zone_def Let_def)

lemma split_zone_parts:
  assumes "length x = n + 6" "last x \<noteq> CHR ''Z''"
    and "parse_digits (take 2 (drop (n + 1) x)) = Some h" "parse_digits (drop (n + 4) x) = Some m"
    and "x ! n = (if neg then CHR ''-'' else CHR ''+'')" "x ! (n + 3) = CHR '':''" "h < 24" "m < 60"
  shows "split_zone x = Inr (take n x, Some ((if neg then - 1 else 1) * (int h * 3600 + int m * 60)))"
  using assms by (cases neg) (auto simp: split_zone_def Let_def is_sign_def add.commute)

lemma split_zone_offset:
  assumes "\<bar>z\<bar> < 86400" "z mod 60 = 0"
  shows "split_zone (s @ offset_isoformat z) = Inr (s, Some z)"
proof -
  let ?h = "\<bar>z\<bar> div 3600" and ?m = "\<bar>z\<bar> mod 3600 div 60"
  let ?sg = "if z < 0 then ''-'' else ''+''"
  have b: "0 \<le> ?h" "?h < 24" "0 \<le> ?m" "?m < 60" using assms(1) by auto
  have p: "parse_digits (pad2 ?h) = Some (nat ?h)" "parse_digits (pad2 ?m) = Some (nat ?m)"
    using b by (simp_all add: parse_pad2)
  have a0: "\<bar>z\<bar> mod 60 = 0" using assms(2) by (auto simp: abs_if mod_minus_eq)
  have off: "offset_isoformat z = ?sg @ pad2 ?h @ '':'' @ pad2 ?m"
    using a0 by (simp add: offset_isoformat_def Let_def)
  let ?s = "s @ offset_isoformat z"
  have len: "length ?s = length s + 6" by (simp add: off)
  have "last ?s = last (pad2 ?m)" by (simp add: off last_append flip: length_0_conv)
  then have l: "last ?s \<noteq> CHR ''Z''" using last_pad by simp
  have parts: "take 2 (drop (length s + 1) ?s) = pad2 ?h" "drop (length s + 4) ?s = pad2 ?m"
    "?s ! length s = (if z < 0 then CHR ''-'' else CHR ''+'')" "?s ! (length s + 3) = CHR '':''"
    by (simp_all add: off nth_append)
  have v: "(if z < 0 then - 1 else 1) * (int (nat ?h) * 3600 + int (nat ?m) * 60) = z"
  proof -
    have "\<bar>z\<bar> mod 3600 mod 60 = \<bar>z\<bar> mod 60" by (simp add: mod_mod_cancel)
    then have "?m * 60 = \<bar>z\<bar> mod 3600" using a0 by (metis add.right_neutral div_mult_mod_eq)
    then have "?h * 3600 + ?m * 60 = \<bar>z\<bar>" by simp
    then show ?thesis using b by (simp add: abs_if split: if_splits)
  qed
  have "split_zone ?s = Inr (take (length s) ?s,
      Some ((if z < 0 then - 1 else 1) * (int (nat ?h) * 3600 + int (nat ?m) * 60)))"
  proof (rule split_zone_parts [OF len l _ _ parts(3,4)])
    show "parse_digits (take 2 (drop (length s + 1) ?s)) = Some (nat ?h)" by (simp only: parts(1) p)
    show "parse_digits (drop (length s + 4) ?s) = Some (nat ?m)" by (simp only: parts(2) p)
    show "nat ?h < 24" using b(2) by simp
    show "nat ?m < 60" using b(4) by simp
  qed
  then show ?thesis unfolding v by simp
qed

lemma datetime_json_roundtrip:
  assumes "valid_datetime t"
  shows "datetime_fromisoformat (datetime_json t) = Inr t"
proof (cases t)
  case (DateTime d tm z)
  have v: "valid_date d" "valid_time tm" "valid_offset z" using assms DateTime by auto
  have dt: "date_fromisoformat (take 10 (date_isoformat d @ rest)) = Inr d" for rest
    using date_iso_roundtrip [OF v(1)] by (simp add: length_date_isoformat)
  have dr: "drop 11 (date_isoformat d @ ''T'' @ rest) = rest" for rest
    by (simp add: length_date_isoformat)
  have go: "datetime_fromisoformat (date_isoformat d @ ''T'' @ rest) = Inr t"
    if "split_zone rest = Inr (time_isoformat tm, z)" "rest \<noteq> []" for rest
    using that dt dr time_iso_roundtrip [OF v(2)] DateTime
    by (simp add: datetime_fromisoformat_def length_date_isoformat)
  have ne: "time_isoformat tm \<noteq> []" by (cases tm) (simp flip: length_0_conv)
  consider "z = None" | "z = Some 0" | y where "z = Some y" "y \<noteq> 0" by (cases z) auto
  then show ?thesis
  proof cases
    case 1
    then show ?thesis using go [of "time_isoformat tm"] split_zone_naive ne DateTime
      by (simp add: datetime_json_def datetime_isoformat_def)
  next
    case 2
    then show ?thesis using go [of "time_isoformat tm @ ''Z''"] split_zone_utc DateTime
      by (simp add: datetime_json_def)
  next
    case 3
    then show ?thesis
      using go [of "time_isoformat tm @ offset_isoformat y"] split_zone_offset v(3) ne DateTime
      by (simp add: datetime_json_def datetime_isoformat_def valid_offset_def)
  qed
qed

section \<open>Facts that conform to the schema\<close>

text \<open>A date at least two days inside the range of \<open>datetime\<close>.\<close>

definition mid_range :: "date \<Rightarrow> bool" where
  "mid_range d \<longleftrightarrow> 3 \<le> ordinal d \<and> ordinal d \<le> max_ordinal - 2"

fun valid_value :: "fact_value \<Rightarrow> bool" where
  "valid_value (DateValue d) \<longleftrightarrow> valid_date d"
| "valid_value (DateTimeValue t) \<longleftrightarrow> valid_datetime t \<and> dt_offset t \<noteq> None \<and> mid_range (dt_date t)"
| "valid_value (TimeValue t) \<longleftrightarrow> valid_time t"
| "valid_value _ \<longleftrightarrow> True"

definition declared_type :: "string \<Rightarrow> string option" where
  "declared_type k = map_option fs_type (map_of (fg_fields shipped_field_registry) k)"

text \<open>
  Every present fact is a stored value of the type its field declares.
\<close>

definition conforms :: "fact_index \<Rightarrow> bool" where
  "conforms facts \<longleftrightarrow>
     (\<forall>k r. facts k = Some r \<longrightarrow> \<not> fr_is_absent r \<longrightarrow>
        (\<exists>v. fr_value r = Some (value_to_jsonable v) \<and> valid_value v \<and> declared_type k = Some (fv_kind v)))"

text \<open>The fields that rules read, each with the type its accessor expects.\<close>

definition rule_field_types :: "(string \<times> string) list" where
  "rule_field_types =
     [(''agent_iibf_certified_flag'', ''boolean''),
      (''apr_bps'', ''rate_bps''),
      (''biometric_data_collected_flag'', ''boolean''),
      (''call_recorded_flag'', ''boolean''),
      (''contact_datetime'', ''datetime''),
      (''cooling_off_period_days'', ''duration_days''),
      (''cooling_off_prepayment_penalty_flag'', ''boolean''),
      (''cure_notice_21day_sent_date'', ''date''),
      (''cure_notice_7day_sent_date'', ''date''),
      (''data_stored_offshore_flag'', ''boolean''),
      (''days_past_due_at_contact'', ''integer''),
      (''device_financed_by_loan_flag'', ''boolean''),
      (''device_restoration_delay_hours'', ''integer''),
      (''device_restriction_applied_flag'', ''boolean''),
      (''disbursal_credited_account_type'', ''enum''),
      (''docs_lost_flag'', ''boolean''),
      (''duplicate_docs_assistance_offered_flag'', ''boolean''),
      (''fees_total'', ''money''),
      (''first_visit_date'', ''date''),
      (''full_repayment_date'', ''date''),
      (''grievance_officer_details_disclosed_flag'', ''boolean''),
      (''interest_rate_bps'', ''rate_bps''),
      (''kfs_summary_in_agreement_flag'', ''boolean''),
      (''kfs_validity_days'', ''duration_days''),
      (''loan_term_days'', ''duration_days''),
      (''lsp_fee_borne_by'', ''enum''),
      (''offshore_deletion_within_hours'', ''integer''),
      (''original_docs_released_date'', ''date''),
      (''pass_through_account_used_flag'', ''boolean''),
      (''penal_charge_capitalised_flag'', ''boolean''),
      (''penal_charge_described_as_interest_flag'', ''boolean''),
      (''recording_retention_days'', ''duration_days''),
      (''recovery_agent_identity_notified_before_contact_flag'', ''boolean''),
      (''release_delay_compensation_paid'', ''money''),
      (''sanctioned_amount'', ''money''),
      (''social_media_disclosure_flag'', ''boolean''),
      (''third_party_contacted_flag'', ''boolean''),
      (''third_party_relationship'', ''enum''),
      (''visit_prior_intimation_date'', ''date'')]"

lemma rule_fields_declared:
  "list_all (\<lambda>(k, ty). map_of (map (\<lambda>s. (fs_key s, fs_type s)) shipped_fields) k = Some ty)
     rule_field_types"
  by code_simp

lemma declared_type_eq: "declared_type k = map_of (map (\<lambda>s. (fs_key s, fs_type s)) shipped_fields) k"
proof -
  have "map_option fs_type (map_of (map (\<lambda>s. (fs_key s, s)) xs) k) =
      map_of (map (\<lambda>s. (fs_key s, fs_type s)) xs) k" for xs :: "field_spec list"
    by (induction xs) auto
  then show ?thesis by (simp add: declared_type_def shipped_field_registry_eq)
qed

lemma declared_by_rules:
  "declared_type ''agent_iibf_certified_flag'' = Some ''boolean''"
  "declared_type ''apr_bps'' = Some ''rate_bps''"
  "declared_type ''biometric_data_collected_flag'' = Some ''boolean''"
  "declared_type ''call_recorded_flag'' = Some ''boolean''"
  "declared_type ''contact_datetime'' = Some ''datetime''"
  "declared_type ''cooling_off_period_days'' = Some ''duration_days''"
  "declared_type ''cooling_off_prepayment_penalty_flag'' = Some ''boolean''"
  "declared_type ''cure_notice_21day_sent_date'' = Some ''date''"
  "declared_type ''cure_notice_7day_sent_date'' = Some ''date''"
  "declared_type ''data_stored_offshore_flag'' = Some ''boolean''"
  "declared_type ''days_past_due_at_contact'' = Some ''integer''"
  "declared_type ''device_financed_by_loan_flag'' = Some ''boolean''"
  "declared_type ''device_restoration_delay_hours'' = Some ''integer''"
  "declared_type ''device_restriction_applied_flag'' = Some ''boolean''"
  "declared_type ''disbursal_credited_account_type'' = Some ''enum''"
  "declared_type ''docs_lost_flag'' = Some ''boolean''"
  "declared_type ''duplicate_docs_assistance_offered_flag'' = Some ''boolean''"
  "declared_type ''fees_total'' = Some ''money''"
  "declared_type ''first_visit_date'' = Some ''date''"
  "declared_type ''full_repayment_date'' = Some ''date''"
  "declared_type ''grievance_officer_details_disclosed_flag'' = Some ''boolean''"
  "declared_type ''interest_rate_bps'' = Some ''rate_bps''"
  "declared_type ''kfs_summary_in_agreement_flag'' = Some ''boolean''"
  "declared_type ''kfs_validity_days'' = Some ''duration_days''"
  "declared_type ''loan_term_days'' = Some ''duration_days''"
  "declared_type ''lsp_fee_borne_by'' = Some ''enum''"
  "declared_type ''offshore_deletion_within_hours'' = Some ''integer''"
  "declared_type ''original_docs_released_date'' = Some ''date''"
  "declared_type ''pass_through_account_used_flag'' = Some ''boolean''"
  "declared_type ''penal_charge_capitalised_flag'' = Some ''boolean''"
  "declared_type ''penal_charge_described_as_interest_flag'' = Some ''boolean''"
  "declared_type ''recording_retention_days'' = Some ''duration_days''"
  "declared_type ''recovery_agent_identity_notified_before_contact_flag'' = Some ''boolean''"
  "declared_type ''release_delay_compensation_paid'' = Some ''money''"
  "declared_type ''sanctioned_amount'' = Some ''money''"
  "declared_type ''social_media_disclosure_flag'' = Some ''boolean''"
  "declared_type ''third_party_contacted_flag'' = Some ''boolean''"
  "declared_type ''third_party_relationship'' = Some ''enum''"
  "declared_type ''visit_prior_intimation_date'' = Some ''date''"
  using rule_fields_declared by (simp_all add: rule_field_types_def declared_type_eq)

text \<open>An evaluation raises \<open>MissingFact\<close> or nothing.\<close>

definition safe :: "'a res \<Rightarrow> bool" where
  "safe r \<longleftrightarrow> (\<forall>e. r = Inl e \<longrightarrow> (\<exists>k. e = MissingFact k))"

lemma safe_simps [simp]:
  "safe (Inr x)" "safe (Inl (MissingFact k))" "safe (ok v cs rat ins)" "safe not_applicable"
  by (simp_all add: safe_def ok_def not_applicable_def)

lemma safe_ebind: "safe (ebind m f) \<longleftrightarrow> safe m \<and> (\<forall>x. m = Inr x \<longrightarrow> safe (f x))"
  by (cases m) (auto simp: safe_def)

lemma safe_try: "safe (try_missing m h f) \<longleftrightarrow>
    safe m \<and> ((\<exists>k. m = Inl (MissingFact k)) \<longrightarrow> safe h) \<and> (\<forall>x. m = Inr x \<longrightarrow> safe (f x))"
  by (auto simp: try_missing_def safe_def split: sum.splits exc.splits)

lemma safe_if: "safe (if b then x else y) \<longleftrightarrow> (b \<longrightarrow> safe x) \<and> (\<not> b \<longrightarrow> safe y)"
  by simp

lemma conforming_value:
  assumes "conforms facts" "declared_type k = Some ty"
  obtains (missing) "\<not> has_fact facts k"
    | (present) r v where "get_fact facts k = Inr r" "fact_value_of r = Inr (value_to_jsonable v)"
      "valid_value v" "fv_kind v = ty"
proof (cases "has_fact facts k")
  case True
  then obtain r where r: "facts k = Some r" "\<not> fr_is_absent r"
    by (auto simp: has_fact_def split: option.splits)
  then obtain v where v: "fr_value r = Some (value_to_jsonable v)" "valid_value v"
      "declared_type k = Some (fv_kind v)"
    using assms(1) unfolding conforms_def by blast
  with r assms(2) show ?thesis
    by (intro present [of r v]) (simp_all add: get_fact_def fact_value_of_def)
qed (rule missing)

lemma fv_kind_cases:
  "fv_kind v = ''boolean'' \<longleftrightarrow> (\<exists>b. v = BoolValue b)" "fv_kind v = ''date'' \<longleftrightarrow> (\<exists>d. v = DateValue d)"
  "fv_kind v = ''money'' \<longleftrightarrow> (\<exists>p c. v = MoneyValue p c)" "fv_kind v = ''rate_bps'' \<longleftrightarrow> (\<exists>b. v = RateValue b)"
  "fv_kind v = ''integer'' \<longleftrightarrow> (\<exists>i. v = IntValue i)" "fv_kind v = ''duration_days'' \<longleftrightarrow> (\<exists>n. v = DaysValue n)"
  "fv_kind v = ''enum'' \<longleftrightarrow> (\<exists>s. v = EnumValue s)" "fv_kind v = ''datetime'' \<longleftrightarrow> (\<exists>t. v = DateTimeValue t)"
  by (cases v; simp)+

lemma typed_access:
  assumes "conforms facts"
  shows "declared_type k = Some ''boolean'' \<Longrightarrow> safe (flag_of facts k)"
    "declared_type k = Some ''boolean'' \<Longrightarrow> safe (flag_of_default facts k b)"
    "declared_type k = Some ''date'' \<Longrightarrow> safe (date_of facts k)"
    "declared_type k = Some ''money'' \<Longrightarrow> safe (money_of facts k)"
    "declared_type k = Some ''rate_bps'' \<Longrightarrow> safe (bps_of facts k)"
    "declared_type k = Some ''integer'' \<Longrightarrow> safe (int_of facts k)"
    "declared_type k = Some ''duration_days'' \<Longrightarrow> safe (int_of facts k)"
    "declared_type k = Some ''enum'' \<Longrightarrow> safe (string_of facts k)"
    "declared_type k = Some ''datetime'' \<Longrightarrow> safe (datetime_of facts k)"
proof -
  note access = flag_of_def flag_of_default_def date_of_def money_of_def bps_of_def int_of_def
    string_of_def datetime_of_def read_key_def obj_get_def fv_kind_cases missing_simps
    date_iso_roundtrip datetime_json_roundtrip
  show "safe (flag_of facts k)" if "declared_type k = Some ''boolean''"
    using assms that by (rule conforming_value) (auto simp: access)
  show "safe (flag_of_default facts k b)" if "declared_type k = Some ''boolean''"
    using assms that by (rule conforming_value) (auto simp: access)
  show "safe (date_of facts k)" if "declared_type k = Some ''date''"
    using assms that by (rule conforming_value) (auto simp: access)
  show "safe (money_of facts k)" if "declared_type k = Some ''money''"
    using assms that by (rule conforming_value) (auto simp: access)
  show "safe (bps_of facts k)" if "declared_type k = Some ''rate_bps''"
    using assms that by (rule conforming_value) (auto simp: access)
  show "safe (int_of facts k)" if "declared_type k = Some ''integer''"
    using assms that by (rule conforming_value) (auto simp: access)
  show "safe (int_of facts k)" if "declared_type k = Some ''duration_days''"
    using assms that by (rule conforming_value) (auto simp: access)
  show "safe (string_of facts k)" if "declared_type k = Some ''enum''"
    using assms that by (rule conforming_value) (auto simp: access)
  show "safe (datetime_of facts k)" if "declared_type k = Some ''datetime''"
    using assms that by (rule conforming_value) (auto simp: access)
qed

lemma contact_in_range:
  assumes "conforms facts" "datetime_of facts ''contact_datetime'' = Inr ts"
  shows "safe (ist_time tz ts)"
  using assms(1) declared_by_rules(5)
proof (rule conforming_value)
  assume "\<not> has_fact facts ''contact_datetime''"
  then show ?thesis using assms(2) by (simp add: missing_simps)
next
  fix r v
  assume r: "get_fact facts ''contact_datetime'' = Inr r" "fact_value_of r = Inr (value_to_jsonable v)"
    "valid_value v" "fv_kind v = ''datetime''"
  then obtain t where t: "v = DateTimeValue t" by (auto simp: fv_kind_cases)
  have v: "valid_datetime t" "dt_offset t \<noteq> None" "mid_range (dt_date t)" using r(3) t by auto
  have ts: "ts = t"
    using assms(2) r t v(1) by (simp add: datetime_of_def read_key_def obj_get_def datetime_json_roundtrip)
  obtain d tm z where dt: "t = DateTime d tm (Some z)" using v(2) by (cases t) auto
  have b: "\<bar>z\<bar> < 86400" "valid_time tm" "3 \<le> ordinal d" "ordinal d \<le> max_ordinal - 2"
    using v dt by (auto simp: valid_offset_def mid_range_def)
  have sod: "0 \<le> seconds_of_day tm" "seconds_of_day tm < 86400" using seconds_of_day_range [OF b(2)] by auto
  have rep: "representable (ordinal d * 86400 + x)" if "- 2 * 86400 \<le> x" "x < 3 * 86400" for x
  proof -
    have "(ordinal d * 86400 + x) div 86400 = ordinal d + x div 86400" by simp
    moreover have "- 2 \<le> x div 86400" "x div 86400 \<le> 2" using that by linarith+
    ultimately show ?thesis using b(3,4) by (simp add: representable_def)
  qed
  have "representable (wall_seconds t - z)" "representable (wall_seconds t - z + ist_offset)"
    using rep [of "seconds_of_day tm - z"] rep [of "seconds_of_day tm - z + ist_offset"] b(1) sod dt
    by (simp_all add: wall_seconds_def ist_offset_def algebra_simps)
  then show ?thesis using ts dt by (simp add: ist_time_def Let_def)
qed

lemmas rule_safe =
  safe_ebind safe_try safe_if typed_access declared_by_rules contact_in_range opt_fact_def Let_def

locale typed_rule = clause_rule +
  assumes typed: "conforms facts \<Longrightarrow> safe (evaluate r tz facts acct as_of ex)"

interpretation t01: typed_rule R01
  by unfold_locales (simp add: R01_def R01_evaluate_def rule_safe)

interpretation t02: typed_rule R02
  by unfold_locales (simp add: R02_def R02_evaluate_def rule_safe)

interpretation t02b: typed_rule R02b
  by unfold_locales (simp add: R02b_def R02b_evaluate_def rule_safe)

interpretation t03: typed_rule R03
  by unfold_locales (simp add: R03_def R03_evaluate_def rule_safe)

interpretation t04: typed_rule R04
  by unfold_locales (simp add: R04_def R04_evaluate_def rule_safe)

interpretation t05: typed_rule R05
  by unfold_locales (simp add: R05_def R05_evaluate_def rule_safe)

interpretation t06: typed_rule R06
  by unfold_locales (simp add: R06_def R06_evaluate_def rule_safe)

interpretation t07: typed_rule R07
  by unfold_locales (simp add: R07_def R07_evaluate_def rule_safe)

interpretation t08: typed_rule R08
  by unfold_locales (simp add: R08_def R08_evaluate_def rule_safe)

interpretation t09: typed_rule R09
  by unfold_locales (simp add: R09_def R09_evaluate_def rule_safe)

interpretation t10: typed_rule R10
  by unfold_locales (simp add: R10_def R10_evaluate_def rule_safe)

interpretation t11: typed_rule R11
  by unfold_locales (simp add: R11_def R11_evaluate_def rule_safe)

interpretation t12: typed_rule R12
  by unfold_locales (simp add: R12_def R12_evaluate_def rule_safe)

interpretation t13: typed_rule R13
  by unfold_locales (simp add: R13_def R13_evaluate_def rule_safe)

interpretation t14: typed_rule R14
  by unfold_locales (simp add: R14_def R14_evaluate_def rule_safe)

interpretation t15: typed_rule R15
  by unfold_locales (simp add: R15_def R15_evaluate_def rule_safe)

interpretation t16: typed_rule R16
  by unfold_locales (simp add: R16_def R16_evaluate_def rule_safe)

interpretation t17: typed_rule R17
  by unfold_locales (simp add: R17_def R17_evaluate_def rule_safe)

interpretation t18: typed_rule R18
  by unfold_locales (simp add: R18_def R18_evaluate_def rule_safe)

interpretation t19: typed_rule R19
  by unfold_locales (simp add: R19_def R19_evaluate_def rule_safe)

interpretation t20: typed_rule R20
  by unfold_locales (simp add: R20_def R20_evaluate_def rule_safe)

interpretation t21: typed_rule R21
  by unfold_locales (simp add: R21_def R21_evaluate_def rule_safe)

interpretation t22: typed_rule R22
  by unfold_locales (simp add: R22_def R22_evaluate_def rule_safe)

interpretation t23: typed_rule R23
  by unfold_locales
    (simp add: R23_def R23_evaluate_def R23_failures_def rule_safe split: option.split)

interpretation t24: typed_rule R24
  by unfold_locales (simp add: R24_def R24_evaluate_def rule_safe)

interpretation t25: typed_rule R25
  by unfold_locales (simp add: R25_def R25_evaluate_def rule_safe)

interpretation t26: typed_rule R26
  by unfold_locales (simp add: R26_def R26_evaluate_def rule_safe)

interpretation t27: typed_rule R27
  by unfold_locales (simp add: R27_def R27_evaluate_def rule_safe)

lemma modules_are_typed: "m \<in> set rule_modules \<Longrightarrow> typed_rule (snd m)"
  unfolding rule_modules_def
  using t01.typed_rule_axioms t02.typed_rule_axioms t02b.typed_rule_axioms t03.typed_rule_axioms
    t04.typed_rule_axioms t05.typed_rule_axioms t06.typed_rule_axioms t07.typed_rule_axioms
    t08.typed_rule_axioms t09.typed_rule_axioms t10.typed_rule_axioms t11.typed_rule_axioms
    t12.typed_rule_axioms t13.typed_rule_axioms t14.typed_rule_axioms t15.typed_rule_axioms
    t16.typed_rule_axioms t17.typed_rule_axioms t18.typed_rule_axioms t19.typed_rule_axioms
    t20.typed_rule_axioms t21.typed_rule_axioms t22.typed_rule_axioms t23.typed_rule_axioms
    t24.typed_rule_axioms t25.typed_rule_axioms t26.typed_rule_axioms t27.typed_rule_axioms
  by auto

section \<open>Properties\<close>

text \<open>
  A stored value is read back: the accessor for its kind returns the value that
  \<open>value_to_jsonable\<close> wrote, dates and timestamps through their ISO forms.
\<close>

theorem stored_value_roundtrip:
  assumes "facts k = Some (stored_fact k v)" "valid_value v"
  shows "case v of
      DateValue d \<Rightarrow> date_of facts k = Inr d
    | DateTimeValue t \<Rightarrow> datetime_of facts k = Inr t
    | TimeValue t \<Rightarrow> ebind (string_of facts k) time_fromisoformat = Inr t
    | MoneyValue p c \<Rightarrow> money_of facts k = Inr p
    | RateValue b \<Rightarrow> bps_of facts k = Inr b
    | IntValue i \<Rightarrow> int_of facts k = Inr i
    | DaysValue n \<Rightarrow> int_of facts k = Inr n
    | BoolValue b \<Rightarrow> flag_of facts k = Inr b
    | EnumValue s \<Rightarrow> string_of facts k = Inr s
    | StringValue s \<Rightarrow> string_of facts k = Inr s"
  using assms
  by (cases v) (simp_all add: datetime_of_def string_of_def read_key_def obj_get_def
      datetime_json_roundtrip time_iso_roundtrip)

theorem stored_value_roundtrip_witness:
  "datetime_of (sample_facts [(''contact_datetime'',
      DateTimeValue (DateTime (Date 2026 3 9) (Time 20 10 0 0) (Some 19800)))]) ''contact_datetime'' =
    Inr (DateTime (Date 2026 3 9) (Time 20 10 0 0) (Some 19800))"
proof -
  let ?v = "DateTimeValue (DateTime (Date 2026 3 9) (Time 20 10 0 0) (Some 19800))"
  have "valid_value ?v"
    by (simp add: valid_offset_def mid_range_def max_ordinal_def days_before_year_def
        days_before_month_def month_offset_def is_leap_def days_in_month_def)
  from stored_value_roundtrip [of "sample_facts [(''contact_datetime'', ?v)]", OF _ this]
  show ?thesis by simp
qed

text \<open>
  The rules are type safe with respect to the schema. On facts that conform to the shipped
  declarations, evaluating any registered rule returns a result or raises \<open>MissingFact\<close>; no
  \<open>KeyError\<close>, \<open>ValueError\<close>, \<open>TypeError\<close>, \<open>OverflowError\<close> or unbound local arises, whatever the
  account and the date.
\<close>

theorem rules_type_safe:
  assumes "get_rule shipped_registry i = Inr r" "conforms facts"
  shows "(\<exists>res. evaluate r tz facts acct as_of ex = Inr res) \<or>
    (\<exists>k. evaluate r tz facts acct as_of ex = Inl (MissingFact k))"
proof -
  obtain e where e: "(i, e) \<in> set shipped_registry" "r = rg_rule e"
    using assms(1) by (rule get_rule_shipped)
  then have "typed_rule r" using modules_are_typed by (auto simp: shipped_registry_def)
  from typed_rule.typed [OF this assms(2)] show ?thesis
    by (cases "evaluate r tz facts acct as_of ex") (auto simp: safe_def)
qed

theorem rules_type_safe_witness:
  "(\<exists>res. evaluate R22 (\<lambda>_. 0) (sample_facts [(''first_visit_date'', DateValue (Date 2027 2 1))])
      sample_account (Date 2027 2 1) Map.empty = Inr res) \<or>
   (\<exists>k. evaluate R22 (\<lambda>_. 0) (sample_facts [(''first_visit_date'', DateValue (Date 2027 2 1))])
      sample_account (Date 2027 2 1) Map.empty = Inl (MissingFact k))"
proof -
  have "get_rule shipped_registry ''R22_visit_prior_intimation'' = Inr R22"
    by (simp add: get_rule_def shipped_registry_def rule_modules_def rule_record_defs)
  moreover have "conforms (sample_facts [(''first_visit_date'', DateValue (Date 2027 2 1))])"
    by (auto simp: conforms_def declared_by_rules days_in_month_def
        intro!: exI [of _ "DateValue (Date 2027 2 1)"] split: if_splits)
  ultimately show ?thesis by (rule rules_type_safe)
qed

end
