(* ===== verification/CC_Boot.thy ===== *)
theory CC_Boot
  imports CC_Assess CC_Typing
begin

text \<open>
  Boot assertions, \<open>src/app/boot.py\<close>, with the validation of the pins of \<open>src/app/corpus/pinning.py\<close>,
  and what they guarantee: after a boot, rules that are enforced never abort an assessment for
  want of a clause.

  The width of the embedding column and the migration heads are read from the database and from
  alembic; they are fields of \<open>boot_input\<close>. The wording of an error message is not modelled.
\<close>

section \<open>The assertions\<close>

record boot_input =
  bi_current_heads :: "string set"
  bi_script_heads :: "string set"
  bi_embedding_width :: "int option"
  bi_snapshots :: "(uuid \<times> bool) list"
  bi_pins :: "(string \<times> string list) list"
  bi_embedding_dimension :: int
  bi_fail_on_pinning_mismatch :: bool
  bi_env :: string

datatype boot_error =
    NotAtHead
  | SnapshotCount nat
  | EmbeddingWidth "int option"
  | PinCheckDisabled
  | PinningMismatch "string list"
  | UnresolvedRulePaths "(string \<times> string) list"

definition check_alembic_current_is_head :: "boot_input \<Rightarrow> boot_error + unit" where
  "check_alembic_current_is_head bi =
     (if bi_current_heads bi \<noteq> bi_script_heads bi then Inl NotAtHead else Inr ())"

definition active_snapshots :: "boot_input \<Rightarrow> uuid list" where
  "active_snapshots bi = map fst (filter snd (bi_snapshots bi))"

definition check_exactly_one_active_snapshot :: "boot_input \<Rightarrow> boot_error + unit" where
  "check_exactly_one_active_snapshot bi =
     (let n = length (active_snapshots bi) in if n \<noteq> 1 then Inl (SnapshotCount n) else Inr ())"

definition check_embedding_dimension :: "boot_input \<Rightarrow> boot_error + unit" where
  "check_embedding_dimension bi =
     (case bi_embedding_width bi of
        None \<Rightarrow> Inl (EmbeddingWidth None)
      | Some w \<Rightarrow> if w \<noteq> bi_embedding_dimension bi then Inl (EmbeddingWidth (Some w)) else Inr ())"

text \<open>\<open>load_and_validate\<close>: every pinned path is a clause of the snapshot.\<close>

definition load_and_validate ::
  "uuid \<Rightarrow> corpus \<Rightarrow> (string \<times> string list) list \<Rightarrow>
   string list + (string \<times> string list) list" where
  "load_and_validate snapshot co pins =
     (let all_paths = sort (remdups (concat (map snd pins)))
      in if all_paths = [] then Inr pins
         else
           let resolved = set (map cl_path
                 (filter (\<lambda>c. cl_snapshot c = snapshot \<and> cl_path c \<in> set all_paths) (co_clauses co)));
               missing = filter (\<lambda>p. p \<notin> resolved) all_paths
           in if missing \<noteq> [] then Inl missing else Inr pins)"

definition check_pinning :: "boot_input \<Rightarrow> corpus \<Rightarrow> boot_error + unit" where
  "check_pinning bi co =
     (if \<not> bi_fail_on_pinning_mismatch bi
      then if bi_env bi \<noteq> ''ci'' then Inl PinCheckDisabled else Inr ()
      else (case active_snapshots bi of
          [] \<Rightarrow> Inr ()
        | snapshot # _ \<Rightarrow>
            (case load_and_validate snapshot co (bi_pins bi) of
               Inl missing \<Rightarrow> Inl (PinningMismatch missing)
             | Inr _ \<Rightarrow> Inr ())))"

definition path_exists :: "corpus \<Rightarrow> uuid \<Rightarrow> string \<Rightarrow> bool" where
  "path_exists co snapshot p \<longleftrightarrow>
     list_ex (\<lambda>c. cl_snapshot c = snapshot \<and> cl_path c = p) (co_clauses co)"

definition unresolved_paths :: "registry \<Rightarrow> store \<Rightarrow> uuid \<Rightarrow> (string \<times> string) list res" where
  "unresolved_paths reg db snapshot =
     (let iv = load_instrument_verification db snapshot
      in ebind (emap (\<lambda>(rid, e). ebind (is_shadow reg rid iv) (\<lambda>shadow.
             Inr (if shadow then []
                  else map (Pair rid) (filter (\<lambda>p. \<not> path_exists (db_corpus db) snapshot p)
                         (clause_paths (rg_rule e)))))) reg)
           (\<lambda>xss. Inr (concat xss)))"

definition check_rule_clause_paths :: "boot_input \<Rightarrow> registry \<Rightarrow> store \<Rightarrow> (boot_error + unit) res" where
  "check_rule_clause_paths bi reg db =
     (case active_snapshots bi of
        [] \<Rightarrow> Inr (Inr ())
      | snapshot # _ \<Rightarrow>
          ebind (unresolved_paths reg db snapshot) (\<lambda>unresolved.
            Inr (if unresolved \<noteq> [] then Inl (UnresolvedRulePaths unresolved) else Inr ())))"

text \<open>A failed assertion ends the sequence; the outer sum is an exception of another kind.\<close>

definition and_then :: "(boot_error + unit) \<Rightarrow> (boot_error + unit) res \<Rightarrow> (boot_error + unit) res" where
  "and_then r k = (case r of Inl e \<Rightarrow> Inr (Inl e) | Inr _ \<Rightarrow> k)"

definition run_boot_assertions :: "boot_input \<Rightarrow> registry \<Rightarrow> store \<Rightarrow> (boot_error + unit) res" where
  "run_boot_assertions bi reg db =
     and_then (check_alembic_current_is_head bi)
    (and_then (check_exactly_one_active_snapshot bi)
    (and_then (check_embedding_dimension bi)
    (and_then (check_pinning bi (db_corpus db))
       (check_rule_clause_paths bi reg db))))"

text \<open>\<open>boot_or_exit\<close>: the exit status, \<open>None\<close> when the process goes on.\<close>

definition boot_or_exit :: "boot_input \<Rightarrow> registry \<Rightarrow> store \<Rightarrow> int option res" where
  "boot_or_exit bi reg db =
     ebind (run_boot_assertions bi reg db) (\<lambda>r. Inr (case r of Inl _ \<Rightarrow> Some 1 | Inr _ \<Rightarrow> None))"

section \<open>What a boot guarantees\<close>

lemma load_and_validate_Inr:
  "load_and_validate snapshot co pins = Inr pins' \<longleftrightarrow>
     pins' = pins \<and> (\<forall>(k, ps) \<in> set pins. \<forall>p \<in> set ps. path_exists co snapshot p)"
proof -
  let ?all = "sort (remdups (concat (map snd pins)))"
  let ?res = "set (map cl_path (filter (\<lambda>c. cl_snapshot c = snapshot \<and> cl_path c \<in> set ?all) (co_clauses co)))"
  have "p \<in> ?res \<longleftrightarrow> path_exists co snapshot p" if "p \<in> set ?all" for p
    using that by (auto simp: path_exists_def list_ex_iff)
  then have "filter (\<lambda>p. p \<notin> ?res) ?all = [] \<longleftrightarrow> (\<forall>p \<in> set ?all. path_exists co snapshot p)"
    by (simp only: filter_empty_conv not_not) blast
  moreover have "(\<forall>p \<in> set ?all. path_exists co snapshot p) \<longleftrightarrow>
      (\<forall>(k, ps) \<in> set pins. \<forall>p \<in> set ps. path_exists co snapshot p)" by auto
  ultimately show ?thesis
    unfolding load_and_validate_def Let_def
    by (cases "?all = []") (simp_all only: if_True if_False not_not sum.inject sum.distinct split: if_split, auto)
qed

lemma unresolved_paths_Nil:
  assumes "unresolved_paths reg db snapshot = Inr []" "(rid, e) \<in> set reg"
    and "is_shadow reg rid (load_instrument_verification db snapshot) = Inr False"
    and "p \<in> set (clause_paths (rg_rule e))"
  shows "path_exists (db_corpus db) snapshot p"
proof -
  let ?f = "\<lambda>(rid, e). ebind (is_shadow reg rid (load_instrument_verification db snapshot)) (\<lambda>shadow.
      Inr (if shadow then [] else map (Pair rid) (filter (\<lambda>p. \<not> path_exists (db_corpus db) snapshot p)
        (clause_paths (rg_rule e)))))"
  obtain xss where xss: "emap ?f reg = Inr xss" "concat xss = []"
    using assms(1) by (auto simp: unresolved_paths_def Let_def ebind_Inr_iff)
  obtain n where n: "n < length reg" "reg ! n = (rid, e)" using assms(2) by (auto simp: in_set_conv_nth)
  have "list_all2 (\<lambda>x y. ?f x = Inr y) reg xss" using xss(1) by (simp only: emap_Inr_iff)
  then have "?f (rid, e) = Inr (xss ! n)" "n < length xss" using n list_all2_nthD list_all2_lengthD by fastforce+
  moreover from this have "xss ! n = []" using xss(2) by (auto simp: concat_eq_Nil_conv)
  ultimately show ?thesis using assms(3,4) by (auto simp: filter_empty_conv)
qed

lemma run_boot_Inr:
  assumes "run_boot_assertions bi reg db = Inr (Inr ())"
  obtains snapshot where "active_snapshots bi = [snapshot]" "unresolved_paths reg db snapshot = Inr []"
    "check_pinning bi (db_corpus db) = Inr ()"
proof -
  have one: "length (active_snapshots bi) = 1"
    using assms by (auto simp: run_boot_assertions_def and_then_def check_exactly_one_active_snapshot_def
        Let_def split: sum.splits if_splits)
  then obtain s where s: "active_snapshots bi = [s]" by (metis One_nat_def length_0_conv length_Suc_conv)
  have r: "check_rule_clause_paths bi reg db = Inr (Inr ())" "check_pinning bi (db_corpus db) = Inr ()"
    using assms by (auto simp: run_boot_assertions_def and_then_def split: sum.splits)
  have "unresolved_paths reg db s = Inr []"
    using r(1) s by (auto simp: check_rule_clause_paths_def ebind_Inr_iff split: if_splits)
  with s r(2) show ?thesis using that by blast
qed

lemma load_clause_refs_exists:
  assumes "path_exists (db_corpus db) snapshot p" "p \<in> set paths"
  shows "load_clause_refs db snapshot paths p \<noteq> None"
proof -
  obtain c where "c \<in> set (co_clauses (db_corpus db))" "cl_snapshot c = snapshot" "cl_path c = p"
    using assms(1) by (auto simp: path_exists_def list_ex_iff)
  then have "p \<in> fst ` set (rev (map (\<lambda>c. (cl_path c, c))
      (filter (\<lambda>c. cl_snapshot c = snapshot \<and> cl_path c \<in> set paths) (co_clauses (db_corpus db)))))"
    using assms(2) by force
  moreover have "paths \<noteq> []" using assms(2) by auto
  ultimately show ?thesis by (simp add: load_clause_refs_def map_of_eq_None_iff)
qed

text \<open>One enforced rule whose clauses resolve runs to its end.\<close>

lemma rule_step_returns:
  assumes "ev_rules ev = shipped_registry" "r \<in> set (rules_for_field shipped_registry k)"
    and "conforms facts" "is_shadow shipped_registry (rule_id r) iv = Inr False"
    and "\<forall>p \<in> set (clause_paths r). path_exists (db_corpus db) (jb_snapshot j) p"
  shows "\<exists>res. run_rule ev j facts db r = Inr res \<and>
    (\<forall>oc. res = Some oc \<longrightarrow> (\<exists>result db' aid.
       from_rule_outcome r oc (fo_field_key (jb_fact j)) (jb_event_date j) False (jb_snapshot j) = Inr result \<and>
       persist (ev_gen ev) (ev_now ev) (persist_args_of ev j result
         (\<lambda>p. map_option cl_id (load_clause_refs db (jb_snapshot j) (clause_paths r) p)) []) db = Inr (db', aid)))"
proof -
  let ?ex = "\<lambda>p. map_option cl_text (load_clause_refs db (jb_snapshot j) (clause_paths r) p)"
  have cr: "clause_rule r" and id: "rule_id r \<in> set rule_ids"
    using rules_for_field_registered [OF assms(2)] by simp_all
  obtain i e where "(i, e) \<in> set shipped_registry" "r = rg_rule e"
    using assms(2) by (auto simp: rules_for_field_iff)
  then have "typed_rule r" using modules_are_typed by (auto simp: shipped_registry_def)
  from typed_rule.typed [OF this assms(3)]
  have safe: "safe (evaluate r (ev_tz ev) facts (jb_account j) (jb_event_date j) ?ex)" .
  then obtain res where res: "run_rule ev j facts db r = Inr res"
  proof (cases "evaluate r (ev_tz ev) facts (jb_account j) (jb_event_date j) ?ex")
    case (Inl x)
    then obtain k where "x = MissingFact k" using safe by (auto simp: safe_def)
    then show ?thesis using Inl that by (simp add: run_rule_def Let_def)
  next
    case (Inr x)
    then show ?thesis using that by (cases x) (simp_all add: run_rule_def Let_def)
  qed
  have "\<exists>result db' aid.
       from_rule_outcome r oc (fo_field_key (jb_fact j)) (jb_event_date j) False (jb_snapshot j) = Inr result \<and>
       persist (ev_gen ev) (ev_now ev) (persist_args_of ev j result
         (\<lambda>p. map_option cl_id (load_clause_refs db (jb_snapshot j) (clause_paths r) p)) []) db = Inr (db', aid)"
    if oc: "res = Some oc" for oc
  proof -
    have cits: "oc_citations oc = map (cite ?ex) (clause_paths r)"
      using clause_rule.outcome_citations [OF cr run_rule_Some] res oc by blast
    obtain sv where sv: "map_of SEVERITY (rule_id r) = Some sv" using id by (rule severity_of_rule_id)
    have "\<exists>x. severity_for (Some (rule_id r)) None (oc_verdict oc) = Inr x"
      using sv rule_ids_nonempty [OF id] by (simp add: severity_for_def)
    then obtain result where result:
      "from_rule_outcome r oc (fo_field_key (jb_fact j)) (jb_event_date j) False (jb_snapshot j) = Inr result"
      by (auto simp: from_rule_outcome_def)
    have "\<forall>c \<in> set (ar_citations result).
        map_option cl_id (load_clause_refs db (jb_snapshot j) (clause_paths r) (cit_path c)) \<noteq> None"
      using load_clause_refs_exists assms(5)
      by (auto simp: from_rule_outcome_Inr(2) [OF result] cits)
    then show ?thesis using persist_succeeds [where pa = "persist_args_of ev j result
         (\<lambda>p. map_option cl_id (load_clause_refs db (jb_snapshot j) (clause_paths r) p)) []"] result by fastforce
  qed
  with res show ?thesis by blast
qed

lemma rules_loop_returns:
  assumes "ev_rules ev = shipped_registry" "set rs \<subseteq> set (rules_for_field shipped_registry k)" "conforms facts"
    and "\<forall>r \<in> set rs. is_shadow shipped_registry (rule_id r) iv = Inr False \<and>
      (\<forall>p \<in> set (clause_paths r). path_exists (db_corpus db) (jb_snapshot j) p)"
  shows "\<exists>db' out decided'. rules_loop ev j facts iv rs db results decided = Inr (db', out, decided')"
  using assms(2,4)
proof (induction rs arbitrary: db results decided)
  case (Cons r rs)
  have r: "r \<in> set (rules_for_field shipped_registry k)" "is_shadow shipped_registry (rule_id r) iv = Inr False"
      "\<forall>p \<in> set (clause_paths r). path_exists (db_corpus db) (jb_snapshot j) p"
    using Cons.prems by auto
  from rule_step_returns [OF assms(1) r(1) assms(3) r(2,3)] obtain res where
    res: "run_rule ev j facts db r = Inr res" "\<forall>oc. res = Some oc \<longrightarrow> (\<exists>result db' aid.
       from_rule_outcome r oc (fo_field_key (jb_fact j)) (jb_event_date j) False (jb_snapshot j) = Inr result \<and>
       persist (ev_gen ev) (ev_now ev) (persist_args_of ev j result
         (\<lambda>p. map_option cl_id (load_clause_refs db (jb_snapshot j) (clause_paths r) p)) []) db = Inr (db', aid))"
    by blast
  show ?case
  proof (cases res)
    case None
    then show ?thesis using Cons.IH [of db results decided] Cons.prems res(1) by simp
  next
    case (Some oc)
    then obtain result db' aid where step:
      "from_rule_outcome r oc (fo_field_key (jb_fact j)) (jb_event_date j) False (jb_snapshot j) = Inr result"
      "persist (ev_gen ev) (ev_now ev) (persist_args_of ev j result
         (\<lambda>p. map_option cl_id (load_clause_refs db (jb_snapshot j) (clause_paths r) p)) []) db = Inr (db', aid)"
      using res(2) by blast
    have "db_corpus db' = db_corpus db" using persist_Inr(6) [OF step(2)] by simp
    then have "\<exists>db'' out decided'. rules_loop ev j facts iv rs db' (results @ [result]) True = Inr (db'', out, decided')"
      using Cons.IH [of db'] Cons.prems by simp
    then show ?thesis using Some res(1) step r(2) assms(1) by simp
  qed
qed simp

section \<open>A corpus that holds every clause a rule needs\<close>

definition booted_store :: store where
  "booted_store =
     (grievance_store ''rbi_verified'')\<lparr>db_corpus :=
        \<lparr>co_clauses = map (\<lambda>p. sample_row 11 1 p [] (Date 2025 5 8))
           (concat (map (\<lambda>(_, e). clause_paths (rg_rule e)) shipped_registry)),
         co_instruments = [(sample_instrument 1 ''DL2025'' (Date 2025 5 8))\<lparr>in_verification := ''rbi_verified''\<rparr>],
         co_references = []\<rparr>\<rparr>"

definition sample_boot :: boot_input where
  "sample_boot =
     \<lparr>bi_current_heads = {''0012''}, bi_script_heads = {''0012''}, bi_embedding_width = Some 1536,
      bi_snapshots = [(0, False), (1, True)],
      bi_pins = [(''grievance_mechanism_clause_ref'', [''DL2025/p11''])],
      bi_embedding_dimension = 1536, bi_fail_on_pinning_mismatch = True, bi_env = ''local''\<rparr>"

lemma booted_store_paths:
  assumes "(i, e) \<in> set shipped_registry" "p \<in> set (clause_paths (rg_rule e))"
  shows "path_exists (db_corpus booted_store) 1 p"
  using assms by (force simp: path_exists_def booted_store_def list_ex_iff sample_row_def)

lemma booted_store_resolves: "unresolved_paths shipped_registry booted_store 1 = Inr []"
proof -
  let ?f = "\<lambda>(rid, e). ebind (is_shadow shipped_registry rid (load_instrument_verification booted_store 1)) (\<lambda>shadow.
      Inr (if shadow then [] else map (Pair rid) (filter (\<lambda>p. \<not> path_exists (db_corpus booted_store) 1 p)
        (clause_paths (rg_rule e)))))"
  have "?f x = Inr []" if "x \<in> set shipped_registry" for x
  proof -
    obtain i e where x: "x = (i, e)" by (cases x)
    have "i \<in> fst ` set shipped_registry" using that x by force
    then have "map_of shipped_registry i \<noteq> None" by (simp add: map_of_eq_None_iff)
    then have "\<exists>sh. is_shadow shipped_registry i (load_instrument_verification booted_store 1) = Inr sh"
      by (auto simp: is_shadow_def)
    then obtain sh where "is_shadow shipped_registry i (load_instrument_verification booted_store 1) = Inr sh" ..
    moreover have "filter (\<lambda>p. \<not> path_exists (db_corpus booted_store) 1 p) (clause_paths (rg_rule e)) = []"
      using booted_store_paths that x by (simp add: filter_empty_conv)
    ultimately show ?thesis unfolding x by simp
  qed
  then have "emap ?f shipped_registry = Inr (map (\<lambda>_. []) shipped_registry)"
    unfolding emap_Inr_iff list_all2_map2 list_all2_same by blast
  then show ?thesis
    unfolding unresolved_paths_def Let_def
    by (simp only: ebind_simps sum.inject concat_eq_Nil_conv set_map) blast
qed

lemma sample_boot_passes: "run_boot_assertions sample_boot shipped_registry booted_store = Inr (Inr ())"
proof -
  have a: "active_snapshots sample_boot = [1]" by (simp add: active_snapshots_def sample_boot_def)
  have "R12 \<in> set (rules_for_field shipped_registry ''grievance_mechanism_clause_ref'')" by (simp add: sample_rules)
  then obtain i e where "(i, e) \<in> set shipped_registry" "R12 = rg_rule e" by (auto simp: rules_for_field_iff)
  moreover have "''DL2025/p11'' \<in> set (clause_paths R12)" by (simp add: R12_def)
  ultimately have "path_exists (db_corpus booted_store) 1 ''DL2025/p11''" using booted_store_paths by simp
  then have "load_and_validate 1 (db_corpus booted_store) (bi_pins sample_boot) = Inr (bi_pins sample_boot)"
    by (simp add: load_and_validate_Inr sample_boot_def)
  then have "check_pinning sample_boot (db_corpus booted_store) = Inr ()"
    using a by (simp add: check_pinning_def, simp add: sample_boot_def)
  moreover have "check_rule_clause_paths sample_boot shipped_registry booted_store = Inr (Inr ())"
    using a booted_store_resolves by (simp add: check_rule_clause_paths_def)
  ultimately show ?thesis
    using a by (simp add: run_boot_assertions_def and_then_def check_alembic_current_is_head_def
        check_exactly_one_active_snapshot_def check_embedding_dimension_def sample_boot_def)
qed

section \<open>Properties\<close>



end
