(* ===== verification/CC_Conflicts.thy ===== *)
theory CC_Conflicts
  imports CC_Store CC_Typing
begin

text \<open>
  Cross-document conflicts, \<open>src/app/conflicts/\<close>: the groups of \<open>conflicts.yaml\<close> with their
  validation (\<open>loader.py\<close>), comparison, detection and persistence (\<open>detector.py\<close>).

  The parameters of a group are the three the code reads. The wording of an error message is not
  modelled. Decoding a stored value is pydantic's \<open>TypeAdapter.validate_python\<close>, the parameter
  \<open>decode\<close>.
\<close>

section \<open>Groups (loader.py)\<close>

record conflict_member =
  cm_doc_type :: string
  cm_field :: string

record conflict_params =
  cp_direction :: "string option"
  cp_within_days :: "int option"
  cp_tolerance :: "int option"

record conflict_group =
  cg_key :: string
  cg_members :: "conflict_member list"
  cg_operator :: string
  cg_tolerance :: "int option"
  cg_params :: conflict_params
  cg_raises_check :: string

definition VALID_OPERATORS :: "string list" where
  "VALID_OPERATORS = [''equal'', ''equal_within'', ''date_order'']"

definition VALID_DIRECTIONS :: "string list" where
  "VALID_DIRECTIONS = [''after'', ''before'', ''strictly_increasing'']"

text \<open>The type of the \<open>operator\<close> field and the validator \<open>_shape\<close>.\<close>

definition group_shape :: "conflict_group \<Rightarrow> unit res" where
  "group_shape g =
     (if cg_operator g \<notin> set VALID_OPERATORS then Inl (ValueError (cg_key g))
      else if length (cg_members g) < 2 then Inl (ValueError (cg_key g))
      else if cg_operator g = ''equal_within'' \<and> cg_tolerance g = None then Inl (ValueError (cg_key g))
      else if cg_operator g = ''date_order'' \<and>
        (case cp_direction (cg_params g) of None \<Rightarrow> True | Some d \<Rightarrow> d \<notin> set VALID_DIRECTIONS)
      then Inl (ValueError (cg_key g))
      else Inr ())"

definition groups_containing ::
  "conflict_group list \<Rightarrow> string \<Rightarrow> string \<Rightarrow> conflict_group list" where
  "groups_containing groups doc_type field_key =
     filter (\<lambda>g. list_ex (\<lambda>m. cm_doc_type m = doc_type \<and> cm_field m = field_key) (cg_members g)) groups"

datatype conflict_error =
    BadDocType string string
  | UndeclaredField string string
  | DocTypeNotListed string string string
  | UnregisteredCheck string string

definition member_errors :: "field_registry \<Rightarrow> conflict_group \<Rightarrow> conflict_member \<Rightarrow> conflict_error list" where
  "member_errors reg g m =
     (if cm_doc_type m \<notin> set doc_types then [BadDocType (cg_key g) (cm_doc_type m)] else [])
     @ (case field_get reg (cm_field m) of
          Inl _ \<Rightarrow> [UndeclaredField (cg_key g) (cm_field m)]
        | Inr spec \<Rightarrow>
            (if cm_doc_type m \<notin> set (fs_doc_types spec)
             then [DocTypeNotListed (cg_key g) (cm_field m) (cm_doc_type m)] else []))"

definition group_errors ::
  "field_registry \<Rightarrow> string set \<Rightarrow> conflict_group \<Rightarrow> conflict_error list" where
  "group_errors reg checks g =
     concat (map (member_errors reg g) (cg_members g))
     @ (if cg_raises_check g \<notin> checks then [UnregisteredCheck (cg_key g) (cg_raises_check g)] else [])"

text \<open>
  \<open>load\<close>, from the parsed groups on: the shape of every group first, then the errors of all.
\<close>

definition load_conflicts ::
  "field_registry \<Rightarrow> registry \<Rightarrow> conflict_group list \<Rightarrow>
   (exc + conflict_error list) + conflict_group list" where
  "load_conflicts reg rules groups =
     (case emap group_shape groups of
        Inl e \<Rightarrow> Inl (Inl e)
      | Inr _ \<Rightarrow>
          let errors = concat (map (group_errors reg (set (map fst rules))) groups)
          in if errors \<noteq> [] then Inl (Inr errors) else Inr groups)"

section \<open>Comparison (detector.py)\<close>

text \<open>\<open>_scalar_of(a) == _scalar_of(b)\<close> for two values of one kind.\<close>

definition datetime_eq :: "datetime \<Rightarrow> datetime \<Rightarrow> bool" where
  "datetime_eq a b \<longleftrightarrow>
     (dt_offset a = None) = (dt_offset b = None) \<and> utc_micros a = utc_micros b"

definition scalar_eq :: "fact_value \<Rightarrow> fact_value \<Rightarrow> bool" where
  "scalar_eq a b =
     (case a of
        DateValue x \<Rightarrow> (case b of DateValue y \<Rightarrow> x = y | _ \<Rightarrow> False)
      | DateTimeValue x \<Rightarrow> (case b of DateTimeValue y \<Rightarrow> datetime_eq x y | _ \<Rightarrow> False)
      | TimeValue x \<Rightarrow> (case b of TimeValue y \<Rightarrow> x = y | _ \<Rightarrow> False)
      | MoneyValue x _ \<Rightarrow> (case b of MoneyValue y _ \<Rightarrow> x = y | _ \<Rightarrow> False)
      | RateValue x \<Rightarrow> (case b of RateValue y \<Rightarrow> x = y | _ \<Rightarrow> False)
      | IntValue x \<Rightarrow> (case b of IntValue y \<Rightarrow> x = y | _ \<Rightarrow> False)
      | DaysValue x \<Rightarrow> (case b of DaysValue y \<Rightarrow> x = y | _ \<Rightarrow> False)
      | BoolValue x \<Rightarrow> (case b of BoolValue y \<Rightarrow> x = y | _ \<Rightarrow> False)
      | EnumValue x \<Rightarrow> (case b of EnumValue y \<Rightarrow> x = y | _ \<Rightarrow> False)
      | StringValue x \<Rightarrow> (case b of StringValue y \<Rightarrow> x = y | _ \<Rightarrow> False))"

text \<open>The value as an integer, for the four numeric kinds.\<close>

fun numeric_scalar :: "fact_value \<Rightarrow> int option" where
  "numeric_scalar (MoneyValue p _) = Some p"
| "numeric_scalar (RateValue b) = Some b"
| "numeric_scalar (DaysValue n) = Some n"
| "numeric_scalar (IntValue i) = Some i"
| "numeric_scalar _ = None"

fun is_date_scalar :: "fact_value \<Rightarrow> bool" where
  "is_date_scalar (DateValue _) = True"
| "is_date_scalar (DateTimeValue _) = True"
| "is_date_scalar _ = False"

text \<open>\<open>bv <= av\<close> and \<open>(bv - av).days\<close> of two dates or two datetimes.\<close>

fun scalar_le :: "fact_value \<Rightarrow> fact_value \<Rightarrow> bool res" where
  "scalar_le (DateValue b) (DateValue a) = Inr (b \<le> a)"
| "scalar_le (DateTimeValue b) (DateTimeValue a) = datetime_le b a"
| "scalar_le _ _ = Inl (TypeError ''not supported between instances'')"

fun scalar_days :: "fact_value \<Rightarrow> fact_value \<Rightarrow> int res" where
  "scalar_days (DateValue b) (DateValue a) = Inr (days_between b a)"
| "scalar_days (DateTimeValue b) (DateTimeValue a) = datetime_days b a"
| "scalar_days _ _ = Inl (TypeError ''unsupported operand'')"

definition require_same_kind :: "fact_value \<Rightarrow> fact_value \<Rightarrow> unit res" where
  "require_same_kind a b =
     (if fv_kind a \<noteq> fv_kind b then Inl (ConflictComparisonError ''kinds'') else Inr ())"

text \<open>\<open>bv < av\<close> and \<open>bv > av\<close> are read off \<open>scalar_le\<close>: the order is total where it is defined.\<close>

definition compare :: "string \<Rightarrow> fact_value \<Rightarrow> fact_value \<Rightarrow> conflict_params \<Rightarrow> bool res" where
  "compare opr a b params =
     ebind (require_same_kind a b) (\<lambda>_.
       if opr = ''equal'' then Inr (scalar_eq a b)
       else if opr = ''equal_within''
       then (case (numeric_scalar a, numeric_scalar b) of
               (Some av, Some bv) \<Rightarrow>
                 Inr (\<bar>av - bv\<bar> \<le> (case cp_tolerance params of None \<Rightarrow> 0 | Some t \<Rightarrow> t))
             | _ \<Rightarrow> Inl (ConflictComparisonError ''numeric kind''))
       else if opr = ''date_order''
       then
         if \<not> is_date_scalar a \<or> \<not> is_date_scalar b then Inl (ConflictComparisonError ''date kind'')
         else if cp_direction params = Some ''after''
         then ebind (scalar_le b a) (\<lambda>le.
                if le then Inr False
                else (case cp_within_days params of
                        None \<Rightarrow> Inr True
                      | Some n \<Rightarrow> ebind (scalar_days b a) (\<lambda>d. Inr (d \<le> n))))
         else if cp_direction params = Some ''before''
         then ebind (scalar_le a b) (\<lambda>le. Inr (\<not> le))
         else Inl (ConflictComparisonError ''direction'')
       else Inl (ConflictComparisonError ''operator''))"

fun scalar_json :: "fact_value \<Rightarrow> json" where
  "scalar_json (MoneyValue p _) = JInt p"
| "scalar_json (RateValue b) = JInt b"
| "scalar_json (DaysValue n) = JInt n"
| "scalar_json (IntValue i) = JInt i"
| "scalar_json (BoolValue b) = JBool b"
| "scalar_json (DateValue d) = JStr (date_isoformat d)"
| "scalar_json (DateTimeValue t) = JStr (datetime_isoformat t)"
| "scalar_json (TimeValue t) = JStr (time_isoformat t)"
| "scalar_json (EnumValue s) = JStr s"
| "scalar_json (StringValue s) = JStr s"

text \<open>\<open>av - bv\<close> of two numbers, a bool counting as 0 or 1.\<close>

fun int_scalar :: "fact_value \<Rightarrow> int option" where
  "int_scalar (BoolValue b) = Some (if b then 1 else 0)"
| "int_scalar v = numeric_scalar v"

definition delta_for :: "fact_value \<Rightarrow> fact_value \<Rightarrow> json_obj res" where
  "delta_for a b =
     (if is_date_scalar a
      then ebind (scalar_days b a) (\<lambda>d.
        Inr [(''a'', scalar_json a), (''b'', scalar_json b), (''days'', JInt d)])
      else (case (int_scalar a, int_scalar b) of
          (Some av, Some bv) \<Rightarrow>
            Inr [(''a'', scalar_json a), (''b'', scalar_json b), (''diff'', JInt (av - bv))]
        | (Some av, None) \<Rightarrow> Inl (TypeError ''unsupported operand'')
        | (None, _) \<Rightarrow> Inr [(''a'', scalar_json a), (''b'', scalar_json b)]))"

definition conflict_type_for :: "string \<Rightarrow> conflict_type" where
  "conflict_type_for opr =
     (if opr = ''equal_within'' then ToleranceBreach
      else if opr = ''date_order'' then DateOrder
      else ValueMismatch)"

section \<open>Detection\<close>

record fetched_fact =
  ff_id :: uuid
  ff_value :: fact_value

record detected_conflict =
  dc_group_key :: string
  dc_field_key :: string
  dc_fact_a :: uuid
  dc_fact_b :: uuid
  dc_type :: conflict_type
  dc_operator :: string
  dc_delta :: json_obj
  dc_raises_check :: string

type_synonym decoder = "json_obj \<Rightarrow> fact_value res"

text \<open>\<open>_LATEST_FACT_FOR_MEMBER_SQL\<close>.\<close>

definition member_rows :: "store \<Rightarrow> uuid \<Rightarrow> conflict_member \<Rightarrow> fact_row list" where
  "member_rows db loan m =
     concat (map (\<lambda>r. map (\<lambda>_. r)
         (filter (\<lambda>(i, dt). i = fx_document r \<and> dt = cm_doc_type m) (db_documents db)))
       (filter (\<lambda>r. fx_loan r = loan \<and> fx_field_key r = cm_field m \<and> \<not> fx_is_absent r) (db_facts db)))"

definition fetch_member_fact ::
  "decoder \<Rightarrow> store \<Rightarrow> uuid \<Rightarrow> conflict_member \<Rightarrow> fetched_fact option res" where
  "fetch_member_fact decode db loan m =
     (case latest_by fx_created (member_rows db loan m) of
        None \<Rightarrow> Inr None
      | Some r \<Rightarrow>
          (case fx_value r of
             None \<Rightarrow> Inr None
           | Some obj \<Rightarrow> ebind (decode obj) (\<lambda>v. Inr (Some \<lparr>ff_id = fx_id r, ff_value = v\<rparr>))))"

text \<open>\<open>_member_of\<close> with \<open>index\<close>: the position of the first matching member.\<close>

definition member_index :: "string \<Rightarrow> string \<Rightarrow> conflict_group \<Rightarrow> nat option" where
  "member_index field_key doc_type g =
     (let ms = cg_members g
      in find (\<lambda>i. cm_field (ms ! i) = field_key \<and> cm_doc_type (ms ! i) = doc_type) [0..<length ms])"

definition group_params :: "conflict_group \<Rightarrow> conflict_params" where
  "group_params g =
     (case cg_tolerance g of
        None \<Rightarrow> cg_params g
      | Some t \<Rightarrow>
          (case cp_tolerance (cg_params g) of
             None \<Rightarrow> (cg_params g)\<lparr>cp_tolerance := Some t\<rparr>
           | Some _ \<Rightarrow> cg_params g))"

definition mk_conflict ::
  "conflict_group \<Rightarrow> string \<Rightarrow> conflict_type \<Rightarrow> fetched_fact \<Rightarrow> fetched_fact \<Rightarrow> detected_conflict res" where
  "mk_conflict g field_key ty a b =
     ebind (delta_for (ff_value a) (ff_value b)) (\<lambda>delta.
       Inr \<lparr>dc_group_key = cg_key g, dc_field_key = field_key, dc_fact_a = ff_id a,
            dc_fact_b = ff_id b, dc_type = ty, dc_operator = cg_operator g, dc_delta = delta,
            dc_raises_check = cg_raises_check g\<rparr>)"

text \<open>One pair: the member listed first is \<open>a\<close>.\<close>

definition check_pair ::
  "conflict_group \<Rightarrow> nat \<Rightarrow> fetched_fact \<Rightarrow> nat \<Rightarrow> fetched_fact \<Rightarrow> detected_conflict list res" where
  "check_pair g t trigger i other =
     (let (a, b) = (if i < t then (other, trigger) else (trigger, other))
      in ebind (compare (cg_operator g) (ff_value a) (ff_value b) (group_params g)) (\<lambda>consistent.
           if consistent then Inr []
           else ebind (mk_conflict g (cm_field (cg_members g ! t)) (conflict_type_for (cg_operator g)) a b)
             (\<lambda>c. Inr [c])))"

fun pairwise_loop ::
  "decoder \<Rightarrow> store \<Rightarrow> uuid \<Rightarrow> conflict_group \<Rightarrow> nat \<Rightarrow> fetched_fact \<Rightarrow> nat list \<Rightarrow>
   detected_conflict list res" where
  "pairwise_loop decode db loan g t trigger [] = Inr []"
| "pairwise_loop decode db loan g t trigger (i # is) =
     (if i = t then pairwise_loop decode db loan g t trigger is
      else ebind (fetch_member_fact decode db loan (cg_members g ! i)) (\<lambda>other.
        case other of
          None \<Rightarrow> pairwise_loop decode db loan g t trigger is
        | Some f \<Rightarrow>
            ebind (check_pair g t trigger i f) (\<lambda>cs.
            ebind (pairwise_loop decode db loan g t trigger is) (\<lambda>rest. Inr (cs @ rest)))))"

definition evaluate_pairwise_group ::
  "decoder \<Rightarrow> store \<Rightarrow> uuid \<Rightarrow> conflict_group \<Rightarrow> nat \<Rightarrow> fetched_fact \<Rightarrow> detected_conflict list res" where
  "evaluate_pairwise_group decode db loan g t trigger =
     pairwise_loop decode db loan g t trigger [0..<length (cg_members g)]"

text \<open>The chain: consecutive present members, each strictly after the one before.\<close>

fun chain_loop ::
  "conflict_group \<Rightarrow> (conflict_member \<times> fetched_fact) list \<Rightarrow> detected_conflict list res" where
  "chain_loop g ((_, fa) # (mb, fb) # rest) =
     ebind (require_same_kind (ff_value fa) (ff_value fb)) (\<lambda>_.
       if \<not> is_date_scalar (ff_value fa) \<or> \<not> is_date_scalar (ff_value fb)
       then Inl (ConflictComparisonError ''date kind'')
       else ebind (scalar_le (ff_value fb) (ff_value fa)) (\<lambda>le.
         ebind (if le then ebind (mk_conflict g (cm_field mb) DateOrder fa fb) (\<lambda>c. Inr [c]) else Inr [])
           (\<lambda>cs. ebind (chain_loop g ((mb, fb) # rest)) (\<lambda>more. Inr (cs @ more)))))"
| "chain_loop g _ = Inr []"

definition evaluate_strictly_increasing_group ::
  "decoder \<Rightarrow> store \<Rightarrow> uuid \<Rightarrow> conflict_group \<Rightarrow> detected_conflict list res" where
  "evaluate_strictly_increasing_group decode db loan g =
     ebind (emap (fetch_member_fact decode db loan) (cg_members g)) (\<lambda>fetched.
       chain_loop g (concat (map (\<lambda>(m, f). case f of None \<Rightarrow> [] | Some x \<Rightarrow> [(m, x)])
         (zip (cg_members g) fetched))))"

definition detect_in_group ::
  "decoder \<Rightarrow> store \<Rightarrow> fact_out \<Rightarrow> fact_value \<Rightarrow> string \<Rightarrow> conflict_group \<Rightarrow> detected_conflict list res" where
  "detect_in_group decode db ft v doc_type g =
     (if cg_operator g = ''date_order'' \<and> cp_direction (cg_params g) = Some ''strictly_increasing''
      then evaluate_strictly_increasing_group decode db (fo_loan_account_id ft) g
      else (case member_index (fo_field_key ft) doc_type g of
          None \<Rightarrow> Inl (AssertionError ''trigger_member'')
        | Some t \<Rightarrow>
            evaluate_pairwise_group decode db (fo_loan_account_id ft) g t
              \<lparr>ff_id = fo_id ft, ff_value = v\<rparr>))"

definition detect_for_fact ::
  "decoder \<Rightarrow> store \<Rightarrow> fact_out \<Rightarrow> string \<Rightarrow> conflict_group list \<Rightarrow> detected_conflict list res" where
  "detect_for_fact decode db ft doc_type groups =
     (if fo_is_absent ft then Inr []
      else (case fo_value ft of
          None \<Rightarrow> Inr []
        | Some v \<Rightarrow>
            ebind (emap (detect_in_group decode db ft v doc_type)
                (groups_containing groups doc_type (fo_field_key ft)))
              (\<lambda>css. Inr (concat css))))"

section \<open>Persistence\<close>

definition conflict_key :: "conflict_row \<Rightarrow> uuid \<times> string \<times> uuid \<times> uuid" where
  "conflict_key c = (fc_tenant c, fc_group c, fc_fact_a c, fc_fact_b c)"

definition new_conflict :: "uuid \<Rightarrow> uuid \<Rightarrow> uuid \<Rightarrow> detected_conflict \<Rightarrow> conflict_row" where
  "new_conflict i tenant loan c =
     \<lparr>fc_id = i, fc_tenant = tenant, fc_loan = loan, fc_group = dc_group_key c,
      fc_field = dc_field_key c, fc_fact_a = dc_fact_a c, fc_fact_b = dc_fact_b c,
      fc_type = dc_type c, fc_delta = dc_delta c, fc_operator = dc_operator c,
      fc_status = ''open''\<rparr>"

text \<open>\<open>ON CONFLICT (tenant_id, group_key, fact_a_id, fact_b_id) DO NOTHING\<close>.\<close>

definition insert_conflict :: "conflict_row \<Rightarrow> conflict_row list \<Rightarrow> conflict_row list" where
  "insert_conflict c rows = (if conflict_key c \<in> set (map conflict_key rows) then rows else rows @ [c])"

fun persist_conflicts ::
  "(nat \<Rightarrow> uuid) \<Rightarrow> uuid \<Rightarrow> uuid \<Rightarrow> detected_conflict list \<Rightarrow> store \<Rightarrow> store \<times> uuid list" where
  "persist_conflicts gen tenant loan [] db = (db, [])"
| "persist_conflicts gen tenant loan (c # cs) db =
     (let i = gen (db_uuids db);
          db1 = db\<lparr>db_metrics := db_metrics db @ [ConflictDetected (dc_group_key c) (dc_type c)],
                   db_uuids := Suc (db_uuids db),
                   db_conflicts := insert_conflict (new_conflict i tenant loan c) (db_conflicts db)\<rparr>;
          (db2, ids) = persist_conflicts gen tenant loan cs db1
      in (db2, i # ids))"

section \<open>The shipped groups\<close>

definition no_params :: conflict_params where
  "no_params = \<lparr>cp_direction = None, cp_within_days = None, cp_tolerance = None\<rparr>"

definition shipped_groups :: "conflict_group list" where
  "shipped_groups =
     [\<lparr>cg_key = ''apr'',
       cg_members = [\<lparr>cm_doc_type = ''kfs'', cm_field = ''apr_bps''\<rparr>,
         \<lparr>cm_doc_type = ''loan_agreement'', cm_field = ''apr_bps''\<rparr>,
         \<lparr>cm_doc_type = ''sanction_letter'', cm_field = ''apr_bps''\<rparr>],
       cg_operator = ''equal_within'', cg_tolerance = Some 1, cg_params = no_params,
       cg_raises_check = ''R03_apr_consistency''\<rparr>,
      \<lparr>cg_key = ''closure_release_window'',
       cg_members = [\<lparr>cm_doc_type = ''closure_statement'', cm_field = ''full_repayment_date''\<rparr>,
         \<lparr>cm_doc_type = ''docs_release_ack'', cm_field = ''original_docs_released_date''\<rparr>],
       cg_operator = ''date_order'', cg_tolerance = None,
       cg_params = no_params\<lparr>cp_direction := Some ''after'', cp_within_days := Some 30\<rparr>,
       cg_raises_check = ''R01_docs_release_30d''\<rparr>,
      \<lparr>cg_key = ''cure_notice_sequence'',
       cg_members = [\<lparr>cm_doc_type = ''reminder_notice'', cm_field = ''cure_notice_21day_sent_date''\<rparr>,
         \<lparr>cm_doc_type = ''reminder_notice'', cm_field = ''cure_notice_7day_sent_date''\<rparr>,
         \<lparr>cm_doc_type = ''field_visit_report'', cm_field = ''device_restriction_applied_date''\<rparr>],
       cg_operator = ''date_order'', cg_tolerance = None,
       cg_params = no_params\<lparr>cp_direction := Some ''strictly_increasing''\<rparr>,
       cg_raises_check = ''R23_device_restriction_preconditions''\<rparr>,
      \<lparr>cg_key = ''cooling_off'',
       cg_members = [\<lparr>cm_doc_type = ''kfs'', cm_field = ''cooling_off_period_days''\<rparr>,
         \<lparr>cm_doc_type = ''loan_agreement'', cm_field = ''cooling_off_period_days''\<rparr>],
       cg_operator = ''equal'', cg_tolerance = None, cg_params = no_params,
       cg_raises_check = ''R07_cooling_off_disclosed''\<rparr>]"

section \<open>Facts about comparison and detection\<close>

lemma scalar_eq_sym: "scalar_eq a b = scalar_eq b a"
  by (cases a; cases b) (auto simp: scalar_eq_def datetime_eq_def)

lemma require_same_kind_sym: "require_same_kind a b = Inr () \<longleftrightarrow> require_same_kind b a = Inr ()"
  by (auto simp: require_same_kind_def)

lemma compare_equal: "compare ''equal'' a b ps = ebind (require_same_kind a b) (\<lambda>_. Inr (scalar_eq a b))"
  by (simp add: compare_def)

lemma compare_equal_within:
  "compare ''equal_within'' a b ps = ebind (require_same_kind a b) (\<lambda>_.
     case (numeric_scalar a, numeric_scalar b) of
       (Some av, Some bv) \<Rightarrow> Inr (\<bar>av - bv\<bar> \<le> (case cp_tolerance ps of None \<Rightarrow> 0 | Some t \<Rightarrow> t))
     | _ \<Rightarrow> Inl (ConflictComparisonError ''numeric kind''))"
  by (simp add: compare_def)

lemma compare_symmetric:
  assumes "opr \<in> {''equal'', ''equal_within''}"
  shows "compare opr a b ps = compare opr b a ps"
proof -
  have k: "require_same_kind a b = require_same_kind b a" by (simp add: require_same_kind_def eq_commute)
  from assms consider "opr = ''equal''" | "opr = ''equal_within''" by blast
  then show ?thesis
  proof cases
    case 1
    then show ?thesis by (simp only: compare_equal k scalar_eq_sym [of a b])
  next
    case 2
    show ?thesis
      by (simp only: 2 compare_equal_within k)
        (cases "numeric_scalar a"; cases "numeric_scalar b"; simp add: abs_minus_commute)
  qed
qed

lemma check_pair_conflict:
  assumes "check_pair g t trigger i other = Inr cs" "c \<in> set cs" "i \<noteq> t"
  shows "\<exists>a b. (a, b) = (if i < t then (other, trigger) else (trigger, other)) \<and>
    dc_fact_a c = ff_id a \<and> dc_fact_b c = ff_id b \<and> dc_group_key c = cg_key g \<and>
    dc_raises_check c = cg_raises_check g \<and>
    compare (cg_operator g) (ff_value a) (ff_value b) (group_params g) = Inr False"
proof -
  obtain a b where ab: "(a, b) = (if i < t then (other, trigger) else (trigger, other))"
    by (cases "i < t") auto
  then show ?thesis
    using assms(1,2)
    by (intro exI [of _ a] exI [of _ b])
      (auto simp: check_pair_def Let_def mk_conflict_def ebind_Inr_iff split: if_splits)
qed

lemma pairwise_loop_sound:
  assumes "pairwise_loop decode db loan g t trigger is = Inr cs" "c \<in> set cs"
  shows "\<exists>i f cs'. i \<in> set is \<and> i \<noteq> t \<and> fetch_member_fact decode db loan (cg_members g ! i) = Inr (Some f) \<and>
    check_pair g t trigger i f = Inr cs' \<and> c \<in> set cs'"
  using assms
proof (induction "is" arbitrary: cs)
  case (Cons i "is")
  show ?case
  proof (cases "i = t")
    case True
    then show ?thesis using Cons by fastforce
  next
    case False
    then obtain other where o: "fetch_member_fact decode db loan (cg_members g ! i) = Inr other"
      using Cons.prems(1) by (auto simp: ebind_Inr_iff)
    show ?thesis
    proof (cases other)
      case None
      then show ?thesis using Cons False o by fastforce
    next
      case (Some f)
      then obtain c1 c2 where "check_pair g t trigger i f = Inr c1"
          "pairwise_loop decode db loan g t trigger is = Inr c2" "cs = c1 @ c2"
        using Cons.prems(1) False o by (auto simp: ebind_Inr_iff)
      then show ?thesis using Cons.IH [of c2] Cons.prems(2) Some False o by auto
    qed
  qed
qed simp

lemma pairwise_loop_complete:
  assumes "pairwise_loop decode db loan g t trigger is = Inr cs" "i \<in> set is" "i \<noteq> t"
    and "fetch_member_fact decode db loan (cg_members g ! i) = Inr (Some f)"
  shows "\<exists>cs'. check_pair g t trigger i f = Inr cs' \<and> set cs' \<subseteq> set cs"
  using assms
proof (induction "is" arbitrary: cs)
  case (Cons k "is")
  show ?case
  proof (cases "k = t")
    case True
    then show ?thesis using Cons by auto
  next
    case False
    then obtain other where o: "fetch_member_fact decode db loan (cg_members g ! k) = Inr other"
      using Cons.prems(1) by (auto simp: ebind_Inr_iff)
    show ?thesis
    proof (cases other)
      case None
      then show ?thesis using Cons False o by auto
    next
      case (Some x)
      then obtain c1 c2 where *: "check_pair g t trigger k x = Inr c1"
          "pairwise_loop decode db loan g t trigger is = Inr c2" "cs = c1 @ c2"
        using Cons.prems(1) False o by (auto simp: ebind_Inr_iff)
      show ?thesis
      proof (cases "k = i")
        case True
        then show ?thesis using * o Some Cons.prems(4) by auto
      next
        case False
        then have "i \<in> set is" using Cons.prems(2) by simp
        from Cons.IH [OF *(2) this Cons.prems(3,4)] show ?thesis using *(3) by auto
      qed
    qed
  qed
qed simp

lemma insert_conflict_keys:
  "set (map conflict_key (insert_conflict c rows)) = insert (conflict_key c) (set (map conflict_key rows))"
  "distinct (map conflict_key rows) \<Longrightarrow> distinct (map conflict_key (insert_conflict c rows))"
  by (auto simp: insert_conflict_def)

lemma persist_conflicts_step:
  assumes "persist_conflicts gen tenant loan (c # cs) db = (db', ids)"
  obtains db1 ids1 where "persist_conflicts gen tenant loan cs db1 = (db', ids1)"
    "ids = gen (db_uuids db) # ids1"
    "db_conflicts db1 = insert_conflict (new_conflict (gen (db_uuids db)) tenant loan c) (db_conflicts db)"
  using assms by (simp add: Let_def split: prod.splits)

lemma new_conflict_key:
  "conflict_key (new_conflict i tenant loan c) = (tenant, dc_group_key c, dc_fact_a c, dc_fact_b c)"
  by (simp add: conflict_key_def new_conflict_def)

lemma persist_conflicts_rows:
  assumes "persist_conflicts gen tenant loan cs db = (db', ids)"
  shows "set (map conflict_key (db_conflicts db')) =
      set (map conflict_key (db_conflicts db)) \<union>
      (\<lambda>c. (tenant, dc_group_key c, dc_fact_a c, dc_fact_b c)) ` set cs \<and>
    (distinct (map conflict_key (db_conflicts db)) \<longrightarrow> distinct (map conflict_key (db_conflicts db'))) \<and>
    set (db_conflicts db) \<subseteq> set (db_conflicts db') \<and> length ids = length cs"
  using assms
proof (induction cs arbitrary: db ids)
  case (Cons c cs)
  obtain db1 ids1 where r: "persist_conflicts gen tenant loan cs db1 = (db', ids1)"
      "ids = gen (db_uuids db) # ids1"
      "db_conflicts db1 = insert_conflict (new_conflict (gen (db_uuids db)) tenant loan c) (db_conflicts db)"
    using Cons.prems by (rule persist_conflicts_step)
  let ?new = "new_conflict (gen (db_uuids db)) tenant loan c"
  have "set (db_conflicts db) \<subseteq> set (db_conflicts db1)" using r(3) by (auto simp: insert_conflict_def)
  moreover have "set (map conflict_key (db_conflicts db1)) =
      insert (tenant, dc_group_key c, dc_fact_a c, dc_fact_b c) (set (map conflict_key (db_conflicts db)))"
    using r(3) insert_conflict_keys(1) [of ?new] by (simp only: new_conflict_key)
  moreover have "distinct (map conflict_key (db_conflicts db)) \<Longrightarrow> distinct (map conflict_key (db_conflicts db1))"
    using r(3) insert_conflict_keys(2) by metis
  ultimately show ?case using Cons.IH [OF r(1)] r(2) by auto
qed simp

lemma persist_conflicts_known:
  assumes "\<forall>c \<in> set cs. (tenant, dc_group_key c, dc_fact_a c, dc_fact_b c) \<in>
      set (map conflict_key (db_conflicts db))"
  shows "db_conflicts (fst (persist_conflicts gen tenant loan cs db)) = db_conflicts db"
  using assms
proof (induction gen tenant loan cs db rule: persist_conflicts.induct)
  case (2 gen tenant loan c cs db)
  have "insert_conflict (new_conflict (gen (db_uuids db)) tenant loan c) (db_conflicts db) = db_conflicts db"
    using "2.prems" by (simp add: insert_conflict_def conflict_key_def new_conflict_def)
  then show ?case using "2.IH" [OF refl refl] "2.prems" by (simp add: Let_def case_prod_unfold)
qed simp


section \<open>What is detected\<close>

definition ordered_pair :: "nat \<Rightarrow> fetched_fact \<Rightarrow> nat \<Rightarrow> fetched_fact \<Rightarrow> fetched_fact \<times> fetched_fact" where
  "ordered_pair t trigger i other = (if i < t then (other, trigger) else (trigger, other))"

lemma check_pair_ids:
  assumes "check_pair g t trigger i other = Inr cs"
  shows "(\<lambda>c. (dc_fact_a c, dc_fact_b c)) ` set cs =
    {(ff_id a, ff_id b) | a b. (a, b) = ordered_pair t trigger i other \<and>
       compare (cg_operator g) (ff_value a) (ff_value b) (group_params g) = Inr False}"
proof -
  obtain a b where ab: "(a, b) = ordered_pair t trigger i other" by (metis surj_pair)
  then have ab': "(if i < t then (other, trigger) else (trigger, other)) = (a, b)"
    by (simp add: ordered_pair_def)
  from assms have "ebind (compare (cg_operator g) (ff_value a) (ff_value b) (group_params g)) (\<lambda>consistent.
      if consistent then Inr [] else ebind (mk_conflict g (cm_field (cg_members g ! t))
        (conflict_type_for (cg_operator g)) a b) (\<lambda>c. Inr [c])) = Inr cs"
    by (simp add: check_pair_def ab' Let_def)
  then obtain ok where ok: "compare (cg_operator g) (ff_value a) (ff_value b) (group_params g) = Inr ok"
      and r: "(if ok then Inr [] else ebind (mk_conflict g (cm_field (cg_members g ! t))
        (conflict_type_for (cg_operator g)) a b) (\<lambda>c. Inr [c])) = Inr cs"
    by (auto simp: ebind_Inr_iff)
  have "(\<lambda>c. (dc_fact_a c, dc_fact_b c)) ` set cs = (if ok then {} else {(ff_id a, ff_id b)})"
    using r by (auto simp: mk_conflict_def ebind_Inr_iff split: if_splits)
  moreover have "{(ff_id a, ff_id b) | a b. (a, b) = ordered_pair t trigger i other \<and>
       compare (cg_operator g) (ff_value a) (ff_value b) (group_params g) = Inr False} =
       (if ok then {} else {(ff_id a, ff_id b)})"
    using ok unfolding ab [symmetric] by auto
  ultimately show ?thesis by simp
qed

lemma evaluate_pairwise_ids:
  assumes "evaluate_pairwise_group decode db loan g t trigger = Inr cs"
  shows "(\<lambda>c. (dc_fact_a c, dc_fact_b c)) ` set cs =
    {(ff_id a, ff_id b) | i f a b. i < length (cg_members g) \<and> i \<noteq> t \<and>
       fetch_member_fact decode db loan (cg_members g ! i) = Inr (Some f) \<and>
       (a, b) = ordered_pair t trigger i f \<and>
       compare (cg_operator g) (ff_value a) (ff_value b) (group_params g) = Inr False}"
    (is "?l = ?r")
proof
  note run = assms [unfolded evaluate_pairwise_group_def]
  show "?l \<subseteq> ?r"
  proof
    fix p assume "p \<in> ?l"
    then obtain c where c: "c \<in> set cs" "p = (dc_fact_a c, dc_fact_b c)" by auto
    from pairwise_loop_sound [OF run c(1)] obtain i f cs' where i: "i < length (cg_members g)" "i \<noteq> t"
        "fetch_member_fact decode db loan (cg_members g ! i) = Inr (Some f)"
        "check_pair g t trigger i f = Inr cs'" "c \<in> set cs'"
      by auto
    have "p \<in> (\<lambda>c. (dc_fact_a c, dc_fact_b c)) ` set cs'" using c(2) i(5) by auto
    then show "p \<in> ?r" unfolding check_pair_ids [OF i(4)] using i(1-3) by blast
  qed
  show "?r \<subseteq> ?l"
  proof
    fix p assume "p \<in> ?r"
    then obtain i f a b where i: "p = (ff_id a, ff_id b)" "i < length (cg_members g)" "i \<noteq> t"
        "fetch_member_fact decode db loan (cg_members g ! i) = Inr (Some f)"
        "(a, b) = ordered_pair t trigger i f"
        "compare (cg_operator g) (ff_value a) (ff_value b) (group_params g) = Inr False"
      by blast
    have "i \<in> set [0..<length (cg_members g)]" using i(2) by simp
    from pairwise_loop_complete [OF run this i(3,4)] obtain cs' where
      cs': "check_pair g t trigger i f = Inr cs'" "set cs' \<subseteq> set cs" by auto
    have "p \<in> (\<lambda>c. (dc_fact_a c, dc_fact_b c)) ` set cs'"
      unfolding check_pair_ids [OF cs'(1)] using i(1,5,6) by blast
    then show "p \<in> ?l" using cs'(2) by blast
  qed
qed

lemma chain_loop_dates:
  "\<exists>cs. chain_loop g (map (\<lambda>(m, i, d). (m, \<lparr>ff_id = i, ff_value = DateValue d\<rparr>)) xs) = Inr cs \<and>
    map (\<lambda>c. (dc_fact_a c, dc_fact_b c)) cs =
      map (\<lambda>((_, i, _), (_, j, _)). (i, j))
        (filter (\<lambda>((_, _, d), (_, _, e)). e \<le> d) (zip xs (tl xs)))"
proof (induction xs)
  case (Cons x xs)
  show ?case
  proof (cases xs)
    case Nil
    then show ?thesis by (cases x) simp
  next
    case (Cons y ys)
    obtain m i d where x: "x = (m, i, d)" by (cases x)
    obtain n j e where y: "y = (n, j, e)" by (cases y)
    from Cons.IH Cons obtain cs where cs:
      "chain_loop g ((n, \<lparr>ff_id = j, ff_value = DateValue e\<rparr>) #
         map (\<lambda>(m, i, d). (m, \<lparr>ff_id = i, ff_value = DateValue d\<rparr>)) ys) = Inr cs"
      "map (\<lambda>c. (dc_fact_a c, dc_fact_b c)) cs = map (\<lambda>((_, i, _), (_, j, _)). (i, j))
        (filter (\<lambda>((_, _, d), (_, _, e)). e \<le> d) (zip xs (tl xs)))"
      using y by auto
    show ?thesis
      using cs Cons x y by (cases "e \<le> d") (simp_all add: require_same_kind_def mk_conflict_def delta_for_def)
  qed
qed simp

section \<open>Detection does not raise\<close>

text \<open>The members of a group declare one type, and the operator compares values of that type.\<close>

definition operator_for :: "string \<Rightarrow> conflict_params \<Rightarrow> string \<Rightarrow> bool" where
  "operator_for opr ps k \<longleftrightarrow>
     opr = ''equal'' \<and> k \<noteq> ''datetime'' \<or>
     opr = ''equal_within'' \<and> k \<in> {''money'', ''rate_bps'', ''duration_days'', ''integer''} \<or>
     opr = ''date_order'' \<and> k = ''date'' \<and> cp_direction ps \<noteq> None"

definition typed_group :: "conflict_group \<Rightarrow> bool" where
  "typed_group g \<longleftrightarrow>
     (\<exists>k. (\<forall>m \<in> set (cg_members g). declared_type (cm_field m) = Some k) \<and>
        operator_for (cg_operator g) (cg_params g) k \<and>
        group_shape g = Inr ())"

definition typed_rows :: "decoder \<Rightarrow> fact_row list \<Rightarrow> bool" where
  "typed_rows decode rows \<longleftrightarrow>
     (\<forall>r \<in> set rows. \<forall>obj. fx_value r = Some obj \<longrightarrow>
        (\<exists>v. decode obj = Inr v \<and> declared_type (fx_field_key r) = Some (fv_kind v)))"

lemma fetch_typed:
  assumes "typed_rows decode (db_facts db)" "declared_type (cm_field m) = Some k"
  obtains (none) "fetch_member_fact decode db loan m = Inr None"
    | (some) f where "fetch_member_fact decode db loan m = Inr (Some f)" "fv_kind (ff_value f) = k"
proof (cases "latest_by fx_created (member_rows db loan m)")
  case None
  then have "fetch_member_fact decode db loan m = Inr None" unfolding fetch_member_fact_def None by simp
  then show ?thesis by (rule none)
next
  case (Some r)
  then have "r \<in> set (member_rows db loan m)" by (rule latest_by_Some(1))
  then have r: "r \<in> set (db_facts db)" "fx_field_key r = cm_field m" by (auto simp: member_rows_def)
  show ?thesis
  proof (cases "fx_value r")
    case None
    then show ?thesis using Some none by (simp add: fetch_member_fact_def)
  next
    case (Some obj)
    then obtain v where "decode obj = Inr v" "declared_type (cm_field m) = Some (fv_kind v)"
      using assms(1) [unfolded typed_rows_def, rule_format, OF r(1) Some] r(2) by metis
    then show ?thesis
      using some [of "\<lparr>ff_id = fx_id r, ff_value = v\<rparr>"] assms(2) Some \<open>latest_by _ _ = Some r\<close>
      by (simp add: fetch_member_fact_def)
  qed
qed

lemma kind_numeric:
  assumes "fv_kind v \<in> {''money'', ''rate_bps'', ''duration_days'', ''integer''}"
  obtains n where "numeric_scalar v = Some n"
  using assms by (cases v) auto

lemma kind_date: "fv_kind v = ''date'' \<longleftrightarrow> (\<exists>d. v = DateValue d)"
  by (cases v) auto

lemma delta_total:
  assumes "fv_kind a = fv_kind b" "fv_kind a \<noteq> ''datetime''"
  obtains d where "delta_for a b = Inr d"
  using assms by (cases a; cases b) (auto simp: delta_for_def)

lemma check_pair_total:
  assumes "operator_for (cg_operator g) (group_params g) k"
    and "\<not> (cg_operator g = ''date_order'' \<and> cp_direction (cg_params g) = Some ''strictly_increasing'')"
    and "group_shape g = Inr ()"
    and "fv_kind (ff_value trigger) = k" "fv_kind (ff_value other) = k"
  shows "\<exists>cs. check_pair g t trigger i other = Inr cs"
proof -
  obtain a b where ab: "(if i < t then (other, trigger) else (trigger, other)) = (a, b)"
    by (cases "i < t") auto
  then have k: "fv_kind (ff_value a) = k" "fv_kind (ff_value b) = k" using assms(4,5) by (auto split: if_splits)
  have kd: "k \<noteq> ''datetime''" using assms(1) by (auto simp: operator_for_def)
  obtain d where d: "delta_for (ff_value a) (ff_value b) = Inr d"
    using k kd by (metis delta_total)
  have same: "require_same_kind (ff_value a) (ff_value b) = Inr ()" using k by (simp add: require_same_kind_def)
  have "\<exists>r. compare (cg_operator g) (ff_value a) (ff_value b) (group_params g) = Inr r"
  proof -
    from assms(1) consider "cg_operator g = ''equal''"
      | "cg_operator g = ''equal_within''" "k \<in> {''money'', ''rate_bps'', ''duration_days'', ''integer''}"
      | "cg_operator g = ''date_order''" "k = ''date''" "cp_direction (group_params g) \<noteq> None"
      by (auto simp: operator_for_def)
    then show ?thesis
    proof cases
      case 1
      then show ?thesis using same by (simp add: compare_equal)
    next
      case 2
      then obtain m n where "numeric_scalar (ff_value a) = Some m" "numeric_scalar (ff_value b) = Some n"
        using k kind_numeric by metis
      then show ?thesis using 2 same by (simp add: compare_equal_within)
    next
      case 3
      obtain d e where de: "ff_value a = DateValue d" "ff_value b = DateValue e"
        using 3 k kind_date by metis
      have "cp_direction (group_params g) = cp_direction (cg_params g)"
        by (simp add: group_params_def split: option.splits)
      then have "cp_direction (group_params g) \<in> {Some ''after'', Some ''before''}"
        using assms(2,3) 3 by (auto simp: group_shape_def VALID_DIRECTIONS_def split: if_splits option.splits)
      then show ?thesis
        using 3 same de by (auto simp: compare_def split: option.splits)
    qed
  qed
  then show ?thesis using d by (auto simp: check_pair_def ab Let_def mk_conflict_def)
qed

lemma pairwise_total:
  assumes "typed_rows decode (db_facts db)" "operator_for (cg_operator g) (group_params g) k"
    and "\<not> (cg_operator g = ''date_order'' \<and> cp_direction (cg_params g) = Some ''strictly_increasing'')"
    and "group_shape g = Inr ()"
    and "fv_kind (ff_value trigger) = k"
    and "\<forall>i \<in> set is. declared_type (cm_field (cg_members g ! i)) = Some k"
  shows "\<exists>cs. pairwise_loop decode db loan g t trigger is = Inr cs"
  using assms(6)
proof (induction "is")
  case (Cons i "is")
  then obtain rest where rest: "pairwise_loop decode db loan g t trigger is = Inr rest" by auto
  have "declared_type (cm_field (cg_members g ! i)) = Some k" using Cons.prems by simp
  from assms(1) this show ?case
  proof (cases rule: fetch_typed [where loan = loan])
    case none
    then show ?thesis using rest by simp
  next
    case (some f)
    obtain cs where "check_pair g t trigger i f = Inr cs"
      using check_pair_total [OF assms(2-5) some(2)] by blast
    then show ?thesis using some(1) rest by simp
  qed
qed simp

lemma chain_total:
  assumes "\<forall>(m, f) \<in> set xs. fv_kind (ff_value f) = ''date''"
  shows "\<exists>cs. chain_loop g xs = Inr cs"
proof -
  have "\<exists>ys. xs = map (\<lambda>(m, i, d). (m, \<lparr>ff_id = i, ff_value = DateValue d\<rparr>)) ys"
    using assms
  proof (induction xs)
    case (Cons x xs)
    then obtain ys where ys: "xs = map (\<lambda>(m, i, d). (m, \<lparr>ff_id = i, ff_value = DateValue d\<rparr>)) ys" by auto
    obtain m f where x: "x = (m, f)" by (cases x)
    then obtain d where "ff_value f = DateValue d" using Cons.prems kind_date by auto
    then have "x = (\<lambda>(m, i, d). (m, \<lparr>ff_id = i, ff_value = DateValue d\<rparr>)) (m, ff_id f, d)"
      using x by simp
    then have "x # xs = map (\<lambda>(m, i, d). (m, \<lparr>ff_id = i, ff_value = DateValue d\<rparr>)) ((m, ff_id f, d) # ys)"
      using ys by simp
    then show ?case by (rule exI)
  qed simp
  then show ?thesis using chain_loop_dates by blast
qed

lemma sequence_total:
  assumes "typed_rows decode (db_facts db)" "\<forall>m \<in> set (cg_members g). declared_type (cm_field m) = Some ''date''"
  shows "\<exists>cs. evaluate_strictly_increasing_group decode db loan g = Inr cs"
proof -
  have "\<exists>fs. emap (fetch_member_fact decode db loan) ms = Inr fs \<and>
      (\<forall>(m, f) \<in> set (zip ms fs). \<forall>x. f = Some x \<longrightarrow> fv_kind (ff_value x) = ''date'')"
    if "\<forall>m \<in> set ms. declared_type (cm_field m) = Some ''date''" for ms
    using that
  proof (induction ms)
    case (Cons m ms)
    then obtain fs where fs: "emap (fetch_member_fact decode db loan) ms = Inr fs"
      "\<forall>(m, f) \<in> set (zip ms fs). \<forall>x. f = Some x \<longrightarrow> fv_kind (ff_value x) = ''date''" by auto
    have "declared_type (cm_field m) = Some ''date''" using Cons.prems by simp
    with assms(1) show ?case
      by (cases rule: fetch_typed [where loan = loan]) (use fs in auto)
  qed simp
  from this [OF assms(2)] obtain fs where fs:
    "emap (fetch_member_fact decode db loan) (cg_members g) = Inr fs"
    "\<forall>(m, f) \<in> set (zip (cg_members g) fs). \<forall>x. f = Some x \<longrightarrow> fv_kind (ff_value x) = ''date''" by blast
  have "\<exists>cs. chain_loop g (concat (map (\<lambda>(m, f). case f of None \<Rightarrow> [] | Some x \<Rightarrow> [(m, x)])
      (zip (cg_members g) fs))) = Inr cs"
    by (rule chain_total) (use fs(2) in \<open>auto split: option.splits\<close>)
  then show ?thesis using fs(1) by (simp add: evaluate_strictly_increasing_group_def)
qed

lemma member_index_found:
  assumes "list_ex (\<lambda>m. cm_doc_type m = dt \<and> cm_field m = k) (cg_members g)"
  obtains t where "member_index k dt g = Some t" "t < length (cg_members g)"
    "cm_field (cg_members g ! t) = k" "cm_doc_type (cg_members g ! t) = dt"
proof -
  let ?P = "\<lambda>i. cm_field (cg_members g ! i) = k \<and> cm_doc_type (cg_members g ! i) = dt"
  obtain i where "i < length (cg_members g)" "?P i"
    using assms by (auto simp: list_ex_iff in_set_conv_nth)
  then have "find ?P [0..<length (cg_members g)] \<noteq> None" by (auto simp: find_None_iff)
  then obtain t where t: "find ?P [0..<length (cg_members g)] = Some t" by blast
  then have "t < length (cg_members g) \<and> ?P t" by (auto simp: find_Some_iff)
  moreover have "member_index k dt g = Some t" using t by (simp add: member_index_def Let_def)
  ultimately show ?thesis using that by blast
qed

lemma detect_in_group_total:
  assumes "typed_group g" "typed_rows decode (db_facts db)"
    and "declared_type (fo_field_key ft) = Some (fv_kind v)"
    and "list_ex (\<lambda>m. cm_doc_type m = dt \<and> cm_field m = fo_field_key ft) (cg_members g)"
  shows "\<exists>cs. detect_in_group decode db ft v dt g = Inr cs"
proof -
  obtain k where k: "\<forall>m \<in> set (cg_members g). declared_type (cm_field m) = Some k"
      "operator_for (cg_operator g) (cg_params g) k" "group_shape g = Inr ()"
    using assms(1) by (auto simp: typed_group_def)
  obtain t where t: "member_index (fo_field_key ft) dt g = Some t" "t < length (cg_members g)"
      "cm_field (cg_members g ! t) = fo_field_key ft"
    using assms(4) by (rule member_index_found)
  have kv: "fv_kind v = k" using k(1) t(2,3) assms(3) by (metis nth_mem option.inject)
  show ?thesis
  proof (cases "cg_operator g = ''date_order'' \<and> cp_direction (cg_params g) = Some ''strictly_increasing''")
    case True
    then have "k = ''date''" using k(2) by (auto simp: operator_for_def)
    then show ?thesis
      using sequence_total [OF assms(2)] k(1) True by (simp add: detect_in_group_def)
  next
    case False
    have d: "cp_direction (group_params g) = cp_direction (cg_params g)"
      by (simp add: group_params_def split: option.splits)
    have op: "operator_for (cg_operator g) (group_params g) k" using k(2) d by (auto simp: operator_for_def)
    have "\<exists>cs. pairwise_loop decode db (fo_loan_account_id ft) g t \<lparr>ff_id = fo_id ft, ff_value = v\<rparr>
          [0..<length (cg_members g)] = Inr cs"
        by (rule pairwise_total [OF assms(2) op False k(3)]) (use kv k(1) in auto)
      then show ?thesis using False t(1) by (auto simp: detect_in_group_def evaluate_pairwise_group_def)
  qed
qed

lemma no_descent_sorted:
  "filter (\<lambda>((_, _, d), (_, _, e)). e \<le> d) (zip xs (tl xs)) = [] \<longleftrightarrow>
     sorted_wrt (<) (map (\<lambda>(_, _, d). d :: date) xs)"
proof (induction xs)
  case (Cons x xs)
  have t: "transp ((<) :: date \<Rightarrow> date \<Rightarrow> bool)" by simp
  show ?case
  proof (cases xs)
    case Nil
    then show ?thesis by simp
  next
    case (Cons y ys)
    obtain a b d where x: "x = (a, b, d)" by (cases x)
    obtain a' b' e where y: "y = (a', b', e)" by (cases y)
    have "sorted_wrt (<) (map (\<lambda>(_, _, d). d) (x # xs)) \<longleftrightarrow>
        d < e \<and> sorted_wrt (<) (map (\<lambda>(_, _, d). d) xs)"
      unfolding Cons list.map x y prod.case by (rule sorted_wrt2 [OF t])
    moreover have "filter (\<lambda>((_, _, d), (_, _, e)). e \<le> d) (zip (x # xs) (tl (x # xs))) = [] \<longleftrightarrow>
        \<not> e \<le> d \<and> filter (\<lambda>((_, _, d), (_, _, e)). e \<le> d) (zip xs (tl xs)) = []"
      using Cons x y by simp
    ultimately show ?thesis using Cons.IH by (simp only: not_le)
  qed
qed simp

lemma shipped_groups_typed: "g \<in> set shipped_groups \<Longrightarrow> typed_group g"
proof -
  have "list_all (\<lambda>(k, ty). map_of (map (\<lambda>s. (fs_key s, fs_type s)) shipped_fields) k = Some ty)
      [(''device_restriction_applied_date'', ''date'')]" by code_simp
  then have d: "declared_type ''device_restriction_applied_date'' = Some ''date''"
    by (simp add: declared_type_eq)
  have s: "group_shape g = Inr ()" if "g \<in> set shipped_groups" for g
  proof -
    have "list_all (\<lambda>g. group_shape g = Inr ()) shipped_groups" by code_simp
    with that show ?thesis by (auto simp: list_all_iff)
  qed
  assume g: "g \<in> set shipped_groups"
  show "typed_group g"
    using g unfolding typed_group_def s [OF g]
    by (auto simp: shipped_groups_def operator_for_def no_params_def declared_by_rules d)
qed

section \<open>A store with two documents that disagree\<close>

definition sample_decode :: decoder where
  "sample_decode ob =
     (case map_of ob ''bps'' of
        Some (JInt n) \<Rightarrow> Inr (RateValue n)
      | _ \<Rightarrow> ebind (obj_get ob ''v'') (\<lambda>x. ebind (json_str x) (\<lambda>s.
               ebind (date_fromisoformat s) (\<lambda>d. Inr (DateValue d)))))"

definition sample_row :: "uuid \<Rightarrow> uuid \<Rightarrow> string \<Rightarrow> fact_value \<Rightarrow> fact_row" where
  "sample_row i doc key v =
     \<lparr>fx_id = i, fx_document = doc, fx_loan = 3, fx_field_key = key, fx_value_type = Some (fv_kind v),
      fx_value = Some (value_to_jsonable v), fx_is_absent = False, fx_created = int i\<rparr>"

definition sample_documents :: "(uuid \<times> string) list" where
  "sample_documents = [(10, ''kfs''), (11, ''loan_agreement''), (12, ''reminder_notice''), (13, ''field_visit_report'')]"

definition sample_rows :: "fact_row list" where
  "sample_rows =
     [sample_row 20 10 ''apr_bps'' (RateValue 1450), sample_row 21 11 ''apr_bps'' (RateValue 1475),
      sample_row 22 12 ''cure_notice_21day_sent_date'' (DateValue (Date 2027 1 5)),
      sample_row 23 12 ''cure_notice_7day_sent_date'' (DateValue (Date 2027 1 19)),
      sample_row 24 13 ''device_restriction_applied_date'' (DateValue (Date 2027 1 19))]"

definition conflict_store :: store where
  "conflict_store = sample_store\<lparr>db_documents := sample_documents, db_facts := sample_rows\<rparr>"

definition apr_group :: conflict_group where
  "apr_group = shipped_groups ! 0"

definition sequence_group :: conflict_group where
  "sequence_group = shipped_groups ! 2"

definition apr_fact :: fact_out where
  "apr_fact =
     \<lparr>fo_id = 21, fo_document_id = 11, fo_loan_account_id = 3, fo_field_key = ''apr_bps'',
      fo_value = Some (RateValue 1475), fo_value_raw = Some ''14.75%'', fo_is_absent = False,
      fo_confidence = 1, fo_span = None\<rparr>"

lemma conflict_store_sel [simp]:
  "db_documents conflict_store = sample_documents" "db_facts conflict_store = sample_rows"
  by (simp_all add: conflict_store_def)

lemma sample_dates_valid: "valid_date (Date 2027 1 5)" "valid_date (Date 2027 1 19)"
  by code_simp+

lemma sample_fetch:
  "fetch_member_fact sample_decode conflict_store 3 \<lparr>cm_doc_type = ''kfs'', cm_field = ''apr_bps''\<rparr> =
     Inr (Some \<lparr>ff_id = 20, ff_value = RateValue 1450\<rparr>)"
  "fetch_member_fact sample_decode conflict_store 3 \<lparr>cm_doc_type = ''sanction_letter'', cm_field = ''apr_bps''\<rparr> = Inr None"
  "fetch_member_fact sample_decode conflict_store 3
     \<lparr>cm_doc_type = ''reminder_notice'', cm_field = ''cure_notice_21day_sent_date''\<rparr> =
     Inr (Some \<lparr>ff_id = 22, ff_value = DateValue (Date 2027 1 5)\<rparr>)"
  "fetch_member_fact sample_decode conflict_store 3
     \<lparr>cm_doc_type = ''reminder_notice'', cm_field = ''cure_notice_7day_sent_date''\<rparr> =
     Inr (Some \<lparr>ff_id = 23, ff_value = DateValue (Date 2027 1 19)\<rparr>)"
  "fetch_member_fact sample_decode conflict_store 3
     \<lparr>cm_doc_type = ''field_visit_report'', cm_field = ''device_restriction_applied_date''\<rparr> =
     Inr (Some \<lparr>ff_id = 24, ff_value = DateValue (Date 2027 1 19)\<rparr>)"
  using sample_dates_valid
  by (simp_all add: fetch_member_fact_def member_rows_def sample_documents_def sample_rows_def sample_row_def
      sample_decode_def latest_by_def obj_get_def date_iso_roundtrip del: valid_date.simps date_isoformat.simps)

lemma sample_rows_typed: "typed_rows sample_decode (db_facts conflict_store)"
proof -
  have d: "declared_type ''device_restriction_applied_date'' = Some ''date''"
  proof -
    have "list_all (\<lambda>(k, ty). map_of (map (\<lambda>s. (fs_key s, fs_type s)) shipped_fields) k = Some ty)
      [(''device_restriction_applied_date'', ''date'')]" by code_simp
    then show ?thesis by (simp add: declared_type_eq)
  qed
  show ?thesis
    using sample_dates_valid by (auto simp: typed_rows_def sample_rows_def sample_row_def sample_decode_def declared_by_rules d
        obj_get_def date_iso_roundtrip simp del: valid_date.simps date_isoformat.simps)
qed

section \<open>Properties\<close>

text \<open>
  C15: A pairwise group reports exactly its inconsistent pairs. When the evaluation returns, the
  pairs of fact ids it reports are those of the triggering fact and the latest present fact of
  another member, the member listed first as fact a, for which the comparison with the
  parameters of the group says inconsistent.
\<close>

theorem pairwise_conflicts_exact:
  assumes "evaluate_pairwise_group decode db loan g t trigger = Inr cs"
  shows "(\<lambda>c. (dc_fact_a c, dc_fact_b c)) ` set cs =
    {(ff_id a, ff_id b) | i f a b. i < length (cg_members g) \<and> i \<noteq> t \<and>
       fetch_member_fact decode db loan (cg_members g ! i) = Inr (Some f) \<and>
       (a, b) = (if i < t then (f, trigger) else (trigger, f)) \<and>
       compare (cg_operator g) (ff_value a) (ff_value b) (group_params g) = Inr False}"
  using evaluate_pairwise_ids [OF assms] by (simp only: ordered_pair_def)

theorem pairwise_conflicts_exact_witness:
  "\<exists>cs. evaluate_pairwise_group sample_decode conflict_store 3 apr_group 1
       \<lparr>ff_id = 21, ff_value = RateValue 1475\<rparr> = Inr cs \<and>
     (20, 21) \<in> (\<lambda>c. (dc_fact_a c, dc_fact_b c)) ` set cs"
proof -
  let ?f = "\<lparr>ff_id = 21, ff_value = RateValue 1475\<rparr>" and ?k = "\<lparr>ff_id = 20, ff_value = RateValue 1450\<rparr>"
  have "\<exists>cs. evaluate_pairwise_group sample_decode conflict_store 3 apr_group 1 ?f = Inr cs"
    by (simp add: evaluate_pairwise_group_def apr_group_def shipped_groups_def upt_rec sample_fetch
        check_pair_def mk_conflict_def delta_for_def compare_equal_within require_same_kind_def group_params_def
        no_params_def)
  then obtain cs where cs: "evaluate_pairwise_group sample_decode conflict_store 3 apr_group 1 ?f = Inr cs" by blast
  have "compare (cg_operator apr_group) (ff_value ?k) (ff_value ?f) (group_params apr_group) = Inr False"
    by (simp add: apr_group_def shipped_groups_def compare_equal_within require_same_kind_def group_params_def
        no_params_def)
  moreover have "fetch_member_fact sample_decode conflict_store 3 (cg_members apr_group ! 0) = Inr (Some ?k)"
    "0 < length (cg_members apr_group)"
    by (simp_all add: apr_group_def shipped_groups_def sample_fetch)
  ultimately have "(ff_id ?k, ff_id ?f) \<in> (\<lambda>c. (dc_fact_a c, dc_fact_b c)) ` set cs"
    unfolding pairwise_conflicts_exact [OF cs] by (fastforce intro: exI [of _ 0])
  then show ?thesis using cs by auto
qed

text \<open>
  A sequence group reports exactly the adjacent pairs out of order. For present members with
  date values the evaluation returns, it reports in order each consecutive pair whose later
  member does not carry a strictly later date, and it reports nothing exactly when the dates
  increase strictly along the whole group.
\<close>

theorem sequence_conflicts_exact:
  assumes "emap (fetch_member_fact decode db loan) (cg_members g) = Inr fetched"
    and "concat (map (\<lambda>(m, f). case f of None \<Rightarrow> [] | Some x \<Rightarrow> [(m, x)]) (zip (cg_members g) fetched)) =
      map (\<lambda>(m, i, d). (m, \<lparr>ff_id = i, ff_value = DateValue d\<rparr>)) xs"
  shows "\<exists>cs. evaluate_strictly_increasing_group decode db loan g = Inr cs \<and>
    map (\<lambda>c. (dc_fact_a c, dc_fact_b c)) cs =
      map (\<lambda>((_, i, _), (_, j, _)). (i, j)) (filter (\<lambda>((_, _, d), (_, _, e)). e \<le> d) (zip xs (tl xs))) \<and>
    (cs = [] \<longleftrightarrow> sorted_wrt (<) (map (\<lambda>(_, _, d). d) xs))"
proof -
  obtain cs where cs: "chain_loop g (map (\<lambda>(m, i, d). (m, \<lparr>ff_id = i, ff_value = DateValue d\<rparr>)) xs) = Inr cs"
      "map (\<lambda>c. (dc_fact_a c, dc_fact_b c)) cs =
        map (\<lambda>((_, i, _), (_, j, _)). (i, j)) (filter (\<lambda>((_, _, d), (_, _, e)). e \<le> d) (zip xs (tl xs)))"
    using chain_loop_dates by blast
  have len: "length cs = length (filter (\<lambda>((_, _, d), (_, _, e)). e \<le> d) (zip xs (tl xs)))"
    using arg_cong [OF cs(2), of length] by (simp only: length_map)
  have "cs = [] \<longleftrightarrow> filter (\<lambda>((_, _, d), (_, _, e)). e \<le> d) (zip xs (tl xs)) = []"
    unfolding length_0_conv [symmetric] len ..
  also have "\<dots> \<longleftrightarrow> sorted_wrt (<) (map (\<lambda>(_, _, d). d) xs)"
    by (rule no_descent_sorted)
  finally show ?thesis using cs assms by (simp add: evaluate_strictly_increasing_group_def)
qed

theorem sequence_conflicts_exact_witness:
  "\<exists>cs. evaluate_strictly_increasing_group sample_decode conflict_store 3 sequence_group = Inr cs \<and>
     map (\<lambda>c. (dc_fact_a c, dc_fact_b c)) cs = [(23, 24)]"
proof -
  let ?xs = "[(cg_members sequence_group ! 0, 22, Date 2027 1 5), (cg_members sequence_group ! 1, 23, Date 2027 1 19),
      (cg_members sequence_group ! 2, 24, Date 2027 1 19)] :: (conflict_member \<times> uuid \<times> date) list"
  let ?fs = "map (\<lambda>(_, i, d). Some \<lparr>ff_id = i, ff_value = DateValue d\<rparr>) ?xs"
  have "emap (fetch_member_fact sample_decode conflict_store 3) (cg_members sequence_group) = Inr ?fs"
    by (simp add: sequence_group_def shipped_groups_def sample_fetch)
  moreover have "concat (map (\<lambda>(m, f). case f of None \<Rightarrow> [] | Some x \<Rightarrow> [(m, x)]) (zip (cg_members sequence_group) ?fs)) =
      map (\<lambda>(m, i, d). (m, \<lparr>ff_id = i, ff_value = DateValue d\<rparr>)) ?xs"
    by (simp add: sequence_group_def shipped_groups_def)
  ultimately obtain cs where "evaluate_strictly_increasing_group sample_decode conflict_store 3 sequence_group = Inr cs"
      "map (\<lambda>c. (dc_fact_a c, dc_fact_b c)) cs =
        map (\<lambda>((_, i, _), (_, j, _)). (i, j)) (filter (\<lambda>((_, _, d), (_, _, e)). e \<le> d) (zip ?xs (tl ?xs)))"
    using sequence_conflicts_exact by blast
  then show ?thesis by simp
qed

text \<open>
  C16: Detection over the shipped groups does not raise. When every stored value decodes to the
  type its field declares, detecting conflicts for a fact of a declared type returns a list:
  no comparison error, no type error and no missing trigger member.
\<close>

theorem detection_total:
  assumes "typed_rows decode (db_facts db)"
    and "\<forall>v. fo_value ft = Some v \<longrightarrow> declared_type (fo_field_key ft) = Some (fv_kind v)"
  shows "\<exists>cs. detect_for_fact decode db ft doc_type shipped_groups = Inr cs"
proof (cases "fo_is_absent ft \<or> fo_value ft = None")
  case True
  then show ?thesis by (auto simp: detect_for_fact_def split: option.splits)
next
  case False
  then obtain v where v: "fo_value ft = Some v" "\<not> fo_is_absent ft" by blast
  have "\<exists>cs. detect_in_group decode db ft v doc_type g = Inr cs"
    if "g \<in> set (groups_containing shipped_groups doc_type (fo_field_key ft))" for g
    using that assms v(1) by (intro detect_in_group_total)
      (auto simp: groups_containing_def intro: shipped_groups_typed)
  then have "\<exists>css. emap (detect_in_group decode db ft v doc_type)
      (groups_containing shipped_groups doc_type (fo_field_key ft)) = Inr css"
    by (rule emap_total)
  then show ?thesis using v by (auto simp: detect_for_fact_def)
qed

theorem detection_total_witness:
  "\<exists>cs. detect_for_fact sample_decode conflict_store apr_fact ''loan_agreement'' shipped_groups = Inr cs"
  by (rule detection_total [OF sample_rows_typed]) (simp add: apr_fact_def declared_by_rules)

text \<open>
  C17: A conflict is recorded once. Persisting detected conflicts records every pair under its key
  (tenant, group, fact a, fact b), keeps what was recorded and never records a key twice;
  persisting the same conflicts again adds no row.
\<close>

theorem conflicts_recorded_once:
  assumes "distinct (map conflict_key (db_conflicts db))"
    and "persist_conflicts gen tenant loan cs db = (db', ids)"
  shows "set (map conflict_key (db_conflicts db')) = set (map conflict_key (db_conflicts db)) \<union>
      (\<lambda>c. (tenant, dc_group_key c, dc_fact_a c, dc_fact_b c)) ` set cs \<and>
    distinct (map conflict_key (db_conflicts db')) \<and>
    set (db_conflicts db) \<subseteq> set (db_conflicts db') \<and>
    db_conflicts (fst (persist_conflicts gen' tenant loan cs db')) = db_conflicts db'"
proof -
  note rows = persist_conflicts_rows [OF assms(2)]
  have "db_conflicts (fst (persist_conflicts gen' tenant loan cs db')) = db_conflicts db'"
    by (rule persist_conflicts_known) (use rows in auto)
  then show ?thesis using rows assms(1) by blast
qed

definition apr_conflict :: detected_conflict where
  "apr_conflict =
     \<lparr>dc_group_key = ''apr'', dc_field_key = ''apr_bps'', dc_fact_a = 20, dc_fact_b = 21,
      dc_type = ToleranceBreach, dc_operator = ''equal_within'',
      dc_delta = [(''a'', JInt 1450), (''b'', JInt 1475), (''diff'', JInt (- 25))],
      dc_raises_check = ''R03_apr_consistency''\<rparr>"

theorem conflicts_recorded_once_witness:
  "map conflict_key (db_conflicts (fst (persist_conflicts (\<lambda>n. n) 7 3 [apr_conflict, apr_conflict] conflict_store))) =
     [(7, ''apr'', 20, 21)] \<and>
   distinct (map conflict_key
     (db_conflicts (fst (persist_conflicts (\<lambda>n. n) 7 3 [apr_conflict, apr_conflict] conflict_store))))"
proof -
  have e: "db_conflicts conflict_store = []" by (simp add: conflict_store_def sample_store_def)
  obtain db' ids where p: "persist_conflicts (\<lambda>n. n) 7 3 [apr_conflict, apr_conflict] conflict_store = (db', ids)"
    by (cases "persist_conflicts (\<lambda>n. n) 7 3 [apr_conflict, apr_conflict] conflict_store")
  have s: "set (map conflict_key (db_conflicts db')) = {(7, ''apr'', 20, 21)}"
    and d: "distinct (map conflict_key (db_conflicts db'))"
    using conflicts_recorded_once [OF _ p] e by (simp_all add: apr_conflict_def)
  from s d have "map conflict_key (db_conflicts db') = [(7, ''apr'', 20, 21)]"
    by (rule distinct_singleton_list)
  then show ?thesis using p d by simp
qed

text \<open>
  The release window of the detector and of R01. For valid dates the group
  \<open>closure_release_window\<close> finds the closure statement and the release acknowledgement consistent
  exactly when R01 is compliant and the release is on a later day than the repayment: a release
  on the day of repayment is compliant for R01 and a conflict for the detector.
\<close>

theorem release_window_agreement:
  assumes "g \<in> set shipped_groups" "cg_key g = ''closure_release_window''"
    and "RBC2025_commencement \<le> as_of" "flag_of_default facts ''docs_lost_flag'' False = Inr False"
    and "date_of facts ''full_repayment_date'' = Inr repaid"
    and "date_of facts ''original_docs_released_date'' = Inr released"
  shows "compare (cg_operator g) (DateValue repaid) (DateValue released) (group_params g) =
      Inr (rr_verdict (R01_evaluate tz facts acct as_of ex) = Some Compliant \<and> repaid < released)"
proof -
  have "\<not> as_of < RBC2025_commencement" using assms(3) by simp
  then have "rr_verdict (R01_evaluate tz facts acct as_of ex) =
      Some (if days_between released repaid \<le> 30 then Compliant else Violation)"
    using assms(4-6) by (simp add: R01_evaluate_def Let_def RELEASE_WINDOW_DAYS_def)
  moreover have "cg_operator g = ''date_order''" "cp_direction (group_params g) = Some ''after''"
    "cp_within_days (group_params g) = Some 30"
    using assms(1,2) by (auto simp: shipped_groups_def group_params_def no_params_def)
  ultimately show ?thesis by (auto simp: compare_def require_same_kind_def)
qed

theorem release_window_agreement_witness:
  "compare (cg_operator (shipped_groups ! 1)) (DateValue (Date 2026 1 5)) (DateValue (Date 2026 1 5))
     (group_params (shipped_groups ! 1)) = Inr False"
proof -
  let ?facts = "sample_facts [(''full_repayment_date'', DateValue (Date 2026 1 5)),
      (''original_docs_released_date'', DateValue (Date 2026 1 5))]"
  have "shipped_groups ! 1 \<in> set shipped_groups" "cg_key (shipped_groups ! 1) = ''closure_release_window''"
    by (simp_all add: shipped_groups_def)
  moreover have "RBC2025_commencement \<le> Date 2026 2 1" by (simp add: RBC2025_commencement_def)
  moreover have "flag_of_default ?facts ''docs_lost_flag'' False = Inr False"
    by (simp add: missing_simps has_fact_def)
  moreover have "valid_date (Date 2026 1 5)" by code_simp
  ultimately show ?thesis
    using release_window_agreement [of "shipped_groups ! 1" "Date 2026 2 1" ?facts "Date 2026 1 5" "Date 2026 1 5"
        "\<lambda>_. 0" sample_account Map.empty]
    by simp
qed

text \<open>
  The shipped groups load. Against the shipped field declarations and the registered rules
  \<open>conflicts.yaml\<close> passes every check of the loader.
\<close>

theorem shipped_groups_load:
  "load_conflicts shipped_field_registry shipped_registry shipped_groups = Inr shipped_groups"
proof -
  have "list_all (\<lambda>g. group_shape g = Inr ()) shipped_groups" by code_simp
  then have "emap group_shape shipped_groups = Inr (map (\<lambda>_. ()) shipped_groups)"
    by (simp add: emap_Inr_iff list_all2_map2 list_all_iff list_all2_same)
  moreover have "list_all (\<lambda>g. concat (map (member_errors shipped_field_registry g) (cg_members g)) = [])
      shipped_groups"
  proof -
    have "list_all (\<lambda>g. list_all (\<lambda>m. cm_doc_type m \<in> set doc_types \<and>
        (case map_of (map (\<lambda>s. (fs_key s, s)) shipped_fields) (cm_field m) of
           None \<Rightarrow> False | Some s \<Rightarrow> cm_doc_type m \<in> set (fs_doc_types s))) (cg_members g)) shipped_groups"
      by code_simp
    then show ?thesis
      by (fastforce simp: list_all_iff member_errors_def field_get_def shipped_field_registry_eq split: option.splits)
  qed
  moreover have "list_all (\<lambda>g. cg_raises_check g \<in> set (map fst shipped_registry)) shipped_groups"
    by (simp add: shipped_groups_def shipped_registry_def rule_modules_def rule_record_defs)
  ultimately show ?thesis
    by (auto simp: load_conflicts_def group_errors_def list_all_iff Let_def)
qed

end
