(* ===== verification/CC_Regex.thy ===== *)
theory CC_Regex
  imports CC_Prelude
begin

text \<open>
  The part of Python's \<open>re\<close> that the sources use, as the list of successes of a backtracking
  matcher in the order the engine tries them: greedy repetition, ordered alternation, word
  boundaries, \<open>$\<close> and numbered groups. The classes \<open>\d\<close>, \<open>\w\<close> and \<open>\s\<close> are their ASCII parts.
\<close>

section \<open>Expressions\<close>

datatype rx =
    Eps
  | Cls "char \<Rightarrow> bool"
  | Seq rx rx
  | Alt rx rx
  | Star rx
  | Rep rx nat nat
  | Bound
  | Eos
  | Grp nat rx

text \<open>The character before the position, the text after it, and the groups closed so far.\<close>

datatype rx_state =
  RX (rs_prev: "char option") (rs_rest: string) (rs_groups: "(nat \<times> string) list")

definition is_upper :: "char \<Rightarrow> bool" where
  "is_upper c \<longleftrightarrow> 65 \<le> (of_char c :: nat) \<and> (of_char c :: nat) \<le> 90"

definition is_lower :: "char \<Rightarrow> bool" where
  "is_lower c \<longleftrightarrow> 97 \<le> (of_char c :: nat) \<and> (of_char c :: nat) \<le> 122"

definition is_word :: "char \<Rightarrow> bool" where
  "is_word c \<longleftrightarrow> is_upper c \<or> is_lower c \<or> is_digit c \<or> c = CHR ''_''"

definition word_at :: "char option \<Rightarrow> bool" where
  "word_at x = (case x of None \<Rightarrow> False | Some c \<Rightarrow> is_word c)"

definition first_char :: "string \<Rightarrow> char option" where
  "first_char s = (case s of [] \<Rightarrow> None | c # _ \<Rightarrow> Some c)"

section \<open>Matching\<close>

text \<open>
  A repetition that consumes nothing ends the loop, so as many rounds as there are characters
  left are enough.
\<close>

primrec star_from :: "(rx_state \<Rightarrow> rx_state list) \<Rightarrow> nat \<Rightarrow> rx_state \<Rightarrow> rx_state list" where
  "star_from f 0 s = [s]"
| "star_from f (Suc n) s =
     concat (map (star_from f n) (filter (\<lambda>t. length (rs_rest t) < length (rs_rest s)) (f s))) @ [s]"

primrec rep_from :: "(rx_state \<Rightarrow> rx_state list) \<Rightarrow> nat \<Rightarrow> nat \<Rightarrow> rx_state \<Rightarrow> rx_state list" where
  "rep_from f lo 0 s = (if lo = 0 then [s] else [])"
| "rep_from f lo (Suc hi) s =
     concat (map (rep_from f (lo - 1) hi) (f s)) @ (if lo = 0 then [s] else [])"

definition consumed :: "rx_state \<Rightarrow> rx_state \<Rightarrow> string" where
  "consumed s t = take (length (rs_rest s) - length (rs_rest t)) (rs_rest s)"

primrec steps :: "rx \<Rightarrow> rx_state \<Rightarrow> rx_state list" where
  "steps Eps s = [s]"
| "steps (Cls P) s =
     (case rs_rest s of
        [] \<Rightarrow> []
      | c # cs \<Rightarrow> if P c then [RX (Some c) cs (rs_groups s)] else [])"
| "steps (Seq a b) s = concat (map (steps b) (steps a s))"
| "steps (Alt a b) s = steps a s @ steps b s"
| "steps (Star r) s = star_from (steps r) (length (rs_rest s)) s"
| "steps (Rep r lo hi) s = rep_from (steps r) lo hi s"
| "steps Bound s = (if word_at (rs_prev s) \<noteq> word_at (first_char (rs_rest s)) then [s] else [])"
| "steps Eos s = (if rs_rest s = [] \<or> rs_rest s = [CHR 0x0A] then [s] else [])"
| "steps (Grp n r) s = map (\<lambda>t. RX (rs_prev t) (rs_rest t) ((n, consumed s t) # rs_groups t)) (steps r s)"

definition start_at :: "char option \<Rightarrow> string \<Rightarrow> rx_state" where
  "start_at p s = RX p s []"

text \<open>\<open>match\<close>, \<open>fullmatch\<close> and \<open>m.group(n)\<close>.\<close>

definition rx_match :: "rx \<Rightarrow> string \<Rightarrow> rx_state option" where
  "rx_match r s = (case steps r (start_at None s) of [] \<Rightarrow> None | t # _ \<Rightarrow> Some t)"

definition rx_fullmatch :: "rx \<Rightarrow> string \<Rightarrow> rx_state option" where
  "rx_fullmatch r s = find (\<lambda>t. rs_rest t = []) (steps r (start_at None s))"

definition group :: "rx_state \<Rightarrow> nat \<Rightarrow> string option" where
  "group t n = map_of (rs_groups t) n"

text \<open>
  \<open>search\<close> from a position: the text before the match, the matched text and the text after it.
\<close>

fun rx_search :: "rx \<Rightarrow> char option \<Rightarrow> string \<Rightarrow> (string \<times> rx_state \<times> string) option" where
  "rx_search r p s =
     (case steps r (start_at p s) of
        t # _ \<Rightarrow> Some ([], t, consumed (start_at p s) t)
      | [] \<Rightarrow>
          (case s of
             [] \<Rightarrow> None
           | c # cs \<Rightarrow> map_option (\<lambda>(pre, t, m). (c # pre, t, m)) (rx_search r (Some c) cs)))"

declare rx_search.simps [simp del]

section \<open>Shorthands\<close>

definition lit :: "char \<Rightarrow> rx" where
  "lit c = Cls (\<lambda>x. x = c)"

definition digit :: rx where
  "digit = Cls is_digit"

definition space :: rx where
  "space = Cls ascii_ws"

definition between :: "char \<Rightarrow> char \<Rightarrow> rx" where
  "between a b = Cls (\<lambda>c. (of_char a :: nat) \<le> of_char c \<and> (of_char c :: nat) \<le> of_char b)"

definition opt :: "rx \<Rightarrow> rx" where
  "opt r = Rep r 0 1"

definition plus :: "rx \<Rightarrow> rx" where
  "plus r = Seq r (Star r)"

primrec seqs :: "rx list \<Rightarrow> rx" where
  "seqs [] = Eps"
| "seqs (r # rs) = (if rs = [] then r else Seq r (seqs rs))"

definition word :: "string \<Rightarrow> rx" where
  "word s = seqs (map lit s)"

definition lower_char :: "char \<Rightarrow> char" where
  "lower_char c = (if is_upper c then char_of (of_char c + 32 :: nat) else c)"

definition upper_char :: "char \<Rightarrow> char" where
  "upper_char c = (if is_lower c then char_of (of_char c - 32 :: nat) else c)"

text \<open>A literal under \<open>IGNORECASE\<close>.\<close>

definition word_ic :: "string \<Rightarrow> rx" where
  "word_ic s = seqs (map (\<lambda>c. Cls (\<lambda>x. lower_char x = lower_char c)) s)"

primrec alts :: "rx list \<Rightarrow> rx" where
  "alts [] = Cls (\<lambda>_. False)"
| "alts (r # rs) = (if rs = [] then r else Alt r (alts rs))"

section \<open>The language of an expression\<close>

text \<open>
  \<open>lang r p u n\<close>: the expression can match \<open>u\<close> where the character before is a word character
  iff \<open>p\<close> and the one after iff \<open>n\<close>. Defined for expressions without \<open>$\<close>.
\<close>

definition next_word :: "string \<Rightarrow> bool \<Rightarrow> bool" where
  "next_word u n = (case u of [] \<Rightarrow> n | c # _ \<Rightarrow> is_word c)"

definition prev_word :: "bool \<Rightarrow> string \<Rightarrow> bool" where
  "prev_word p u = (if u = [] then p else is_word (last u))"

lemma next_word_simps [simp]:
  "next_word [] n = n" "next_word (c # u) n = is_word c" "next_word (u @ v) n = next_word u (next_word v n)"
  by (simp_all add: next_word_def split: list.splits)

lemma prev_word_simps [simp]:
  "prev_word p [] = p" "prev_word p [c] = is_word c" "prev_word p (u @ v) = prev_word (prev_word p u) v"
  by (simp_all add: prev_word_def)

lemma word_at_first [simp]: "word_at (first_char (u @ m)) = next_word u (word_at (first_char m))"
  by (cases u) (simp_all add: first_char_def word_at_def)

lemma word_at_simps [simp]: "word_at (Some c) = is_word c" "word_at None = False"
  "word_at (first_char []) = False" "word_at (first_char (c # s)) = is_word c"
  by (simp_all add: word_at_def first_char_def)

inductive star_lang :: "(bool \<Rightarrow> string \<Rightarrow> bool \<Rightarrow> bool) \<Rightarrow> bool \<Rightarrow> string \<Rightarrow> bool \<Rightarrow> bool" for L where
  star_Nil: "star_lang L p [] n"
| star_Cons: "L p x (next_word y n) \<Longrightarrow> x \<noteq> [] \<Longrightarrow> star_lang L (prev_word p x) y n \<Longrightarrow> star_lang L p (x @ y) n"

primrec rep_lang ::
  "(bool \<Rightarrow> string \<Rightarrow> bool \<Rightarrow> bool) \<Rightarrow> nat \<Rightarrow> nat \<Rightarrow> bool \<Rightarrow> string \<Rightarrow> bool \<Rightarrow> bool" where
  "rep_lang L lo 0 p u n \<longleftrightarrow> lo = 0 \<and> u = []"
| "rep_lang L lo (Suc hi) p u n \<longleftrightarrow>
     (\<exists>x y. u = x @ y \<and> L p x (next_word y n) \<and> rep_lang L (lo - 1) hi (prev_word p x) y n) \<or>
     lo = 0 \<and> u = []"

primrec lang :: "rx \<Rightarrow> bool \<Rightarrow> string \<Rightarrow> bool \<Rightarrow> bool" where
  "lang Eps p u n \<longleftrightarrow> u = []"
| "lang (Cls P) p u n \<longleftrightarrow> (\<exists>c. u = [c] \<and> P c)"
| "lang (Seq a b) p u n \<longleftrightarrow> (\<exists>x y. u = x @ y \<and> lang a p x (next_word y n) \<and> lang b (prev_word p x) y n)"
| "lang (Alt a b) p u n \<longleftrightarrow> lang a p u n \<or> lang b p u n"
| "lang (Star r) p u n \<longleftrightarrow> star_lang (lang r) p u n"
| "lang (Rep r lo hi) p u n \<longleftrightarrow> rep_lang (lang r) lo hi p u n"
| "lang Bound p u n \<longleftrightarrow> u = [] \<and> p \<noteq> n"
| "lang Eos p u n \<longleftrightarrow> False"
| "lang (Grp k r) p u n \<longleftrightarrow> lang r p u n"

primrec no_eos :: "rx \<Rightarrow> bool" where
  "no_eos Eps \<longleftrightarrow> True"
| "no_eos (Cls P) \<longleftrightarrow> True"
| "no_eos (Seq a b) \<longleftrightarrow> no_eos a \<and> no_eos b"
| "no_eos (Alt a b) \<longleftrightarrow> no_eos a \<and> no_eos b"
| "no_eos (Star r) \<longleftrightarrow> no_eos r"
| "no_eos (Rep r lo hi) \<longleftrightarrow> no_eos r"
| "no_eos Bound \<longleftrightarrow> True"
| "no_eos Eos \<longleftrightarrow> False"
| "no_eos (Grp k r) \<longleftrightarrow> no_eos r"

text \<open>\<open>sound f L\<close> and \<open>complete f L\<close>: a step function yields exactly what a language allows.\<close>

definition moves :: "rx_state \<Rightarrow> string \<Rightarrow> rx_state \<Rightarrow> bool" where
  "moves s u t \<longleftrightarrow> rs_rest s = u @ rs_rest t \<and> word_at (rs_prev t) = prev_word (word_at (rs_prev s)) u"

lemma moves_refl [simp]: "moves s [] s"
  by (simp add: moves_def)

lemma moves_trans: "moves s u t \<Longrightarrow> moves t v w \<Longrightarrow> moves s (u @ v) w"
  by (simp add: moves_def)

definition sound :: "(rx_state \<Rightarrow> rx_state list) \<Rightarrow> (bool \<Rightarrow> string \<Rightarrow> bool \<Rightarrow> bool) \<Rightarrow> bool" where
  "sound f L \<longleftrightarrow> (\<forall>s t. t \<in> set (f s) \<longrightarrow>
     (\<exists>u. moves s u t \<and> L (word_at (rs_prev s)) u (word_at (first_char (rs_rest t)))))"

definition complete :: "(rx_state \<Rightarrow> rx_state list) \<Rightarrow> (bool \<Rightarrow> string \<Rightarrow> bool \<Rightarrow> bool) \<Rightarrow> bool" where
  "complete f L \<longleftrightarrow> (\<forall>s u m. rs_rest s = u @ m \<longrightarrow>
     L (word_at (rs_prev s)) u (word_at (first_char m)) \<longrightarrow> (\<exists>t \<in> set (f s). rs_rest t = m \<and> moves s u t))"

lemma soundD:
  assumes "sound f L" "t \<in> set (f s)"
  obtains u where "moves s u t" "L (word_at (rs_prev s)) u (word_at (first_char (rs_rest t)))"
  using assms by (auto simp: sound_def)

lemma completeD:
  assumes "complete f L" "rs_rest s = u @ m" "L (word_at (rs_prev s)) u (word_at (first_char m))"
  obtains t where "t \<in> set (f s)" "rs_rest t = m" "moves s u t"
  using assms(1) [unfolded complete_def, rule_format, OF assms(2,3)] by blast

lemma sound_star:
  assumes "sound f L" "t \<in> set (star_from f k s)"
  shows "\<exists>u. moves s u t \<and> star_lang L (word_at (rs_prev s)) u (word_at (first_char (rs_rest t)))"
  using assms(2)
proof (induction k arbitrary: s)
  case 0
  then show ?case by (auto intro!: exI [of _ "[]"] star_Nil)
next
  case (Suc k)
  show ?case
  proof (cases "t = s")
    case True
    then show ?thesis by (auto intro!: exI [of _ "[]"] star_Nil)
  next
    case False
    then obtain w where w: "w \<in> set (f s)" "length (rs_rest w) < length (rs_rest s)"
        "t \<in> set (star_from f k w)"
      using Suc.prems by auto
    obtain x where x: "moves s x w" "L (word_at (rs_prev s)) x (word_at (first_char (rs_rest w)))"
      using assms(1) w(1) by (rule soundD)
    obtain y where y: "moves w y t" "star_lang L (word_at (rs_prev w)) y (word_at (first_char (rs_rest t)))"
      using Suc.IH [OF w(3)] by blast
    have "x \<noteq> []" using w(2) x(1) by (auto simp: moves_def)
    moreover have "word_at (rs_prev w) = prev_word (word_at (rs_prev s)) x" "rs_rest w = y @ rs_rest t"
      using x(1) y(1) by (simp_all add: moves_def)
    ultimately have "star_lang L (word_at (rs_prev s)) (x @ y) (word_at (first_char (rs_rest t)))"
      using x(2) y(2) by (intro star_Cons) simp_all
    then show ?thesis using moves_trans [OF x(1) y(1)] by blast
  qed
qed

lemma complete_star:
  assumes "complete f L" "star_lang L p u n" "rs_rest s = u @ m" "p = word_at (rs_prev s)"
    "n = word_at (first_char m)" "length u \<le> k"
  shows "\<exists>t \<in> set (star_from f k s). rs_rest t = m \<and> moves s u t"
  using assms(2-)
proof (induction arbitrary: s k rule: star_lang.induct)
  case (star_Nil p n)
  then show ?case by (cases k) auto
next
  case (star_Cons p x y n)
  then have "L (word_at (rs_prev s)) x (word_at (first_char (y @ m)))" "rs_rest s = x @ y @ m" by simp_all
  then obtain w where w: "w \<in> set (f s)" "rs_rest w = y @ m" "moves s x w"
    using completeD [OF assms(1)] by metis
  obtain k' where k: "k = Suc k'" "length y \<le> k'"
    using star_Cons.prems(4) star_Cons.hyps(2) by (cases k; cases x) simp_all
  have "prev_word p x = word_at (rs_prev w)" using w(3) star_Cons.prems(2) by (simp add: moves_def)
  then obtain t where t: "t \<in> set (star_from f k' w)" "rs_rest t = m" "moves w y t"
    using star_Cons.IH [OF w(2) _ star_Cons.prems(3) k(2)] by blast
  have "length (rs_rest w) < length (rs_rest s)" using w(2) star_Cons.prems(1) star_Cons.hyps(2) by simp
  then have "t \<in> set (star_from f k s)" using t(1) w(1) k(1) by auto
  then show ?case using t(2) moves_trans [OF w(3) t(3)] by blast
qed

lemma sound_rep:
  assumes "sound f L" "t \<in> set (rep_from f lo hi s)"
  shows "\<exists>u. moves s u t \<and> rep_lang L lo hi (word_at (rs_prev s)) u (word_at (first_char (rs_rest t)))"
  using assms(2)
proof (induction hi arbitrary: lo s)
  case 0
  then show ?case by (auto intro!: exI [of _ "[]"] split: if_splits)
next
  case (Suc hi)
  show ?case
  proof (cases "lo = 0 \<and> t = s")
    case True
    then show ?thesis by (auto intro!: exI [of _ "[]"])
  next
    case False
    then obtain w where w: "w \<in> set (f s)" "t \<in> set (rep_from f (lo - 1) hi w)"
      using Suc.prems by (auto split: if_splits)
    obtain x where x: "moves s x w" "L (word_at (rs_prev s)) x (word_at (first_char (rs_rest w)))"
      using assms(1) w(1) by (rule soundD)
    obtain y where y: "moves w y t"
        "rep_lang L (lo - 1) hi (word_at (rs_prev w)) y (word_at (first_char (rs_rest t)))"
      using Suc.IH [OF w(2)] by blast
    have "word_at (rs_prev w) = prev_word (word_at (rs_prev s)) x" "rs_rest w = y @ rs_rest t"
      using x(1) y(1) by (simp_all add: moves_def)
    then have "rep_lang L lo (Suc hi) (word_at (rs_prev s)) (x @ y) (word_at (first_char (rs_rest t)))"
      using x(2) y(2) by auto
    then show ?thesis using moves_trans [OF x(1) y(1)] by blast
  qed
qed

lemma complete_rep:
  assumes "complete f L" "rep_lang L lo hi p u n" "rs_rest s = u @ m" "p = word_at (rs_prev s)"
    "n = word_at (first_char m)"
  shows "\<exists>t \<in> set (rep_from f lo hi s). rs_rest t = m \<and> moves s u t"
  using assms(2-)
proof (induction hi arbitrary: lo p u s)
  case 0
  then show ?case by auto
next
  case (Suc hi)
  show ?case
  proof (cases "lo = 0 \<and> u = []")
    case True
    then show ?thesis using Suc.prems by auto
  next
    case False
    then obtain x y where xy: "u = x @ y" "L p x (next_word y n)"
        "rep_lang L (lo - 1) hi (prev_word p x) y n"
      using Suc.prems(1) by auto
    have "L (word_at (rs_prev s)) x (word_at (first_char (y @ m)))" "rs_rest s = x @ y @ m"
      using xy(1,2) Suc.prems by simp_all
    then obtain w where w: "w \<in> set (f s)" "rs_rest w = y @ m" "moves s x w"
      using completeD [OF assms(1)] by metis
    have "prev_word p x = word_at (rs_prev w)" using w(3) Suc.prems(3) by (simp add: moves_def)
    then obtain t where t: "t \<in> set (rep_from f (lo - 1) hi w)" "rs_rest t = m" "moves w y t"
      using Suc.IH [OF xy(3) w(2) _ Suc.prems(4)] by blast
    then have "t \<in> set (rep_from f lo (Suc hi) s)" using w(1) by auto
    then show ?thesis using t(2) moves_trans [OF w(3) t(3)] xy(1) by blast
  qed
qed

lemma steps_sound: "no_eos r \<Longrightarrow> sound (steps r) (lang r)"
proof (induction r)
  case (Cls P)
  show ?case
    unfolding sound_def
  proof (intro allI impI)
    fix s t assume "t \<in> set (steps (Cls P) s)"
    then obtain c cs where "rs_rest s = c # cs" "P c" "t = RX (Some c) cs (rs_groups s)"
      by (cases "rs_rest s") (simp_all split: if_splits)
    then show "\<exists>u. moves s u t \<and> lang (Cls P) (word_at (rs_prev s)) u (word_at (first_char (rs_rest t)))"
      by (auto simp: moves_def intro!: exI [of _ "[c]"])
  qed
next
  case (Seq a b)
  show ?case
    unfolding sound_def
  proof (intro allI impI)
    fix s t assume "t \<in> set (steps (Seq a b) s)"
    then obtain w where w: "w \<in> set (steps a s)" "t \<in> set (steps b w)" by auto
    obtain x where x: "moves s x w" "lang a (word_at (rs_prev s)) x (word_at (first_char (rs_rest w)))"
      using Seq w(1) soundD by (metis no_eos.simps(3))
    obtain y where y: "moves w y t" "lang b (word_at (rs_prev w)) y (word_at (first_char (rs_rest t)))"
      using Seq w(2) soundD by (metis no_eos.simps(3))
    have "word_at (rs_prev w) = prev_word (word_at (rs_prev s)) x" "rs_rest w = y @ rs_rest t"
      using x(1) y(1) by (simp_all add: moves_def)
    then have "lang (Seq a b) (word_at (rs_prev s)) (x @ y) (word_at (first_char (rs_rest t)))"
      using x(2) y(2) by auto
    then show "\<exists>u. moves s u t \<and> lang (Seq a b) (word_at (rs_prev s)) u (word_at (first_char (rs_rest t)))"
      using moves_trans [OF x(1) y(1)] by blast
  qed
next
  case (Star r)
  then show ?case using sound_star [of "steps r"] by (simp add: sound_def)
next
  case (Rep r lo hi)
  then show ?case using sound_rep [of "steps r"] by (simp add: sound_def)
next
  case (Alt a b)
  then have ab: "sound (steps a) (lang a)" "sound (steps b) (lang b)" by simp_all
  show ?case
    unfolding sound_def
  proof (intro allI impI)
    fix s t assume "t \<in> set (steps (Alt a b) s)"
    then consider "t \<in> set (steps a s)" | "t \<in> set (steps b s)" by auto
    then show "\<exists>u. moves s u t \<and> lang (Alt a b) (word_at (rs_prev s)) u (word_at (first_char (rs_rest t)))"
      by cases (use ab soundD in \<open>metis lang.simps(4)\<close>)+
  qed
next
  case (Grp k r)
  then show ?case by (fastforce simp: sound_def moves_def)
qed (auto simp: sound_def moves_def split: if_splits)

lemma steps_complete: "no_eos r \<Longrightarrow> complete (steps r) (lang r)"
proof (induction r)
  case (Cls P)
  then show ?case by (auto simp: complete_def moves_def split: list.splits if_splits)
next
  case (Seq a b)
  show ?case
    unfolding complete_def
  proof (intro allI impI)
    fix s u m assume s: "rs_rest s = u @ m" and "lang (Seq a b) (word_at (rs_prev s)) u (word_at (first_char m))"
    then obtain x y where xy: "u = x @ y" "lang a (word_at (rs_prev s)) x (word_at (first_char (y @ m)))"
        "lang b (prev_word (word_at (rs_prev s)) x) y (word_at (first_char m))" by auto
    have ab: "complete (steps a) (lang a)" "complete (steps b) (lang b)" using Seq by simp_all
    have "rs_rest s = x @ (y @ m)" using s xy(1) by simp
    with ab(1) obtain w where w: "w \<in> set (steps a s)" "rs_rest w = y @ m" "moves s x w"
      using xy(2) by (rule completeD)
    have "lang b (word_at (rs_prev w)) y (word_at (first_char m))" using w(3) xy(3) by (simp add: moves_def)
    with ab(2) w(2) obtain t where "t \<in> set (steps b w)" "rs_rest t = m" "moves w y t" by (rule completeD)
    then show "\<exists>t \<in> set (steps (Seq a b) s). rs_rest t = m \<and> moves s u t"
      using w(1) moves_trans [OF w(3)] xy(1) by auto
  qed
next
  case (Star r)
  then show ?case using complete_star [of "steps r"] by (auto simp: complete_def)
next
  case (Rep r lo hi)
  then show ?case using complete_rep [of "steps r"] by (auto simp: complete_def)
next
  case (Alt a b)
  then show ?case unfolding complete_def by fastforce
next
  case (Grp k r)
  then show ?case by (fastforce simp: complete_def moves_def)
qed (auto simp: complete_def moves_def)

section \<open>Searching and replacing\<close>

text \<open>\<open>occurs r p s\<close>: a match of \<open>r\<close> somewhere in \<open>s\<close>, where \<open>p\<close> tells of the character before \<open>s\<close>.\<close>

definition occurs :: "rx \<Rightarrow> bool \<Rightarrow> string \<Rightarrow> bool" where
  "occurs r p s \<longleftrightarrow> (\<exists>l u m. s = l @ u @ m \<and> lang r (prev_word p l) u (word_at (first_char m)))"

lemma occursI: "lang r (prev_word p l) u (word_at (first_char m)) \<Longrightarrow> occurs r p (l @ u @ m)"
  by (auto simp: occurs_def)

lemma occurs_Cons: "occurs r p (c # s) \<longleftrightarrow>
    (\<exists>u m. c # s = u @ m \<and> lang r p u (word_at (first_char m))) \<or> occurs r (is_word c) s"
proof
  assume "occurs r p (c # s)"
  then obtain l u m where *: "c # s = l @ u @ m" "lang r (prev_word p l) u (word_at (first_char m))"
    by (auto simp: occurs_def)
  show "(\<exists>u m. c # s = u @ m \<and> lang r p u (word_at (first_char m))) \<or> occurs r (is_word c) s"
  proof (cases l)
    case Nil
    then show ?thesis using * by auto
  next
    case (Cons d l')
    then have "s = l' @ u @ m" "prev_word p l = prev_word (is_word c) l'"
      using *(1) prev_word_simps(3) [of p "[d]" l'] by simp_all
    then have "occurs r (is_word c) s" using *(2) occursI [of r "is_word c" l' u m] by simp
    then show ?thesis ..
  qed
next
  assume "(\<exists>u m. c # s = u @ m \<and> lang r p u (word_at (first_char m))) \<or> occurs r (is_word c) s"
  then show "occurs r p (c # s)"
  proof
    assume "\<exists>u m. c # s = u @ m \<and> lang r p u (word_at (first_char m))"
    then obtain u m where "c # s = u @ m" "lang r p u (word_at (first_char m))" by blast
    then show ?thesis using occursI [of r p "[]" u m] by simp
  next
    assume "occurs r (is_word c) s"
    then obtain l u m where "s = l @ u @ m" "lang r (prev_word (is_word c) l) u (word_at (first_char m))"
      by (auto simp: occurs_def)
    then show ?thesis using occursI [of r p "c # l" u m] prev_word_simps(3) [of p "[c]" l] by simp
  qed
qed

lemma steps_iff:
  assumes "no_eos r"
  shows "steps r (start_at p s) \<noteq> [] \<longleftrightarrow> (\<exists>u m. s = u @ m \<and> lang r (word_at p) u (word_at (first_char m)))"
proof
  assume "steps r (start_at p s) \<noteq> []"
  then obtain t where "t \<in> set (steps r (start_at p s))" by (cases "steps r (start_at p s)") auto
  from steps_sound [OF assms] this show "\<exists>u m. s = u @ m \<and> lang r (word_at p) u (word_at (first_char m))"
    by (rule soundD) (auto simp: moves_def start_at_def)
next
  assume "\<exists>u m. s = u @ m \<and> lang r (word_at p) u (word_at (first_char m))"
  then obtain u m where "s = u @ m" "lang r (word_at p) u (word_at (first_char m))" by blast
  then have "rs_rest (start_at p s) = u @ m" "lang r (word_at (rs_prev (start_at p s))) u (word_at (first_char m))"
    by (simp_all add: start_at_def)
  then obtain t where "t \<in> set (steps r (start_at p s))" using completeD [OF steps_complete [OF assms]] by metis
  then show "steps r (start_at p s) \<noteq> []" by auto
qed

lemma rx_search_None:
  assumes "no_eos r"
  shows "rx_search r p s = None \<longleftrightarrow> \<not> occurs r (word_at p) s"
proof (induction s arbitrary: p)
  case Nil
  have "occurs r (word_at p) [] \<longleftrightarrow> steps r (start_at p []) \<noteq> []"
    unfolding steps_iff [OF assms] by (auto simp: occurs_def)
  then show ?case by (auto simp: rx_search.simps [of r p] split: list.splits)
next
  case (Cons c s)
  have "occurs r (word_at p) (c # s) \<longleftrightarrow> steps r (start_at p (c # s)) \<noteq> [] \<or> occurs r (is_word c) s"
    unfolding occurs_Cons steps_iff [OF assms] ..
  then show ?case using Cons [of "Some c"] by (auto simp: rx_search.simps [of r p] split: list.splits)
qed

lemma rx_search_Some:
  assumes "no_eos r" "rx_search r p s = Some (pre, t, u)"
  shows "s = pre @ u @ rs_rest t" "lang r (prev_word (word_at p) pre) u (word_at (first_char (rs_rest t)))"
    "word_at (rs_prev t) = prev_word (prev_word (word_at p) pre) u"
    "\<And>l v m. s = l @ v @ m \<Longrightarrow> length l < length pre \<Longrightarrow>
       \<not> lang r (prev_word (word_at p) l) v (word_at (first_char m))"
proof -
  have "s = pre @ u @ rs_rest t \<and> lang r (prev_word (word_at p) pre) u (word_at (first_char (rs_rest t))) \<and>
    word_at (rs_prev t) = prev_word (prev_word (word_at p) pre) u \<and>
    (\<forall>l v m. s = l @ v @ m \<longrightarrow> length l < length pre \<longrightarrow>
       \<not> lang r (prev_word (word_at p) l) v (word_at (first_char m)))"
    using assms(2)
  proof (induction s arbitrary: p pre)
    case Nil
    then obtain ts where st: "steps r (start_at p []) = t # ts" "pre = []" "u = consumed (start_at p []) t"
      by (auto simp: rx_search.simps [of r p] split: list.splits)
    have "t \<in> set (steps r (start_at p []))" using st(1) by simp
    from steps_sound [OF assms(1)] this show ?case
      by (rule soundD) (use st(2,3) in \<open>auto simp: moves_def start_at_def consumed_def\<close>)
  next
    case (Cons c s)
    show ?case
    proof (cases "steps r (start_at p (c # s))")
      case (Cons t' ts)
      then have st: "t' = t" "pre = []" "u = consumed (start_at p (c # s)) t"
        using Cons.prems by (auto simp: rx_search.simps [of r p])
      have "t \<in> set (steps r (start_at p (c # s)))" using Cons st(1) by simp
      from steps_sound [OF assms(1)] this show ?thesis
      proof (rule soundD)
        fix v assume v: "moves (start_at p (c # s)) v t"
          "lang r (word_at (rs_prev (start_at p (c # s)))) v (word_at (first_char (rs_rest t)))"
        then have "u = v" by (simp add: st(3) moves_def start_at_def consumed_def)
        then show ?thesis using v st(2) by (auto simp: moves_def start_at_def)
      qed
    next
      case Nil
      then obtain pre' where pre: "pre = c # pre'" "rx_search r (Some c) s = Some (pre', t, u)"
        using Cons.prems by (auto simp: rx_search.simps [of r p])
      have pw: "prev_word (word_at p) (c # l) = prev_word (is_word c) l" for l
        using prev_word_simps(3) [of "word_at p" "[c]" l] by simp
      have none: "\<not> lang r (word_at p) v (word_at (first_char m))" if "c # s = v @ m" for v m
        using Nil that steps_iff [OF assms(1), of p "c # s"] by blast
      have "\<not> lang r (prev_word (word_at p) l) v (word_at (first_char m))"
        if "c # s = l @ v @ m" "length l < length pre" for l v m
        using that none [of v m] Cons.IH [OF pre(2)] pre(1) pw by (cases l) auto
      then show ?thesis using Cons.IH [OF pre(2)] pre(1) pw by simp
    qed
  qed
  then show "s = pre @ u @ rs_rest t" "lang r (prev_word (word_at p) pre) u (word_at (first_char (rs_rest t)))"
    "word_at (rs_prev t) = prev_word (prev_word (word_at p) pre) u"
    "\<And>l v m. s = l @ v @ m \<Longrightarrow> length l < length pre \<Longrightarrow>
       \<not> lang r (prev_word (word_at p) l) v (word_at (first_char m))" by blast+
qed

text \<open>
  \<open>sub(repl, s)\<close> and \<open>findall(s)\<close> for a pattern that matches no empty text; the scan goes on after
  the match, and the boundary there is judged by the matched text.
\<close>

function rx_sub :: "rx \<Rightarrow> string \<Rightarrow> char option \<Rightarrow> string \<Rightarrow> string" where
  "rx_sub r repl p s =
     (case rx_search r p s of
        None \<Rightarrow> s
      | Some (pre, t, u) \<Rightarrow>
          if length (rs_rest t) < length s then pre @ repl @ rx_sub r repl (rs_prev t) (rs_rest t) else s)"
  by pat_completeness auto
termination by (relation "measure (\<lambda>(_, _, _, s). length s)") auto

function rx_findall :: "rx \<Rightarrow> char option \<Rightarrow> string \<Rightarrow> string list" where
  "rx_findall r p s =
     (case rx_search r p s of
        None \<Rightarrow> []
      | Some (pre, t, u) \<Rightarrow>
          if length (rs_rest t) < length s then u # rx_findall r (rs_prev t) (rs_rest t) else [])"
  by pat_completeness auto
termination by (relation "measure (\<lambda>(_, _, s). length s)") auto

declare rx_sub.simps [simp del] rx_findall.simps [simp del]

section \<open>Syntactic facts\<close>

text \<open>Without \<open>\b\<close> and \<open>$\<close> the context does not matter.\<close>

primrec plain :: "rx \<Rightarrow> bool" where
  "plain Eps \<longleftrightarrow> True"
| "plain (Cls P) \<longleftrightarrow> True"
| "plain (Seq a b) \<longleftrightarrow> plain a \<and> plain b"
| "plain (Alt a b) \<longleftrightarrow> plain a \<and> plain b"
| "plain (Star r) \<longleftrightarrow> plain r"
| "plain (Rep r lo hi) \<longleftrightarrow> plain r"
| "plain Bound \<longleftrightarrow> False"
| "plain Eos \<longleftrightarrow> False"
| "plain (Grp k r) \<longleftrightarrow> plain r"

text \<open>Every character that can be matched satisfies \<open>P\<close>; some matched character must satisfy \<open>P\<close>.\<close>

primrec all_chars :: "(char \<Rightarrow> bool) \<Rightarrow> rx \<Rightarrow> bool" where
  "all_chars P Eps \<longleftrightarrow> True"
| "all_chars P (Cls Q) \<longleftrightarrow> (\<forall>c. Q c \<longrightarrow> P c)"
| "all_chars P (Seq a b) \<longleftrightarrow> all_chars P a \<and> all_chars P b"
| "all_chars P (Alt a b) \<longleftrightarrow> all_chars P a \<and> all_chars P b"
| "all_chars P (Star r) \<longleftrightarrow> all_chars P r"
| "all_chars P (Rep r lo hi) \<longleftrightarrow> all_chars P r"
| "all_chars P Bound \<longleftrightarrow> True"
| "all_chars P Eos \<longleftrightarrow> True"
| "all_chars P (Grp k r) \<longleftrightarrow> all_chars P r"

primrec some_char :: "(char \<Rightarrow> bool) \<Rightarrow> rx \<Rightarrow> bool" where
  "some_char P Eps \<longleftrightarrow> False"
| "some_char P (Cls Q) \<longleftrightarrow> (\<forall>c. Q c \<longrightarrow> P c)"
| "some_char P (Seq a b) \<longleftrightarrow> some_char P a \<or> some_char P b"
| "some_char P (Alt a b) \<longleftrightarrow> some_char P a \<and> some_char P b"
| "some_char P (Star r) \<longleftrightarrow> False"
| "some_char P (Rep r lo hi) \<longleftrightarrow> 0 < lo \<and> some_char P r"
| "some_char P Bound \<longleftrightarrow> False"
| "some_char P Eos \<longleftrightarrow> False"
| "some_char P (Grp k r) \<longleftrightarrow> some_char P r"

lemma star_lang_plain:
  assumes "star_lang L p u n" "\<And>p u n q m. L p u n \<Longrightarrow> L q u m"
  shows "star_lang L q u m"
  using assms(1)
proof (induction arbitrary: q)
  case (star_Cons p x y n)
  have "L q x (next_word y m)" using star_Cons.hyps(1) by (rule assms(2))
  then show ?case using star_Cons by (intro star_lang.star_Cons) auto
qed (rule star_Nil)

lemma rep_lang_plain:
  assumes "rep_lang L lo hi p u n" "\<And>p u n q m. L p u n \<Longrightarrow> L q u m"
  shows "rep_lang L lo hi q u m"
  using assms(1)
proof (induction hi arbitrary: lo p u q)
  case (Suc hi)
  show ?case
  proof (cases "lo = 0 \<and> u = []")
    case False
    then obtain x y where xy: "u = x @ y" "L p x (next_word y n)" "rep_lang L (lo - 1) hi (prev_word p x) y n"
      using Suc.prems by auto
    have "L q x (next_word y m)" using xy(2) by (rule assms(2))
    moreover have "rep_lang L (lo - 1) hi (prev_word q x) y m" using xy(3) by (rule Suc.IH)
    ultimately show ?thesis using xy(1) by auto
  qed simp
qed simp

lemma lang_plain:
  assumes "plain r" "lang r p u n"
  shows "lang r q u m"
  using assms
proof (induction r arbitrary: p u n q m)
  case (Star r p u n q m)
  have st: "star_lang (lang r) p u n" and pl: "plain r" using Star.prems by simp_all
  have "star_lang (lang r) q u m" by (rule star_lang_plain [OF st Star.IH [OF pl]])
  then show ?case by simp
next
  case (Rep r lo hi p u n q m)
  have st: "rep_lang (lang r) lo hi p u n" and pl: "plain r" using Rep.prems by simp_all
  have "rep_lang (lang r) lo hi q u m" by (rule rep_lang_plain [OF st Rep.IH [OF pl]])
  then show ?case by simp
next
  case (Seq a b p u n q m)
  then obtain x y where xy: "u = x @ y" "lang a p x (next_word y n)" "lang b (prev_word p x) y n" by auto
  have pl: "plain a" "plain b" using Seq.prems(1) by simp_all
  have "lang a q x (next_word y m)" "lang b (prev_word q x) y m"
    by (rule Seq.IH(1) [OF pl(1) xy(2)], rule Seq.IH(2) [OF pl(2) xy(3)])
  then show ?case using xy(1) by auto
next
  case (Alt a b p u n q m)
  then show ?case by (metis lang.simps(4) plain.simps(4))
next
  case (Grp k r p u n q m)
  then show ?case by (metis lang.simps(9) plain.simps(9))
qed simp_all

lemma star_lang_chars:
  assumes "star_lang L p u n" "\<And>p u n. L p u n \<Longrightarrow> list_all P u"
  shows "list_all P u"
  using assms(1) by induction (auto simp: assms(2))

lemma rep_lang_chars:
  assumes "rep_lang L lo hi p u n" "\<And>p u n. L p u n \<Longrightarrow> list_all P u"
  shows "list_all P u"
  using assms(1) by (induction hi arbitrary: lo p u n) (auto dest: assms(2))

lemma lang_all_chars:
  assumes "all_chars P r" "lang r p u n"
  shows "list_all P u"
  using assms
proof (induction r arbitrary: p u n)
  case (Star r)
  then show ?case using star_lang_chars [of "lang r" p u n P] by simp
next
  case (Rep r lo hi)
  then show ?case using rep_lang_chars [of "lang r" lo hi p u n P] by simp
next
  case (Seq a b)
  then show ?case by auto
qed auto

lemma lang_some_char:
  assumes "some_char P r" "lang r p u n"
  shows "list_ex P u"
  using assms
proof (induction r arbitrary: p u n)
  case (Rep r lo hi)
  then obtain h where h: "hi = Suc h" by (cases hi) auto
  then obtain x y where "u = x @ y" "lang r p x (next_word y n)" using Rep.prems by auto
  then show ?case using Rep by auto
next
  case (Seq a b)
  then show ?case by auto
qed auto


section \<open>Groups of a match\<close>

text \<open>A group on every way through an expression is set in every match.\<close>

primrec sets_group :: "nat \<Rightarrow> rx \<Rightarrow> bool" where
  "sets_group n Eps \<longleftrightarrow> False"
| "sets_group n (Cls P) \<longleftrightarrow> False"
| "sets_group n (Seq a b) \<longleftrightarrow> sets_group n a \<or> sets_group n b"
| "sets_group n (Alt a b) \<longleftrightarrow> sets_group n a \<and> sets_group n b"
| "sets_group n (Star r) \<longleftrightarrow> False"
| "sets_group n (Rep r lo hi) \<longleftrightarrow> False"
| "sets_group n Bound \<longleftrightarrow> False"
| "sets_group n Eos \<longleftrightarrow> False"
| "sets_group n (Grp k r) \<longleftrightarrow> k = n \<or> sets_group n r"

definition groups_of :: "rx_state \<Rightarrow> nat set" where
  "groups_of t = fst ` set (rs_groups t)"

lemma star_groups:
  assumes "\<And>s t. t \<in> set (f s) \<Longrightarrow> groups_of s \<subseteq> groups_of t" "t \<in> set (star_from f k s)"
  shows "groups_of s \<subseteq> groups_of t"
  using assms(2)
proof (induction k arbitrary: s)
  case (Suc k)
  show ?case
  proof (cases "t = s")
    case False
    then obtain w where "w \<in> set (f s)" "t \<in> set (star_from f k w)" using Suc.prems by auto
    then show ?thesis using Suc.IH assms(1) by blast
  qed simp
qed simp

lemma rep_groups:
  assumes "\<And>s t. t \<in> set (f s) \<Longrightarrow> groups_of s \<subseteq> groups_of t" "t \<in> set (rep_from f lo hi s)"
  shows "groups_of s \<subseteq> groups_of t"
  using assms(2)
proof (induction hi arbitrary: lo s)
  case 0
  then show ?case by (simp split: if_splits)
next
  case (Suc hi)
  show ?case
  proof (cases "t = s")
    case False
    then obtain w where "w \<in> set (f s)" "t \<in> set (rep_from f (lo - 1) hi w)"
      using Suc.prems by (auto split: if_splits)
    then show ?thesis using Suc.IH assms(1) by blast
  qed simp
qed

lemma steps_groups: "t \<in> set (steps r s) \<Longrightarrow> groups_of s \<subseteq> groups_of t"
proof (induction r arbitrary: s t)
  case (Seq a b)
  then obtain w where w: "w \<in> set (steps a s)" "t \<in> set (steps b w)" by auto
  then show ?case using Seq.IH(1) [OF w(1)] Seq.IH(2) [OF w(2)] by blast
next
  case (Star r)
  have "t \<in> set (star_from (steps r) (length (rs_rest s)) s)" using Star.prems by simp
  with Star.IH show ?case by (rule star_groups)
next
  case (Rep r lo hi)
  have "t \<in> set (rep_from (steps r) lo hi s)" using Rep.prems by simp
  with Rep.IH show ?case by (rule rep_groups)
next
  case (Cls P)
  then show ?case by (cases "rs_rest s") (simp_all add: groups_of_def split: if_splits)
next
  case (Grp k r)
  then obtain w where "w \<in> set (steps r s)" "t = RX (rs_prev w) (rs_rest w) ((k, consumed s w) # rs_groups w)" by auto
  then show ?case using Grp.IH [of w s] by (auto simp: groups_of_def)
next
  case (Alt a b)
  then consider "t \<in> set (steps a s)" | "t \<in> set (steps b s)" by auto
  then show ?case using Alt.IH by cases blast+
qed (auto split: if_splits)

lemma steps_sets_group: "sets_group n r \<Longrightarrow> t \<in> set (steps r s) \<Longrightarrow> n \<in> groups_of t"
proof (induction r arbitrary: s t)
  case (Seq a b)
  then obtain w where w: "w \<in> set (steps a s)" "t \<in> set (steps b w)" by auto
  then show ?case using Seq.IH(1) [OF _ w(1)] Seq.IH(2) [OF _ w(2)] steps_groups [OF w(2)] Seq.prems(1) by auto
next
  case (Grp k r)
  then obtain w where "w \<in> set (steps r s)" "t = RX (rs_prev w) (rs_rest w) ((k, consumed s w) # rs_groups w)" by auto
  then show ?case using Grp by (auto simp: groups_of_def)
qed auto

lemma group_set: "n \<in> groups_of t \<Longrightarrow> \<exists>s. group t n = Some s"
  by (force simp: groups_of_def group_def map_of_eq_None_iff dest: weak_map_of_SomeI)

lemma match_group:
  assumes "rx_match r s = Some t" "sets_group n r"
  shows "\<exists>g. group t n = Some g"
proof -
  have "t \<in> set (steps r (start_at None s))" using assms(1) by (auto simp: rx_match_def split: list.splits)
  with assms(2) show ?thesis by (intro group_set steps_sets_group)
qed

lemma fullmatch_group:
  assumes "rx_fullmatch r s = Some t" "sets_group n r"
  shows "\<exists>g. group t n = Some g"
proof -
  have "t \<in> set (steps r (start_at None s))" using assms(1) by (auto simp: rx_fullmatch_def find_Some_iff)
  with assms(2) show ?thesis by (intro group_set steps_sets_group)
qed

end
