(* ===== verification/CC_Redact.thy ===== *)
theory CC_Redact
  imports CC_Regex
begin

text \<open>
  Redaction, \<open>src/app/extract/redact.py\<close>: the seven patterns of profile v1 in their order, the
  substitution loop, and the proof that no pattern matches a redacted text.
\<close>

section \<open>Patterns\<close>

definition bounded :: "rx \<Rightarrow> rx" where
  "bounded body = Seq Bound (Seq body Bound)"

definition upper :: rx where
  "upper = Cls is_upper"

definition AADHAAR :: rx where
  "AADHAAR = bounded (seqs [between (CHR ''2'') (CHR ''9''), Rep digit 3 3, opt space, Rep digit 4 4, opt space,
     Rep digit 4 4])"

definition PAN :: rx where
  "PAN = bounded (seqs [Rep upper 5 5, Rep digit 4 4, upper])"

definition PHONE_PREFIX :: rx where
  "PHONE_PREFIX = opt (seqs [lit (CHR ''+''), lit (CHR ''9''), lit (CHR ''1''),
     opt (Cls (\<lambda>c. ascii_ws c \<or> c = CHR ''-''))])"

definition PHONE :: rx where
  "PHONE = Seq PHONE_PREFIX (bounded (seqs [between (CHR ''6'') (CHR ''9''), Rep digit 9 9]))"

definition ACCOUNT :: rx where
  "ACCOUNT = bounded (Rep digit 9 18)"

definition IFSC :: rx where
  "IFSC = bounded (seqs [Rep upper 4 4, lit (CHR ''0''), Rep (Cls (\<lambda>c. is_upper c \<or> is_digit c)) 6 6])"

definition EMAIL :: rx where
  "EMAIL = bounded (seqs [plus (Cls (\<lambda>c. is_word c \<or> c \<in> {CHR ''.'', CHR ''+'', CHR ''-''})), lit (CHR ''@''),
     plus (Cls (\<lambda>c. is_word c \<or> c = CHR ''-'')), lit (CHR ''.''),
     plus (Cls (\<lambda>c. is_word c \<or> c \<in> {CHR ''.'', CHR ''-''}))])"

definition GST :: rx where
  "GST = bounded (seqs [Rep digit 2 2, Rep upper 5 5, Rep digit 4 4, upper, digit,
     Rep (Cls (\<lambda>c. is_upper c \<or> is_digit c)) 2 2])"

definition PATTERNS :: "(string \<times> rx) list" where
  "PATTERNS =
     [(''AADHAAR'', AADHAAR), (''PAN'', PAN), (''PHONE'', PHONE), (''ACCOUNT'', ACCOUNT),
      (''IFSC'', IFSC), (''EMAIL'', EMAIL), (''GST'', GST)]"

section \<open>Redaction\<close>

definition replacement :: "string \<Rightarrow> string" where
  "replacement tag = ''[REDACTED:'' @ tag @ '']''"

fun redact_loop :: "(string \<times> rx) list \<Rightarrow> string \<Rightarrow> string list \<Rightarrow> string \<times> string list" where
  "redact_loop [] result tags = (result, tags)"
| "redact_loop ((tag, pattern) # ps) result tags =
     (if rx_search pattern None result \<noteq> None
      then redact_loop ps (rx_sub pattern (replacement tag) None result) (tags @ [tag])
      else redact_loop ps result tags)"

definition redact :: "string \<Rightarrow> bool \<Rightarrow> string \<times> string list" where
  "redact text exempt = (if exempt then (text, []) else redact_loop PATTERNS text [])"

section \<open>What a pattern must satisfy\<close>

definition evidence :: "char \<Rightarrow> bool" where
  "evidence c \<longleftrightarrow> is_digit c \<or> c = CHR ''@''"

definition no_bracket :: "char \<Rightarrow> bool" where
  "no_bracket c \<longleftrightarrow> c \<noteq> CHR ''['' \<and> c \<noteq> CHR '']''"

text \<open>
  A match has a digit or an at-sign and no bracket, so it does not reach into a replacement. It
  starts and ends at word boundaries, except where it starts with a character that is no word
  character; then what comes before does not matter.
\<close>

locale redaction_pattern =
  fixes r :: rx
  assumes no_eos: "no_eos r"
    and chars: "lang r p u n \<Longrightarrow> list_all no_bracket u"
    and evident: "lang r p u n \<Longrightarrow> list_ex evidence u"
    and free_start: "lang r False u n \<Longrightarrow> \<not> is_word (hd u) \<Longrightarrow> lang r True u n"
    and free_end: "lang r p u False \<Longrightarrow> \<not> is_word (last u) \<Longrightarrow> lang r p u True"
    and word_start: "lang r p u n \<Longrightarrow> is_word (hd u) \<Longrightarrow> \<not> p"
    and word_end: "lang r p u n \<Longrightarrow> is_word (last u) \<Longrightarrow> \<not> n"
begin

lemma nonempty: "lang r p u n \<Longrightarrow> u \<noteq> []"
  using evident by fastforce

text \<open>A search that finds something leaves less to search.\<close>

lemma search_shorter:
  assumes "rx_search r p s = Some (pre, t, u)"
  shows "length (rs_rest t) < length s"
  using rx_search_Some(1,2) [OF no_eos assms] nonempty by (cases u) fastforce+

lemma occurs_after_nonword:
  assumes "occurs r False s" "p \<longrightarrow> \<not> word_at (first_char s)"
  shows "occurs r p s"
proof -
  obtain l u m where s: "s = l @ u @ m" "lang r (prev_word False l) u (word_at (first_char m))"
    using assms(1) by (auto simp: occurs_def)
  have "lang r (prev_word p l) u (word_at (first_char m))"
  proof (cases "l = [] \<and> p")
    case True
    obtain c u' where "u = c # u'" using s(2) nonempty by (cases u) auto
    then have "\<not> is_word (hd u)" using assms(2) True s(1) by simp
    then show ?thesis using free_start s(2) True by simp
  next
    case False
    then show ?thesis using s(2) by (auto simp: prev_word_def)
  qed
  then show ?thesis using s(1) occursI by metis
qed

lemma after_match:
  assumes "rx_search r p s = Some (pre, t, u)"
  shows "word_at (rs_prev t) \<longrightarrow> \<not> word_at (first_char (rs_rest t))"
proof
  note found = rx_search_Some [OF no_eos assms]
  assume "word_at (rs_prev t)"
  then have "is_word (last u)" using found(3) nonempty [OF found(2)] by (simp add: prev_word_def)
  then show "\<not> word_at (first_char (rs_rest t))" using word_end [OF found(2)] by simp
qed

end

text \<open>A text without the character \<open>c\<close> lies before or after an occurrence of \<open>c\<close>.\<close>

lemma avoid_char:
  assumes "l @ u @ m = x @ c # y" "c \<notin> set u"
  obtains (before) m1 where "x = l @ u @ m1" "m = m1 @ c # y"
    | (after) l1 where "y = l1 @ u @ m" "l = x @ c # l1"
proof -
  from assms(1) consider us where "l = x @ us" "us @ u @ m = c # y" | us where "l @ us = x" "u @ m = us @ c # y"
    by (auto simp: append_eq_append_conv2)
  then show ?thesis
  proof cases
    case 1
    then show ?thesis using assms(2) before [of "[]"] after by (cases us; cases u) auto
  next
    case 2
    from 2(2) consider vs where "u = us @ vs" "vs @ m = c # y" | vs where "u @ vs = us" "m = vs @ c # y"
      by (auto simp: append_eq_append_conv2)
    then show ?thesis
    proof cases
      case 1
      then have "vs = []" using assms(2) by (cases vs) auto
      then show ?thesis using 1 2 before [of "[]"] by simp
    next
      case vs: 2
      then show ?thesis using 2 before [of vs] by simp
    qed
  qed
qed

lemma avoid_replacement:
  assumes "l @ u @ m = x @ replacement tag @ y" "list_all no_bracket u" "list_ex evidence u"
    and "list_all (\<lambda>c. \<not> evidence c) tag"
  obtains (before) m1 where "x = l @ u @ m1" "m = m1 @ replacement tag @ y"
    | (after) l1 where "y = l1 @ u @ m" "l = x @ replacement tag @ l1"
proof -
  have b: "CHR ''['' \<notin> set u" "CHR '']'' \<notin> set u" using assms(2) by (auto simp: list_all_iff no_bracket_def)
  let ?in = "''REDACTED:'' @ tag"
  have r: "replacement tag = CHR ''['' # ?in @ [CHR '']'']" by (simp add: replacement_def)
  have "l @ u @ m = x @ CHR ''['' # (?in @ CHR '']'' # y)" using assms(1) r by simp
  from this b(1) show ?thesis
  proof (cases rule: avoid_char)
    case (before m1)
    then show ?thesis using that(1) [of m1] r by simp
  next
    case (after l1)
    have "l1 @ u @ m = ?in @ CHR '']'' # y" using after(1) by simp
    from this b(2) show ?thesis
    proof (cases rule: avoid_char)
      case (before m1)
      have "list_ex evidence ?in" unfolding before(1) using assms(3) by simp
      then have False using assms(4) by (auto simp: list_ex_iff list_all_iff evidence_def is_digit_def)
      then show ?thesis ..
    next
      case l2: (after l2)
      then show ?thesis using that(2) [of l2] after r by simp
    qed
  qed
qed

text \<open>
  A match that ends where a replacement begins was a match where the replaced text began.
\<close>

lemma lang_before_match:
  assumes p: "redaction_pattern p" and q: "redaction_pattern q"
    and v: "lang q b v (word_at (first_char (m1 @ CHR ''['' # y)))"
    and u: "lang p (prev_word b' (l @ v @ m1)) u n"
  shows "lang q b v (word_at (first_char (m1 @ u @ rest)))"
proof (cases m1)
  case Nil
  have ne: "u \<noteq> []" "v \<noteq> []"
    using redaction_pattern.nonempty [OF p u] redaction_pattern.nonempty [OF q v] .
  have v': "lang q b v False" using v Nil by (simp add: is_word_def is_upper_def is_lower_def is_digit_def)
  show ?thesis
  proof (cases "is_word (hd u)")
    case True
    then have "\<not> is_word (last v)"
      using redaction_pattern.word_start [OF p u] Nil ne(2) by (simp add: prev_word_def)
    then have "lang q b v True" using redaction_pattern.free_end [OF q v'] by simp
    then show ?thesis using True Nil ne(1) by (cases u) simp_all
  next
    case False
    then show ?thesis using v' Nil ne(1) by (cases u) simp_all
  qed
next
  case (Cons c m)
  then show ?thesis using v by simp
qed

lemma occurs_append: "occurs r (prev_word b x) y \<Longrightarrow> occurs r b (x @ y)"
proof -
  assume "occurs r (prev_word b x) y"
  then obtain l u m where "y = l @ u @ m" "lang r (prev_word (prev_word b x) l) u (word_at (first_char m))"
    by (auto simp: occurs_def)
  then show ?thesis using occursI [of r b "x @ l" u m] by simp
qed

lemma replacement_ends: "prev_word b (x @ replacement tag @ l) = prev_word False l"
  "replacement tag = CHR ''['' # ''REDACTED:'' @ tag @ '']''"
  by (simp_all add: replacement_def is_word_def is_upper_def is_lower_def is_digit_def prev_word_def)

lemma sub_search:
  assumes "redaction_pattern r" "rx_search r p s = Some (pre, t, u)"
  shows "rx_sub r repl p s = pre @ repl @ rx_sub r repl (rs_prev t) (rs_rest t)"
  using redaction_pattern.search_shorter [OF assms] assms(2) by (simp add: rx_sub.simps [of r repl p s])

text \<open>Replacing the matches of one pattern makes no match of another.\<close>

lemma sub_keeps:
  assumes p: "redaction_pattern p" and q: "redaction_pattern q" and tag: "list_all (\<lambda>c. \<not> evidence c) tag"
    and "occurs q b (rx_sub p (replacement tag) c s)"
  shows "occurs q b s"
  using assms(4)
proof (induction "length s" arbitrary: b c s rule: less_induct)
  case less
  show ?case
  proof (cases "rx_search p c s")
    case None
    then show ?thesis using less.prems by (simp add: rx_sub.simps [of p _ c])
  next
    case (Some found)
    then obtain pre t u where f: "rx_search p c s = Some (pre, t, u)" by (cases found) auto
    note F = rx_search_Some [OF redaction_pattern.no_eos [OF p] f]
    let ?rest = "rx_sub p (replacement tag) (rs_prev t) (rs_rest t)"
    obtain l v m where o: "pre @ replacement tag @ ?rest = l @ v @ m"
        "lang q (prev_word b l) v (word_at (first_char m))"
      using less.prems unfolding sub_search [OF p f] by (auto simp: occurs_def)
    from o(1) [symmetric] redaction_pattern.chars [OF q o(2)] redaction_pattern.evident [OF q o(2)] tag
    show ?thesis
    proof (cases rule: avoid_replacement)
      case (before m1)
      have "lang q (prev_word b l) v (word_at (first_char (m1 @ CHR ''['' # ''REDACTED:'' @ tag @ '']'' @ ?rest)))"
        using o(2) unfolding before(2) replacement_ends(2) by simp
      from lang_before_match [OF p q this F(2) [unfolded before(1)]]
      have "lang q (prev_word b l) v (word_at (first_char (m1 @ u @ rs_rest t)))" .
      from occursI [OF this] show ?thesis using F(1) before(1) by simp
    next
      case (after l1)
      have "occurs q False ?rest"
        unfolding after(1) using o(2) [unfolded after(2) replacement_ends(1)] by (rule occursI)
      then have "occurs q False (rs_rest t)"
        using less.hyps redaction_pattern.search_shorter [OF p f] by blast
      moreover have "prev_word b (pre @ u) \<longrightarrow> \<not> word_at (first_char (rs_rest t))"
        using redaction_pattern.word_end [OF p F(2)] redaction_pattern.nonempty [OF p F(2)]
        by (simp add: prev_word_def)
      ultimately have "occurs q (prev_word b (pre @ u)) (rs_rest t)"
        by (rule redaction_pattern.occurs_after_nonword [OF q])
      then show ?thesis using occurs_append [of q b "pre @ u" "rs_rest t"] F(1) by simp
    qed
  qed
qed

text \<open>Replacing the matches of a pattern leaves none.\<close>

lemma sub_removes:
  assumes r: "redaction_pattern r" and tag: "list_all (\<lambda>c. \<not> evidence c) tag"
    and "word_at c \<longrightarrow> \<not> word_at (first_char s)"
  shows "\<not> occurs r False (rx_sub r (replacement tag) c s)"
  using assms(3)
proof (induction "length s" arbitrary: c s rule: less_induct)
  case less
  show ?case
  proof (cases "rx_search r c s")
    case None
    then have "\<not> occurs r (word_at c) s" using rx_search_None [OF redaction_pattern.no_eos [OF r]] by simp
    then have "\<not> occurs r False s" using redaction_pattern.occurs_after_nonword [OF r] less.prems by blast
    then show ?thesis using None by (simp add: rx_sub.simps [of r _ c])
  next
    case (Some found)
    then obtain pre t u where f: "rx_search r c s = Some (pre, t, u)" by (cases found) auto
    note F = rx_search_Some [OF redaction_pattern.no_eos [OF r] f]
    let ?rest = "rx_sub r (replacement tag) (rs_prev t) (rs_rest t)"
    show ?thesis
    proof
      assume "occurs r False (rx_sub r (replacement tag) c s)"
      then obtain l v m where o: "pre @ replacement tag @ ?rest = l @ v @ m"
          "lang r (prev_word False l) v (word_at (first_char m))"
        unfolding sub_search [OF r f] by (auto simp: occurs_def)
      from o(1) [symmetric] redaction_pattern.chars [OF r o(2)] redaction_pattern.evident [OF r o(2)] tag
      show False
      proof (cases rule: avoid_replacement)
        case (before m1)
        have "lang r (prev_word False l) v (word_at (first_char (m1 @ CHR ''['' # ''REDACTED:'' @ tag @ '']'' @ ?rest)))"
          using o(2) unfolding before(2) replacement_ends(2) by simp
        from lang_before_match [OF r r this F(2) [unfolded before(1)]]
        have here: "lang r (prev_word False l) v (word_at (first_char (m1 @ u @ rs_rest t)))" .
        have v: "v \<noteq> []" using redaction_pattern.nonempty [OF r o(2)] .
        have "lang r (prev_word (word_at c) l) v (word_at (first_char (m1 @ u @ rs_rest t)))"
        proof (cases "l = [] \<and> word_at c")
          case True
          then have "\<not> is_word (hd v)" using less.prems F(1) before(1) v by (cases v) auto
          then show ?thesis using redaction_pattern.free_start [OF r] here True by simp
        next
          case False
          then show ?thesis using here by (auto simp: prev_word_def)
        qed
        moreover have "length l < length pre" "s = l @ v @ (m1 @ u @ rs_rest t)"
          using F(1) before(1) v by simp_all
        ultimately show False using F(4) by blast
      next
        case (after l1)
        have "occurs r False ?rest"
          unfolding after(1) using o(2) [unfolded after(2) replacement_ends(1)] by (rule occursI)
        then show False
          using less.hyps [of "rs_rest t" "rs_prev t"] redaction_pattern.search_shorter [OF r f]
            redaction_pattern.after_match [OF r f] by blast
      qed
    qed
  qed
qed

section \<open>The seven patterns\<close>

lemma lang_bounded:
  assumes "plain body" "some_char evidence body"
  shows "lang (bounded body) p u n \<longleftrightarrow>
    lang body False u False \<and> p \<noteq> is_word (hd u) \<and> is_word (last u) \<noteq> n"
proof -
  have ne: "u \<noteq> []" if "lang body p u n" for p n using lang_some_char [OF assms(2) that] by auto
  have "lang (bounded body) p u n \<longleftrightarrow> lang body p u n \<and> p \<noteq> next_word u n \<and> prev_word p u \<noteq> n"
    by (auto simp: bounded_def)
  moreover have "lang body p u n \<longleftrightarrow> lang body False u False" using lang_plain [OF assms(1)] by blast
  moreover have "u \<noteq> [] \<Longrightarrow> next_word u n = is_word (hd u) \<and> prev_word p u = is_word (last u)"
    by (cases u) (simp_all add: prev_word_def)
  ultimately show ?thesis using ne by blast
qed

lemma bounded_pattern:
  assumes "plain body" "no_eos body" "some_char evidence body" "all_chars no_bracket body"
  shows "redaction_pattern (bounded body)"
proof
  note L = lang_bounded [OF assms(1,3)]
  show "no_eos (bounded body)" using assms(2) by (simp add: bounded_def)
  fix p u n
  show "lang (bounded body) p u n \<Longrightarrow> list_all no_bracket u" unfolding L using lang_all_chars [OF assms(4)] by blast
  show "lang (bounded body) p u n \<Longrightarrow> list_ex evidence u" unfolding L using lang_some_char [OF assms(3)] by blast
  show "lang (bounded body) False u n \<Longrightarrow> \<not> is_word (hd u) \<Longrightarrow> lang (bounded body) True u n" unfolding L by simp
  show "lang (bounded body) p u False \<Longrightarrow> \<not> is_word (last u) \<Longrightarrow> lang (bounded body) p u True" unfolding L by simp
  show "lang (bounded body) p u n \<Longrightarrow> is_word (hd u) \<Longrightarrow> \<not> p" unfolding L by simp
  show "lang (bounded body) p u n \<Longrightarrow> is_word (last u) \<Longrightarrow> \<not> n" unfolding L by simp
qed

text \<open>The shape of the phone pattern: an optional prefix whose first character is no word character.\<close>

lemma prefixed_pattern:
  assumes "plain body" "no_eos body" "some_char evidence body" "all_chars no_bracket body"
    and "plain pre" "no_eos pre" "all_chars no_bracket pre"
    and pre: "\<And>x. lang pre False x False \<Longrightarrow> x \<noteq> [] \<Longrightarrow> \<not> is_word (hd x)"
  shows "redaction_pattern (Seq pre (bounded body))"
proof
  note L = lang_bounded [OF assms(1,3)]
  have S: "lang (Seq pre (bounded body)) p u n \<longleftrightarrow> (\<exists>x y. u = x @ y \<and> y \<noteq> [] \<and> lang pre False x False \<and>
      lang body False y False \<and> prev_word p x \<noteq> is_word (hd y) \<and> is_word (last u) \<noteq> n)" for p u n
  proof -
    have ne: "y \<noteq> []" if "lang body False y False" for y using lang_some_char [OF assms(3) that] by auto
    have free: "lang pre p x m \<longleftrightarrow> lang pre False x False" for p x m using lang_plain [OF assms(5)] by blast
    have "lang (Seq pre (bounded body)) p u n \<longleftrightarrow> (\<exists>x y. u = x @ y \<and> lang pre False x False \<and>
        lang body False y False \<and> prev_word p x \<noteq> is_word (hd y) \<and> is_word (last y) \<noteq> n)"
      unfolding lang.simps L by (intro ex_cong1 conj_cong refl free)
    also have "\<dots> \<longleftrightarrow> (\<exists>x y. u = x @ y \<and> y \<noteq> [] \<and> lang pre False x False \<and>
        lang body False y False \<and> prev_word p x \<noteq> is_word (hd y) \<and> is_word (last u) \<noteq> n)"
      by (intro ex_cong1) (auto dest: ne)
    finally show ?thesis .
  qed
  show "no_eos (Seq pre (bounded body))" using assms(2,6) by (simp add: bounded_def)
  fix p u n
  show "list_all no_bracket u" if "lang (Seq pre (bounded body)) p u n"
    using that lang_all_chars [OF assms(4)] lang_all_chars [OF assms(7)] unfolding S by fastforce
  show "list_ex evidence u" if "lang (Seq pre (bounded body)) p u n"
    using that lang_some_char [OF assms(3)] unfolding S by fastforce
  show "lang (Seq pre (bounded body)) True u n"
    if u: "lang (Seq pre (bounded body)) False u n" "\<not> is_word (hd u)"
  proof -
    obtain x y where xy: "u = x @ y" "y \<noteq> []" "lang pre False x False" "lang body False y False"
        "prev_word False x \<noteq> is_word (hd y)" "is_word (last u) \<noteq> n"
      using u(1) unfolding S by blast
    then have "x \<noteq> []" using u(2) by auto
    then show ?thesis unfolding S using xy by (metis prev_word_def)
  qed
  show "lang (Seq pre (bounded body)) p u True"
    if "lang (Seq pre (bounded body)) p u False" "\<not> is_word (last u)"
    using that unfolding S by blast
  show "\<not> p" if u: "lang (Seq pre (bounded body)) p u n" "is_word (hd u)"
  proof -
    obtain x y where xy: "u = x @ y" "y \<noteq> []" "lang pre False x False" "prev_word p x \<noteq> is_word (hd y)"
      using u(1) unfolding S by blast
    have "x = []" using pre [OF xy(3)] u(2) xy(1) by (cases x) auto
    then show ?thesis using xy u(2) by simp
  qed
  show "\<not> n" if "lang (Seq pre (bounded body)) p u n" "is_word (last u)"
    using that unfolding S by blast
qed

lemmas pattern_parts = between_def upper_def digit_def space_def opt_def lit_def plus_def

lemma class_facts:
  "is_upper c \<Longrightarrow> no_bracket c" "is_digit c \<Longrightarrow> no_bracket c" "ascii_ws c \<Longrightarrow> no_bracket c"
  "is_word c \<Longrightarrow> no_bracket c" "is_digit c \<Longrightarrow> evidence c"
  by (auto simp: is_upper_def is_lower_def is_digit_def is_word_def ascii_ws_def no_bracket_def evidence_def Let_def)

lemma literal_facts:
  "no_bracket (CHR ''+'')" "no_bracket (CHR ''-'')" "no_bracket (CHR ''.'')" "no_bracket (CHR ''@'')"
  "no_bracket (CHR ''0'')" "no_bracket (CHR ''9'')" "no_bracket (CHR ''1'')"
  "evidence (CHR ''@'')" "evidence (CHR ''0'')"
  by (simp_all add: no_bracket_def evidence_def is_digit_def)

lemma between_facts:
  "(50 :: nat) \<le> of_char c \<Longrightarrow> (of_char c :: nat) \<le> 57 \<Longrightarrow> is_digit c"
  "(54 :: nat) \<le> of_char c \<Longrightarrow> (of_char c :: nat) \<le> 57 \<Longrightarrow> is_digit c"
  by (simp_all add: is_digit_def)

interpretation aadhaar: redaction_pattern AADHAAR
  unfolding AADHAAR_def
  by (rule bounded_pattern) (simp_all add: pattern_parts class_facts between_facts)

interpretation pan: redaction_pattern PAN
  unfolding PAN_def
  by (rule bounded_pattern) (simp_all add: pattern_parts class_facts)

interpretation phone: redaction_pattern PHONE
  unfolding PHONE_def
proof (rule prefixed_pattern)
  fix x assume "lang PHONE_PREFIX False x False" "x \<noteq> []"
  then show "\<not> is_word (hd x)"
    by (auto simp: PHONE_PREFIX_def pattern_parts is_word_def is_upper_def is_lower_def is_digit_def)
qed (auto simp: PHONE_PREFIX_def pattern_parts class_facts between_facts literal_facts)

interpretation account: redaction_pattern ACCOUNT
  unfolding ACCOUNT_def
  by (rule bounded_pattern) (simp_all add: pattern_parts class_facts)

interpretation ifsc: redaction_pattern IFSC
  unfolding IFSC_def
  by (rule bounded_pattern)
    (auto simp: pattern_parts class_facts literal_facts)

interpretation email: redaction_pattern EMAIL
  unfolding EMAIL_def
  by (rule bounded_pattern) (auto simp: pattern_parts class_facts literal_facts)

interpretation gst: redaction_pattern GST
  unfolding GST_def
  by (rule bounded_pattern) (auto simp: pattern_parts class_facts)

lemma patterns_sound: "(tag, r) \<in> set PATTERNS \<Longrightarrow> redaction_pattern r \<and> list_all (\<lambda>c. \<not> evidence c) tag"
  using aadhaar.redaction_pattern_axioms pan.redaction_pattern_axioms phone.redaction_pattern_axioms
    account.redaction_pattern_axioms ifsc.redaction_pattern_axioms email.redaction_pattern_axioms
    gst.redaction_pattern_axioms
  by (auto simp: PATTERNS_def evidence_def is_digit_def)

section \<open>Nothing is left to redact\<close>

definition clean :: "rx \<Rightarrow> string \<Rightarrow> bool" where
  "clean r s \<longleftrightarrow> rx_search r None s = None"

lemma clean_iff: "redaction_pattern r \<Longrightarrow> clean r s \<longleftrightarrow> \<not> occurs r False s"
  using rx_search_None [OF redaction_pattern.no_eos, of r None s] by (simp add: clean_def)

lemma redact_loop_clean:
  assumes "set ps \<subseteq> set PATTERNS" "redact_loop ps s tags = (out, tags')"
    and "\<forall>r \<in> R. redaction_pattern r \<and> clean r s"
  shows "\<forall>r \<in> R \<union> snd ` set ps. clean r out"
  using assms
proof (induction ps arbitrary: s tags R)
  case Nil
  then show ?case by simp
next
  case (Cons a ps)
  obtain tag r where a: "a = (tag, r)" by (cases a)
  have r: "redaction_pattern r" "list_all (\<lambda>c. \<not> evidence c) tag" "set ps \<subseteq> set PATTERNS"
    using Cons.prems(1) patterns_sound a by auto
  show ?case
  proof (cases "rx_search r None s = None")
    case True
    then have "\<forall>q \<in> insert r R. redaction_pattern q \<and> clean q s" using Cons.prems(3) r(1) by (simp add: clean_def)
    moreover have "redact_loop ps s tags = (out, tags')" using Cons.prems(2) True a by simp
    ultimately show ?thesis using Cons.IH [OF r(3), of s tags "insert r R"] a by simp
  next
    case False
    let ?s = "rx_sub r (replacement tag) None s"
    have "clean r ?s" using sub_removes [OF r(1,2), of None s] clean_iff [OF r(1)] by simp
    moreover have "clean q ?s" if "q \<in> R" for q
      using sub_keeps [OF r(1) _ r(2)] Cons.prems(3) that clean_iff by blast
    ultimately have "\<forall>q \<in> insert r R. redaction_pattern q \<and> clean q ?s" using Cons.prems(3) r(1) by simp
    moreover have "redact_loop ps ?s (tags @ [tag]) = (out, tags')" using Cons.prems(2) False a by simp
    ultimately show ?thesis using Cons.IH [OF r(3), of ?s "tags @ [tag]" "insert r R"] a by simp
  qed
qed

lemma redact_loop_fixed:
  "\<forall>(tag, r) \<in> set ps. clean r s \<Longrightarrow> redact_loop ps s tags = (s, tags)"
  by (induction ps arbitrary: tags) (auto simp: clean_def)

lemma redact_clean: "\<forall>(tag, r) \<in> set PATTERNS. rx_search r None (fst (redact s False)) = None"
proof -
  obtain out tags where out: "redact s False = (out, tags)" by (cases "redact s False")
  have "\<forall>r \<in> {} \<union> snd ` set PATTERNS. clean r out"
    by (rule redact_loop_clean [of PATTERNS s "[]" out tags]) (use out in \<open>auto simp: redact_def\<close>)
  then show ?thesis using out by (force simp: clean_def)
qed

section \<open>Properties\<close>

text \<open>
  C21: Redaction is complete and stable. In the text that \<open>redact\<close> returns for a field that is not
  exempt, none of the seven patterns matches anywhere, not even a match that a later
  replacement might have opened; so redacting again changes nothing and applies no tag. An
  exempt field is returned as it is.
\<close>

theorem redaction_complete:
  assumes "redact s False = (out, tags)"
  shows "(\<forall>(tag, r) \<in> set PATTERNS. rx_search r None out = None) \<and> redact out False = (out, []) \<and>
    redact s True = (s, [])"
proof -
  have c: "\<forall>(tag, r) \<in> set PATTERNS. clean r out" using redact_clean [of s] assms by (simp add: clean_def)
  then have "redact out False = (out, [])" by (simp add: redact_def redact_loop_fixed)
  with c show ?thesis by (simp add: redact_def clean_def)
qed

text \<open>A number written with the country code and no separator is taken for an Aadhaar number.\<close>

lemma joined_country_code: "redact ''+919876543210'' False = (''+[REDACTED:AADHAAR]'', [''AADHAAR''])"
  by code_simp

theorem redaction_complete_witness:
  "rx_search PHONE None ''call [REDACTED:PHONE] now'' = None"
proof -
  have "redact ''call +91 9876543210 now'' False = (''call [REDACTED:PHONE] now'', [''PHONE''])" by code_simp
  from redaction_complete [OF this] show ?thesis by (simp add: PATTERNS_def)
qed

end
