(* ===== verification/CC_Normalise.thy ===== *)
theory CC_Normalise
  imports CC_Regex CC_Domain
begin

text \<open>
  Typed coercion of extracted values, \<open>src/app/extract/normalise.py\<close>: dates (day first), times,
  timestamps in Asia/Kolkata, money in paise, rates in basis points and durations in days, with
  the \<open>strptime\<close> formats of CPython they rely on.

  White space, digits and letters are the ASCII ones, month names the English ones. Integers of
  more than 4300 digits raise \<open>ValueError\<close>, floats overflow as binary64 does.
\<close>

section \<open>Strings\<close>

definition py_strip :: "string \<Rightarrow> string" where
  "py_strip s = rev (dropWhile ascii_ws (rev (dropWhile ascii_ws s)))"

definition py_lower :: "string \<Rightarrow> string" where
  "py_lower s = map lower_char s"

definition py_upper :: "string \<Rightarrow> string" where
  "py_upper s = map upper_char s"

definition endswith :: "string \<Rightarrow> string \<Rightarrow> bool" where
  "endswith s x \<longleftrightarrow> length x \<le> length s \<and> drop (length s - length x) s = x"

definition removesuffix :: "string \<Rightarrow> string \<Rightarrow> string" where
  "removesuffix s x = (if endswith s x then take (length s - length x) s else s)"

text \<open>\<open>s.replace(old, "")\<close>.\<close>

function remove_all :: "string \<Rightarrow> string \<Rightarrow> string" where
  "remove_all old [] = []"
| "remove_all old (c # cs) =
     (if old \<noteq> [] \<and> startswith (c # cs) old then remove_all old (drop (length old) (c # cs))
      else c # remove_all old cs)"
  by pat_completeness auto
termination by (relation "measure (\<lambda>(_, s). length s)") auto

text \<open>\<open>s.split(maxsplit=1)\<close>.\<close>

definition split_first :: "string \<Rightarrow> string list" where
  "split_first s =
     (let t = dropWhile ascii_ws s;
          word = takeWhile (\<lambda>c. \<not> ascii_ws c) t;
          rest = dropWhile ascii_ws (dropWhile (\<lambda>c. \<not> ascii_ws c) t)
      in if t = [] then [] else if rest = [] then [word] else [word, rest])"

text \<open>\<open>int(s)\<close> of a string of digits that a pattern matched.\<close>

definition int_digits :: "string \<Rightarrow> int res" where
  "int_digits s =
     (if 4300 < length s then Inl (ValueError ''Exceeds the limit (4300 digits)'')
      else case parse_digits s of
        None \<Rightarrow> Inl (ValueError ''invalid literal for int()'')
      | Some n \<Rightarrow> Inr (int n))"

text \<open>\<open>int(s)\<close>: surrounding white space, a sign, and single underscores between digits.\<close>

fun strip_underscores :: "bool \<Rightarrow> string \<Rightarrow> string option" where
  "strip_underscores after_digit [] = (if after_digit then Some [] else None)"
| "strip_underscores after_digit (c # cs) =
     (if is_digit c then map_option (Cons c) (strip_underscores True cs)
      else if c = CHR ''_'' \<and> after_digit then strip_underscores False cs
      else None)"

definition py_int_of :: "string \<Rightarrow> int res" where
  "py_int_of s =
     (let t = py_strip s;
          (neg, u) = (case t of [] \<Rightarrow> (False, t)
                      | c # r \<Rightarrow> if c = CHR ''-'' then (True, r)
                                 else if c = CHR ''+'' then (False, r) else (False, t))
      in case strip_underscores False u of
           None \<Rightarrow> Inl (ValueError ''invalid literal for int()'')
         | Some ds \<Rightarrow> ebind (int_digits ds) (\<lambda>n. Inr (if neg then - n else n)))"

section \<open>Dates\<close>

text \<open>The directives of \<open>strptime\<close> as \<open>_strptime.TimeRE\<close> compiles them.\<close>

definition fmt_d :: rx where
  "fmt_d = Grp 1 (alts [Seq (lit (CHR ''3'')) (between (CHR ''0'') (CHR ''1'')),
     Seq (between (CHR ''1'') (CHR ''2'')) digit, Seq (lit (CHR ''0'')) (between (CHR ''1'') (CHR ''9'')),
     between (CHR ''1'') (CHR ''9''), Seq (lit (CHR '' '')) (between (CHR ''1'') (CHR ''9''))])"

definition fmt_m :: rx where
  "fmt_m = Grp 2 (alts [Seq (lit (CHR ''1'')) (between (CHR ''0'') (CHR ''2'')),
     Seq (lit (CHR ''0'')) (between (CHR ''1'') (CHR ''9'')), between (CHR ''1'') (CHR ''9'')])"

definition fmt_Y :: rx where
  "fmt_Y = Grp 3 (Rep digit 4 4)"

definition month_names :: "string list" where
  "month_names =
     [''january'', ''february'', ''march'', ''april'', ''may'', ''june'', ''july'', ''august'',
      ''september'', ''october'', ''november'', ''december'']"

definition fmt_B :: rx where
  "fmt_B = Grp 2 (alts (map word_ic
     [''september'', ''february'', ''november'', ''december'', ''january'', ''october'', ''august'',
      ''march'', ''april'', ''june'', ''july'', ''may'']))"

definition fmt_b :: rx where
  "fmt_b = Grp 2 (alts (map (\<lambda>m. word_ic (take 3 m)) month_names))"

definition fmt_space :: rx where
  "fmt_space = plus space"

definition DATE_FORMAT_ISO :: rx where
  "DATE_FORMAT_ISO = seqs [fmt_Y, lit (CHR ''-''), fmt_m, lit (CHR ''-''), fmt_d]"

definition DATE_FORMATS_DAY_FIRST :: "rx list" where
  "DATE_FORMATS_DAY_FIRST =
     [seqs [fmt_d, lit (CHR ''/''), fmt_m, lit (CHR ''/''), fmt_Y],
      seqs [fmt_d, lit (CHR ''-''), fmt_m, lit (CHR ''-''), fmt_Y],
      seqs [fmt_d, lit (CHR ''.''), fmt_m, lit (CHR ''.''), fmt_Y],
      seqs [fmt_d, fmt_space, fmt_B, fmt_space, fmt_Y],
      seqs [fmt_d, fmt_space, fmt_b, fmt_space, fmt_Y]]"

definition month_of :: "string \<Rightarrow> int option" where
  "month_of s =
     (case parse_digits s of
        Some n \<Rightarrow> Some (int n)
      | None \<Rightarrow> map_option (\<lambda>i. int i + 1)
          (find (\<lambda>i. month_names ! i = py_lower s \<or> take 3 (month_names ! i) = py_lower s) [0..<12]))"

text \<open>\<open>%d\<close> may match a space before its digit; \<open>int\<close> strips it.\<close>

definition day_of :: "string \<Rightarrow> int option" where
  "day_of s = map_option int (parse_digits (dropWhile ascii_ws s))"

definition strptime_date :: "rx \<Rightarrow> string \<Rightarrow> date res" where
  "strptime_date fmt s =
     (case rx_match fmt s of
        None \<Rightarrow> Inl (ValueError ''does not match format'')
      | Some t \<Rightarrow>
          if rs_rest t \<noteq> [] then Inl (ValueError ''unconverted data remains'')
          else (case (Option.bind (group t 3) parse_digits, Option.bind (group t 2) month_of,
                  Option.bind (group t 1) day_of) of
              (Some y, Some m, Some d) \<Rightarrow>
                if valid_date (Date (int y) m d) then Inr (Date (int y) m d)
                else Inl (ValueError ''out of range'')
            | _ \<Rightarrow> Inl (ValueError ''does not match format'')))"

text \<open>The first format that \<open>strptime\<close> accepts.\<close>

fun first_format :: "rx list \<Rightarrow> string \<Rightarrow> date res" where
  "first_format [] s = Inl (NormalisationError ''cannot parse date'')"
| "first_format (fmt # fmts) s =
     (case strptime_date fmt s of
        Inr d \<Rightarrow> Inr d
      | Inl e \<Rightarrow> (case e of ValueError _ \<Rightarrow> first_format fmts s | _ \<Rightarrow> Inl e))"

definition normalise_date :: "string \<Rightarrow> date res" where
  "normalise_date raw = first_format (DATE_FORMAT_ISO # DATE_FORMATS_DAY_FIRST) (py_strip raw)"

section \<open>Times\<close>

definition TIME_24H :: rx where
  "TIME_24H = seqs [Grp 1 (Alt (Seq (opt (between (CHR ''0'') (CHR ''1''))) digit)
       (Seq (lit (CHR ''2'')) (between (CHR ''0'') (CHR ''3'')))),
     lit (CHR '':''), Grp 2 (Seq (between (CHR ''0'') (CHR ''5'')) digit), Eos]"

definition TIME_12H :: rx where
  "TIME_12H = seqs [Grp 1 (Rep digit 1 2), lit (CHR '':''), Grp 2 (Seq (between (CHR ''0'') (CHR ''5'')) digit),
     Star space, Grp 3 (Seq (Cls (\<lambda>c. lower_char c \<in> {CHR ''a'', CHR ''p''})) (Cls (\<lambda>c. lower_char c = CHR ''m''))),
     Eos]"

definition group_int :: "rx_state \<Rightarrow> nat \<Rightarrow> int res" where
  "group_int t n =
     (case group t n of None \<Rightarrow> Inl (TypeError ''int() argument'') | Some s \<Rightarrow> int_digits s)"

definition mk_clock :: "int \<Rightarrow> int \<Rightarrow> time res" where
  "mk_clock h m =
     (if valid_time (Time h m 0 0) then Inr (Time h m 0 0) else Inl (ValueError ''hour must be in 0..23''))"

definition normalise_time :: "string \<Rightarrow> time res" where
  "normalise_time raw0 =
     (let raw1 = py_strip raw0;
          raw = (if endswith (py_upper raw1) '' IST'' then py_strip (take (length raw1 - 4) raw1) else raw1)
      in case rx_match TIME_24H raw of
           Some t \<Rightarrow> ebind (group_int t 1) (\<lambda>h. ebind (group_int t 2) (\<lambda>m. mk_clock h m))
         | None \<Rightarrow>
             (case rx_match TIME_12H raw of
                Some t \<Rightarrow>
                  ebind (group_int t 1) (\<lambda>g.
                    let hour = g mod 12;
                        hour' = (if map_option py_lower (group t 3) = Some ''pm'' then hour + 12 else hour)
                    in ebind (group_int t 2) (\<lambda>m. mk_clock hour' m))
              | None \<Rightarrow> Inl (NormalisationError ''cannot parse time'')))"

text \<open>\<open>datetime.combine(d, t, tzinfo=_IST)\<close>.\<close>

definition normalise_datetime :: "string \<Rightarrow> string option \<Rightarrow> datetime res" where
  "normalise_datetime raw_date raw_time =
     ebind (normalise_date raw_date) (\<lambda>d.
       ebind (case raw_time of
                None \<Rightarrow> Inr (Time 0 0 0 0)
              | Some r \<Rightarrow> if r = [] then Inr (Time 0 0 0 0) else normalise_time r) (\<lambda>t.
         Inr (DateTime d t (Some 19800))))"

definition parse_full_datetime :: "string \<Rightarrow> datetime res" where
  "parse_full_datetime raw0 =
     (let raw = py_strip raw0
      in case split_first raw of
           [d, t] \<Rightarrow> normalise_datetime d (Some t)
         | _ \<Rightarrow> normalise_datetime raw None)"

section \<open>Amounts\<close>

definition rupee_sign :: string where
  "rupee_sign = [CHR 0xE2, CHR 0x82, CHR 0xB9]"

definition MONEY :: rx where
  "MONEY = Seq (Grp 1 (plus digit)) (opt (Seq (lit (CHR ''.'')) (Grp 2 (Rep digit 1 2))))"

definition money_clean :: "string \<Rightarrow> string" where
  "money_clean raw =
     (let a = py_strip (remove_all ''Rs'' (remove_all ''Rs.'' (remove_all rupee_sign raw)));
          b = py_strip (removesuffix a ''/-'')
      in remove_all '','' b)"

definition normalise_money_to_paise :: "string \<Rightarrow> int res" where
  "normalise_money_to_paise raw =
     (case rx_fullmatch MONEY (money_clean raw) of
        None \<Rightarrow> Inl (NormalisationError ''cannot parse money'')
      | Some t \<Rightarrow>
          ebind (group_int t 1) (\<lambda>rupees.
            let fraction = take 2 ((case group t 2 of None \<Rightarrow> ''0'' | Some f \<Rightarrow> if f = [] then ''0'' else f) @ ''00'')
            in ebind (int_digits fraction) (\<lambda>paise. Inr (rupees * 100 + paise))))"

definition RATE :: rx where
  "RATE = seqs [Grp 1 (plus (Cls (\<lambda>c. is_digit c \<or> c = CHR ''.''))), Star space, lit (CHR ''%'')]"

text \<open>The largest magnitude that does not round to infinity is below this bound.\<close>

definition float_limit :: rat where
  "float_limit = 2 ^ 1024 - 2 ^ 970"

text \<open>\<open>float(s)\<close> of digits and points: one point at most and a digit.\<close>

definition decimal_value :: "string \<Rightarrow> rat option" where
  "decimal_value s =
     (let whole = takeWhile is_digit s; rest = dropWhile is_digit s
      in case rest of
           [] \<Rightarrow> if whole = [] then None else Some (of_nat (digits_val whole))
         | _ # dec \<Rightarrow>
             if list_all is_digit dec \<and> (whole \<noteq> [] \<or> dec \<noteq> [])
             then Some (of_nat (digits_val whole) + of_nat (digits_val dec) / 10 ^ length dec)
             else None)"

definition normalise_rate_to_bps :: "string \<Rightarrow> int res" where
  "normalise_rate_to_bps raw =
     (case rx_search RATE None (py_strip raw) of
        None \<Rightarrow> Inl (NormalisationError ''cannot parse rate'')
      | Some (_, t, _) \<Rightarrow>
          (case Option.bind (group t 1) decimal_value of
             None \<Rightarrow> Inl (ValueError ''could not convert string to float'')
           | Some q \<Rightarrow>
               if float_limit \<le> q \<or> float_limit \<le> fl q * 100 then Inl OverflowError
               else Inr (round_half_even (float_mul (fl q) 100))))"

definition DURATION :: rx where
  "DURATION = seqs [Grp 1 (plus digit), Star space,
     opt (Grp 2 (alts (map word [''day'', ''days'', ''month'', ''months'', ''year'', ''years'']))), Eos]"

definition normalise_duration_days :: "string \<Rightarrow> int res" where
  "normalise_duration_days raw =
     (case rx_match DURATION (py_lower (py_strip raw)) of
        None \<Rightarrow> Inl (NormalisationError ''cannot parse duration'')
      | Some t \<Rightarrow>
          ebind (group_int t 1) (\<lambda>value.
            let unit = (case group t 2 of None \<Rightarrow> ''days'' | Some u \<Rightarrow> if u = [] then ''days'' else u)
            in Inr (if startswith unit ''month'' then value * 30
                    else if startswith unit ''year'' then value * 365 else value)))"


section \<open>What the normalisers return and raise\<close>

text \<open>The exceptions that the extraction loop catches, and those a rate may raise besides.\<close>

definition coerces :: "'a res \<Rightarrow> bool" where
  "coerces r \<longleftrightarrow> (\<forall>e. r = Inl e \<longrightarrow> (\<exists>m. e = NormalisationError m \<or> e = ValueError m))"

lemma coerces_simps [simp]:
  "coerces (Inr x)" "coerces (Inl (NormalisationError m))" "coerces (Inl (ValueError m))"
  by (simp_all add: coerces_def)

lemma coerces_ebind [intro]: "coerces m \<Longrightarrow> (\<And>x. m = Inr x \<Longrightarrow> coerces (f x)) \<Longrightarrow> coerces (ebind m f)"
  by (cases m) (auto simp: coerces_def)

lemma int_digits_coerces: "coerces (int_digits s)"
  by (auto simp: int_digits_def split: option.splits)

lemma group_int_coerces: "\<exists>g. group t n = Some g \<Longrightarrow> coerces (group_int t n)"
  by (auto simp: group_int_def int_digits_coerces)

lemma strptime_date_Inr: "strptime_date fmt s = Inr d \<Longrightarrow> valid_date d"
  by (auto simp: strptime_date_def split: option.splits if_splits)

lemma strptime_date_Inl: "strptime_date fmt s = Inl e \<Longrightarrow> \<exists>m. e = ValueError m"
  by (auto simp: strptime_date_def split: option.splits if_splits)

lemma first_format_date: "first_format fmts s = Inr d \<Longrightarrow> valid_date d" "coerces (first_format fmts s)"
  by (induction fmts) (auto simp: strptime_date_Inr dest: strptime_date_Inl split: sum.splits exc.splits)

lemma normalise_date_valid: "normalise_date raw = Inr d \<Longrightarrow> valid_date d" "coerces (normalise_date raw)"
  by (simp_all only: normalise_date_def first_format_date)

lemma mk_clock_time: "mk_clock h m = Inr t \<Longrightarrow> valid_time t" "coerces (mk_clock h m)"
  by (auto simp: mk_clock_def split: if_splits)

lemma time_groups:
  "sets_group 1 TIME_24H" "sets_group 2 TIME_24H" "sets_group 1 TIME_12H" "sets_group 2 TIME_12H"
  by (simp_all add: TIME_24H_def TIME_12H_def)

lemma normalise_time_valid:
  assumes "normalise_time raw = Inr t"
  shows "valid_time t"
proof -
  obtain h m where "mk_clock h m = Inr t"
    using assms by (auto simp: normalise_time_def Let_def ebind_Inr_iff split: option.splits)
  then show ?thesis by (rule mk_clock_time)
qed

lemma normalise_time_coerces: "coerces (normalise_time raw)"
proof -
  define r where "r = (let raw1 = py_strip raw in
      if endswith (py_upper raw1) '' IST'' then py_strip (take (length raw1 - 4) raw1) else raw1)"
  have g: "coerces (group_int t n)" if "rx_match p r = Some t" "sets_group n p" for p t n
    using match_group [OF that] by (rule group_int_coerces)
  show ?thesis
  proof (cases "rx_match TIME_24H r")
    case (Some t)
    have "coerces (ebind (group_int t 1) (\<lambda>h. ebind (group_int t 2) (\<lambda>m. mk_clock h m)))"
      using g [OF Some time_groups(1)] g [OF Some time_groups(2)] by (intro coerces_ebind mk_clock_time)
    then show ?thesis using Some by (simp add: normalise_time_def Let_def r_def)
  next
    case None
    show ?thesis
    proof (cases "rx_match TIME_12H r")
      case None
      then show ?thesis using \<open>rx_match TIME_24H r = None\<close> by (simp add: normalise_time_def Let_def r_def)
    next
      case (Some t)
      have "coerces (ebind (group_int t 1) (\<lambda>g. let hour = g mod 12;
          hour' = (if map_option py_lower (group t 3) = Some ''pm'' then hour + 12 else hour)
          in ebind (group_int t 2) (\<lambda>m. mk_clock hour' m)))"
        unfolding Let_def
        using g [OF Some time_groups(3)] g [OF Some time_groups(4)] by (intro coerces_ebind mk_clock_time)
      then show ?thesis
        using Some \<open>rx_match TIME_24H r = None\<close> by (simp add: normalise_time_def Let_def r_def)
    qed
  qed
qed

lemma normalise_datetime_valid:
  assumes "normalise_datetime d t = Inr x"
  shows "valid_date (dt_date x) \<and> valid_time (dt_time x) \<and> dt_offset x = Some 19800"
  using assms normalise_date_valid(1) normalise_time_valid
  by (auto simp: normalise_datetime_def ebind_Inr_iff split: option.splits if_splits)

lemma normalise_datetime_coerces: "coerces (normalise_datetime d t)"
  unfolding normalise_datetime_def
  by (intro coerces_ebind normalise_date_valid) (auto simp: normalise_time_coerces split: option.splits)

lemma parse_full_datetime_valid:
  assumes "parse_full_datetime raw = Inr x"
  shows "valid_date (dt_date x) \<and> valid_time (dt_time x) \<and> dt_offset x = Some 19800"
  using assms by (auto simp: parse_full_datetime_def Let_def dest: normalise_datetime_valid split: list.splits)

lemma parse_full_datetime_coerces: "coerces (parse_full_datetime raw)"
  by (auto simp: parse_full_datetime_def Let_def normalise_datetime_coerces split: list.splits)

lemma normalise_money_coerces: "coerces (normalise_money_to_paise raw)"
proof (cases "rx_fullmatch MONEY (money_clean raw)")
  case None
  then show ?thesis by (simp add: normalise_money_to_paise_def)
next
  case (Some t)
  have "sets_group 1 MONEY" by (simp add: MONEY_def)
  from fullmatch_group [OF Some this] have "coerces (group_int t 1)" by (rule group_int_coerces)
  then show ?thesis
    unfolding normalise_money_to_paise_def Some option.case Let_def
    by (intro coerces_ebind int_digits_coerces) simp_all
qed

lemma normalise_duration_coerces: "coerces (normalise_duration_days raw)"
proof (cases "rx_match DURATION (py_lower (py_strip raw))")
  case None
  then show ?thesis by (simp add: normalise_duration_days_def)
next
  case (Some t)
  have "sets_group 1 DURATION" by (simp add: DURATION_def)
  from match_group [OF Some this] have "coerces (group_int t 1)" by (rule group_int_coerces)
  then show ?thesis
    unfolding normalise_duration_days_def Some option.case Let_def by (intro coerces_ebind) simp_all
qed

lemma py_int_of_coerces: "coerces (py_int_of s)"
  unfolding py_int_of_def Let_def
  by (auto split: option.splits prod.splits intro!: coerces_ebind int_digits_coerces)

lemma normalise_rate_errors:
  "normalise_rate_to_bps raw = Inl e \<Longrightarrow> e = OverflowError \<or> (\<exists>m. e = NormalisationError m \<or> e = ValueError m)"
  by (auto simp: normalise_rate_to_bps_def split: option.splits if_splits)

section \<open>Reading dates\<close>

lemma of_char_digit [simp]: "x < 10 \<Longrightarrow> of_char (digit_char x) = (48 + x :: nat)"
  by (simp add: digit_char_def)

lemma digit_char_eq: "x < 10 \<Longrightarrow> digit_char x = c \<longleftrightarrow> of_char c = 48 + x"
  by (metis digit_char_def of_char_digit char_of_char)

text \<open>A separator is no digit and no space.\<close>

definition separator :: "char \<Rightarrow> bool" where
  "separator c \<longleftrightarrow> \<not> is_digit c \<and> \<not> ascii_ws c"

lemma separator_neq: "separator c \<Longrightarrow> x < 10 \<Longrightarrow> digit_char x \<noteq> c"
  by (auto simp: separator_def)

lemma pad2_digits:
  assumes "0 \<le> i" "i < 100"
  obtains a b where "pad2 i = [digit_char a, digit_char b]" "a < 10" "b < 10" "i = int (10 * a + b)"
proof
  show "pad2 i = [digit_char (nat i div 10), digit_char (nat i mod 10)]"
    using assms by (simp add: pad2_def Let_def)
  show "nat i div 10 < 10" "nat i mod 10 < 10" using assms by simp_all
  show "i = int (10 * (nat i div 10) + nat i mod 10)" using assms by simp
qed

lemma day_part:
  assumes "1 \<le> d" "d \<le> 31" "separator c"
  shows "steps (Seq fmt_d (Seq (lit c) k)) (RX p (pad2 d @ c # rest) g) =
    steps k (RX (Some c) rest ((1, pad2 d) # g))"
proof -
  have "0 \<le> d" "d < 100" using assms by simp_all
  then obtain a b where ab: "pad2 d = [digit_char a, digit_char b]" "a < 10" "b < 10" "d = int (10 * a + b)"
    by (rule pad2_digits)
  have "a = 0 \<and> 1 \<le> b \<or> a = 1 \<or> a = 2 \<or> a = 3 \<and> b \<le> 1" using ab(3,4) assms(1,2) by linarith
  then show ?thesis
    using ab(2,3) separator_neq [OF assms(3) ab(3)]
    unfolding ab(1)
    by (auto simp: fmt_d_def lit_def between_def digit_def is_digit_def consumed_def digit_char_eq)
qed

lemma month_part:
  assumes "1 \<le> m" "m \<le> 12" "separator c"
  shows "steps (Seq fmt_m (Seq (lit c) k)) (RX p (pad2 m @ c # rest) g) =
    steps k (RX (Some c) rest ((2, pad2 m) # g))"
proof -
  have "0 \<le> m" "m < 100" using assms by simp_all
  then obtain a b where ab: "pad2 m = [digit_char a, digit_char b]" "a < 10" "b < 10" "m = int (10 * a + b)"
    by (rule pad2_digits)
  have "a = 0 \<and> 1 \<le> b \<or> a = 1 \<and> b \<le> 2" using ab(3,4) assms(1,2) by linarith
  then show ?thesis
    using ab(2,3) separator_neq [OF assms(3) ab(3)]
    unfolding ab(1)
    by (auto simp: fmt_m_def lit_def between_def digit_def is_digit_def consumed_def digit_char_eq)
qed

lemma year_part:
  "steps fmt_Y (RX p (pad4 y @ rest) g) =
     [RX (Some (digit_char (nat y mod 10))) rest ((3, pad4 y) # g)]"
proof -
  have four: "steps (Rep digit 4 4) (RX p (a # b # c # d # rest) g) = [RX (Some d) rest g]"
    if "is_digit a" "is_digit b" "is_digit c" "is_digit d" for a b c d
    using that by (simp add: digit_def numeral_eq_Suc)
  show ?thesis
    by (simp add: fmt_Y_def pad4_def Let_def four consumed_def del: steps.simps(6))
qed

lemma strptime_day_first:
  assumes "valid_date (Date y m d)" "separator c"
  shows "strptime_date (seqs [fmt_d, lit c, fmt_m, lit c, fmt_Y]) (pad2 d @ c # pad2 m @ c # pad4 y) =
    Inr (Date y m d)"
proof -
  have b: "1 \<le> y" "y < 10000" "1 \<le> m" "m \<le> 12" "1 \<le> d" "d \<le> 31"
    using assms(1) by (auto simp: days_in_month_def split: if_splits)
  have r: "seqs [fmt_d, lit c, fmt_m, lit c, fmt_Y] =
      Seq fmt_d (Seq (lit c) (Seq fmt_m (Seq (lit c) fmt_Y)))" by simp
  have "steps (seqs [fmt_d, lit c, fmt_m, lit c, fmt_Y]) (start_at None (pad2 d @ c # pad2 m @ c # pad4 y)) =
      [RX (Some (digit_char (nat y mod 10))) [] [(3, pad4 y), (2, pad2 m), (1, pad2 d)]]"
    unfolding r start_at_def day_part [OF b(5,6) assms(2)] month_part [OF b(3,4) assms(2)]
    using year_part [of "Some c" y "[]"] by simp
  moreover have "dropWhile ascii_ws (pad2 d) = pad2 d"
    by (simp add: pad2_def Let_def ascii_ws_def)
  ultimately show ?thesis
    using b assms(1) parse_pad2 [of d] parse_pad2 [of m] parse_pad4 [of y]
    by (simp add: strptime_date_def rx_match_def group_def month_of_def day_of_def del: valid_date.simps)
qed

lemma day_part_other:
  assumes "separator c" "separator c'" "c \<noteq> c'" "0 \<le> d" "d < 100"
  shows "steps (Seq fmt_d (Seq (lit c') k)) (RX p (pad2 d @ c # rest) g) = []"
proof -
  obtain a b where ab: "pad2 d = [digit_char a, digit_char b]" "a < 10" "b < 10"
    using assms(4,5) by (rule pad2_digits)
  show ?thesis
    using ab(2,3) separator_neq [OF assms(2) ab(3)] assms(3)
    unfolding ab(1)
    by (auto simp: fmt_d_def lit_def between_def digit_def is_digit_def consumed_def digit_char_eq)
qed

lemma day_end:
  assumes "1 \<le> d" "d \<le> 31"
  shows "\<exists>q ts. steps fmt_d (RX p (pad2 d) g) = RX q [] ((1, pad2 d) # g) # ts"
proof -
  have "0 \<le> d" "d < 100" using assms by simp_all
  then obtain a b where ab: "pad2 d = [digit_char a, digit_char b]" "a < 10" "b < 10" "d = int (10 * a + b)"
    by (rule pad2_digits)
  have "a = 0 \<and> 1 \<le> b \<or> a = 1 \<or> a = 2 \<or> a = 3 \<and> b \<le> 1" using ab(3,4) assms by linarith
  then show ?thesis
    using ab(2,3) unfolding ab(1)
    by (auto simp: fmt_d_def lit_def between_def digit_def is_digit_def consumed_def digit_char_eq)
qed

lemma not_iso:
  assumes "separator c"
  shows "strptime_date DATE_FORMAT_ISO (pad2 d @ c # rest) = Inl (ValueError ''does not match format'')"
proof -
  have "steps (Rep digit 4 4) (RX p (a # b # c # rest) g) = []" for p a b g
    using assms by (simp add: digit_def numeral_eq_Suc separator_def)
  then have "steps fmt_Y (RX p (pad2 d @ c # rest) g) = []" for p g
    by (simp add: fmt_Y_def pad2_def Let_def del: steps.simps(6))
  then have "steps DATE_FORMAT_ISO (start_at None (pad2 d @ c # rest)) = []"
    by (simp add: DATE_FORMAT_ISO_def start_at_def)
  then show ?thesis by (simp add: strptime_date_def rx_match_def)
qed

lemma strptime_iso:
  assumes "valid_date (Date y m d)"
  shows "strptime_date DATE_FORMAT_ISO (pad4 y @ CHR ''-'' # pad2 m @ CHR ''-'' # pad2 d) = Inr (Date y m d)"
proof -
  have b: "1 \<le> y" "y < 10000" "1 \<le> m" "m \<le> 12" "1 \<le> d" "d \<le> 31"
    using assms(1) by (auto simp: days_in_month_def split: if_splits)
  have sep: "separator (CHR ''-'')" by (simp add: separator_def is_digit_def ascii_ws_def)
  let ?g = "[(2, pad2 m), (3, pad4 y)]"
  obtain q ts where e: "steps fmt_d (RX (Some (CHR ''-'')) (pad2 d) ?g) = RX q [] ((1, pad2 d) # ?g) # ts"
    using day_end [OF b(5,6)] by blast
  have "steps DATE_FORMAT_ISO (start_at None (pad4 y @ CHR ''-'' # pad2 m @ CHR ''-'' # pad2 d)) =
      steps (Seq fmt_m (Seq (lit (CHR ''-'')) fmt_d)) (RX (Some (CHR ''-'')) (pad2 m @ CHR ''-'' # pad2 d) [(3, pad4 y)])"
    by (simp add: DATE_FORMAT_ISO_def start_at_def year_part lit_def)
  also have "\<dots> = RX q [] ((1, pad2 d) # ?g) # ts" unfolding month_part [OF b(3,4) sep] e ..
  finally have st: "steps DATE_FORMAT_ISO (start_at None (pad4 y @ CHR ''-'' # pad2 m @ CHR ''-'' # pad2 d)) =
      RX q [] ((1, pad2 d) # ?g) # ts" .
  have "dropWhile ascii_ws (pad2 d) = pad2 d" by (simp add: pad2_def Let_def ascii_ws_def)
  then show ?thesis
    using st b assms(1) parse_pad2 [of d] parse_pad2 [of m] parse_pad4 [of y]
    by (simp add: strptime_date_def rx_match_def group_def month_of_def day_of_def del: valid_date.simps)
qed

lemma strip_digits:
  assumes "is_digit a" "is_digit b"
  shows "py_strip (a # s @ [b]) = a # s @ [b]"
  using assms by (auto simp: py_strip_def ascii_ws_def is_digit_def Let_def)

lemma strip_date: "py_strip (pad2 d @ c # pad2 m @ c # pad4 y) = pad2 d @ c # pad2 m @ c # pad4 y"
proof -
  have "\<exists>a s b. pad2 d @ c # pad2 m @ c # pad4 y = a # s @ [b] \<and> is_digit a \<and> is_digit b"
    by (intro exI [of _ "hd (pad2 d)"] exI [of _ "tl (pad2 d) @ c # pad2 m @ c # butlast (pad4 y)"]
        exI [of _ "last (pad4 y)"]) (simp add: pad2_def pad4_def Let_def)
  then show ?thesis using strip_digits by auto
qed

lemma strip_iso: "py_strip (pad4 y @ c # pad2 m @ c # pad2 d) = pad4 y @ c # pad2 m @ c # pad2 d"
proof -
  have "\<exists>a s b. pad4 y @ c # pad2 m @ c # pad2 d = a # s @ [b] \<and> is_digit a \<and> is_digit b"
    by (intro exI [of _ "hd (pad4 y)"] exI [of _ "tl (pad4 y) @ c # pad2 m @ c # butlast (pad2 d)"]
        exI [of _ "last (pad2 d)"]) (simp add: pad2_def pad4_def Let_def)
  then show ?thesis using strip_digits by auto
qed

lemma strptime_other:
  assumes "separator c" "separator c'" "c \<noteq> c'" "0 \<le> d" "d < 100"
  shows "strptime_date (seqs [fmt_d, lit c', fmt_m, lit c', fmt_Y]) (pad2 d @ c # rest) =
    Inl (ValueError ''does not match format'')"
  using day_part_other [OF assms] by (simp add: strptime_date_def rx_match_def start_at_def del: steps.simps)




section \<open>Reading amounts\<close>

lemma star_greedy:
  assumes "list_all P xs" "ys = [] \<or> \<not> P (hd ys)" "length xs \<le> k"
  shows "\<exists>ts. star_from (steps (Cls P)) k (RX p (xs @ ys) g) =
    RX (if xs = [] then p else Some (last xs)) ys g # ts"
  using assms
proof (induction xs arbitrary: k p)
  case Nil
  then show ?case by (cases k; cases ys) auto
next
  case (Cons x xs)
  then obtain k' where k: "k = Suc k'" by (cases k) auto
  obtain ts where "star_from (steps (Cls P)) k' (RX (Some x) (xs @ ys) g) =
      RX (if xs = [] then Some x else Some (last xs)) ys g # ts"
    using Cons k by fastforce
  moreover have "steps (Cls P) (RX p ((x # xs) @ ys) g) = [RX (Some x) (xs @ ys) g]" using Cons.prems(1) by simp
  ultimately show ?case unfolding k star_from.simps by (simp del: steps.simps)
qed

lemma digits_read:
  assumes "list_all is_digit ds" "ds \<noteq> []"
  shows "\<exists>t. rx_fullmatch MONEY ds = Some t \<and> group t 1 = Some ds \<and> group t 2 = None"
proof -
  obtain x xs where ds: "ds = x # xs" using assms(2) by (cases ds) auto
  obtain ts where "star_from (steps (Cls is_digit)) (length xs) (RX (Some x) (xs @ []) []) =
      RX (if xs = [] then Some x else Some (last xs)) [] [] # ts"
    using star_greedy [of is_digit xs "[]" "length xs" "Some x" "[]"] assms(1) ds by auto
  then have st: "steps (plus digit) (RX None ds []) = RX (if xs = [] then Some x else Some (last xs)) [] [] # ts"
    using assms(1) ds by (simp add: plus_def digit_def)
  have "\<exists>q us. steps MONEY (RX None ds []) = RX q [] [(1, ds)] # us"
    using st by (simp add: MONEY_def opt_def consumed_def lit_def)
  then show ?thesis by (auto simp: rx_fullmatch_def start_at_def group_def)
qed

lemma remove_all_absent: "old \<noteq> [] \<Longrightarrow> hd old \<notin> set s \<Longrightarrow> remove_all old s = s"
  by (induction old s rule: remove_all.induct) (auto simp: startswith_def neq_Nil_conv)

lemma remove_char: "remove_all [c] s = filter (\<lambda>x. x \<noteq> c) s"
  by (induction "[c]" s rule: remove_all.induct) (auto simp: startswith_def)

lemma remove_sign: "CHR 0xE2 \<notin> set s \<Longrightarrow> remove_all rupee_sign (rupee_sign @ s) = s"
  by (simp add: rupee_sign_def startswith_def) (simp add: remove_all_absent)

text \<open>Digits grouped by commas in any way.\<close>

definition grouped :: "string \<Rightarrow> bool" where
  "grouped s \<longleftrightarrow> list_all (\<lambda>c. is_digit c \<or> c = CHR '','') s \<and> list_ex is_digit s"

lemma grouped_strip:
  assumes "grouped s"
  shows "py_strip (s @ t) = s @ rev (dropWhile ascii_ws (rev t))" "py_strip s = s"
proof -
  have ws: "\<not> ascii_ws c" if "c \<in> set s" for c
    using that assms by (auto simp: grouped_def list_all_iff ascii_ws_def is_digit_def Let_def)
  have ne: "s \<noteq> []" using assms by (auto simp: grouped_def)
  have l: "dropWhile ascii_ws (s @ u) = s @ u" for u using ws ne by (cases s) auto
  have r: "dropWhile ascii_ws (u @ rev s) = dropWhile ascii_ws u @ rev s" for u
    using ws ne by (induction u) (auto simp: dropWhile_eq_self_iff neq_Nil_conv hd_rev)
  show "py_strip (s @ t) = s @ rev (dropWhile ascii_ws (rev t))" unfolding py_strip_def l using r by simp
  show "py_strip s = s" unfolding py_strip_def using l [of "[]"] r [of "[]"] by simp
qed

lemma money_clean_grouped:
  assumes "grouped s"
  shows "money_clean (rupee_sign @ s @ ''/-'') = filter is_digit s" "money_clean s = filter is_digit s"
proof -
  have ch: "c \<in> set s \<Longrightarrow> is_digit c \<or> c = CHR '',''" for c
    using assms by (auto simp: grouped_def list_all_iff)
  have no: "CHR 0xE2 \<notin> set s" "CHR ''R'' \<notin> set s" using ch by (force simp: is_digit_def)+
  have f: "filter (\<lambda>x. x \<noteq> CHR '','') s = filter is_digit s"
    using ch by (intro filter_cong) (auto simp: is_digit_def)
  have "remove_all rupee_sign (rupee_sign @ s @ ''/-'') = s @ ''/-''" using remove_sign [of "s @ ''/-''"] no by simp
  moreover have "remove_all ''Rs.'' (s @ ''/-'') = s @ ''/-''" "remove_all ''Rs'' (s @ ''/-'') = s @ ''/-''"
    using no by (simp_all add: remove_all_absent)
  moreover have "py_strip (s @ ''/-'') = s @ ''/-''"
    using grouped_strip(1) [OF assms, of "''/-''"] by (simp add: ascii_ws_def)
  moreover have "removesuffix (s @ ''/-'') ''/-'' = s" by (simp add: removesuffix_def endswith_def)
  ultimately show "money_clean (rupee_sign @ s @ ''/-'') = filter is_digit s"
    by (simp add: money_clean_def Let_def grouped_strip(2) [OF assms] remove_char f)
  have "remove_all rupee_sign s = s" "remove_all ''Rs.'' s = s" "remove_all ''Rs'' s = s"
    using no by (simp_all add: remove_all_absent rupee_sign_def)
  moreover have "removesuffix s ''/-'' = s"
  proof (cases "endswith s ''/-''")
    case True
    then have "drop (length s - 2) s = ''/-''" by (simp add: endswith_def numeral_2_eq_2)
    then have "CHR ''-'' \<in> set s" by (metis in_set_dropD list.set_intros)
    then show ?thesis using ch [of "CHR ''-''"] by (simp add: is_digit_def)
  qed (simp add: removesuffix_def)
  ultimately show "money_clean s = filter is_digit s"
    by (simp add: money_clean_def Let_def grouped_strip(2) [OF assms] remove_char f)
qed

text \<open>
  Indian amounts. Digits with commas anywhere among them, bare or between the rupee sign and
  the closing slash and hyphen, are read as that many rupees in paise: the grouping of the digits
  does not matter. Amounts of at most 4300 digits, the limit of \<open>int\<close>.
\<close>

theorem amounts_in_paise:
  assumes "grouped s" "length (filter is_digit s) \<le> 4300"
  shows "normalise_money_to_paise (rupee_sign @ s @ ''/-'') = Inr (100 * int (digits_val (filter is_digit s))) \<and>
    normalise_money_to_paise s = Inr (100 * int (digits_val (filter is_digit s)))"
proof -
  let ?ds = "filter is_digit s"
  have ds: "list_all is_digit ?ds" "?ds \<noteq> []"
    using assms(1) by (auto simp: list_all_iff grouped_def filter_empty_conv list_ex_iff)
  obtain t where t: "rx_fullmatch MONEY ?ds = Some t" "group t 1 = Some ?ds" "group t 2 = None"
    using digits_read [OF ds] by blast
  have "int_digits ?ds = Inr (int (digits_val ?ds))" using ds assms(2) by (simp add: int_digits_def parse_digits_def)
  moreover have "int_digits ''00'' = Inr 0" by code_simp
  ultimately show ?thesis
    using t by (simp add: normalise_money_to_paise_def money_clean_grouped [OF assms(1)] group_int_def)
qed

theorem amounts_in_paise_witness:
  "normalise_money_to_paise (rupee_sign @ ''7,500'' @ ''/-'') = Inr 750000"
proof -
  have "grouped ''7,500''" "length (filter is_digit ''7,500'') \<le> 4300" "filter is_digit ''7,500'' = ''7500''"
    by code_simp+
  moreover have "digits_val ''7500'' = 7500" by (simp add: digits_val_def digit_val_def)
  ultimately show ?thesis using amounts_in_paise [of "''7,500''"] by simp
qed

text \<open>A clock reading of 25 hours is accepted in the twelve-hour form.\<close>

lemma impossible_hour_accepted: "normalise_time ''25:30 pm'' = Inr (Time 13 30 0 0)"
  by code_simp

end
