(* ===== verification/CC_Extract.thy ===== *)
theory CC_Extract
  imports CC_Assess CC_Typing CC_Redact CC_Normalise
begin

text \<open>
  Stage A, \<open>src/app/extract/\<close>: the models built from the field registry
  (\<open>schema/generated.py\<close>), the schema-constrained calls (\<open>extractor.py\<close>), span grounding and the
  evidence budget (\<open>spans.py\<close>), and the loop that types, redacts, validates and stores every
  field (\<open>service.py\<close>).

  The model client is the parameter \<open>llm\<close>: from the keys of the requested model and the prompt
  it returns the fields the answer holds, or raises. The prompt template is a parameter.
\<close>

section \<open>Models of a document type (generated.py)\<close>

record field_extraction =
  fe_value_raw :: "string option"
  fe_is_absent :: bool
  fe_quoted_span :: "string option"
  fe_confidence :: rat

definition absent_extraction :: field_extraction where
  "absent_extraction = \<lparr>fe_value_raw = None, fe_is_absent = True, fe_quoted_span = None, fe_confidence = 1 / 2\<rparr>"

text \<open>
  An instance of the model over \<open>specs\<close>: one entry per field in order, a field that is not given
  gets the default.
\<close>

definition build_model :: "field_spec list \<Rightarrow> (string \<rightharpoonup> field_extraction) \<Rightarrow> (string \<times> field_extraction) list" where
  "build_model specs given =
     map (\<lambda>s. (fs_key s, case given (fs_key s) of None \<Rightarrow> absent_extraction | Some e \<Rightarrow> e)) specs"

section \<open>The extraction call (extractor.py)\<close>

definition MAX_FIELDS_PER_CALL :: nat where
  "MAX_FIELDS_PER_CALL = 25"

definition field_table_lines :: "field_spec list \<Rightarrow> string" where
  "field_table_lines specs =
     join newline (map (\<lambda>s.
       let enum_note = (case fs_enum_values s of
             None \<Rightarrow> []
           | Some vs \<Rightarrow> if vs = [] then [] else '' (one of: '' @ join '', '' vs @ '')'')
       in ''- '' @ fs_key s @ '' ['' @ fs_type s @ '']'' @ enum_note @ '': '' @ py_strip (fs_description s)) specs)"

function chunk :: "nat \<Rightarrow> 'a list \<Rightarrow> 'a list list" where
  "chunk n xs = (if n = 0 \<or> xs = [] then [] else take n xs # chunk n (drop n xs))"
  by pat_completeness auto
termination by (relation "measure (\<lambda>(_, xs). length xs)") auto

declare chunk.simps [simp del]

type_synonym llm = "string list \<Rightarrow> string \<Rightarrow> (string \<rightharpoonup> field_extraction) res"

definition call_structured ::
  "llm \<Rightarrow> string \<Rightarrow> string \<Rightarrow> string \<Rightarrow> field_spec list \<Rightarrow> (string \<times> field_extraction) list res" where
  "call_structured llm template doc_type document_text specs =
     ebind (py_format [''doc_type'' \<mapsto> doc_type, ''document_text'' \<mapsto> document_text,
              ''field_table'' \<mapsto> field_table_lines specs] template) (\<lambda>prompt.
       ebind (llm (map fs_key specs) prompt) (\<lambda>given. Inr (build_model specs given)))"

definition extract_raw_fields ::
  "llm \<Rightarrow> string \<Rightarrow> field_registry \<Rightarrow> string \<Rightarrow> string \<Rightarrow> (string \<times> field_extraction) list res" where
  "extract_raw_fields llm template reg doc_type document_text =
     (let fields = for_doc_type reg doc_type
      in if length fields \<le> MAX_FIELDS_PER_CALL
         then call_structured llm template doc_type document_text fields
         else ebind (emap (call_structured llm template doc_type document_text) (chunk MAX_FIELDS_PER_CALL fields))
           (\<lambda>parts. Inr (build_model fields (map_of (rev (concat parts))))))"

section \<open>Rows\<close>

record document_row =
  do_id :: uuid
  do_char_count :: int
  do_span_budget :: int
  do_span_used :: int

record extracted_fact = fact_row +
  xf_tenant :: uuid
  xf_value_raw :: "string option"
  xf_confidence :: rat
  xf_quoted_span :: "string option"
  xf_span_verified :: bool
  xf_span_truncated :: bool
  xf_extractor_model :: string
  xf_prompt_version :: string
  xf_run_id :: uuid

datatype extract_metric =
    FactsExtracted string string
  | SpanBudgetExhausted string
  | SpanGroundingFailures string

record extract_store =
  xs_documents :: "document_row list"
  xs_facts :: "extracted_fact list"
  xs_uuids :: nat
  xs_metrics :: "extract_metric list"

section \<open>Spans (spans.py)\<close>

definition verify_span :: "string \<Rightarrow> string \<Rightarrow> bool" where
  "verify_span quoted source_text = contains quoted source_text"

definition build_span :: "int \<Rightarrow> int \<Rightarrow> string \<Rightarrow> string \<Rightarrow> span res" where
  "build_span start stop quoted source_text =
     (let s = \<lparr>span_start = start, span_end = stop, span_quoted = quoted,
               span_verified = verify_span quoted source_text\<rparr>
      in if valid_span s then Inr s else Inl (ValueError ''span end must exceed start''))"

definition admit_span :: "uuid \<Rightarrow> int \<Rightarrow> extract_store \<Rightarrow> (extract_store \<times> bool \<times> bool) res" where
  "admit_span doc span_len db =
     (case filter (\<lambda>d. do_id d = doc) (xs_documents db) of
        [d] \<Rightarrow>
          let remaining = do_span_budget d - do_span_used d
          in if remaining \<le> 0 then Inr (db, False, True)
             else
               let admitted_len = min span_len remaining
               in Inr (db\<lparr>xs_documents := map (\<lambda>x. if do_id x = doc
                        then x\<lparr>do_span_used := do_span_used x + admitted_len\<rparr> else x) (xs_documents db)\<rparr>,
                    True, admitted_len < span_len)
      | _ \<Rightarrow> Inl NoResultFound)"

text \<open>The ids whose spans are cut, longest span first, until the rest fits.\<close>

fun truncate_loop :: "int \<Rightarrow> int \<Rightarrow> ('a \<times> int) list \<Rightarrow> 'a list" where
  "truncate_loop budget tot [] = []"
| "truncate_loop budget tot ((i, n) # xs) =
     (if tot \<le> budget then [] else i # truncate_loop budget (tot - n) xs)"

definition truncate_longest_first :: "('a \<times> int) list \<Rightarrow> int \<Rightarrow> 'a list" where
  "truncate_longest_first spans budget_remaining =
     truncate_loop budget_remaining (sum_list (map snd spans)) (sort_key (\<lambda>x. - snd x) spans)"

section \<open>The pipeline (service.py)\<close>

definition typed_value :: "string \<Rightarrow> string \<Rightarrow> fact_value res" where
  "typed_value value_type value_raw =
     (if value_type = ''date'' then ebind (normalise_date value_raw) (\<lambda>d. Inr (DateValue d))
      else if value_type = ''datetime'' then ebind (parse_full_datetime value_raw) (\<lambda>t. Inr (DateTimeValue t))
      else if value_type = ''money'' then ebind (normalise_money_to_paise value_raw) (\<lambda>p. Inr (MoneyValue p ''INR''))
      else if value_type = ''rate_bps'' then ebind (normalise_rate_to_bps value_raw) (\<lambda>b. Inr (RateValue b))
      else if value_type = ''duration_days'' then ebind (normalise_duration_days value_raw) (\<lambda>n. Inr (DaysValue n))
      else if value_type = ''integer'' then ebind (py_int_of value_raw) (\<lambda>i. Inr (IntValue i))
      else if value_type = ''boolean''
      then Inr (BoolValue (py_lower (py_strip value_raw) \<in> {''true'', ''yes'', ''1''}))
      else if value_type = ''enum'' then Inr (EnumValue (py_strip value_raw))
      else Inr (StringValue value_raw))"

text \<open>\<open>except (NormalisationError, ValueError)\<close>: such a value counts as absent.\<close>

definition value_or_absent :: "fact_value res \<Rightarrow> fact_value option res" where
  "value_or_absent r =
     (case r of
        Inr v \<Rightarrow> Inr (Some v)
      | Inl e \<Rightarrow> (case e of NormalisationError _ \<Rightarrow> Inr None | ValueError _ \<Rightarrow> Inr None | _ \<Rightarrow> Inl e))"

text \<open>The shape that \<open>ExtractedFactIn\<close> accepts.\<close>

definition valid_shape :: "bool \<Rightarrow> fact_value option \<Rightarrow> rat \<Rightarrow> bool" where
  "valid_shape is_absent v confidence \<longleftrightarrow>
     \<not> (is_absent \<and> v \<noteq> None) \<and> \<not> (\<not> is_absent \<and> v = None) \<and> 0 \<le> confidence \<and> confidence \<le> 1"

definition PROMPT_VERSION_EXTRACT :: string where
  "PROMPT_VERSION_EXTRACT = ''document_facts.v2''"

record extract_job =
  ej_document :: uuid
  ej_tenant :: uuid
  ej_loan :: uuid
  ej_doc_type :: string
  ej_text :: string
  ej_model :: string
  ej_now :: timestamp

text \<open>
  The evidence of a present value: the quoted text is kept, redacted, when it is literally in the
  document and the budget of the document is not used up.
\<close>

definition ground_span ::
  "extract_job \<Rightarrow> bool \<Rightarrow> string option \<Rightarrow> extract_store \<Rightarrow>
   (extract_store \<times> string option \<times> bool \<times> bool) res" where
  "ground_span ej exempt quoted db =
     (case quoted of
        None \<Rightarrow> Inr (db, None, False, False)
      | Some q \<Rightarrow>
          if q = [] then Inr (db, None, False, False)
          else ebind (build_span 0 (py_len q) q (ej_text ej)) (\<lambda>sp.
            if span_verified sp
            then ebind (admit_span (ej_document ej) (py_len q) db) (\<lambda>(db', admitted, truncated).
              if admitted then Inr (db', Some (fst (redact q exempt)), True, truncated)
              else Inr (db'\<lparr>xs_metrics := xs_metrics db' @ [SpanBudgetExhausted (ej_doc_type ej)]\<rparr>,
                None, False, truncated))
            else Inr (db\<lparr>xs_metrics := xs_metrics db @ [SpanGroundingFailures (ej_doc_type ej)]\<rparr>,
              None, False, False)))"

definition extract_field ::
  "(nat \<Rightarrow> uuid) \<Rightarrow> field_registry \<Rightarrow> extract_job \<Rightarrow> uuid \<Rightarrow> string \<times> field_extraction \<Rightarrow> extract_store \<Rightarrow>
   (extract_store \<times> uuid) res" where
  "extract_field gen reg ej run item db0 =
     (let (field_key, e) = item
      in ebind (field_get reg field_key) (\<lambda>spec.
         let fact_id = gen (xs_uuids db0);
             db = db0\<lparr>xs_uuids := Suc (xs_uuids db0)\<rparr>
         in ebind (case fe_value_raw e of
                     Some raw \<Rightarrow> if \<not> fe_is_absent e \<and> raw \<noteq> [] then value_or_absent (typed_value (fs_type spec) raw)
                                 else Inr None
                   | None \<Rightarrow> Inr None) (\<lambda>tv.
            let is_absent = (tv = None);
                redacted_raw = (if is_absent then None
                  else map_option (\<lambda>raw. fst (redact raw (fs_redaction_exempt spec))) (fe_value_raw e))
            in ebind (if is_absent then Inr (db, None, False, False)
                      else ground_span ej (fs_redaction_exempt spec) (fe_quoted_span e) db)
                 (\<lambda>(db1, quote, verified, truncated).
               if \<not> valid_shape is_absent tv (fe_confidence e) then Inl (ValueError ''ExtractedFactIn'')
               else
                 let row = \<lparr>fx_id = fact_id, fx_document = ej_document ej, fx_loan = ej_loan ej,
                            fx_field_key = field_key,
                            fx_value_type = (if is_absent then None else Some (fs_type spec)),
                            fx_value = map_option value_to_jsonable tv, fx_is_absent = is_absent,
                            fx_created = ej_now ej,
                            xf_tenant = ej_tenant ej, xf_value_raw = redacted_raw,
                            xf_confidence = fe_confidence e,
                            xf_quoted_span = (if is_absent then None else quote),
                            xf_span_verified = verified, xf_span_truncated = truncated,
                            xf_extractor_model = ej_model ej, xf_prompt_version = PROMPT_VERSION_EXTRACT,
                            xf_run_id = run\<rparr>
                 in Inr (db1\<lparr>xs_facts := xs_facts db1 @ [row],
                             xs_metrics := xs_metrics db1 @
                               (if is_absent then [] else [FactsExtracted (ej_doc_type ej) field_key])\<rparr>,
                         fact_id)))))"

fun extract_loop ::
  "(nat \<Rightarrow> uuid) \<Rightarrow> field_registry \<Rightarrow> extract_job \<Rightarrow> uuid \<Rightarrow> (string \<times> field_extraction) list \<Rightarrow> extract_store \<Rightarrow>
   (extract_store \<times> uuid list) res" where
  "extract_loop gen reg ej run [] db = Inr (db, [])"
| "extract_loop gen reg ej run (x # xs) db =
     ebind (extract_field gen reg ej run x db) (\<lambda>(db', i).
       ebind (extract_loop gen reg ej run xs db') (\<lambda>(db'', is). Inr (db'', i # is)))"

definition extract_document ::
  "llm \<Rightarrow> string \<Rightarrow> (nat \<Rightarrow> uuid) \<Rightarrow> field_registry \<Rightarrow> extract_job \<Rightarrow> extract_store \<Rightarrow>
   (extract_store \<times> uuid list) res" where
  "extract_document llm template gen reg ej db =
     ebind (extract_raw_fields llm template reg (ej_doc_type ej) (ej_text ej)) (\<lambda>raw.
       extract_loop gen reg ej (gen (xs_uuids db)) raw (db\<lparr>xs_uuids := Suc (xs_uuids db)\<rparr>))"

section \<open>Typing\<close>

lemma typed_value_kind:
  assumes "typed_value ty raw = Inr v" "ty \<in> set value_types" "ty \<noteq> ''time''"
  shows "fv_kind v = ty"
  using assms by (auto simp: typed_value_def value_types_def ebind_Inr_iff split: if_splits)

lemma typed_value_valid:
  assumes "typed_value ty raw = Inr v" "\<forall>t. v = DateTimeValue t \<longrightarrow> mid_range (dt_date t)"
  shows "valid_value v"
proof -
  have "valid_date d" if "v = DateValue d" for d
    using assms(1) that normalise_date_valid(1) by (auto simp: typed_value_def ebind_Inr_iff split: if_splits)
  moreover have "valid_datetime t \<and> dt_offset t \<noteq> None" if "v = DateTimeValue t" for t
  proof -
    have "parse_full_datetime raw = Inr t"
      using assms(1) that by (auto simp: typed_value_def ebind_Inr_iff split: if_splits)
    from parse_full_datetime_valid [OF this] show ?thesis by (cases t) (simp add: valid_offset_def)
  qed
  moreover have "v \<noteq> TimeValue t" for t
    using assms(1) by (auto simp: typed_value_def ebind_Inr_iff split: if_splits)
  ultimately show ?thesis using assms(2) by (cases v) auto
qed

text \<open>Only a rate too large for a float raises what the loop does not catch.\<close>

lemma typed_value_errors:
  assumes "typed_value ty raw = Inl e"
  shows "(\<exists>m. e = NormalisationError m \<or> e = ValueError m) \<or> e = OverflowError \<and> ty = ''rate_bps''"
proof -
  have c: "\<exists>m. e = NormalisationError m \<or> e = ValueError m"
    if "ebind m (\<lambda>x. Inr (f x)) = Inl e" "coerces m" for m :: "'x res" and f :: "'x \<Rightarrow> fact_value"
    using that by (cases m) (auto simp: coerces_def)
  have r: "normalise_rate_to_bps raw = Inl e" if "ebind (normalise_rate_to_bps raw) (\<lambda>b. Inr (RateValue b)) = Inl e"
    using that by (cases "normalise_rate_to_bps raw") auto
  show ?thesis
    using assms c [OF _ normalise_date_valid(2)] c [OF _ parse_full_datetime_coerces]
      c [OF _ normalise_money_coerces] c [OF _ normalise_duration_coerces] c [OF _ py_int_of_coerces]
      normalise_rate_errors [OF r]
    unfolding typed_value_def by (simp split: if_splits) blast
qed

section \<open>Spans and their budget\<close>

definition within_budget :: "extract_store \<Rightarrow> bool" where
  "within_budget db \<longleftrightarrow> (\<forall>d \<in> set (xs_documents db). 0 \<le> do_span_used d \<and> do_span_used d \<le> do_span_budget d)"

text \<open>What a step may do to the documents: charge spans to the one at hand.\<close>

definition charged :: "uuid \<Rightarrow> document_row list \<Rightarrow> document_row list \<Rightarrow> bool" where
  "charged doc ds ds' \<longleftrightarrow>
     list_all2 (\<lambda>d d'. \<exists>n \<ge> 0. d' = (if do_id d = doc then d\<lparr>do_span_used := do_span_used d + n\<rparr> else d)) ds ds'"

lemma charged_refl: "charged doc ds ds"
  unfolding charged_def by (rule list_all2_refl) (auto intro!: exI [of _ 0])

lemma charged_trans: "charged doc a b \<Longrightarrow> charged doc b c \<Longrightarrow> charged doc a c"
  unfolding charged_def
proof (erule list_all2_trans [rotated 1], assumption)
  fix x y z :: document_row
  assume "\<exists>n \<ge> 0. y = (if do_id x = doc then x\<lparr>do_span_used := do_span_used x + n\<rparr> else x)"
    and "\<exists>n \<ge> 0. z = (if do_id y = doc then y\<lparr>do_span_used := do_span_used y + n\<rparr> else y)"
  then obtain n m where nm: "0 \<le> n" "0 \<le> m" "y = (if do_id x = doc then x\<lparr>do_span_used := do_span_used x + n\<rparr> else x)"
    "z = (if do_id y = doc then y\<lparr>do_span_used := do_span_used y + m\<rparr> else y)" by blast
  then have "z = (if do_id x = doc then x\<lparr>do_span_used := do_span_used x + (n + m)\<rparr> else x)" by (simp add: add.assoc)
  then show "\<exists>n \<ge> 0. z = (if do_id x = doc then x\<lparr>do_span_used := do_span_used x + n\<rparr> else x)"
    using nm(1,2) by (metis add_nonneg_nonneg)
qed

lemma charged_ids: "charged doc ds ds' \<Longrightarrow> map do_id ds' = map do_id ds"
  unfolding charged_def by (induction rule: list_all2_induct) auto

lemma admit_span_Inr:
  assumes "admit_span doc n db = Inr (db', admitted, truncated)" "0 \<le> n"
  shows "charged doc (xs_documents db) (xs_documents db')" "within_budget db \<Longrightarrow> within_budget db'"
    "xs_facts db' = xs_facts db" "xs_uuids db' = xs_uuids db" "xs_metrics db' = xs_metrics db"
proof -
  obtain d where d: "filter (\<lambda>d. do_id d = doc) (xs_documents db) = [d]"
    using assms(1) by (auto simp: admit_span_def split: list.splits)
  let ?rem = "do_span_budget d - do_span_used d"
  have db': "db' = (if ?rem \<le> 0 then db else db\<lparr>xs_documents := map (\<lambda>x. if do_id x = doc
      then x\<lparr>do_span_used := do_span_used x + min n ?rem\<rparr> else x) (xs_documents db)\<rparr>)"
    using assms(1) d by (auto simp: admit_span_def Let_def split: if_splits)
  have only: "x = d" if "x \<in> set (xs_documents db)" "do_id x = doc" for x
  proof -
    have "x \<in> set (filter (\<lambda>d. do_id d = doc) (xs_documents db))" using that by simp
    then show ?thesis unfolding d by simp
  qed
  show "charged doc (xs_documents db) (xs_documents db')"
  proof (cases "?rem \<le> 0")
    case True
    then show ?thesis using db' charged_refl by simp
  next
    case False
    then have n: "0 \<le> min n ?rem" using assms(2) by simp
    have "xs_documents db' = map (\<lambda>x. if do_id x = doc
        then x\<lparr>do_span_used := do_span_used x + min n ?rem\<rparr> else x) (xs_documents db)"
      using False db' by simp
    then show ?thesis
      unfolding charged_def by (simp only: list_all2_map2 list_all2_same) (use n in blast)
  qed
  show "within_budget db'" if "within_budget db"
    using that db' assms(2) only by (fastforce simp: within_budget_def)
  show "xs_facts db' = xs_facts db" "xs_uuids db' = xs_uuids db" "xs_metrics db' = xs_metrics db"
    using db' by simp_all
qed

lemma ground_span_Inr:
  assumes "ground_span ej exempt quoted db = Inr (db', quote, verified, truncated)"
  shows "charged (ej_document ej) (xs_documents db) (xs_documents db')" "within_budget db \<Longrightarrow> within_budget db'"
    "xs_facts db' = xs_facts db" "xs_uuids db' = xs_uuids db"
    "verified \<longleftrightarrow> quote \<noteq> None"
    "\<And>q. quote = Some q \<Longrightarrow> \<exists>s. quoted = Some s \<and> contains s (ej_text ej) \<and> q = fst (redact s exempt)"
proof -
  have "(charged (ej_document ej) (xs_documents db) (xs_documents db') \<and> (within_budget db \<longrightarrow> within_budget db') \<and>
    xs_facts db' = xs_facts db \<and> xs_uuids db' = xs_uuids db) \<and> (verified \<longleftrightarrow> quote \<noteq> None) \<and>
    (\<forall>q. quote = Some q \<longrightarrow> (\<exists>s. quoted = Some s \<and> contains s (ej_text ej) \<and> q = fst (redact s exempt)))"
  proof (cases "quoted = None \<or> quoted = Some []")
    case True
    then show ?thesis using assms charged_refl by (auto simp: ground_span_def)
  next
    case False
    then obtain s where s: "quoted = Some s" "s \<noteq> []" by auto
    then obtain sp where sp: "build_span 0 (py_len s) s (ej_text ej) = Inr sp"
      using assms by (auto simp: ground_span_def ebind_Inr_iff)
    then have v: "span_verified sp \<longleftrightarrow> contains s (ej_text ej)"
      by (auto simp: build_span_def verify_span_def Let_def split: if_splits)
    show ?thesis
    proof (cases "span_verified sp")
      case False
      then show ?thesis using assms s sp charged_refl by (auto simp: ground_span_def within_budget_def)
    next
      case True
      then obtain db1 admitted tr where a: "admit_span (ej_document ej) (py_len s) db = Inr (db1, admitted, tr)"
        using assms s sp by (auto simp: ground_span_def ebind_Inr_iff)
      note A = admit_span_Inr [OF a py_len_nonneg]
      have "within_budget (db1\<lparr>xs_metrics := ms\<rparr>) = within_budget db1" for ms by (simp add: within_budget_def)
      then show ?thesis
        using assms s sp True a A v by (auto simp: ground_span_def split: if_splits)
    qed
  qed
  then show "charged (ej_document ej) (xs_documents db) (xs_documents db')" "within_budget db \<Longrightarrow> within_budget db'"
    "xs_facts db' = xs_facts db" "xs_uuids db' = xs_uuids db" "verified \<longleftrightarrow> quote \<noteq> None"
    "\<And>q. quote = Some q \<Longrightarrow> \<exists>s. quoted = Some s \<and> contains s (ej_text ej) \<and> q = fst (redact s exempt)"
    by blast+
qed

section \<open>Rows written\<close>

text \<open>
  What a stored row says: an absent field carries nothing, a present one a value of the declared
  type read from the text that is stored redacted, with evidence only where the quoted text is
  literally in the document.
\<close>

definition well_stored :: "field_registry \<Rightarrow> extract_job \<Rightarrow> extracted_fact \<Rightarrow> bool" where
  "well_stored reg ej r \<longleftrightarrow>
     (\<exists>spec. field_get reg (fx_field_key r) = Inr spec \<and>
        (if fx_is_absent r
         then fx_value r = None \<and> fx_value_type r = None \<and> xf_value_raw r = None \<and>
           xf_quoted_span r = None \<and> \<not> xf_span_verified r
         else fx_value_type r = Some (fs_type spec) \<and>
           (\<exists>raw v. typed_value (fs_type spec) raw = Inr v \<and> fx_value r = Some (value_to_jsonable v) \<and>
              xf_value_raw r = Some (fst (redact raw (fs_redaction_exempt spec)))) \<and>
           (xf_span_verified r \<longleftrightarrow> xf_quoted_span r \<noteq> None) \<and>
           (\<forall>q. xf_quoted_span r = Some q \<longrightarrow>
              (\<exists>s. contains s (ej_text ej) \<and> q = fst (redact s (fs_redaction_exempt spec)))))) \<and>
     fx_loan r = ej_loan ej \<and> fx_document r = ej_document ej \<and> fx_created r = ej_now ej \<and>
     0 \<le> xf_confidence r \<and> xf_confidence r \<le> 1"

lemma value_or_absent_Some: "value_or_absent r = Inr (Some v) \<longleftrightarrow> r = Inr v"
  by (auto simp: value_or_absent_def split: sum.splits exc.splits)

lemma extract_field_Inr:
  assumes "extract_field gen reg ej run (k, e) db = Inr (db', i)"
  shows "\<exists>row. xs_facts db' = xs_facts db @ [row] \<and> fx_id row = i \<and> fx_field_key row = k \<and> well_stored reg ej row"
    "charged (ej_document ej) (xs_documents db) (xs_documents db')" "within_budget db \<Longrightarrow> within_budget db'"
proof -
  obtain spec where spec: "field_get reg k = Inr spec" using assms by (auto simp: extract_field_def ebind_Inr_iff)
  let ?db = "db\<lparr>xs_uuids := Suc (xs_uuids db)\<rparr>"
  define tvr where "tvr = (case fe_value_raw e of
      Some raw \<Rightarrow> if \<not> fe_is_absent e \<and> raw \<noteq> [] then value_or_absent (typed_value (fs_type spec) raw) else Inr None
    | None \<Rightarrow> Inr None)"
  obtain tv where tv: "tvr = Inr tv"
    using assms spec by (auto simp: extract_field_def ebind_Inr_iff Let_def tvr_def)
  define gs where "gs = (if tv = None then Inr (?db, None, False, False)
      else ground_span ej (fs_redaction_exempt spec) (fe_quoted_span e) ?db)"
  obtain db1 quote verified truncated where gs: "gs = Inr (db1, quote, verified, truncated)"
    using assms spec tv unfolding extract_field_def tvr_def gs_def by (auto simp: ebind_Inr_iff Let_def)
  define row where "row = \<lparr>fx_id = gen (xs_uuids db), fx_document = ej_document ej, fx_loan = ej_loan ej,
      fx_field_key = k, fx_value_type = (if tv = None then None else Some (fs_type spec)),
      fx_value = map_option value_to_jsonable tv, fx_is_absent = (tv = None), fx_created = ej_now ej,
      xf_tenant = ej_tenant ej,
      xf_value_raw = (if tv = None then None
        else map_option (\<lambda>raw. fst (redact raw (fs_redaction_exempt spec))) (fe_value_raw e)),
      xf_confidence = fe_confidence e, xf_quoted_span = (if tv = None then None else quote),
      xf_span_verified = verified, xf_span_truncated = truncated, xf_extractor_model = ej_model ej,
      xf_prompt_version = PROMPT_VERSION_EXTRACT, xf_run_id = run\<rparr>"
  have res: "valid_shape (tv = None) tv (fe_confidence e)" "i = gen (xs_uuids db)"
      "db' = db1\<lparr>xs_facts := xs_facts db1 @ [row], xs_metrics := xs_metrics db1 @
        (if tv = None then [] else [FactsExtracted (ej_doc_type ej) k])\<rparr>"
    using assms spec tv gs unfolding extract_field_def tvr_def gs_def row_def
    by (auto simp: Let_def split: if_splits)
  have db1: "charged (ej_document ej) (xs_documents db) (xs_documents db1)" "within_budget db \<Longrightarrow> within_budget db1"
      "xs_facts db1 = xs_facts db"
    using gs ground_span_Inr(1-3) [of ej "fs_redaction_exempt spec" "fe_quoted_span e" ?db db1 quote verified truncated]
    by (auto simp: gs_def charged_refl within_budget_def split: if_splits)
  show "charged (ej_document ej) (xs_documents db) (xs_documents db')" using res(3) db1(1) by simp
  show "within_budget db'" if "within_budget db" using res(3) db1(2) [OF that] by (simp add: within_budget_def)
  have "well_stored reg ej row"
  proof (cases tv)
    case None
    then show ?thesis using spec res(1) gs by (simp add: well_stored_def row_def valid_shape_def gs_def)
  next
    case (Some v)
    then obtain raw where raw: "fe_value_raw e = Some raw" "typed_value (fs_type spec) raw = Inr v"
      using tv by (auto simp: tvr_def value_or_absent_Some split: option.splits if_splits)
    have "ground_span ej (fs_redaction_exempt spec) (fe_quoted_span e) ?db = Inr (db1, quote, verified, truncated)"
      using gs Some by (simp add: gs_def)
    from ground_span_Inr(5,6) [OF this] show ?thesis
      using spec res(1) raw Some by (auto simp: well_stored_def row_def valid_shape_def)
  qed
  then show "\<exists>row. xs_facts db' = xs_facts db @ [row] \<and> fx_id row = i \<and> fx_field_key row = k \<and> well_stored reg ej row"
    using res db1(3) by (intro exI [of _ row]) (simp add: row_def)
qed

lemma extract_loop_Inr:
  assumes "extract_loop gen reg ej run items db = Inr (db', ids)"
  shows "(\<exists>new. xs_facts db' = xs_facts db @ new \<and> map fx_id new = ids \<and>
      map fx_field_key new = map fst items \<and> (\<forall>r \<in> set new. well_stored reg ej r)) \<and>
    charged (ej_document ej) (xs_documents db) (xs_documents db') \<and> (within_budget db \<longrightarrow> within_budget db')"
  using assms
proof (induction items arbitrary: db ids)
  case Nil
  then show ?case by (simp add: charged_refl)
next
  case (Cons x xs)
  obtain k e where x: "x = (k, e)" by (cases x)
  from Cons.prems obtain db1 i js where step: "extract_field gen reg ej run (k, e) db = Inr (db1, i)"
      "extract_loop gen reg ej run xs db1 = Inr (db', js)" "ids = i # js"
    by (auto simp: ebind_Inr_iff x)
  note F = extract_field_Inr [OF step(1)]
  obtain row where row: "xs_facts db1 = xs_facts db @ [row]" "fx_id row = i" "fx_field_key row = k"
      "well_stored reg ej row"
    using F(1) by blast
  from Cons.IH [OF step(2)] obtain new where new: "xs_facts db' = xs_facts db1 @ new" "map fx_id new = js"
      "map fx_field_key new = map fst xs" "\<forall>r \<in> set new. well_stored reg ej r"
      "charged (ej_document ej) (xs_documents db1) (xs_documents db')" "within_budget db1 \<longrightarrow> within_budget db'"
    by blast
  have "xs_facts db' = xs_facts db @ (row # new) \<and> map fx_id (row # new) = ids \<and>
      map fx_field_key (row # new) = map fst (x # xs) \<and> (\<forall>r \<in> set (row # new). well_stored reg ej r)"
    using row new step(3) x by simp
  moreover have "charged (ej_document ej) (xs_documents db) (xs_documents db')"
    using F(2) new(5) by (rule charged_trans)
  ultimately show ?case using F(3) new(6) by blast
qed

lemma build_model_keys: "map fst (build_model specs given) = map fs_key specs"
  by (simp add: build_model_def)

lemma extract_raw_fields_keys:
  assumes "extract_raw_fields llm template reg dt text = Inr raw"
  shows "map fst raw = map fs_key (for_doc_type reg dt)"
  using assms build_model_keys
  by (auto simp: extract_raw_fields_def call_structured_def Let_def ebind_Inr_iff split: if_splits)

lemma extract_document_Inr:
  assumes "extract_document llm template gen reg ej db = Inr (db', ids)"
  shows "(\<exists>new. xs_facts db' = xs_facts db @ new \<and> map fx_id new = ids \<and>
      map fx_field_key new = map fs_key (for_doc_type reg (ej_doc_type ej)) \<and>
      (\<forall>r \<in> set new. well_stored reg ej r)) \<and>
    charged (ej_document ej) (xs_documents db) (xs_documents db') \<and> (within_budget db \<longrightarrow> within_budget db')"
proof -
  obtain raw where raw: "extract_raw_fields llm template reg (ej_doc_type ej) (ej_text ej) = Inr raw"
      "extract_loop gen reg ej (gen (xs_uuids db)) raw (db\<lparr>xs_uuids := Suc (xs_uuids db)\<rparr>) = Inr (db', ids)"
    using assms by (auto simp: extract_document_def ebind_Inr_iff)
  have same: "xs_facts (db\<lparr>xs_uuids := n\<rparr>) = xs_facts db" "xs_documents (db\<lparr>xs_uuids := n\<rparr>) = xs_documents db"
      "within_budget (db\<lparr>xs_uuids := n\<rparr>) = within_budget db" for n
    by (simp_all add: within_budget_def)
  show ?thesis
    using extract_loop_Inr [OF raw(2)] unfolding same extract_raw_fields_keys [OF raw(1)] .
qed

section \<open>Extraction returns\<close>

text \<open>What the response schema guarantees of a field of the answer.\<close>

definition valid_extraction :: "field_extraction \<Rightarrow> bool" where
  "valid_extraction e \<longleftrightarrow>
     0 \<le> fe_confidence e \<and> fe_confidence e \<le> 1 \<and>
     (\<forall>q. fe_quoted_span e = Some q \<longrightarrow> q = [] \<or> 0 < py_len q)"

definition llm_answers :: "llm \<Rightarrow> bool" where
  "llm_answers llm \<longleftrightarrow>
     (\<forall>keys prompt. \<exists>given. llm keys prompt = Inr given \<and> (\<forall>k e. given k = Some e \<longrightarrow> valid_extraction e))"

definition formats :: "string \<Rightarrow> bool" where
  "formats template \<longleftrightarrow>
     (\<forall>a b c. \<exists>p. py_format [''doc_type'' \<mapsto> a, ''document_text'' \<mapsto> b, ''field_table'' \<mapsto> c] template = Inr p)"

lemma absent_valid: "valid_extraction absent_extraction"
  by (simp add: valid_extraction_def absent_extraction_def)

lemma build_model_valid:
  assumes "\<forall>k e. given k = Some e \<longrightarrow> valid_extraction e"
  shows "\<forall>(k, e) \<in> set (build_model specs given). valid_extraction e"
  using assms absent_valid by (auto simp: build_model_def split: option.splits)

lemma call_structured_total:
  assumes "llm_answers llm" "formats template"
  shows "\<exists>xs. call_structured llm template dt text specs = Inr xs \<and> (\<forall>(k, e) \<in> set xs. valid_extraction e)"
proof -
  obtain p where p: "py_format [''doc_type'' \<mapsto> dt, ''document_text'' \<mapsto> text,
      ''field_table'' \<mapsto> field_table_lines specs] template = Inr p"
    using assms(2) unfolding formats_def by meson
  obtain given where g: "llm (map fs_key specs) p = Inr given" "\<forall>k e. given k = Some e \<longrightarrow> valid_extraction e"
    using assms(1) unfolding llm_answers_def by meson
  show ?thesis using p g(1) build_model_valid [OF g(2)] by (simp add: call_structured_def)
qed

lemma extract_raw_fields_total:
  assumes "llm_answers llm" "formats template"
  shows "\<exists>raw. extract_raw_fields llm template reg dt text = Inr raw \<and> (\<forall>(k, e) \<in> set raw. valid_extraction e)"
proof (cases "length (for_doc_type reg dt) \<le> MAX_FIELDS_PER_CALL")
  case True
  then show ?thesis using call_structured_total [OF assms] by (simp add: extract_raw_fields_def Let_def)
next
  case False
  let ?chunks = "chunk MAX_FIELDS_PER_CALL (for_doc_type reg dt)"
  obtain parts where parts: "emap (call_structured llm template dt text) ?chunks = Inr parts"
    using emap_total call_structured_total [OF assms] by metis
  have part: "\<forall>(k, e) \<in> set xs. valid_extraction e" if xs: "xs \<in> set parts" for xs
  proof -
    have "list_all2 (\<lambda>c y. call_structured llm template dt text c = Inr y) ?chunks parts"
      using parts by (simp only: emap_Inr_iff)
    moreover obtain i where "i < length parts" "parts ! i = xs" using xs by (auto simp: in_set_conv_nth)
    ultimately have "call_structured llm template dt text (?chunks ! i) = Inr xs"
      using list_all2_nthD2 by fastforce
    then show ?thesis using call_structured_total [OF assms, of dt "text" "?chunks ! i"] by auto
  qed
  have "valid_extraction e" if "map_of (rev (concat parts)) k = Some e" for k e
    using map_of_SomeD [OF that] part by auto
  then have "\<forall>(k, e) \<in> set (build_model (for_doc_type reg dt) (map_of (rev (concat parts)))). valid_extraction e"
    by (intro build_model_valid) blast
  then show ?thesis using False parts by (simp add: extract_raw_fields_def Let_def)
qed

lemma admit_span_total:
  assumes "length (filter (\<lambda>d. do_id d = doc) (xs_documents db)) = 1"
  shows "\<exists>r. admit_span doc n db = Inr r"
proof -
  obtain d where "filter (\<lambda>d. do_id d = doc) (xs_documents db) = [d]"
    using assms by (cases "filter (\<lambda>d. do_id d = doc) (xs_documents db)") auto
  then show ?thesis by (auto simp: admit_span_def Let_def)
qed

lemma ground_span_total:
  assumes "length (filter (\<lambda>d. do_id d = ej_document ej) (xs_documents db)) = 1"
    and "\<forall>q. quoted = Some q \<longrightarrow> q = [] \<or> 0 < py_len q"
  shows "\<exists>r. ground_span ej exempt quoted db = Inr r"
proof (cases quoted)
  case None
  then show ?thesis by (auto simp: ground_span_def)
next
  case (Some q)
  obtain r where r: "admit_span (ej_document ej) (py_len q) db = Inr r"
    using admit_span_total [OF assms(1)] by blast
  show ?thesis
    using Some assms(2) r
    by (cases r) (auto simp: ground_span_def build_span_def valid_span_def Let_def py_len_nonneg)
qed

definition has_document :: "extract_job \<Rightarrow> extract_store \<Rightarrow> bool" where
  "has_document ej db \<longleftrightarrow> length (filter (\<lambda>d. do_id d = ej_document ej) (xs_documents db)) = 1"

lemma charged_document:
  assumes "charged (ej_document ej) (xs_documents db) (xs_documents db')" "has_document ej db"
  shows "has_document ej db'"
proof -
  have eq: "length (filter (\<lambda>d. do_id d = i) ds) = length (filter (\<lambda>x. x = i) (map do_id ds))" for ds and i :: uuid
    by (simp add: filter_map o_def)
  show ?thesis using assms charged_ids [OF assms(1)] unfolding has_document_def eq by simp
qed

lemma extract_field_total:
  assumes "field_get reg k = Inr spec" "valid_extraction e" "has_document ej db"
  shows "(\<exists>r. extract_field gen reg ej run (k, e) db = Inr r) \<or>
    extract_field gen reg ej run (k, e) db = Inl OverflowError \<and> fs_type spec = ''rate_bps''"
proof -
  let ?db = "db\<lparr>xs_uuids := Suc (xs_uuids db)\<rparr>"
  define tvr where "tvr = (case fe_value_raw e of
      Some raw \<Rightarrow> if \<not> fe_is_absent e \<and> raw \<noteq> [] then value_or_absent (typed_value (fs_type spec) raw) else Inr None
    | None \<Rightarrow> Inr None)"
  have tvr: "(\<exists>tv. tvr = Inr tv) \<or> tvr = Inl OverflowError \<and> fs_type spec = ''rate_bps''"
  proof (cases "\<exists>raw. fe_value_raw e = Some raw \<and> \<not> fe_is_absent e \<and> raw \<noteq> []")
    case True
    then obtain raw where "tvr = value_or_absent (typed_value (fs_type spec) raw)" by (auto simp: tvr_def)
    then show ?thesis
      using typed_value_errors [of "fs_type spec" raw]
      by (cases "typed_value (fs_type spec) raw") (auto simp: value_or_absent_def)
  next
    case False
    then show ?thesis by (auto simp: tvr_def split: option.splits)
  qed
  have doc: "length (filter (\<lambda>d. do_id d = ej_document ej) (xs_documents ?db)) = 1"
    using assms(3) by (simp add: has_document_def)
  from tvr show ?thesis
  proof
    assume "\<exists>tv. tvr = Inr tv"
    then obtain tv where tv: "tvr = Inr tv" ..
    have "\<exists>g. (if tv = None then Inr (?db, None, False, False)
        else ground_span ej (fs_redaction_exempt spec) (fe_quoted_span e) ?db) = Inr g"
      using ground_span_total [OF doc] assms(2) by (auto simp: valid_extraction_def)
    then obtain g where g: "(if tv = None then Inr (?db, None, False, False)
        else ground_span ej (fs_redaction_exempt spec) (fe_quoted_span e) ?db) = Inr g" ..
    have "valid_shape (tv = None) tv (fe_confidence e)"
      using assms(2) by (auto simp: valid_shape_def valid_extraction_def)
    then have "\<exists>r. extract_field gen reg ej run (k, e) db = Inr r"
      using assms(1) tv g unfolding extract_field_def tvr_def by (cases g) (auto simp: Let_def)
    then show ?thesis ..
  next
    assume "tvr = Inl OverflowError \<and> fs_type spec = ''rate_bps''"
    then show ?thesis using assms(1) unfolding extract_field_def tvr_def by (simp add: Let_def)
  qed
qed

lemma extract_loop_total:
  assumes "\<forall>(k, e) \<in> set items. valid_extraction e \<and> (\<exists>spec. field_get reg k = Inr spec \<and> spec \<in> set specs)"
    and "has_document ej db"
  shows "(\<exists>r. extract_loop gen reg ej run items db = Inr r) \<or>
    extract_loop gen reg ej run items db = Inl OverflowError \<and> (\<exists>s \<in> set specs. fs_type s = ''rate_bps'')"
  using assms
proof (induction items arbitrary: db)
  case Nil
  then show ?case by simp
next
  case (Cons x xs)
  obtain k e where x: "x = (k, e)" by (cases x)
  obtain spec where spec: "field_get reg k = Inr spec" "spec \<in> set specs" "valid_extraction e"
    using Cons.prems(1) x by auto
  from extract_field_total [OF spec(1,3) Cons.prems(2), of gen run] show ?case
  proof
    assume "\<exists>r. extract_field gen reg ej run (k, e) db = Inr r"
    then obtain db1 i where f: "extract_field gen reg ej run (k, e) db = Inr (db1, i)" by auto
    have "has_document ej db1" using charged_document [OF extract_field_Inr(2) [OF f] Cons.prems(2)] .
    then have "(\<exists>r. extract_loop gen reg ej run xs db1 = Inr r) \<or>
        extract_loop gen reg ej run xs db1 = Inl OverflowError \<and> (\<exists>s \<in> set specs. fs_type s = ''rate_bps'')"
      using Cons.IH Cons.prems(1) by simp
    then show ?thesis using f x by auto
  next
    assume "extract_field gen reg ej run (k, e) db = Inl OverflowError \<and> fs_type spec = ''rate_bps''"
    then show ?thesis using x spec(2) by auto
  qed
qed

lemma shipped_for_doc_type:
  assumes "spec \<in> set (for_doc_type shipped_field_registry dt)"
  shows "field_get shipped_field_registry (fs_key spec) = Inr spec" "spec \<in> set shipped_fields"
proof -
  have s: "spec \<in> set shipped_fields" using assms by (auto simp: for_doc_type_def shipped_field_registry_eq)
  then show "spec \<in> set shipped_fields" .
  have "distinct (map fst (map (\<lambda>s. (fs_key s, s)) shipped_fields))" using shipped_keys_distinct by (simp add: o_def)
  then have "map_of (map (\<lambda>s. (fs_key s, s)) shipped_fields) (fs_key spec) = Some spec"
    by (rule map_of_is_SomeI) (use s in auto)
  then show "field_get shipped_field_registry (fs_key spec) = Inr spec"
    by (simp add: field_get_def shipped_field_registry_eq)
qed

section \<open>Properties\<close>

text \<open>The table's CHECK constraints on a row.\<close>

definition row_checks :: "extracted_fact \<Rightarrow> bool" where
  "row_checks r \<longleftrightarrow>
     (fx_is_absent r \<or> fx_value r \<noteq> None) \<and>
     (\<not> fx_is_absent r \<or> xf_value_raw r = None \<and> xf_quoted_span r = None)"

lemma well_stored_checks: "well_stored reg ej r \<Longrightarrow> row_checks r"
  by (auto simp: well_stored_def row_checks_def split: if_splits)

definition sample_registry :: field_registry where
  "sample_registry = \<lparr>fg_fields = map (\<lambda>s. (fs_key s, s))
     [field ''penal_charge_amount'' ''Penal charge amount'' ''money'' [''penal_charge_notice''] ''servicing'' [] None False []
        ''The penal charge.'',
      field ''penal_charge_basis_text'' ''Penal charge basis'' ''string'' [''penal_charge_notice''] ''servicing'' [] None False []
        ''Its basis.'',
      field ''penal_charge_capitalised_flag'' ''Capitalised'' ''boolean'' [''penal_charge_notice''] ''servicing'' [] None False []
        ''Whether it is capitalised.''], fg_duplicate_keys = []\<rparr>"

definition sample_template :: string where
  "sample_template = ''{doc_type}: {document_text} {field_table}''"

definition sample_llm :: llm where
  "sample_llm keys prompt =
     Inr [''penal_charge_amount'' \<mapsto>
            \<lparr>fe_value_raw = Some ''Rs. 1,500'', fe_is_absent = False,
             fe_quoted_span = Some ''charge of Rs. 1,500'', fe_confidence = 9 / 10\<rparr>,
          ''penal_charge_basis_text'' \<mapsto>
            \<lparr>fe_value_raw = Some ''ask 9876543210'', fe_is_absent = False,
             fe_quoted_span = Some ''not in the text'', fe_confidence = 4 / 5\<rparr>]"

definition sample_extraction :: extract_job where
  "sample_extraction =
     \<lparr>ej_document = 3, ej_tenant = 5, ej_loan = 7, ej_doc_type = ''penal_charge_notice'',
      ej_text = ''A charge of Rs. 1,500 applies'', ej_model = ''m'', ej_now = 0\<rparr>"

definition sample_facts_store :: extract_store where
  "sample_facts_store =
     \<lparr>xs_documents = [\<lparr>do_id = 3, do_char_count = 29, do_span_budget = 10, do_span_used = 0\<rparr>],
      xs_facts = [], xs_uuids = 20, xs_metrics = []\<rparr>"

text \<open>The rows of the sample: the amount, the redacted text, an absent flag.\<close>

definition sample_extracted :: "(string \<times> json_obj option \<times> string option \<times> string option \<times> bool) list" where
  "sample_extracted =
     [(''penal_charge_amount'', Some [(''kind'', JStr ''money''), (''paise'', JInt 150000), (''currency'', JStr ''INR'')],
         Some ''Rs. 1,500'', Some ''charge of Rs. 1,500'', True),
      (''penal_charge_basis_text'', Some [(''kind'', JStr ''string''), (''v'', JStr ''ask 9876543210'')],
         Some ''ask [REDACTED:PHONE]'', None, False),
      (''penal_charge_capitalised_flag'', None, None, None, False)]"

lemma sample_run:
  "case extract_document sample_llm sample_template id sample_registry sample_extraction sample_facts_store of
     Inl e \<Rightarrow> False
   | Inr (db, ids) \<Rightarrow>
       map (\<lambda>r. (fx_field_key r, fx_value r, xf_value_raw r, xf_quoted_span r, xf_span_truncated r)) (xs_facts db) =
         sample_extracted \<and>
       ids = [21, 22, 23] \<and> map do_span_used (xs_documents db) = [10] \<and> list_all row_checks (xs_facts db)"
  by code_simp

lemma sample_returns:
  obtains db ids where
    "extract_document sample_llm sample_template id sample_registry sample_extraction sample_facts_store = Inr (db, ids)"
    "map (\<lambda>r. (fx_field_key r, fx_value r, xf_value_raw r, xf_quoted_span r, xf_span_truncated r)) (xs_facts db) =
       sample_extracted"
    "ids = [21, 22, 23]" "map do_span_used (xs_documents db) = [10]"
  using sample_run by (cases "extract_document sample_llm sample_template id sample_registry sample_extraction
      sample_facts_store") auto

lemma sample_within_budget: "within_budget sample_facts_store"
  by (simp add: within_budget_def sample_facts_store_def)

text \<open>
  C19: What extraction stores. When \<open>extract_document\<close> returns, it has appended one row per field
  the registry declares for the document's type, in the registry's order, whose ids it returns;
  every row satisfies the table's CHECK constraints; an absent field carries no value, type, raw
  text or evidence; a present one carries the declared type, the value its raw text reads as, and
  evidence only where the quoted text is literally part of the document.
\<close>

theorem extracted_rows:
  assumes "extract_document llm template gen reg ej db = Inr (db', ids)"
  shows "\<exists>new. xs_facts db' = xs_facts db @ new \<and> map fx_id new = ids \<and>
    map fx_field_key new = map fs_key (for_doc_type reg (ej_doc_type ej)) \<and>
    (\<forall>r \<in> set new. row_checks r \<and> well_stored reg ej r)"
  using extract_document_Inr [OF assms] well_stored_checks by blast

theorem extracted_rows_witness:
  "\<exists>db ids new. extract_document sample_llm sample_template id sample_registry sample_extraction sample_facts_store =
      Inr (db, ids) \<and> map fx_id new = [21, 22, 23] \<and> list_all (well_stored sample_registry sample_extraction) new"
proof -
  obtain db ids where run:
      "extract_document sample_llm sample_template id sample_registry sample_extraction sample_facts_store = Inr (db, ids)"
      "ids = [21, 22, 23]"
    by (rule sample_returns)
  obtain new where "map fx_id new = ids" "\<forall>r \<in> set new. well_stored sample_registry sample_extraction r"
    using extracted_rows [OF run(1)] by metis
  then show ?thesis using run by (intro exI [of _ db] exI [of _ ids] exI [of _ new]) (simp add: list_all_iff)
qed

text \<open>
  C20: No identifier is stored in the text of an extracted fact. In the raw value and in the quoted
  evidence of every row written for a field that is not exempt, none of the redaction patterns
  matches anywhere.
\<close>

theorem stored_text_redacted:
  assumes "extract_document llm template gen reg ej db = Inr (db', ids)"
    and "r \<in> set (drop (length (xs_facts db)) (xs_facts db'))"
    and "field_get reg (fx_field_key r) = Inr spec" "\<not> fs_redaction_exempt spec"
    and "xf_value_raw r = Some s \<or> xf_quoted_span r = Some s"
  shows "\<forall>(tag, p) \<in> set PATTERNS. rx_search p None s = None"
proof -
  have "well_stored reg ej r" using extract_document_Inr [OF assms(1)] assms(2) by auto
  then obtain t where "s = fst (redact t False)"
    using assms(3-5) by (auto simp: well_stored_def split: if_splits)
  then show ?thesis using redact_clean [of t] by simp
qed

theorem stored_text_redacted_witness:
  "list_all (\<lambda>(tag, p). rx_search p None ''ask [REDACTED:PHONE]'' = None) PATTERNS"
proof -
  obtain db ids where run:
      "extract_document sample_llm sample_template id sample_registry sample_extraction sample_facts_store = Inr (db, ids)"
      "map (\<lambda>r. (fx_field_key r, fx_value r, xf_value_raw r, xf_quoted_span r, xf_span_truncated r)) (xs_facts db) =
         sample_extracted"
    by (rule sample_returns)
  have len: "length (xs_facts db) = 3" using arg_cong [OF run(2), of length] by (simp add: sample_extracted_def)
  let ?r = "xs_facts db ! 1"
  have "fx_field_key ?r = ''penal_charge_basis_text''" "xf_value_raw ?r = Some ''ask [REDACTED:PHONE]''"
    using arg_cong [OF run(2), of "\<lambda>l. l ! 1"] len by (simp_all add: sample_extracted_def)
  moreover have "?r \<in> set (xs_facts db)" using len by simp
  moreover have "xs_facts sample_facts_store = []" by (simp add: sample_facts_store_def)
  moreover obtain spec where "field_get sample_registry ''penal_charge_basis_text'' = Inr spec"
      "\<not> fs_redaction_exempt spec"
    by (auto simp: field_get_def sample_registry_def field_def)
  ultimately show ?thesis using stored_text_redacted [OF run(1), of ?r spec "''ask [REDACTED:PHONE]''"]
    by (simp add: list_all_iff)
qed

text \<open>
  Evidence stays within its budget. Extraction only raises \<open>span_used\<close>, only of the document at
  hand, and never past the document's budget; every other column and every other document is
  left as it was.
\<close>

theorem span_budget:
  assumes "extract_document llm template gen reg ej db = Inr (db', ids)" "within_budget db"
  shows "within_budget db' \<and> list_all2 (\<lambda>d d'. do_span_used d \<le> do_span_used d' \<and>
      d'\<lparr>do_span_used := do_span_used d\<rparr> = d \<and> (do_id d \<noteq> ej_document ej \<longrightarrow> d' = d))
    (xs_documents db) (xs_documents db')"
proof
  show "within_budget db'" using extract_document_Inr [OF assms(1)] assms(2) by blast
  have "charged (ej_document ej) (xs_documents db) (xs_documents db')"
    using extract_document_Inr [OF assms(1)] by blast
  then show "list_all2 (\<lambda>d d'. do_span_used d \<le> do_span_used d' \<and> d'\<lparr>do_span_used := do_span_used d\<rparr> = d \<and>
      (do_id d \<noteq> ej_document ej \<longrightarrow> d' = d)) (xs_documents db) (xs_documents db')"
    unfolding charged_def by (rule list_all2_mono) auto
qed

theorem span_budget_witness:
  "\<exists>db ids. extract_document sample_llm sample_template id sample_registry sample_extraction sample_facts_store =
      Inr (db, ids) \<and> within_budget db \<and> map do_span_used (xs_documents db) = [10]"
proof -
  obtain db ids where run:
      "extract_document sample_llm sample_template id sample_registry sample_extraction sample_facts_store = Inr (db, ids)"
      "map do_span_used (xs_documents db) = [10]"
    by (rule sample_returns)
  have "within_budget db" using span_budget [OF run(1) sample_within_budget] ..
  with run show ?thesis by (intro exI [of _ db] exI [of _ ids]) simp
qed

lemma extract_document_total:
  assumes "llm_answers llm" "formats template" "has_document ej db"
  shows "(\<exists>db' ids. extract_document llm template gen shipped_field_registry ej db = Inr (db', ids)) \<or>
    extract_document llm template gen shipped_field_registry ej db = Inl OverflowError \<and>
    (\<exists>s \<in> set (for_doc_type shipped_field_registry (ej_doc_type ej)). fs_type s = ''rate_bps'')"
proof -
  let ?specs = "for_doc_type shipped_field_registry (ej_doc_type ej)"
  obtain raw where raw: "extract_raw_fields llm template shipped_field_registry (ej_doc_type ej) (ej_text ej) = Inr raw"
      "\<forall>(k, e) \<in> set raw. valid_extraction e"
    using extract_raw_fields_total [OF assms(1,2)] by metis
  have "\<exists>spec. field_get shipped_field_registry k = Inr spec \<and> spec \<in> set ?specs" if "(k, e) \<in> set raw" for k e
  proof -
    have "k \<in> set (map fs_key ?specs)"
      using that unfolding extract_raw_fields_keys [OF raw(1), symmetric] by force
    then show ?thesis using shipped_for_doc_type(1) by auto
  qed
  then have items: "\<forall>(k, e) \<in> set raw. valid_extraction e \<and>
      (\<exists>spec. field_get shipped_field_registry k = Inr spec \<and> spec \<in> set ?specs)"
    using raw(2) by auto
  have "has_document ej (db\<lparr>xs_uuids := Suc (xs_uuids db)\<rparr>)" using assms(3) by (simp add: has_document_def)
  from extract_loop_total [OF items this, of gen "gen (xs_uuids db)"] show ?thesis
    using raw(1) by (auto simp: extract_document_def)
qed


lemma sample_llm_answers: "llm_answers sample_llm"
  by (auto simp: llm_answers_def sample_llm_def valid_extraction_def py_len_def is_continuation_def)

lemma sample_formats: "formats sample_template"
  by (simp add: formats_def sample_template_def)

lemma sample_has_document: "has_document sample_extraction sample_facts_store"
  by (simp add: has_document_def sample_extraction_def sample_facts_store_def)

lemma sample_field_types:
  "list_all (\<lambda>s. ''penal_charge_notice'' \<in> set (fs_doc_types s) \<longrightarrow> fs_type s \<notin> {''rate_bps'', ''datetime''})
     shipped_fields"
  by code_simp

lemma sample_spec_types:
  assumes "s \<in> set (for_doc_type shipped_field_registry (ej_doc_type sample_extraction))"
  shows "fs_type s \<noteq> ''rate_bps''" "fs_type s \<noteq> ''datetime''"
  using sample_field_types assms
  by (auto simp: for_doc_type_def shipped_field_registry_eq sample_extraction_def list_all_iff)


section \<open>From extraction to the rules\<close>

lemma shipped_types: "list_all (\<lambda>s. fs_type s \<in> set value_types \<and> fs_type s \<noteq> ''time'') shipped_fields"
  by code_simp

lemma declared_type_shipped:
  assumes "field_get shipped_field_registry k = Inr spec"
  shows "declared_type k = Some (fs_type spec)" "fs_type spec \<in> set value_types" "fs_type spec \<noteq> ''time''"
proof -
  have m: "map_of (fg_fields shipped_field_registry) k = Some spec"
    using assms by (auto simp: field_get_def split: option.splits)
  then show "declared_type k = Some (fs_type spec)" by (simp add: declared_type_def)
  have "spec \<in> set shipped_fields" using map_of_SomeD [OF m] by (auto simp: shipped_field_registry_eq)
  then show "fs_type spec \<in> set value_types" "fs_type spec \<noteq> ''time''"
    using shipped_types by (auto simp: list_all_iff)
qed

text \<open>A timestamp in the first or last days of the calendar cannot be moved to another zone.\<close>

definition zone_safe :: "extracted_fact \<Rightarrow> bool" where
  "zone_safe r \<longleftrightarrow> (\<forall>t. fx_value r = Some (value_to_jsonable (DateTimeValue t)) \<longrightarrow> mid_range (dt_date t))"

lemma well_stored_conforms:
  assumes "well_stored shipped_field_registry ej r" "\<not> fx_is_absent r" "zone_safe r"
  shows "\<exists>v. fx_value r = Some (value_to_jsonable v) \<and> valid_value v \<and> declared_type (fx_field_key r) = Some (fv_kind v)"
proof -
  obtain spec raw v where s: "field_get shipped_field_registry (fx_field_key r) = Inr spec"
      "typed_value (fs_type spec) raw = Inr v" "fx_value r = Some (value_to_jsonable v)"
    using assms(1,2) by (auto simp: well_stored_def)
  have "valid_value v" using assms(3) s(3) by (intro typed_value_valid [OF s(2)]) (auto simp: zone_safe_def)
  moreover have "fv_kind v = fs_type spec" using typed_value_kind [OF s(2)] declared_type_shipped [OF s(1)] by simp
  ultimately show ?thesis using s(3) declared_type_shipped(1) [OF s(1)] by auto
qed

lemma kind_of_jsonable: "map_of (value_to_jsonable v) ''kind'' = Some (JStr (fv_kind v))"
  by (cases v) simp_all

lemma well_stored_kind:
  assumes "well_stored shipped_field_registry ej r" "field_get shipped_field_registry (fx_field_key r) = Inr spec"
    and "fx_value r = Some (value_to_jsonable v)"
  shows "fv_kind v = fs_type spec"
proof -
  obtain raw w where w: "typed_value (fs_type spec) raw = Inr w" "fx_value r = Some (value_to_jsonable w)"
    using assms by (auto simp: well_stored_def split: if_splits)
  have "fv_kind w = fs_type spec" using typed_value_kind [OF w(1)] declared_type_shipped [OF assms(2)] by simp
  moreover have "value_to_jsonable v = value_to_jsonable w" using w(2) assms(3) by simp
  ultimately show ?thesis using kind_of_jsonable [of v] kind_of_jsonable [of w] by simp
qed



end
