(* ===== verification/CC_Client.thy ===== *)
theory CC_Client
  imports CC_Assess CC_Float
begin

text \<open>
  The model client, \<open>src/app/llm/\<close>: the schema shown to the provider and the circuit breaker of
  \<open>client.py\<close>, its \<open>complete\<close>, \<open>structured\<close> and \<open>embed\<close>, \<open>parse_or_repair\<close> of \<open>structured.py\<close> and
  \<open>route\<close> of \<open>routing.py\<close>.

  The provider behind LiteLLM is a parameter: \<open>le_api\<close> gives the answer or the exception of the
  \<open>n\<close>-th request. \<open>time.monotonic()\<close> is the parameter \<open>le_clock\<close>, its \<open>n\<close>-th reading in seconds;
  differences of readings are rounded as floats are. A pydantic model is its name, its JSON
  schema and the validation of a string. What changes even when a call raises, the breakers and
  the call log, is returned beside the result.
\<close>

section \<open>JSON schemas (\_inline\_refs)\<close>

datatype js =
    SNull
  | SBool bool
  | SNum rat
  | SStr string
  | SList "js list"
  | SObj "(string \<times> js) list"

definition SCHEMA_KEYS_DROPPED_FOR_GENERATION :: "string list" where
  "SCHEMA_KEYS_DROPPED_FOR_GENERATION =
     [''$defs'', ''minimum'', ''maximum'', ''exclusiveMinimum'', ''exclusiveMaximum'', ''description'', ''title'']"

definition ref_of :: "(string \<times> js) list \<Rightarrow> string option res" where
  "ref_of kvs =
     (case map_of kvs ''$ref'' of
        None \<Rightarrow> Inr None
      | Some SNull \<Rightarrow> Inr None
      | Some (SStr ref) \<Rightarrow> Inr (Some ref)
      | Some _ \<Rightarrow> Inl (AttributeError ''rsplit''))"

text \<open>\<open>b.get("type")\<close>, which only a dict answers.\<close>

definition type_of_branch :: "js \<Rightarrow> js option res" where
  "type_of_branch b = (case b of SObj kvs \<Rightarrow> Inr (map_of kvs ''type'') | _ \<Rightarrow> Inl (AttributeError ''get''))"

text \<open>
  \<open>X | None\<close> as one schema: when \<open>anyOf\<close> has two branches and exactly one is null, the other one
  with the flag \<open>nullable\<close> and the default.
\<close>

definition collapse_optional :: "(string \<times> js) list \<Rightarrow> (string \<times> js) list option res" where
  "collapse_optional kvs =
     (case map_of kvs ''anyOf'' of
        Some (SList [a, b]) \<Rightarrow>
          ebind (type_of_branch a) (\<lambda>ta. ebind (type_of_branch b) (\<lambda>tb.
            let non_null = (if ta \<noteq> Some (SStr ''null'') then [a] else []) @
                           (if tb \<noteq> Some (SStr ''null'') then [b] else []);
                has_null = (ta = Some (SStr ''null'') \<or> tb = Some (SStr ''null''))
            in Inr (case non_null of
                 [SObj branch] \<Rightarrow>
                   if has_null
                   then let collapsed = alist_put ''nullable'' (SBool True) branch
                        in Some (case map_of kvs ''default'' of
                             None \<Rightarrow> collapsed | Some d \<Rightarrow> alist_put ''default'' d collapsed)
                   else None
               | _ \<Rightarrow> None)))
      | _ \<Rightarrow> Inr None)"

definition after_last_slash :: "string \<Rightarrow> string" where
  "after_last_slash s = rev (takeWhile (\<lambda>c. c \<noteq> CHR ''/'') (rev s))"

definition kept_items :: "(string \<times> js) list \<Rightarrow> (string \<times> js) list" where
  "kept_items kvs = filter (\<lambda>(k, v). k \<notin> set SCHEMA_KEYS_DROPPED_FOR_GENERATION) kvs"

text \<open>The first argument is the depth that the interpreter's recursion limit leaves.\<close>

fun inline_refs :: "nat \<Rightarrow> (string \<rightharpoonup> js) \<Rightarrow> js \<Rightarrow> js res" where
  "inline_refs 0 defs node = Inl RecursionError"
| "inline_refs (Suc n) defs node =
     (case node of
        SObj kvs \<Rightarrow>
          ebind (ref_of kvs) (\<lambda>ref.
            case ref of
              Some r \<Rightarrow>
                (case defs (after_last_slash r) of
                   None \<Rightarrow> Inl (KeyError (after_last_slash r))
                 | Some body \<Rightarrow> inline_refs n defs body)
            | None \<Rightarrow>
                ebind (collapse_optional kvs) (\<lambda>c.
                  case c of
                    Some collapsed \<Rightarrow> inline_refs n defs (SObj collapsed)
                  | None \<Rightarrow>
                      ebind (emap (\<lambda>(k, v). ebind (inline_refs n defs v) (\<lambda>w. Inr (k, w))) (kept_items kvs))
                        (\<lambda>items. Inr (SObj items))))
      | SList items \<Rightarrow> ebind (emap (inline_refs n defs) items) (\<lambda>xs. Inr (SList xs))
      | _ \<Rightarrow> Inr node)"

record 'm model_cls =
  mc_name :: string
  mc_schema :: "(string \<times> js) list"
  mc_validate :: "string \<Rightarrow> string + 'm"

definition schema_defs :: "(string \<times> js) list \<Rightarrow> (string \<rightharpoonup> js)" where
  "schema_defs schema = (case map_of schema ''$defs'' of Some (SObj ds) \<Rightarrow> map_of ds | _ \<Rightarrow> Map.empty)"

definition inlined_json_schema :: "nat \<Rightarrow> 'm model_cls \<Rightarrow> js res" where
  "inlined_json_schema limit mc = inline_refs limit (schema_defs (mc_schema mc)) (SObj (mc_schema mc))"

section \<open>The circuit breaker\<close>

record circuit_breaker =
  cb_fail_threshold :: int
  cb_reset_s :: int
  cb_consecutive_failures :: int
  cb_opened_at :: "rat option"

definition new_breaker :: "int \<Rightarrow> int \<Rightarrow> circuit_breaker" where
  "new_breaker fail_threshold reset_s =
     \<lparr>cb_fail_threshold = fail_threshold, cb_reset_s = reset_s, cb_consecutive_failures = 0, cb_opened_at = None\<rparr>"

definition is_open_at :: "rat \<Rightarrow> circuit_breaker \<Rightarrow> bool" where
  "is_open_at now b =
     (case cb_opened_at b of None \<Rightarrow> False | Some t \<Rightarrow> fl (now - t) < of_int (cb_reset_s b))"

definition record_success :: "circuit_breaker \<Rightarrow> circuit_breaker" where
  "record_success b = b\<lparr>cb_consecutive_failures := 0, cb_opened_at := None\<rparr>"

definition record_failure :: "rat \<Rightarrow> circuit_breaker \<Rightarrow> circuit_breaker" where
  "record_failure now b =
     (let b' = b\<lparr>cb_consecutive_failures := cb_consecutive_failures b + 1\<rparr>
      in if cb_consecutive_failures b' \<ge> cb_fail_threshold b' then b'\<lparr>cb_opened_at := Some now\<rparr> else b')"

section \<open>The client\<close>

record llm_record = call_record +
  lr_provider :: string
  lr_stage :: string
  lr_outcome :: string

datatype api_error =
    Timeout string
  | RateLimitError string
  | ServiceUnavailableError string
  | APIConnectionError string
  | ProviderError string
  | BadRequestError string
  | OtherError exc

record api_request =
  rq_model :: string
  rq_messages :: "(string \<times> string) list"
  rq_stage :: string
  rq_adapter_id :: "string option"
  rq_response_format :: "js option"

record api_response =
  rs_choices :: "string list"
  rs_usage :: "(int option \<times> int option) option"

datatype llm_metric =
    LlmCalls string string string string
  | LlmDuration string string string rat
  | LlmTokens string string string string int
  | LlmCost string string string rat
  | BreakerState string int

record llm_env =
  le_clock :: "nat \<Rightarrow> rat"
  le_api :: "nat \<Rightarrow> api_request \<Rightarrow> api_error + api_response"
  le_cost :: "api_response \<Rightarrow> rat option"
  le_fail_threshold :: int
  le_reset_s :: int

record client =
  lc_breakers :: "string \<rightharpoonup> circuit_breaker"
  lc_call_log :: "llm_record list"
  lc_metrics :: "llm_metric list"
  lc_readings :: nat
  lc_requests :: nat

definition new_client :: client where
  "new_client = \<lparr>lc_breakers = Map.empty, lc_call_log = [], lc_metrics = [], lc_readings = 0, lc_requests = 0\<rparr>"

definition provider_of :: "string \<Rightarrow> string" where
  "provider_of model = (if CHR ''/'' \<in> set model then takeWhile (\<lambda>c. c \<noteq> CHR ''/'') model else ''unknown'')"

text \<open>A reading of the monotonic clock.\<close>

definition now_of :: "llm_env \<Rightarrow> client \<Rightarrow> rat" where
  "now_of env c = le_clock env (lc_readings c)"

definition tick :: "client \<Rightarrow> client" where
  "tick c = c\<lparr>lc_readings := Suc (lc_readings c)\<rparr>"

definition breaker_for :: "llm_env \<Rightarrow> string \<Rightarrow> client \<Rightarrow> client \<times> circuit_breaker" where
  "breaker_for env provider c =
     (case lc_breakers c provider of
        Some b \<Rightarrow> (c, b)
      | None \<Rightarrow>
          let b = new_breaker (le_fail_threshold env) (le_reset_s env)
          in (c\<lparr>lc_breakers := (lc_breakers c)(provider \<mapsto> b)\<rparr>, b))"

text \<open>\<open>is_open\<close> reads the clock only when the breaker has been opened.\<close>

definition breaker_is_open :: "llm_env \<Rightarrow> circuit_breaker \<Rightarrow> client \<Rightarrow> client \<times> bool" where
  "breaker_is_open env b c = (if cb_opened_at b = None then (c, False) else (tick c, is_open_at (now_of env c) b))"

definition record_metrics :: "llm_record \<Rightarrow> client \<Rightarrow> client" where
  "record_metrics r c =
     (let p = lr_provider r; m = cr_model r; s = lr_stage r
      in c\<lparr>lc_metrics := lc_metrics c @
             [LlmCalls p m s (lr_outcome r), LlmDuration p m s (float_div (of_int (cr_wall_clock_ms r)) 1000)] @
             (if lr_outcome r = ''success''
              then [LlmTokens p m s ''in'' (cr_tokens_in r), LlmTokens p m s ''out'' (cr_tokens_out r),
                    LlmCost p m s (cr_cost_usd r)]
              else [])\<rparr>)"

definition log_call :: "llm_record \<Rightarrow> client \<Rightarrow> client" where
  "log_call r c = record_metrics r (c\<lparr>lc_call_log := lc_call_log c @ [r]\<rparr>)"

definition set_gauge :: "string \<Rightarrow> int \<Rightarrow> client \<Rightarrow> client" where
  "set_gauge provider v c = c\<lparr>lc_metrics := lc_metrics c @ [BreakerState provider v]\<rparr>"

definition wall_clock_ms :: "rat \<Rightarrow> rat \<Rightarrow> int" where
  "wall_clock_ms now start = (let d = float_mul (fl (now - start)) 1000 in if 0 \<le> d then \<lfloor>d\<rfloor> else \<lceil>d\<rceil>)"

definition call_record_of :: "api_request \<Rightarrow> string \<Rightarrow> int \<Rightarrow> int \<Rightarrow> int \<Rightarrow> rat \<Rightarrow> llm_record" where
  "call_record_of rq outcome ms tokens_in tokens_out cost =
     \<lparr>cr_model = rq_model rq, cr_adapter_id = rq_adapter_id rq, cr_tokens_in = tokens_in,
      cr_tokens_out = tokens_out, cr_cost_usd = cost, cr_wall_clock_ms = ms,
      lr_provider = provider_of (rq_model rq), lr_stage = rq_stage rq, lr_outcome = outcome\<rparr>"

text \<open>\<open>complete\<close> up to the request: the breaker is looked up or made, and asked.\<close>

definition complete_begin :: "llm_env \<Rightarrow> api_request \<Rightarrow> client \<Rightarrow> client \<times> rat res" where
  "complete_begin env rq c =
     (let provider = provider_of (rq_model rq);
          (c1, b) = breaker_for env provider c;
          (c2, opened) = breaker_is_open env b c1
      in if opened then (c2, Inl (TransientLLMError (''circuit open for provider '' @ provider)))
         else (tick c2, Inr (now_of env c2)))"

definition error_of :: "api_error \<Rightarrow> bool \<times> exc" where
  "error_of e =
     (case e of
        Timeout m \<Rightarrow> (True, TransientLLMError m)
      | RateLimitError m \<Rightarrow> (True, TransientLLMError m)
      | ServiceUnavailableError m \<Rightarrow> (True, TransientLLMError m)
      | APIConnectionError m \<Rightarrow> (True, TransientLLMError m)
      | ProviderError m \<Rightarrow> (False, PermanentLLMError m)
      | BadRequestError m \<Rightarrow> (False, PermanentLLMError m)
      | OtherError x \<Rightarrow> (False, x))"

definition is_other :: "api_error \<Rightarrow> bool" where
  "is_other e = (case e of OtherError _ \<Rightarrow> True | _ \<Rightarrow> False)"

definition update_breaker :: "string \<Rightarrow> (circuit_breaker \<Rightarrow> circuit_breaker) \<Rightarrow> client \<Rightarrow> client" where
  "update_breaker provider f c =
     c\<lparr>lc_breakers := (lc_breakers c)(provider := map_option f (lc_breakers c provider))\<rparr>"

text \<open>\<open>complete\<close> from the answer on.\<close>

definition complete_end ::
  "llm_env \<Rightarrow> api_request \<Rightarrow> rat \<Rightarrow> api_error + api_response \<Rightarrow> client \<Rightarrow> client \<times> (string \<times> llm_record) res" where
  "complete_end env rq start outcome c =
     (let provider = provider_of (rq_model rq)
      in case outcome of
           Inl e \<Rightarrow>
             if is_other e then (c, Inl (snd (error_of e)))
             else if fst (error_of e)
             then
               let c1 = tick (update_breaker provider (record_failure (now_of env c)) c);
                   c2 = log_call (call_record_of rq ''transient_error'' (wall_clock_ms (now_of env c1) start) 0 0 0) (tick c1);
                   (c3, opened) = (case lc_breakers c2 provider of None \<Rightarrow> (c2, False) | Some b \<Rightarrow> breaker_is_open env b c2)
               in (set_gauge provider (if opened then 1 else 0) c3, Inl (snd (error_of e)))
             else
               (log_call (call_record_of rq ''permanent_error'' (wall_clock_ms (now_of env c) start) 0 0 0) (tick c),
                Inl (snd (error_of e)))
         | Inr resp \<Rightarrow>
             let c1 = update_breaker provider record_success c;
                 ms = wall_clock_ms (now_of env c1) start;
                 (tin, tout) = (case rs_usage resp of None \<Rightarrow> (None, None) | Some u \<Rightarrow> u);
                 r = call_record_of rq ''success'' ms (case tin of None \<Rightarrow> 0 | Some n \<Rightarrow> n)
                       (case tout of None \<Rightarrow> 0 | Some n \<Rightarrow> n)
                       (case le_cost env resp of None \<Rightarrow> 0 | Some x \<Rightarrow> x)
             in (set_gauge provider 0 (log_call r (tick c1)),
                 case rs_choices resp of [] \<Rightarrow> Inl IndexError | content # _ \<Rightarrow> Inr (content, r)))"

definition llm_complete :: "llm_env \<Rightarrow> api_request \<Rightarrow> client \<Rightarrow> client \<times> (string \<times> llm_record) res" where
  "llm_complete env rq c =
     (let (c1, started) = complete_begin env rq c
      in case started of
           Inl e \<Rightarrow> (c1, Inl e)
         | Inr start \<Rightarrow>
             complete_end env rq start (le_api env (lc_requests c1) rq) (c1\<lparr>lc_requests := Suc (lc_requests c1)\<rparr>))"

section \<open>Structured output\<close>

definition parse_or_repair ::
  "'m model_cls \<Rightarrow> (string \<Rightarrow> string \<Rightarrow> string res) option \<Rightarrow> string \<Rightarrow> 'm res" where
  "parse_or_repair mc repair_fn raw =
     (case mc_validate mc raw of
        Inr m \<Rightarrow> Inr m
      | Inl first_error \<Rightarrow>
          (case repair_fn of
             None \<Rightarrow> Inl (StructuredOutputError (''invalid structured output, no repair attempted: '' @ first_error))
           | Some repair \<Rightarrow>
               ebind (repair raw first_error) (\<lambda>repaired.
                 case mc_validate mc repaired of
                   Inr m \<Rightarrow> Inr m
                 | Inl second_error \<Rightarrow>
                     Inl (StructuredOutputError (''invalid structured output after one repair attempt: '' @ second_error)))))"

definition REPAIR_INSTRUCTION :: string where
  "REPAIR_INSTRUCTION =
     ''Your previous response was not valid JSON matching the required schema. Return ONLY corrected JSON, no prose.''"

definition structured ::
  "llm_env \<Rightarrow> nat \<Rightarrow> 'm model_cls \<Rightarrow> api_request \<Rightarrow> client \<Rightarrow> client \<times> ('m \<times> llm_record) res" where
  "structured env limit mc rq c =
     (case inlined_json_schema limit mc of
        Inl e \<Rightarrow> (c, Inl e)
      | Inr schema \<Rightarrow>
          let rq1 = rq\<lparr>rq_response_format := Some (SObj
                [(''type'', SStr ''json_schema''),
                 (''json_schema'', SObj [(''name'', SStr (mc_name mc)), (''schema'', schema)])])\<rparr>;
              (c1, r1) = llm_complete env rq1 c
          in case r1 of
               Inl e \<Rightarrow> (c1, Inl e)
             | Inr (raw, record1) \<Rightarrow>
                 (case parse_or_repair mc None raw of
                    Inr parsed \<Rightarrow> (c1, Inr (parsed, record1))
                  | Inl (StructuredOutputError _) \<Rightarrow>
                      let rq2 = rq1\<lparr>rq_messages := rq_messages rq1 @
                            [(''assistant'', raw), (''user'', REPAIR_INSTRUCTION)]\<rparr>;
                          (c2, r2) = llm_complete env rq2 c1
                      in (c2, ebind r2 (\<lambda>(raw2, record2).
                            case mc_validate mc raw2 of
                              Inr parsed \<Rightarrow> Inr (parsed, record2)
                            | Inl second_error \<Rightarrow>
                                Inl (StructuredOutputError
                                  (''invalid structured output after one repair attempt: '' @ second_error))))
                  | Inl e \<Rightarrow> (c1, Inl e)))"

text \<open>\<open>embed\<close> passes by the breaker and the log; \<open>aembedding\<close> is LiteLLM's.\<close>

definition embed_call ::
  "(string list \<Rightarrow> string \<Rightarrow> int \<Rightarrow> api_error + 'v list) \<Rightarrow> string list \<Rightarrow> string \<Rightarrow> int \<Rightarrow> 'v list res" where
  "embed_call aembedding texts model dimensions =
     (case aembedding texts model dimensions of Inr vs \<Rightarrow> Inr vs | Inl e \<Rightarrow> Inl (snd (error_of e)))"

section \<open>Routing (routing.py)\<close>

record llm_settings =
  ls_serving_mode :: string
  ls_extract_model :: string
  ls_extract_model_tuned :: "string option"
  ls_extract_adapter_id :: "string option"
  ls_classify_model :: string
  ls_verdict_model :: string

definition route :: "string \<Rightarrow> llm_settings \<Rightarrow> (string \<times> string option) res" where
  "route stage s =
     (if stage = ''extract''
      then if ls_serving_mode s = ''hosted_baseline'' then Inr (ls_extract_model s, None)
           else Inr (case ls_extract_model_tuned s of
                       None \<Rightarrow> ls_extract_model s
                     | Some m \<Rightarrow> if m = [] then ls_extract_model s else m, ls_extract_adapter_id s)
      else if stage = ''classify'' then Inr (ls_classify_model s, None)
      else if stage = ''verdict'' then Inr (ls_verdict_model s, None)
      else Inl (ValueError (''unknown stage: '' @ stage)))"

section \<open>Inlining ends\<close>

fun jsize :: "js \<Rightarrow> nat" where
  "jsize (SList xs) = Suc (sum_list (map jsize xs))"
| "jsize (SObj kvs) = Suc (sum_list (map (\<lambda>(k, v). Suc (jsize v)) kvs))"
| "jsize node = 1"

text \<open>
  Schemas as pydantic writes them: a \<open>$ref\<close> is a string whose name is acceptable, and the
  branches of an \<open>anyOf\<close> are objects.
\<close>

definition is_obj :: "js \<Rightarrow> bool" where
  "is_obj node = (case node of SObj _ \<Rightarrow> True | _ \<Rightarrow> False)"

definition ref_ok :: "(string \<Rightarrow> bool) \<Rightarrow> (string \<times> js) list \<Rightarrow> bool" where
  "ref_ok good kvs = (case map_of kvs ''$ref'' of None \<Rightarrow> True | Some (SStr r) \<Rightarrow> good (after_last_slash r) | Some _ \<Rightarrow> False)"

definition any_ok :: "(string \<times> js) list \<Rightarrow> bool" where
  "any_ok kvs = (case map_of kvs ''anyOf'' of Some (SList bs) \<Rightarrow> list_all is_obj bs | _ \<Rightarrow> True)"

fun wf_schema :: "(string \<Rightarrow> bool) \<Rightarrow> js \<Rightarrow> bool" where
  "wf_schema good (SList xs) = list_all (wf_schema good) xs"
| "wf_schema good (SObj kvs) =
     (ref_ok good kvs \<and> any_ok kvs \<and>
      list_all (\<lambda>(k, v). k \<in> set SCHEMA_KEYS_DROPPED_FOR_GENERATION \<or> wf_schema good v) kvs)"
| "wf_schema good node = True"

text \<open>What the provider may be shown.\<close>

fun shown :: "js \<Rightarrow> bool" where
  "shown (SList xs) = list_all shown xs"
| "shown (SObj kvs) =
     list_all (\<lambda>(k, v). k \<notin> set SCHEMA_KEYS_DROPPED_FOR_GENERATION \<and> k \<noteq> ''$ref'' \<and> shown v) kvs"
| "shown node = True"

lemma jsize_item: "(k, v) \<in> set kvs \<Longrightarrow> Suc (jsize v) \<le> sum_list (map (\<lambda>(k, v). Suc (jsize v)) kvs)"
  by (induction kvs) auto

lemma jsize_alist_put:
  "sum_list (map (\<lambda>(k, v). Suc (jsize v)) (alist_put k v kvs)) \<le>
     sum_list (map (\<lambda>(k, v). Suc (jsize v)) kvs) + Suc (jsize v)"
  by (induction k v kvs rule: alist_put.induct) auto

lemma set_alist_put: "x \<in> set (alist_put k v kvs) \<Longrightarrow> x = (k, v) \<or> x \<in> set kvs"
  by (induction k v kvs rule: alist_put.induct) (auto split: if_splits)

lemma kept_item_wf:
  assumes "wf_schema good (SObj kvs)" "(k, v) \<in> set kvs" "k \<notin> set SCHEMA_KEYS_DROPPED_FOR_GENERATION"
  shows "wf_schema good v"
  using assms by (fastforce simp: list_all_iff)

lemma collapse_total:
  assumes "wf_schema good (SObj kvs)"
  shows "\<exists>c. collapse_optional kvs = Inr c"
proof (cases "\<exists>a b. map_of kvs ''anyOf'' = Some (SList [a, b])")
  case True
  then obtain a b where ab: "map_of kvs ''anyOf'' = Some (SList [a, b])" by blast
  then obtain ka kb where "a = SObj ka" "b = SObj kb"
    using assms by (auto simp: any_ok_def is_obj_def split: js.splits)
  then show ?thesis using ab by (simp add: collapse_optional_def type_of_branch_def)
next
  case False
  then show ?thesis by (auto simp: collapse_optional_def split: option.splits js.splits list.splits)
qed

lemma collapse_Some:
  assumes "collapse_optional kvs = Inr (Some collapsed)"
  obtains branch a b where "map_of kvs ''anyOf'' = Some (SList [a, b])" "SObj branch \<in> {a, b}"
    "jsize (SObj branch) + 2 < jsize (SList [a, b])"
    "collapsed = (let n = alist_put ''nullable'' (SBool True) branch
       in case map_of kvs ''default'' of None \<Rightarrow> n | Some d \<Rightarrow> alist_put ''default'' d n)"
proof -
  obtain a b where ab: "map_of kvs ''anyOf'' = Some (SList [a, b])"
    using assms by (auto simp: collapse_optional_def split: option.splits js.splits list.splits)
  obtain ka kb where k: "a = SObj ka" "b = SObj kb"
    using assms ab by (auto simp: collapse_optional_def type_of_branch_def split: js.splits)
  have pos: "2 < jsize (SObj kvs)" if "map_of kvs ''type'' = Some (SStr ''null'')" for kvs
    using jsize_item [OF map_of_SomeD [OF that]] by simp
  show thesis
    using assms ab k pos [of ka] pos [of kb]
    by (intro that [of a b "if map_of ka ''type'' = Some (SStr ''null'') then kb else ka"])
      (auto simp: collapse_optional_def type_of_branch_def Let_def split: if_splits)
qed

lemma alist_put_wf:
  assumes "wf_schema good (SObj kvs)" "wf_schema good v" "k \<noteq> ''$ref''" "k \<noteq> ''anyOf''"
  shows "wf_schema good (SObj (alist_put k v kvs))"
  using assms set_alist_put [of _ k v kvs]
  by (fastforce simp: ref_ok_def any_ok_def map_of_alist_put list_all_iff)

lemma jsize_two_items:
  assumes "(k, v) \<in> set kvs" "(l, w) \<in> set kvs" "k \<noteq> l"
  shows "Suc (jsize v) + Suc (jsize w) \<le> sum_list (map (\<lambda>(k, v). Suc (jsize v)) kvs)"
  using assms by (induction kvs) (auto dest: jsize_item)

lemma collapse_wf:
  assumes "collapse_optional kvs = Inr (Some collapsed)" "wf_schema good (SObj kvs)"
  shows "wf_schema good (SObj collapsed)" "jsize (SObj collapsed) < jsize (SObj kvs)"
proof -
  obtain branch a b where c: "map_of kvs ''anyOf'' = Some (SList [a, b])" "SObj branch \<in> {a, b}"
      "jsize (SObj branch) + 2 < jsize (SList [a, b])"
      "collapsed = (let n = alist_put ''nullable'' (SBool True) branch
         in case map_of kvs ''default'' of None \<Rightarrow> n | Some d \<Rightarrow> alist_put ''default'' d n)"
    using assms(1) by (rule collapse_Some)
  have "wf_schema good (SList [a, b])"
    using kept_item_wf [OF assms(2) map_of_SomeD [OF c(1)]] by (simp add: SCHEMA_KEYS_DROPPED_FOR_GENERATION_def)
  then have branch: "wf_schema good (SObj branch)" using c(2) by auto
  have default: "wf_schema good d" if "map_of kvs ''default'' = Some d" for d
    using kept_item_wf [OF assms(2) map_of_SomeD [OF that]] by (simp add: SCHEMA_KEYS_DROPPED_FOR_GENERATION_def)
  have n: "wf_schema good (SObj (alist_put ''nullable'' (SBool True) branch))"
    by (rule alist_put_wf [OF branch]) simp_all
  have put: "jsize (SObj (alist_put k v l)) \<le> jsize (SObj l) + Suc (jsize v)" for k v l
    using jsize_alist_put [of k v l] by simp
  have small: "jsize (SObj (alist_put ''nullable'' (SBool True) branch)) < jsize (SList [a, b])"
    using put [of "''nullable''" "SBool True" branch] c(3) by simp
  have "wf_schema good (SObj collapsed) \<and> jsize (SObj collapsed) < jsize (SObj kvs)"
  proof (cases "map_of kvs ''default''")
    case None
    then show ?thesis using c(4) n small jsize_item [OF map_of_SomeD [OF c(1)]] by simp
  next
    case (Some d)
    let ?n = "alist_put ''nullable'' (SBool True) branch"
    have eq: "collapsed = alist_put ''default'' d ?n" using c(4) Some by simp
    have "jsize (SObj collapsed) < jsize (SObj kvs)"
      using put [of "''default''" d ?n] small jsize_two_items [OF map_of_SomeD [OF c(1)] map_of_SomeD [OF Some]]
      unfolding eq by (simp del: alist_put.simps)
    moreover have "wf_schema good (SObj collapsed)"
      unfolding eq by (rule alist_put_wf [OF n default [OF Some]]) simp_all
    ultimately show ?thesis by simp
  qed
  then show "wf_schema good (SObj collapsed)" "jsize (SObj collapsed) < jsize (SObj kvs)" by simp_all
qed

lemma emap_all:
  assumes "\<And>x. x \<in> set xs \<Longrightarrow> \<exists>y. f x = Inr y \<and> P y"
  shows "\<exists>ys. emap f xs = Inr ys \<and> list_all P ys"
  using assms
proof (induction xs)
  case Nil
  then show ?case by simp
next
  case (Cons x xs)
  obtain y where "f x = Inr y" "P y" using Cons.prems by fastforce
  moreover obtain ys where "emap f xs = Inr ys" "list_all P ys" using Cons by fastforce
  ultimately show ?case by simp
qed

text \<open>
  References that only go down a ranking of the definitions are followed to their end, within a
  depth that the sizes give.
\<close>

definition ranked :: "(string \<Rightarrow> nat) \<Rightarrow> nat \<Rightarrow> (string \<rightharpoonup> js) \<Rightarrow> bool" where
  "ranked rank m defs \<longleftrightarrow>
     (\<forall>name body. defs name = Some body \<longrightarrow>
        wf_schema (\<lambda>r. defs r \<noteq> None \<and> rank r < rank name) body \<and> jsize body \<le> m)"

lemma inline_items:
  assumes "map_of kvs ''$ref'' = None"
    and "\<forall>(l, v) \<in> set (kept_items kvs). \<exists>s. f v = Inr s \<and> shown s"
  shows "\<exists>items. emap (\<lambda>(k, v). ebind (f v) (\<lambda>w. Inr (k, w))) (kept_items kvs) = Inr items \<and> shown (SObj items)"
proof -
  have "\<exists>y. (\<lambda>(k, v). ebind (f v) (\<lambda>w. Inr (k, w))) x = Inr y \<and>
      (\<lambda>(k, v). k \<notin> set SCHEMA_KEYS_DROPPED_FOR_GENERATION \<and> k \<noteq> ''$ref'' \<and> shown v) y"
    if x: "x \<in> set (kept_items kvs)" for x
  proof -
    obtain l v where l: "x = (l, v)" "(l, v) \<in> set kvs" "l \<notin> set SCHEMA_KEYS_DROPPED_FOR_GENERATION"
      using x by (auto simp: kept_items_def)
    then have "l \<noteq> ''$ref''" using assms(1) by (metis fst_conv image_eqI map_of_eq_None_iff)
    moreover obtain s where "f v = Inr s" "shown s" using assms(2) x l(1) by blast
    ultimately show ?thesis using l by simp
  qed
  from emap_all [OF this] show ?thesis by auto
qed

lemma inline_refs_returns:
  assumes "ranked rank m defs" "wf_schema (\<lambda>r. defs r \<noteq> None \<and> rank r < k) node"
    and "jsize node + k * Suc m \<le> n"
  shows "\<exists>s. inline_refs n defs node = Inr s \<and> shown s"
  using assms(2,3)
proof (induction n arbitrary: k node)
  case 0
  then show ?case by (cases node) auto
next
  case (Suc n)
  show ?case
  proof (cases node)
    case (SList items)
    have "\<exists>s. inline_refs n defs x = Inr s \<and> shown s" if "x \<in> set items" for x
    proof (rule Suc.IH [of k])
      show "wf_schema (\<lambda>r. defs r \<noteq> None \<and> rank r < k) x" using Suc.prems(1) that SList by (simp add: list_all_iff)
      show "jsize x + k * Suc m \<le> n"
        using Suc.prems(2) SList member_le_sum_list [of "jsize x" "map jsize items"] that by simp
    qed
    from emap_all [of items "inline_refs n defs" shown, OF this] show ?thesis using SList by auto
  next
    case (SObj kvs)
    note wf = Suc.prems(1) [unfolded SObj]
    show ?thesis
    proof (cases "map_of kvs ''$ref''")
      case (Some v)
      then obtain r body where r: "v = SStr r" "defs (after_last_slash r) = Some body" "rank (after_last_slash r) < k"
        using wf by (auto simp: ref_ok_def split: js.splits)
      have body: "wf_schema (\<lambda>x. defs x \<noteq> None \<and> rank x < rank (after_last_slash r)) body" "jsize body \<le> m"
        using assms(1) r(2) unfolding ranked_def by blast+
      have "Suc (rank (after_last_slash r)) * Suc m \<le> k * Suc m" using r(3) by (intro mult_le_mono1) simp
      then have "jsize body + rank (after_last_slash r) * Suc m \<le> n" using body(2) Suc.prems(2) SObj by simp
      from Suc.IH [OF body(1) this] show ?thesis using SObj Some r by (simp add: ref_of_def)
    next
      case None
      then have ref: "ref_of kvs = Inr None" by (simp add: ref_of_def)
      obtain c where c: "collapse_optional kvs = Inr c" using collapse_total [OF wf] by blast
      show ?thesis
      proof (cases c)
        case (Some collapsed)
        have "\<exists>s. inline_refs n defs (SObj collapsed) = Inr s \<and> shown s"
          using collapse_wf [OF _ wf, of collapsed] c Some Suc.prems(2) SObj by (intro Suc.IH [of k]) auto
        then show ?thesis using SObj ref c Some by simp
      next
        case no: None
        have "\<exists>s. inline_refs n defs v = Inr s \<and> shown s" if "(l, v) \<in> set (kept_items kvs)" for l v
        proof -
          have l: "(l, v) \<in> set kvs" "l \<notin> set SCHEMA_KEYS_DROPPED_FOR_GENERATION"
            using that by (auto simp: kept_items_def)
          then show ?thesis
            using kept_item_wf [OF wf l] jsize_item [OF l(1)] Suc.prems(2) SObj by (intro Suc.IH [of k]) auto
        qed
        then have "\<forall>(l, v) \<in> set (kept_items kvs). \<exists>s. inline_refs n defs v = Inr s \<and> shown s" by blast
        from inline_items [OF None this] show ?thesis using SObj ref c no by auto
      qed
    qed
  qed (use Suc.prems in auto)
qed

section \<open>The breaker and its history\<close>

text \<open>
  What a completed request tells the breaker of its provider: it succeeded, it failed in passing
  at a time of the monotonic clock, or it failed for good, which the breaker ignores.
\<close>

datatype call_event = Succeeded | Failed rat | Rejected

text \<open>
  The specification: the failures since the last success, counting back through the requests that
  count; the circuit is open at \<open>now\<close> when they reach the threshold and the last of them is less than
  \<open>reset_s\<close> ago.
\<close>

fun trailing :: "call_event list \<Rightarrow> rat list" where
  "trailing [] = []"
| "trailing (Failed t # es) = t # trailing es"
| "trailing (Rejected # es) = trailing es"
| "trailing (Succeeded # es) = []"

definition recent_failures :: "call_event list \<Rightarrow> rat list" where
  "recent_failures es = trailing (rev es)"

definition circuit_open :: "int \<Rightarrow> int \<Rightarrow> rat \<Rightarrow> call_event list \<Rightarrow> bool" where
  "circuit_open threshold reset_s now es =
     (case recent_failures es of
        [] \<Rightarrow> False
      | t # ts \<Rightarrow> threshold \<le> int (length (t # ts)) \<and> fl (now - t) < of_int reset_s)"

text \<open>
  What the client relies on: operations on a breaker that keep track of the recent failures.
\<close>

locale breaker_contract =
  fixes rep :: "rat list \<Rightarrow> 'b \<Rightarrow> bool"
    and fresh :: 'b
    and success :: "'b \<Rightarrow> 'b"
    and failure :: "rat \<Rightarrow> 'b \<Rightarrow> 'b"
    and opened :: "rat \<Rightarrow> 'b \<Rightarrow> bool"
    and threshold reset_s :: int
  assumes rep_fresh: "rep [] fresh"
    and rep_success: "rep ts b \<Longrightarrow> rep [] (success b)"
    and rep_failure: "rep ts b \<Longrightarrow> rep (t # ts) (failure t b)"
    and rep_opened: "rep ts b \<Longrightarrow> opened now b \<longleftrightarrow>
      (case ts of [] \<Rightarrow> False | t # _ \<Rightarrow> threshold \<le> int (length ts) \<and> fl (now - t) < of_int reset_s)"
begin

lemma recent_snoc:
  "recent_failures (es @ [Succeeded]) = []" "recent_failures (es @ [Failed t]) = t # recent_failures es"
  "recent_failures (es @ [Rejected]) = recent_failures es"
  by (simp_all add: recent_failures_def)

lemma rep_recent:
  "rep (recent_failures []) fresh"
  "rep (recent_failures es) b \<Longrightarrow> rep (recent_failures (es @ [Succeeded])) (success b)"
  "rep (recent_failures es) b \<Longrightarrow> rep (recent_failures (es @ [Failed t])) (failure t b)"
  "rep (recent_failures es) b \<Longrightarrow> rep (recent_failures (es @ [Rejected])) b"
  using rep_fresh rep_success rep_failure unfolding recent_snoc by (auto simp: recent_failures_def)

lemma opened_recent: "rep (recent_failures es) b \<Longrightarrow> opened now b \<longleftrightarrow> circuit_open threshold reset_s now es"
  using rep_opened [of "recent_failures es" b now]
  by (auto simp: circuit_open_def split: list.splits)

end

definition tracks :: "int \<Rightarrow> int \<Rightarrow> rat list \<Rightarrow> circuit_breaker \<Rightarrow> bool" where
  "tracks th rs ts b \<longleftrightarrow>
     cb_fail_threshold b = th \<and> cb_reset_s b = rs \<and> cb_consecutive_failures b = int (length ts) \<and>
     cb_opened_at b = (case ts of [] \<Rightarrow> None | t # _ \<Rightarrow> if th \<le> int (length ts) then Some t else None)"

interpretation cb: breaker_contract "tracks th rs" "new_breaker th rs" record_success record_failure is_open_at th rs
  for th rs
proof unfold_locales
  show "tracks th rs [] (new_breaker th rs)" by (simp add: tracks_def new_breaker_def)
  show "tracks th rs ts b \<Longrightarrow> tracks th rs [] (record_success b)" for ts b
    by (simp add: tracks_def record_success_def)
  show "tracks th rs ts b \<Longrightarrow> tracks th rs (t # ts) (record_failure t b)" for ts b t
    by (auto simp: tracks_def record_failure_def Let_def split: list.splits)
  show "tracks th rs ts b \<Longrightarrow> is_open_at now b \<longleftrightarrow>
      (case ts of [] \<Rightarrow> False | t # _ \<Rightarrow> th \<le> int (length ts) \<and> fl (now - t) < of_int rs)" for ts b now
    by (auto simp: tracks_def is_open_at_def split: list.splits)
qed

section \<open>Calls in any order\<close>

text \<open>
  The event loop interleaves calls: between the request and the answer of one, others begin,
  are refused or end. A run is any such order, with the requests under way and the history of
  what completed.
\<close>

definition call_events :: "llm_env \<Rightarrow> api_request \<Rightarrow> api_error + api_response \<Rightarrow> client \<Rightarrow> (string \<times> call_event) list" where
  "call_events env rq outcome c =
     (let p = provider_of (rq_model rq)
      in case outcome of
           Inr _ \<Rightarrow> [(p, Succeeded)]
         | Inl e \<Rightarrow> if is_other e then [] else if fst (error_of e) then [(p, Failed (now_of env c))] else [(p, Rejected)])"

inductive client_run :: "llm_env \<Rightarrow> client \<Rightarrow> (api_request \<times> rat) list \<Rightarrow> (string \<times> call_event) list \<Rightarrow> bool"
  for env where
  run_new: "client_run env new_client [] []"
| run_begin: "client_run env (c'\<lparr>lc_requests := Suc (lc_requests c')\<rparr>) ((rq, start) # ps) hs"
    if "client_run env c ps hs" "complete_begin env rq c = (c', Inr start)"
| run_refused: "client_run env c' ps hs"
    if "client_run env c ps hs" "complete_begin env rq c = (c', Inl e)"
| run_end: "client_run env c' (remove1 (rq, start) ps) (hs @ call_events env rq outcome c)"
    if "client_run env c ps hs" "(rq, start) \<in> set ps" "complete_end env rq start outcome c = (c', r)"

definition events_of :: "string \<Rightarrow> (string \<times> call_event) list \<Rightarrow> call_event list" where
  "events_of p hs = map snd (filter (\<lambda>h. fst h = p) hs)"

fun outcome_name :: "call_event \<Rightarrow> string" where
  "outcome_name Succeeded = ''success''"
| "outcome_name (Failed t) = ''transient_error''"
| "outcome_name Rejected = ''permanent_error''"

definition breakers_track :: "llm_env \<Rightarrow> (string \<rightharpoonup> circuit_breaker) \<Rightarrow> (string \<times> call_event) list \<Rightarrow> bool" where
  "breakers_track env bs hs \<longleftrightarrow>
     (\<forall>p. bs p = None \<longrightarrow> events_of p hs = []) \<and>
     (\<forall>p b. bs p = Some b \<longrightarrow>
        tracks (le_fail_threshold env) (le_reset_s env) (recent_failures (events_of p hs)) b)"

definition logged :: "llm_record list \<Rightarrow> (string \<times> call_event) list \<Rightarrow> bool" where
  "logged rs hs \<longleftrightarrow> map (\<lambda>r. (lr_provider r, lr_outcome r)) rs = map (\<lambda>(p, e). (p, outcome_name e)) hs"

lemma client_simps [simp]:
  "lc_breakers (tick c) = lc_breakers c" "lc_call_log (tick c) = lc_call_log c" "lc_requests (tick c) = lc_requests c"
  "lc_breakers (set_gauge p v c) = lc_breakers c" "lc_call_log (set_gauge p v c) = lc_call_log c"
  "lc_requests (set_gauge p v c) = lc_requests c"
  "lc_breakers (log_call r c) = lc_breakers c" "lc_call_log (log_call r c) = lc_call_log c @ [r]"
  "lc_requests (log_call r c) = lc_requests c"
  "lc_call_log (update_breaker p f c) = lc_call_log c" "lc_requests (update_breaker p f c) = lc_requests c"
  by (simp_all add: tick_def set_gauge_def log_call_def record_metrics_def update_breaker_def Let_def)

lemma breaker_is_open_client:
  assumes "breaker_is_open env b c = (c', opened)"
  shows "lc_breakers c' = lc_breakers c" "lc_call_log c' = lc_call_log c" "lc_requests c' = lc_requests c"
    "opened \<longleftrightarrow> is_open_at (now_of env c) b"
  using assms by (auto simp: breaker_is_open_def is_open_at_def split: if_splits)

lemma call_record_of_simps [simp]:
  "lr_provider (call_record_of rq oc ms a b x) = provider_of (rq_model rq)"
  "lr_outcome (call_record_of rq oc ms a b x) = oc"
  by (simp_all add: call_record_of_def)

lemma events_of_snoc:
  "events_of p (hs @ [(q, e)]) = (if p = q then events_of p hs @ [e] else events_of p hs)"
  by (simp add: events_of_def)

lemma breakers_track_new:
  assumes "breakers_track env (lc_breakers c) hs" "breaker_for env p c = (c', b)"
  shows "breakers_track env (lc_breakers c') hs" "lc_breakers c' p = Some b" "lc_call_log c' = lc_call_log c"
    "lc_requests c' = lc_requests c" "now_of env c' = now_of env c"
    "\<And>q. lc_breakers c q \<noteq> None \<Longrightarrow> lc_breakers c' q \<noteq> None"
proof -
  have none: "events_of q hs = []" if "lc_breakers c q = None" for q
    using assms(1) that by (simp add: breakers_track_def)
  have some: "tracks (le_fail_threshold env) (le_reset_s env) (recent_failures (events_of q hs)) b'"
    if "lc_breakers c q = Some b'" for q b'
    using assms(1) that by (simp add: breakers_track_def)
  have c': "c' = (case lc_breakers c p of Some _ \<Rightarrow> c | None \<Rightarrow> c\<lparr>lc_breakers := (lc_breakers c)(p \<mapsto> b)\<rparr>)"
      "lc_breakers c p = None \<Longrightarrow> b = new_breaker (le_fail_threshold env) (le_reset_s env)"
      "lc_breakers c p \<noteq> None \<Longrightarrow> lc_breakers c p = Some b"
    using assms(2) by (auto simp: breaker_for_def Let_def split: option.splits)
  show "breakers_track env (lc_breakers c') hs"
  proof (cases "lc_breakers c p")
    case None
    then have "tracks (le_fail_threshold env) (le_reset_s env) (recent_failures (events_of p hs)) b"
      using c'(2) none cb.rep_recent(1) by simp
    then show ?thesis using c'(1) None none some by (simp add: breakers_track_def)
  next
    case (Some b')
    then show ?thesis using c'(1) assms(1) by simp
  qed
  show "lc_breakers c' p = Some b" "lc_call_log c' = lc_call_log c" "lc_requests c' = lc_requests c"
      "now_of env c' = now_of env c" "\<And>q. lc_breakers c q \<noteq> None \<Longrightarrow> lc_breakers c' q \<noteq> None"
    using c'(1,3) by (auto simp: now_of_def split: option.splits)
qed

lemma breakers_track_event:
  assumes "breakers_track env bs hs" "bs p = Some b"
    and "tracks (le_fail_threshold env) (le_reset_s env) (recent_failures (events_of p hs @ [e])) (f b)"
  shows "breakers_track env (bs(p := map_option f (bs p))) (hs @ [(p, e)])"
  using assms by (simp add: breakers_track_def events_of_snoc)

lemma complete_begin_client:
  assumes "breakers_track env (lc_breakers c) hs" "complete_begin env rq c = (c', r)"
  shows "breakers_track env (lc_breakers c') hs" "lc_call_log c' = lc_call_log c" "lc_requests c' = lc_requests c"
    "lc_breakers c' (provider_of (rq_model rq)) \<noteq> None"
    "\<And>q. lc_breakers c q \<noteq> None \<Longrightarrow> lc_breakers c' q \<noteq> None"
    "if circuit_open (le_fail_threshold env) (le_reset_s env) (now_of env c) (events_of (provider_of (rq_model rq)) hs)
     then r = Inl (TransientLLMError (''circuit open for provider '' @ provider_of (rq_model rq)))
     else \<exists>start. r = Inr start"
proof -
  let ?p = "provider_of (rq_model rq)"
  obtain c1 b where b: "breaker_for env ?p c = (c1, b)" by (cases "breaker_for env ?p c")
  obtain c2 opened where o2: "breaker_is_open env b c1 = (c2, opened)" by (cases "breaker_is_open env b c1")
  note B = breakers_track_new [OF assms(1) b]
  note O = breaker_is_open_client [OF o2]
  have same: "lc_breakers c' = lc_breakers c1" "lc_call_log c' = lc_call_log c1" "lc_requests c' = lc_requests c1"
    using assms(2) b o2 O(1-3) by (auto simp: complete_begin_def split: if_splits)
  have "tracks (le_fail_threshold env) (le_reset_s env) (recent_failures (events_of ?p hs)) b"
    using B(1,2) by (simp add: breakers_track_def)
  then have opened: "opened \<longleftrightarrow>
      circuit_open (le_fail_threshold env) (le_reset_s env) (now_of env c) (events_of ?p hs)"
    using O(4) B(5) cb.opened_recent by metis
  show "breakers_track env (lc_breakers c') hs" "lc_call_log c' = lc_call_log c" "lc_requests c' = lc_requests c"
      "lc_breakers c' ?p \<noteq> None" "\<And>q. lc_breakers c q \<noteq> None \<Longrightarrow> lc_breakers c' q \<noteq> None"
    using same B by simp_all
  show "if circuit_open (le_fail_threshold env) (le_reset_s env) (now_of env c) (events_of ?p hs)
     then r = Inl (TransientLLMError (''circuit open for provider '' @ ?p)) else \<exists>start. r = Inr start"
    using assms(2) b o2 unfolding opened [symmetric] by (auto simp: complete_begin_def)
qed

lemma complete_end_client:
  assumes "breakers_track env (lc_breakers c) hs" "lc_breakers c (provider_of (rq_model rq)) \<noteq> None"
    and "logged (lc_call_log c) hs" "complete_end env rq start outcome c = (c', r)"
  shows "breakers_track env (lc_breakers c') (hs @ call_events env rq outcome c)"
    "logged (lc_call_log c') (hs @ call_events env rq outcome c)"
    "lc_requests c' = lc_requests c" "\<And>q. lc_breakers c q \<noteq> None \<Longrightarrow> lc_breakers c' q \<noteq> None"
proof -
  let ?p = "provider_of (rq_model rq)"
  obtain b where b: "lc_breakers c ?p = Some b" using assms(2) by blast
  have t: "tracks (le_fail_threshold env) (le_reset_s env) (recent_failures (events_of ?p hs)) b"
    using assms(1) b by (simp add: breakers_track_def)
  have upd: "breakers_track env (lc_breakers (update_breaker ?p f c)) (hs @ [(?p, e)])"
    if "tracks (le_fail_threshold env) (le_reset_s env) (recent_failures (events_of ?p hs @ [e])) (f b)" for f e
    using breakers_track_event [OF assms(1) b, of e f] that by (simp add: update_breaker_def)
  have "breakers_track env (lc_breakers c') (hs @ call_events env rq outcome c) \<and>
      logged (lc_call_log c') (hs @ call_events env rq outcome c) \<and> lc_requests c' = lc_requests c \<and>
      (\<forall>q. lc_breakers c q \<noteq> None \<longrightarrow> lc_breakers c' q \<noteq> None)"
  proof (cases outcome)
    case (Inl e)
    consider "is_other e" | "\<not> is_other e" "fst (error_of e)" | "\<not> is_other e" "\<not> fst (error_of e)" by blast
    then show ?thesis
    proof cases
      case 1
      then show ?thesis using assms Inl by (auto simp: complete_end_def call_events_def Let_def)
    next
      case 2
      let ?c1 = "tick (update_breaker ?p (record_failure (now_of env c)) c)"
      let ?c2 = "log_call (call_record_of rq ''transient_error'' (wall_clock_ms (now_of env ?c1) start) 0 0 0) (tick ?c1)"
      obtain c3 opened where c3: "breaker_is_open env (record_failure (now_of env c) b) ?c2 = (c3, opened)"
        by (cases "breaker_is_open env (record_failure (now_of env c) b) ?c2")
      have b2: "lc_breakers ?c2 ?p = Some (record_failure (now_of env c) b)"
        using b by (simp add: update_breaker_def)
      have c': "c' = set_gauge ?p (if opened then 1 else 0) c3"
        using assms(4) Inl 2 c3 b2 by (simp add: complete_end_def Let_def)
      have "breakers_track env (lc_breakers ?c2) (hs @ [(?p, Failed (now_of env c))])"
        using upd [of "Failed (now_of env c)" "record_failure (now_of env c)"] cb.rep_recent(3) [OF t] by simp
      then show ?thesis
        using c' breaker_is_open_client(1-3) [OF c3] Inl 2 assms(3)
        by (simp add: call_events_def logged_def) (simp add: update_breaker_def)
    next
      case 3
      then have "breakers_track env (lc_breakers c) (hs @ [(?p, Rejected)])"
        using upd [of Rejected id] cb.rep_recent(4) [OF t] b by (simp add: update_breaker_def map_upd_triv)
      then show ?thesis
        using assms(3,4) Inl 3 by (auto simp: complete_end_def call_events_def Let_def logged_def)
    qed
  next
    case (Inr resp)
    have "breakers_track env (lc_breakers (update_breaker ?p record_success c)) (hs @ [(?p, Succeeded)])"
      using upd [of Succeeded record_success] cb.rep_recent(2) [OF t] by simp
    then show ?thesis
      using assms(3,4) Inr
      by (auto simp: complete_end_def call_events_def Let_def logged_def split: prod.splits)
        (auto simp: update_breaker_def)
  qed
  then show "breakers_track env (lc_breakers c') (hs @ call_events env rq outcome c)"
    "logged (lc_call_log c') (hs @ call_events env rq outcome c)"
    "lc_requests c' = lc_requests c" "\<And>q. lc_breakers c q \<noteq> None \<Longrightarrow> lc_breakers c' q \<noteq> None"
    by blast+
qed

lemma client_run_inv:
  assumes "client_run env c ps hs"
  shows "breakers_track env (lc_breakers c) hs \<and> logged (lc_call_log c) hs \<and>
    (\<forall>(rq, start) \<in> set ps. lc_breakers c (provider_of (rq_model rq)) \<noteq> None)"
  using assms
proof (induction rule: client_run.induct)
  case run_new
  then show ?case by (simp add: new_client_def breakers_track_def events_of_def logged_def)
next
  case (run_begin c ps hs rq c' start)
  then have inv: "breakers_track env (lc_breakers c) hs" by blast
  note C = complete_begin_client [OF inv run_begin.hyps(2)]
  show ?case using run_begin.IH C(1,2,4,5) by auto
next
  case (run_refused c ps hs rq c' e)
  then have inv: "breakers_track env (lc_breakers c) hs" by blast
  note C = complete_begin_client [OF inv run_refused.hyps(2)]
  show ?case using run_refused.IH C(1,2,5) by auto
next
  case (run_end c ps hs rq start outcome c' r)
  then have inv: "breakers_track env (lc_breakers c) hs" "logged (lc_call_log c) hs"
      "lc_breakers c (provider_of (rq_model rq)) \<noteq> None" by auto
  note C = complete_end_client [OF inv(1,3,2) run_end.hyps(3)]
  have "\<forall>(rq', start') \<in> set (remove1 (rq, start) ps). lc_breakers c' (provider_of (rq_model rq')) \<noteq> None"
    using run_end.IH C(4) notin_set_remove1 by fastforce
  then show ?case using C(1,2) by blast
qed

lemma breaker_is_open_counts:
  "breaker_is_open env b c = (c', x) \<Longrightarrow> lc_requests c' = lc_requests c \<and> lc_call_log c' = lc_call_log c"
  using breaker_is_open_client by blast

lemma complete_begin_counts:
  assumes "complete_begin env rq c = (c', r)"
  shows "lc_requests c' = lc_requests c" "lc_call_log c' = lc_call_log c"
  using assms
  by (auto simp: complete_begin_def breaker_for_def Let_def dest!: breaker_is_open_counts
      split: prod.splits if_splits option.splits)

lemma complete_end_counts:
  assumes "complete_end env rq start outcome c = (c', r)"
  shows "lc_requests c' = lc_requests c"
    "r = Inr (raw, rec) \<Longrightarrow> lc_call_log c' = lc_call_log c @ [rec] \<and> lr_outcome rec = ''success'' \<and>
       (\<exists>resp. outcome = Inr resp \<and> rs_choices resp \<noteq> [] \<and> raw = hd (rs_choices resp))"
  using assms
  by (auto simp: complete_end_def Let_def dest!: breaker_is_open_counts split: sum.splits prod.splits if_splits option.splits list.splits)

lemma complete_counts:
  assumes "llm_complete env rq c = (c', r)"
  shows "lc_requests c' = (case snd (complete_begin env rq c) of Inl _ \<Rightarrow> lc_requests c | Inr _ \<Rightarrow> Suc (lc_requests c))"
    "r = Inr (raw, rec) \<Longrightarrow> lc_requests c' = Suc (lc_requests c) \<and>
       lc_call_log c' = lc_call_log c @ [rec] \<and> lr_outcome rec = ''success'' \<and>
       (\<exists>resp. le_api env (lc_requests c) rq = Inr resp \<and> rs_choices resp \<noteq> [] \<and> raw = hd (rs_choices resp))"
proof -
  obtain c1 started where b: "complete_begin env rq c = (c1, started)" by (cases "complete_begin env rq c")
  note B = complete_begin_counts [OF b]
  have "lc_requests c' = (case started of Inl _ \<Rightarrow> lc_requests c | Inr _ \<Rightarrow> Suc (lc_requests c)) \<and>
    (r = Inr (raw, rec) \<longrightarrow> lc_requests c' = Suc (lc_requests c) \<and> lc_call_log c' = lc_call_log c @ [rec] \<and>
       lr_outcome rec = ''success'' \<and>
       (\<exists>resp. le_api env (lc_requests c) rq = Inr resp \<and> rs_choices resp \<noteq> [] \<and> raw = hd (rs_choices resp)))"
  proof (cases started)
    case (Inl e)
    then show ?thesis using assms b B by (auto simp: llm_complete_def)
  next
    case (Inr start)
    let ?c = "c1\<lparr>lc_requests := Suc (lc_requests c1)\<rparr>"
    have "complete_end env rq start (le_api env (lc_requests c) rq) ?c = (c', r)"
      using assms b Inr B(1) by (simp add: llm_complete_def)
    from complete_end_counts [OF this] show ?thesis using Inr B by simp
  qed
  then show "lc_requests c' = (case snd (complete_begin env rq c) of Inl _ \<Rightarrow> lc_requests c | Inr _ \<Rightarrow> Suc (lc_requests c))"
    "r = Inr (raw, rec) \<Longrightarrow> lc_requests c' = Suc (lc_requests c) \<and>
       lc_call_log c' = lc_call_log c @ [rec] \<and> lr_outcome rec = ''success'' \<and>
       (\<exists>resp. le_api env (lc_requests c) rq = Inr resp \<and> rs_choices resp \<noteq> [] \<and> raw = hd (rs_choices resp))"
    using b by auto
qed

section \<open>Properties\<close>

text \<open>
  C25: The circuit breaker implements its specification. After any interleaving of calls, a call to a
  provider is refused exactly when the history of completed requests says its circuit is open: at
  least \<open>fail_threshold\<close> transient failures since the last success, requests refused for good not
  counting, the last of them less than \<open>reset_s\<close> seconds ago. A refused call makes no request and
  logs nothing; any other makes one. The call log is the history.
\<close>

theorem circuit_refinement:
  assumes "client_run env c ps hs" "llm_complete env rq c = (c', r)"
  shows "(if circuit_open (le_fail_threshold env) (le_reset_s env) (now_of env c)
            (events_of (provider_of (rq_model rq)) hs)
     then r = Inl (TransientLLMError (''circuit open for provider '' @ provider_of (rq_model rq))) \<and>
       lc_requests c' = lc_requests c \<and> lc_call_log c' = lc_call_log c
     else lc_requests c' = Suc (lc_requests c)) \<and>
    map (\<lambda>r. (lr_provider r, lr_outcome r)) (lc_call_log c) = map (\<lambda>(p, e). (p, outcome_name e)) hs"
proof -
  have inv: "breakers_track env (lc_breakers c) hs" "logged (lc_call_log c) hs"
    using client_run_inv [OF assms(1)] by blast+
  obtain c1 started where b: "complete_begin env rq c = (c1, started)" by (cases "complete_begin env rq c")
  note B = complete_begin_client(2,3,6) [OF inv(1) b]
  show ?thesis
    using B inv(2) complete_counts(1) [OF assms(2)] assms(2) b
    by (auto simp: llm_complete_def logged_def split: if_splits)
qed

text \<open>The value is what the class read from the content of the last request made.\<close>

definition answered :: "llm_env \<Rightarrow> 'm model_cls \<Rightarrow> client \<Rightarrow> 'm \<times> llm_record \<Rightarrow> bool" where
  "answered env mc c a \<longleftrightarrow>
     lc_call_log c \<noteq> [] \<and> last (lc_call_log c) = snd a \<and> lr_outcome (snd a) = ''success'' \<and>
     (\<exists>rq resp. le_api env (lc_requests c - 1) rq = Inr resp \<and> rs_choices resp \<noteq> [] \<and>
        mc_validate mc (hd (rs_choices resp)) = Inr (fst a))"

lemma llm_complete_answered:
  assumes "llm_complete env rq c = (c', Inr (raw, rec))" "mc_validate mc raw = Inr m"
  shows "answered env mc c' (m, rec)"
proof -
  note C = complete_counts(2) [OF assms(1) refl]
  then obtain resp where "le_api env (lc_requests c' - 1) rq = Inr resp" "rs_choices resp \<noteq> []" "raw = hd (rs_choices resp)"
    by auto
  then have "\<exists>rq resp. le_api env (lc_requests c' - 1) rq = Inr resp \<and> rs_choices resp \<noteq> [] \<and>
      mc_validate mc (hd (rs_choices resp)) = Inr m"
    using assms(2) by (intro exI [of _ rq] exI [of _ resp]) simp
  with C show ?thesis by (simp add: answered_def)
qed

lemma llm_complete_requests: "llm_complete env q d = (d', s) \<Longrightarrow> lc_requests d' \<le> Suc (lc_requests d)"
  using complete_counts(1) by (fastforce split: sum.splits)

text \<open>
  C26: Structured output costs at most two requests. \<open>structured\<close> makes no more than two; when it
  returns, the value is what the model class read from the content of the last request it made,
  and the record it returns is the last entry of the call log, a success.
\<close>

theorem structured_two_requests:
  assumes "structured env limit mc rq c = (c', r)"
  shows "lc_requests c' \<le> lc_requests c + 2 \<and> (case r of Inl _ \<Rightarrow> True | Inr a \<Rightarrow> answered env mc c' a)"
proof (cases "inlined_json_schema limit mc")
  case (Inl e)
  then show ?thesis using assms by (auto simp: structured_def)
next
  case schema: (Inr schema)
  let ?rq1 = "rq\<lparr>rq_response_format := Some (SObj [(''type'', SStr ''json_schema''),
      (''json_schema'', SObj [(''name'', SStr (mc_name mc)), (''schema'', schema)])])\<rparr>"
  obtain c1 r1 where one: "llm_complete env ?rq1 c = (c1, r1)" by (cases "llm_complete env ?rq1 c")
  note le1 = llm_complete_requests [OF one]
  consider e where "r1 = Inl e"
    | raw rec m where "r1 = Inr (raw, rec)" "mc_validate mc raw = Inr m"
    | raw rec e where "r1 = Inr (raw, rec)" "mc_validate mc raw = Inl e"
    by (cases r1) (auto, metis sum.exhaust)
  then show ?thesis
  proof cases
    case 1
    then show ?thesis using assms schema one le1 by (auto simp: structured_def)
  next
    case 2
    then show ?thesis using assms schema one le1 llm_complete_answered [of env ?rq1 c c1 raw rec mc m]
      by (auto simp: structured_def parse_or_repair_def)
  next
    case 3
    let ?rq2 = "?rq1\<lparr>rq_messages := rq_messages ?rq1 @ [(''assistant'', raw), (''user'', REPAIR_INSTRUCTION)]\<rparr>"
    obtain c2 r2 where two: "llm_complete env ?rq2 c1 = (c2, r2)" by (cases "llm_complete env ?rq2 c1")
    have res: "c' = c2" "r = ebind r2 (\<lambda>(raw2, record2). case mc_validate mc raw2 of Inr parsed \<Rightarrow> Inr (parsed, record2)
        | Inl second_error \<Rightarrow> Inl (StructuredOutputError
            (''invalid structured output after one repair attempt: '' @ second_error)))"
      using assms schema one 3 two by (simp_all add: structured_def parse_or_repair_def)
    then show ?thesis
      using le1 llm_complete_requests [OF two] llm_complete_answered [of env ?rq2 c1 c2 _ _ mc] two
      by (cases r2) (auto split: sum.splits)
  qed
qed

text \<open>
  C27: The schema shown to the provider is found and is in its dialect. When the references of a
  pydantic schema only go down a ranking of its definitions, and the recursion limit leaves room
  for the sizes involved, \<open>_inlined_json_schema\<close> returns, and nowhere in what it returns is a
  \<open>$ref\<close>, \<open>$defs\<close>, numeric bound, title or description left.
\<close>

theorem schema_inlined:
  assumes "ranked rank m (schema_defs (mc_schema mc))"
    and "wf_schema (\<lambda>r. schema_defs (mc_schema mc) r \<noteq> None \<and> rank r < k) (SObj (mc_schema mc))"
    and "jsize (SObj (mc_schema mc)) + k * Suc m \<le> limit"
  shows "\<exists>s. inlined_json_schema limit mc = Inr s \<and> shown s"
  using inline_refs_returns [OF assms] by (simp add: inlined_json_schema_def)

section \<open>Examples\<close>

text \<open>Calls one after the other, with the history they leave.\<close>

fun run_calls :: "llm_env \<Rightarrow> api_request list \<Rightarrow> client \<times> (string \<times> call_event) list \<Rightarrow> client \<times> (string \<times> call_event) list" where
  "run_calls env [] s = s"
| "run_calls env (rq # rqs) (c, hs) =
     (let (c1, started) = complete_begin env rq c
      in case started of
           Inl _ \<Rightarrow> run_calls env rqs (c1, hs)
         | Inr start \<Rightarrow>
             let c2 = c1\<lparr>lc_requests := Suc (lc_requests c1)\<rparr>;
                 outcome = le_api env (lc_requests c1) rq
             in run_calls env rqs (fst (complete_end env rq start outcome c2), hs @ call_events env rq outcome c2))"

lemma client_run_calls:
  "client_run env c [] hs \<Longrightarrow> run_calls env rqs (c, hs) = (c', hs') \<Longrightarrow> client_run env c' [] hs'"
proof (induction env rqs "(c, hs)" arbitrary: c hs rule: run_calls.induct)
  case (1 env)
  then show ?case by simp
next
  case (2 env rq rqs c hs)
  obtain c1 started where b: "complete_begin env rq c = (c1, started)" by (cases "complete_begin env rq c")
  show ?case
  proof (cases started)
    case (Inl e)
    show ?thesis
      using "2.hyps"(1) [OF b [symmetric] refl Inl] run_refused [OF "2.prems"(1) b [unfolded Inl]] "2.prems"(2) b Inl by simp
  next
    case (Inr start)
    let ?c2 = "c1\<lparr>lc_requests := Suc (lc_requests c1)\<rparr>" and ?oc = "le_api env (lc_requests c1) rq"
    obtain c3 r where e: "complete_end env rq start ?oc ?c2 = (c3, r)" by (cases "complete_end env rq start ?oc ?c2")
    have "client_run env ?c2 [(rq, start)] hs" using run_begin [OF "2.prems"(1) b [unfolded Inr]] .
    from run_end [OF this _ e] have "client_run env c3 [] (hs @ call_events env rq ?oc ?c2)" by simp
    then show ?thesis using "2.hyps"(2) [OF b [symmetric] refl Inr refl refl] "2.prems"(2) b Inr e by simp
  qed
qed

definition failing_env :: llm_env where
  "failing_env =
     \<lparr>le_clock = (\<lambda>n. 7), le_api = (\<lambda>n rq. Inl (Timeout ''slow'')), le_cost = (\<lambda>_. None),
      le_fail_threshold = 2, le_reset_s = 60\<rparr>"

definition answering_env :: llm_env where
  "answering_env = failing_env\<lparr>le_api := \<lambda>n rq. Inr
     \<lparr>rs_choices = [if rq_messages rq = [(''user'', ''q'')] then ''not json'' else ''42''],
      rs_usage = Some (Some 3, None)\<rparr>\<rparr>"

definition sample_request :: api_request where
  "sample_request =
     \<lparr>rq_model = ''openai/gpt'', rq_messages = [(''user'', ''q'')], rq_stage = ''extract'', rq_adapter_id = None,
      rq_response_format = None\<rparr>"

definition extraction_cls :: "string model_cls" where
  "extraction_cls =
     \<lparr>mc_name = ''KycSetFields'',
      mc_schema =
        [(''$defs'', SObj [(''FieldExtraction'', SObj
            [(''properties'', SObj
               [(''value_raw'', SObj [(''anyOf'', SList [SObj [(''type'', SStr ''string'')], SObj [(''type'', SStr ''null'')]]),
                   (''default'', SNull), (''title'', SStr ''Value Raw'')]),
                (''confidence'', SObj [(''type'', SStr ''number''), (''minimum'', SNum 0), (''maximum'', SNum 1)])]),
             (''type'', SStr ''object'')])]),
         (''properties'', SObj [(''biometric'', SObj [(''$ref'', SStr ''#/$defs/FieldExtraction''),
             (''description'', SStr ''Whether it is.'')])]),
         (''type'', SStr ''object'')],
      mc_validate = (\<lambda>s. if s = ''42'' then Inr s else Inl ''Invalid JSON'')\<rparr>"

theorem circuit_refinement_witness:
  "\<exists>c hs. client_run failing_env c [] hs \<and> length (lc_call_log c) = 2 \<and> lc_requests c = 2 \<and>
     snd (llm_complete failing_env sample_request c) = Inl (TransientLLMError ''circuit open for provider openai'')"
proof -
  let ?s = "run_calls failing_env [sample_request, sample_request] (new_client, [])"
  obtain c hs where s: "?s = (c, hs)" by (cases ?s)
  have run: "client_run failing_env c [] hs" using client_run_calls [OF run_new s] .
  have "case ?s of (c, hs) \<Rightarrow> circuit_open 2 60 (now_of failing_env c) (events_of ''openai'' hs) \<and>
      length (lc_call_log c) = 2 \<and> lc_requests c = 2" by code_simp
  moreover have "provider_of (rq_model sample_request) = ''openai''" by code_simp
  moreover have "le_fail_threshold failing_env = 2" "le_reset_s failing_env = 60" by (simp_all add: failing_env_def)
  moreover obtain c' r where "llm_complete failing_env sample_request c = (c', r)"
    by (cases "llm_complete failing_env sample_request c")
  ultimately show ?thesis
    using circuit_refinement [OF run, of sample_request c' r] run s
    by (intro exI [of _ c] exI [of _ hs]) simp
qed

theorem structured_two_requests_witness:
  "\<exists>c a. structured answering_env 9 extraction_cls sample_request new_client = (c, Inr a) \<and> fst a = ''42'' \<and>
     lc_requests c \<le> 2 \<and> answered answering_env extraction_cls c a"
proof -
  let ?s = "structured answering_env 9 extraction_cls sample_request new_client"
  obtain c r where s: "?s = (c, r)" by (cases ?s)
  have "case snd ?s of Inl e \<Rightarrow> False | Inr a \<Rightarrow> fst a = ''42''" by code_simp
  then obtain a where "r = Inr a" "fst a = ''42''" using s by (auto split: sum.splits)
  with structured_two_requests [OF s] s show ?thesis
    by (intro exI [of _ c] exI [of _ a]) (simp add: new_client_def)
qed

theorem schema_inlined_witness:
  "\<exists>s. inlined_json_schema 99 extraction_cls = Inr s \<and> shown s"
proof (rule schema_inlined [of "\<lambda>_. 0" 40 _ 1])
  let ?defs = "schema_defs (mc_schema extraction_cls)"
  have d: "?defs name = Some body \<Longrightarrow> name = ''FieldExtraction'' \<and> Some body = ?defs ''FieldExtraction''" for name body
    by (auto simp: schema_defs_def extraction_cls_def split: if_splits)
  have e: "case ?defs ''FieldExtraction'' of None \<Rightarrow> False | Some body \<Rightarrow> wf_schema (\<lambda>_. False) body \<and> jsize body \<le> 40"
    by code_simp
  show "ranked (\<lambda>_. 0) 40 ?defs"
    unfolding ranked_def
  proof (intro allI impI)
    fix name body
    assume "?defs name = Some body"
    then have "?defs ''FieldExtraction'' = Some body" using d by simp
    then show "wf_schema (\<lambda>r. ?defs r \<noteq> None \<and> (0::nat) < 0) body \<and> jsize body \<le> 40" using e by simp
  qed
  have "list_all (\<lambda>(k, v). k = ''$defs'' \<or> wf_schema (\<lambda>r. ?defs r \<noteq> None) v) (mc_schema extraction_cls)" by code_simp
  then show "wf_schema (\<lambda>r. ?defs r \<noteq> None \<and> (0::nat) < 1) (SObj (mc_schema extraction_cls))"
    by (simp add: extraction_cls_def ref_ok_def any_ok_def SCHEMA_KEYS_DROPPED_FOR_GENERATION_def)
  show "jsize (SObj (mc_schema extraction_cls)) + 1 * Suc 40 \<le> 99" by code_simp
qed

text \<open>An optional nested model is shown as one that must be there: the flag goes with the reference.\<close>

lemma optional_model_loses_nullable:
  "inline_refs 9 [''M'' \<mapsto> SObj [(''type'', SStr ''object'')]]
     (SObj [(''anyOf'', SList [SObj [(''$ref'', SStr ''#/$defs/M'')], SObj [(''type'', SStr ''null'')]])]) =
   Inr (SObj [(''type'', SStr ''object'')])"
  by code_simp

text \<open>A field whose name is one of the dropped keywords is not shown at all.\<close>

lemma field_named_title_dropped:
  "inline_refs 9 Map.empty (SObj [(''properties'', SObj [(''title'', SObj [(''type'', SStr ''string'')])])]) =
   Inr (SObj [(''properties'', SObj [])])"
  by code_simp

end
