(* ===== verification/CC_Tasks.thy ===== *)
theory CC_Tasks
  imports CC_Assess CC_Conflicts
begin

text \<open>
  The assessment tasks of \<open>src/app/tasks/assess_tasks.py\<close>: re-assessing a document, a check or an
  account, each in one transaction, over \<open>assess_fact\<close>.

  The tables are those the session sees under the tenant's row-level security. A task that raises
  commits nothing: it returns \<open>Inl\<close> and the store stays. Decoding a stored value
  (\<open>TypeAdapter(FactValue)\<close>) and the order in which \<open>SELECT DISTINCT\<close> lists the fields are parameters.
\<close>

section \<open>Tables and lookups\<close>

record account_row =
  lo_id :: uuid
  lo_tenant :: uuid
  lo_external_ref :: string
  lo_product_type :: string
  lo_is_microfinance :: bool
  lo_is_digital_lending :: bool
  lo_device_financed :: bool

record document_ref =
  dr_id :: uuid
  dr_loan :: uuid
  dr_event_date :: date

record tables =
  tb_accounts :: "account_row list"
  tb_tenants :: "(uuid \<times> string) list"
  tb_documents :: "document_ref list"
  tb_snapshots :: "(uuid \<times> bool) list"
  tb_fact_text :: "uuid \<Rightarrow> string option \<times> rat option"
  tb_distinct :: "string list \<Rightarrow> string list"
  tb_decode :: decoder

definition get_active_snapshot_id :: "(uuid \<times> bool) list \<Rightarrow> uuid option res" where
  "get_active_snapshot_id snapshots =
     (case map fst (filter snd snapshots) of [] \<Rightarrow> Inr None | [s] \<Rightarrow> Inr (Some s) | _ \<Rightarrow> Inl MultipleResultsFound)"

definition activate_snapshot :: "uuid \<Rightarrow> (uuid \<times> bool) list \<Rightarrow> (uuid \<times> bool) list" where
  "activate_snapshot s snapshots =
     map (\<lambda>(i, a). if i = s then (i, True) else (i, a)) (map (\<lambda>(i, a). if a then (i, False) else (i, a)) snapshots)"

definition load_account_ref :: "tables \<Rightarrow> uuid \<Rightarrow> loan_account res" where
  "load_account_ref tb loan =
     (case [(a, t). a \<leftarrow> tb_accounts tb, lo_id a = loan, t \<leftarrow> tb_tenants tb, fst t = lo_tenant a] of
        [] \<Rightarrow> Inl (AssessmentTaskError ''loan_account not found'')
      | (a, t) # _ \<Rightarrow>
          Inr \<lparr>la_id = loan, la_tenant_id = lo_tenant a, la_external_ref = lo_external_ref a,
               la_product_type = lo_product_type a, la_is_microfinance = lo_is_microfinance a,
               la_is_digital_lending = lo_is_digital_lending a, la_device_financed = lo_device_financed a,
               la_entity_type = snd t\<rparr>)"

definition find_document :: "tables \<Rightarrow> uuid \<Rightarrow> document_ref option" where
  "find_document tb doc = find (\<lambda>d. dr_id d = doc) (tb_documents tb)"

definition latest_fact :: "store \<Rightarrow> uuid \<Rightarrow> string \<Rightarrow> fact_row option" where
  "latest_fact db loan key =
     latest_by fx_created
       (filter (\<lambda>r. fx_loan r = loan \<and> fx_field_key r = key \<and> \<not> fx_is_absent r) (db_facts db))"

definition row_to_fact_out :: "tables \<Rightarrow> fact_row \<Rightarrow> uuid \<Rightarrow> uuid \<Rightarrow> fact_out res" where
  "row_to_fact_out tb row loan doc =
     ebind (case fx_value row of
              None \<Rightarrow> Inr None
            | Some data \<Rightarrow> if data = [] then Inr None else ebind (tb_decode tb data) (\<lambda>v. Inr (Some v))) (\<lambda>value.
       let fact_out = \<lparr>fo_id = fx_id row, fo_document_id = doc, fo_loan_account_id = loan,
             fo_field_key = fx_field_key row, fo_value = value,
             fo_value_raw = fst (tb_fact_text tb (fx_id row)), fo_is_absent = fx_is_absent row,
             fo_confidence = (case snd (tb_fact_text tb (fx_id row)) of None \<Rightarrow> 1 / 2 | Some c \<Rightarrow> c),
             fo_span = None\<rparr>
       in if valid_fact fact_out then Inr fact_out else Inl (ValueError ''ExtractedFactOut''))"

section \<open>The tasks\<close>

definition task_job :: "fact_out \<Rightarrow> loan_account \<Rightarrow> date \<Rightarrow> uuid \<Rightarrow> string \<Rightarrow> job" where
  "task_job f account event_date snapshot request =
     \<lparr>jb_fact = f, jb_account = account, jb_document_event_date = event_date, jb_snapshot = snapshot,
      jb_request_id = request, jb_as_of = None\<rparr>"

definition assess_one_field ::
  "tables \<Rightarrow> 'v env \<Rightarrow> uuid \<Rightarrow> loan_account \<Rightarrow> uuid \<Rightarrow> string \<Rightarrow> fact_row \<Rightarrow> uuid \<Rightarrow> date \<Rightarrow> store \<Rightarrow>
   (store \<times> nat) res" where
  "assess_one_field tb ev loan account snapshot request row doc event_date db =
     ebind (row_to_fact_out tb row loan doc) (\<lambda>f.
       ebind (assess_fact ev (task_job f account event_date snapshot request) db) (\<lambda>(db', results).
         Inr (db', length results)))"

fun assess_rows ::
  "tables \<Rightarrow> 'v env \<Rightarrow> uuid \<Rightarrow> loan_account \<Rightarrow> uuid \<Rightarrow> string \<Rightarrow> uuid \<Rightarrow> date \<Rightarrow> fact_row list \<Rightarrow> store \<Rightarrow> nat \<Rightarrow>
   (store \<times> nat) res" where
  "assess_rows tb ev loan account snapshot request doc d [] db checks = Inr (db, checks)"
| "assess_rows tb ev loan account snapshot request doc d (row # rows) db checks =
     ebind (assess_one_field tb ev loan account snapshot request row doc d db) (\<lambda>(db', n).
       assess_rows tb ev loan account snapshot request doc d rows db' (checks + n))"

definition active_snapshot :: "tables \<Rightarrow> uuid res" where
  "active_snapshot tb =
     ebind (get_active_snapshot_id (tb_snapshots tb)) (\<lambda>s.
       case s of None \<Rightarrow> Inl (AssessmentTaskError ''no active corpus snapshot'') | Some i \<Rightarrow> Inr i)"

definition run_assess_document ::
  "tables \<Rightarrow> 'v env \<Rightarrow> uuid \<Rightarrow> string \<Rightarrow> store \<Rightarrow> (store \<times> nat \<times> nat) res" where
  "run_assess_document tb ev doc request db =
     (case find_document tb doc of
        None \<Rightarrow> Inl (AssessmentTaskError ''document not found'')
      | Some d \<Rightarrow>
          ebind (active_snapshot tb) (\<lambda>snapshot.
          ebind (load_account_ref tb (dr_loan d)) (\<lambda>account.
            let rows = filter (\<lambda>r. fx_document r = doc \<and> \<not> fx_is_absent r) (db_facts db)
            in ebind (assess_rows tb ev (dr_loan d) account snapshot request doc (dr_event_date d) rows db 0)
                 (\<lambda>(db', checks). Inr (db', length rows, checks)))))"

definition check_field :: "'v env \<Rightarrow> string \<Rightarrow> string res" where
  "check_field ev key =
     (if take 2 key = ''F:'' then Inr (drop 2 key)
      else ebind (get_rule (ev_rules ev) key) (\<lambda>r.
        case consumes r of
          [] \<Rightarrow> Inl (AssessmentTaskError (''rule '' @ key @ '' consumes no fields''))
        | k # _ \<Rightarrow> Inr k))"

definition run_assess_check ::
  "tables \<Rightarrow> 'v env \<Rightarrow> uuid \<Rightarrow> string \<Rightarrow> string \<Rightarrow> store \<Rightarrow> (store \<times> nat) res" where
  "run_assess_check tb ev loan key request db =
     ebind (check_field ev key) (\<lambda>k.
       case latest_fact db loan k of
         None \<Rightarrow> Inl (AssessmentTaskError (''no non-absent fact for field '' @ k))
       | Some row \<Rightarrow>
           (case find_document tb (fx_document row) of
              None \<Rightarrow> Inl (AssessmentTaskError ''document not found'')
            | Some d \<Rightarrow>
                ebind (active_snapshot tb) (\<lambda>snapshot.
                ebind (load_account_ref tb loan) (\<lambda>account.
                  assess_one_field tb ev loan account snapshot request row (fx_document row) (dr_event_date d) db))))"

text \<open>The account task skips a field whose fact or document is not found.\<close>

fun account_loop ::
  "tables \<Rightarrow> 'v env \<Rightarrow> uuid \<Rightarrow> loan_account \<Rightarrow> uuid \<Rightarrow> string \<Rightarrow> string list \<Rightarrow> store \<Rightarrow> nat \<Rightarrow> (store \<times> nat) res" where
  "account_loop tb ev loan account snapshot request [] db checks = Inr (db, checks)"
| "account_loop tb ev loan account snapshot request (k # ks) db checks =
     (case latest_fact db loan k of
        None \<Rightarrow> account_loop tb ev loan account snapshot request ks db checks
      | Some row \<Rightarrow>
          (case find_document tb (fx_document row) of
             None \<Rightarrow> account_loop tb ev loan account snapshot request ks db checks
           | Some d \<Rightarrow>
               ebind (assess_one_field tb ev loan account snapshot request row (fx_document row) (dr_event_date d) db)
                 (\<lambda>(db', n). account_loop tb ev loan account snapshot request ks db' (checks + n))))"

definition assessed_field_keys :: "tables \<Rightarrow> store \<Rightarrow> uuid \<Rightarrow> string list" where
  "assessed_field_keys tb db loan =
     tb_distinct tb (map fx_field_key (filter (\<lambda>r. fx_loan r = loan \<and> \<not> fx_is_absent r) (db_facts db)))"

definition run_assess_account ::
  "tables \<Rightarrow> 'v env \<Rightarrow> uuid \<Rightarrow> string \<Rightarrow> store \<Rightarrow> (store \<times> nat \<times> nat) res" where
  "run_assess_account tb ev loan request db =
     ebind (active_snapshot tb) (\<lambda>snapshot.
     ebind (load_account_ref tb loan) (\<lambda>account.
       let keys = assessed_field_keys tb db loan
       in ebind (account_loop tb ev loan account snapshot request keys db 0)
            (\<lambda>(db', checks). Inr (db', length keys, checks))))"

text \<open>The queue: ids only, one task after the other, a failed one rolled back.\<close>

datatype task = AssessDocument uuid | AssessCheck uuid string | AssessAccount uuid

definition run_task :: "tables \<Rightarrow> 'v env \<Rightarrow> string \<Rightarrow> task \<Rightarrow> store \<Rightarrow> store res" where
  "run_task tb ev request t db =
     (case t of
        AssessDocument doc \<Rightarrow> ebind (run_assess_document tb ev doc request db) (\<lambda>(db', _). Inr db')
      | AssessCheck loan key \<Rightarrow> ebind (run_assess_check tb ev loan key request db) (\<lambda>(db', _). Inr db')
      | AssessAccount loan \<Rightarrow> ebind (run_assess_account tb ev loan request db) (\<lambda>(db', _). Inr db'))"

definition run_queue :: "tables \<Rightarrow> 'v env \<Rightarrow> (task \<times> string) list \<Rightarrow> store \<Rightarrow> store" where
  "run_queue tb ev ts db =
     fold (\<lambda>(t, request) db. case run_task tb ev request t db of Inl _ \<Rightarrow> db | Inr db' \<Rightarrow> db') ts db"

section \<open>What tasks keep\<close>

text \<open>The run of a task: assessments of rows of the account, none of them a what-if.\<close>

inductive assessed :: "tables \<Rightarrow> 'v env \<Rightarrow> store \<Rightarrow> (fact_row \<times> job \<times> assessment_result list) list \<Rightarrow> store \<Rightarrow> bool"
  for tb ev where
  assessed_none: "assessed tb ev db [] db"
| assessed_one: "assessed tb ev db ((row, j, results) # rest) db''"
    if "row \<in> set (db_facts db)" "\<not> fx_is_absent row" "fo_field_key (jb_fact j) = fx_field_key row"
      "\<not> jb_is_whatif j" "assess_fact ev j db = Inr (db', results)" "assessed tb ev db' rest db''"

lemma assess_one_field_Inr:
  assumes "assess_one_field tb ev loan account snapshot request row doc d db = Inr (db', n)"
  obtains j results where "assess_fact ev j db = Inr (db', results)" "n = length results"
    "fo_field_key (jb_fact j) = fx_field_key row" "\<not> jb_is_whatif j" "fo_loan_account_id (jb_fact j) = loan"
    "jb_snapshot j = snapshot" "jb_account j = account"
proof -
  obtain f results where f: "row_to_fact_out tb row loan doc = Inr f"
      "assess_fact ev (task_job f account d snapshot request) db = Inr (db', results)" "n = length results"
    using assms by (auto simp: assess_one_field_def ebind_Inr_iff)
  have "fo_field_key f = fx_field_key row" "fo_loan_account_id f = loan"
    using f(1) by (auto simp: row_to_fact_out_def ebind_Inr_iff Let_def split: if_splits)
  then show thesis using f(2,3) by (intro that) (auto simp: task_job_def jb_is_whatif_def)
qed

definition sound_env :: "'v env \<Rightarrow> store \<Rightarrow> bool" where
  "sound_env ev db \<longleftrightarrow>
     ev_rules ev = shipped_registry \<and> engine_sound (ev_engine ev) \<and> unique_paths (db_corpus db)"

lemma assess_fact_inputs:
  assumes "assess_fact ev j db = Inr (db', results)" "sound_env ev db"
  shows "db_corpus db' = db_corpus db" "db_facts db' = db_facts db" "sound_env ev db'"
proof -
  have "db_corpus db' = db_corpus db \<and> db_facts db' = db_facts db"
    using assms(2) unfolding sound_env_def
    by (intro inputs_fixed.assess_fact_keeps [OF assms(1) refl]) simp_all
  then show "db_corpus db' = db_corpus db" "db_facts db' = db_facts db" "sound_env ev db'"
    using assms(2) by (simp_all add: sound_env_def)
qed

lemma assessed_inputs:
  "assessed tb ev db xs db' \<Longrightarrow> sound_env ev db \<Longrightarrow>
     db_corpus db' = db_corpus db \<and> db_facts db' = db_facts db \<and> sound_env ev db'"
proof (induction rule: assessed.induct)
  case (assessed_one row db j db' results rest db'')
  note I = assess_fact_inputs [OF assessed_one.hyps(5) assessed_one.prems]
  show ?case using assessed_one.IH [OF I(3)] I by simp
qed simp

lemma assess_rows_assessed:
  assumes "assess_rows tb ev loan account snapshot request doc d rows db checks = Inr (db', n)"
    and "set rows \<subseteq> {r \<in> set (db_facts db). \<not> fx_is_absent r \<and> sel r}" "sound_env ev db"
  shows "\<exists>xs. assessed tb ev db xs db' \<and> n = checks + length (concat (map (\<lambda>x. snd (snd x)) xs)) \<and> map fst xs = rows"
  using assms
proof (induction rows arbitrary: db checks)
  case Nil
  then show ?case by (auto intro!: exI [of _ "[]"] assessed_none)
next
  case (Cons row rows)
  obtain db1 m where one: "assess_one_field tb ev loan account snapshot request row doc d db = Inr (db1, m)"
      "assess_rows tb ev loan account snapshot request doc d rows db1 (checks + m) = Inr (db', n)"
    using Cons.prems(1) by (auto simp: ebind_Inr_iff)
  obtain j results where j: "assess_fact ev j db = Inr (db1, results)" "m = length results"
      "fo_field_key (jb_fact j) = fx_field_key row" "\<not> jb_is_whatif j"
    using one(1) by (rule assess_one_field_Inr)
  note I = assess_fact_inputs [OF j(1) Cons.prems(3)]
  have "set rows \<subseteq> {r \<in> set (db_facts db1). \<not> fx_is_absent r \<and> sel r}" using Cons.prems(2) I(2) by simp
  from Cons.IH [OF one(2) this I(3)] obtain xs where xs: "assessed tb ev db1 xs db'"
      "n = checks + m + length (concat (map (\<lambda>x. snd (snd x)) xs))" "map fst xs = rows" by blast
  have "row \<in> set (db_facts db)" "\<not> fx_is_absent row" using Cons.prems(2) by auto
  from assessed_one [OF this j(3,4,1) xs(1)] show ?case
    using xs(2,3) j(2) by (intro exI [of _ "(row, j, results) # xs"]) simp
qed

lemma latest_fact_Some:
  assumes "latest_fact db loan k = Some row"
  shows "row \<in> set (db_facts db)" "fx_loan row = loan" "fx_field_key row = k" "\<not> fx_is_absent row"
  using latest_by_Some(1) [OF assms [unfolded latest_fact_def]] by simp_all

lemma account_loop_assessed:
  assumes "account_loop tb ev loan account snapshot request ks db checks = Inr (db', n)" "sound_env ev db"
  shows "\<exists>xs. assessed tb ev db xs db' \<and> n = checks + length (concat (map (\<lambda>x. snd (snd x)) xs)) \<and>
    (\<forall>x \<in> set xs. fx_loan (fst x) = loan)"
  using assms
proof (induction ks arbitrary: db checks)
  case Nil
  then show ?case by (auto intro!: exI [of _ "[]"] assessed_none)
next
  case (Cons k ks)
  show ?case
  proof (cases "\<exists>row d. latest_fact db loan k = Some row \<and> find_document tb (fx_document row) = Some d")
    case False
    then have "account_loop tb ev loan account snapshot request ks db checks = Inr (db', n)"
      using Cons.prems(1) by (auto split: option.splits)
    from Cons.IH [OF this Cons.prems(2)] show ?thesis .
  next
    case True
    then obtain row d where row: "latest_fact db loan k = Some row" "find_document tb (fx_document row) = Some d"
      by blast
    obtain db1 m where one: "assess_one_field tb ev loan account snapshot request row (fx_document row) (dr_event_date d) db = Inr (db1, m)"
        "account_loop tb ev loan account snapshot request ks db1 (checks + m) = Inr (db', n)"
      using Cons.prems(1) row by (auto simp: ebind_Inr_iff)
    obtain j results where j: "assess_fact ev j db = Inr (db1, results)" "m = length results"
        "fo_field_key (jb_fact j) = fx_field_key row" "\<not> jb_is_whatif j"
      using one(1) by (rule assess_one_field_Inr)
    from Cons.IH [OF one(2) assess_fact_inputs(3) [OF j(1) Cons.prems(2)]] obtain xs where xs: "assessed tb ev db1 xs db'"
        "n = checks + m + length (concat (map (\<lambda>x. snd (snd x)) xs))" "\<forall>x \<in> set xs. fx_loan (fst x) = loan" by blast
    from assessed_one [OF latest_fact_Some(1,4) [OF row(1)] j(3,4,1) xs(1)] show ?thesis
      using xs(2,3) j(2) latest_fact_Some(2) [OF row(1)] by (intro exI [of _ "(row, j, results) # xs"]) simp
  qed
qed

definition task_selects :: "task \<Rightarrow> fact_row \<Rightarrow> bool" where
  "task_selects t r =
     (case t of AssessDocument doc \<Rightarrow> fx_document r = doc | AssessCheck loan _ \<Rightarrow> fx_loan r = loan
      | AssessAccount loan \<Rightarrow> fx_loan r = loan)"

lemma run_assess_check_Inr:
  assumes "run_assess_check tb ev loan key request db = Inr (db', n)"
  obtains k row j results where "check_field ev key = Inr k" "latest_fact db loan k = Some row"
    "assess_fact ev j db = Inr (db', results)" "n = length results" "fo_field_key (jb_fact j) = k"
    "\<not> jb_is_whatif j" "fo_loan_account_id (jb_fact j) = loan"
proof -
  obtain k where k: "check_field ev key = Inr k" using assms by (auto simp: run_assess_check_def ebind_Inr_iff)
  obtain row where row: "latest_fact db loan k = Some row"
    using assms k by (auto simp: run_assess_check_def split: option.splits)
  obtain d where d: "find_document tb (fx_document row) = Some d"
    using assms k row by (auto simp: run_assess_check_def split: option.splits)
  obtain snapshot account where one: "assess_one_field tb ev loan account snapshot request row (fx_document row)
      (dr_event_date d) db = Inr (db', n)"
    using assms k row d by (auto simp: run_assess_check_def ebind_Inr_iff)
  then show thesis
    using k row latest_fact_Some(3) [OF row] that by (metis assess_one_field_Inr)
qed

lemma run_task_assessed:
  assumes "run_task tb ev request t db = Inr db'" "sound_env ev db"
  shows "\<exists>xs. assessed tb ev db xs db' \<and> (\<forall>x \<in> set xs. task_selects t (fst x))"
proof (cases t)
  case (AssessDocument doc)
  let ?rows = "filter (\<lambda>r. fx_document r = doc \<and> \<not> fx_is_absent r) (db_facts db)"
  obtain loan account snapshot d n where "assess_rows tb ev loan account snapshot request doc d ?rows db 0 = Inr (db', n)"
    using assms(1) AssessDocument
    by (auto simp: run_task_def run_assess_document_def ebind_Inr_iff Let_def split: option.splits)
  then have "\<exists>xs. assessed tb ev db xs db' \<and> n = 0 + length (concat (map (\<lambda>x. snd (snd x)) xs)) \<and> map fst xs = ?rows"
    by (rule assess_rows_assessed [where sel = "\<lambda>_. True"]) (use assms(2) in auto)
  then obtain xs where xs: "assessed tb ev db xs db'" "map fst xs = ?rows" by blast
  have "fx_document (fst x) = doc" if "x \<in> set xs" for x
  proof -
    have "fst x \<in> set (map fst xs)" using that by simp
    then show ?thesis unfolding xs(2) by simp
  qed
  then show ?thesis using xs(1) AssessDocument by (auto simp: task_selects_def)
next
  case (AssessCheck loan key)
  obtain n where "run_assess_check tb ev loan key request db = Inr (db', n)"
    using assms(1) AssessCheck by (auto simp: run_task_def ebind_Inr_iff)
  then obtain k row j results where r: "latest_fact db loan k = Some row" "assess_fact ev j db = Inr (db', results)"
      "fo_field_key (jb_fact j) = k" "\<not> jb_is_whatif j"
    by (rule run_assess_check_Inr)
  note L = latest_fact_Some [OF r(1)]
  have "assessed tb ev db [(row, j, results)] db'"
    using assessed_one [OF L(1,4) _ r(4,2) assessed_none] r(3) L(3) by simp
  then show ?thesis using AssessCheck L(2) by (intro exI [of _ "[(row, j, results)]"]) (simp add: task_selects_def)
next
  case (AssessAccount loan)
  obtain account snapshot keys n where "account_loop tb ev loan account snapshot request keys db 0 = Inr (db', n)"
    using assms(1) AssessAccount
    by (auto simp: run_task_def run_assess_account_def ebind_Inr_iff Let_def)
  from account_loop_assessed [OF this assms(2)] show ?thesis using AssessAccount by (auto simp: task_selects_def)
qed

context store_invariant
begin

lemma assessed_keeps:
  "assessed tb ev db xs db' \<Longrightarrow> sound_env ev db \<Longrightarrow> ev_gen ev = gen \<Longrightarrow> (\<And>t l. mode False t l) \<Longrightarrow> I db \<Longrightarrow> I db'"
proof (induction rule: assessed.induct)
  case (assessed_one row db j db1 results rest db2)
  have "mode (jb_is_whatif j) (la_tenant_id (jb_account j)) (fo_loan_account_id (jb_fact j))" using assessed_one.hyps(4) assessed_one.prems(3) by simp
  then have "I db1"
    using assess_fact_keeps [OF assessed_one.hyps(5)] assessed_one.prems by (simp add: sound_env_def)
  then show ?case
    using assessed_one.IH assess_fact_inputs(3) [OF assessed_one.hyps(5)] assessed_one.prems by blast
qed

lemma run_queue_keeps:
  assumes "sound_env ev db" "ev_gen ev = gen" "\<And>t l. mode False t l" "I db"
  shows "I (run_queue tb ev ts db) \<and> sound_env ev (run_queue tb ev ts db)"
  using assms(1,4)
proof (induction ts arbitrary: db)
  case Nil
  then show ?case by (simp add: run_queue_def)
next
  case (Cons x ts)
  obtain t request where x: "x = (t, request)" by (cases x)
  define db1 where "db1 = (case run_task tb ev request t db of Inl _ \<Rightarrow> db | Inr db' \<Rightarrow> db')"
  have "I db1 \<and> sound_env ev db1"
  proof (cases "run_task tb ev request t db")
    case (Inr db')
    from run_task_assessed [OF this Cons.prems(1)] obtain xs where xs: "assessed tb ev db xs db'" by blast
    then show ?thesis
      using assessed_keeps [OF xs Cons.prems(1) assms(2,3) Cons.prems(2)] assessed_inputs [OF xs Cons.prems(1)] Inr
      by (simp add: db1_def)
  qed (use Cons.prems in \<open>simp add: db1_def\<close>)
  then have "I (run_queue tb ev ts db1) \<and> sound_env ev (run_queue tb ev ts db1)" using Cons.IH by blast
  then show ?case by (simp add: run_queue_def x db1_def)
qed

end

section \<open>Which rules a task reaches\<close>

lemma rules_loop_rule_ids:
  assumes "rules_loop ev j facts iv rs db results decided = Inr (db', results', decided')"
    and "r \<in> set results'" "ar_rule_id r = Some i"
  shows "r \<in> set results \<or> (\<exists>rule \<in> set rs. rule_id rule = i)"
  using assms
proof (induction rs arbitrary: db results decided)
  case (Cons x rs)
  from Cons.prems(1) show ?case
  proof (cases rule: rules_loop_Cons_Inr)
    case skip
    then show ?thesis using Cons.IH [OF _ Cons.prems(2,3)] by auto
  next
    case (fire oc shadow result db1 aid)
    have "ar_rule_id result = Some (rule_id x)"
      using from_rule_outcome_Inr(6) [OF fire(3)] .
    then show ?thesis using Cons.IH [OF fire(5) Cons.prems(2,3)] Cons.prems(3) by auto
  qed
qed simp

lemma run_rule_corpus: "db_corpus db' = db_corpus db \<Longrightarrow> run_rule ev j facts db' r = run_rule ev j facts db r"
  by (simp add: run_rule_def load_clause_refs_def fun_eq_iff)

lemma rules_loop_reaches:
  assumes "rules_loop ev j facts iv rs db results decided = Inr (db', results', decided')"
    and "x \<in> set rs" "run_rule ev j facts db x = Inr (Some oc)"
  shows "\<exists>r \<in> set results'. ar_rule_id r = Some (rule_id x) \<and> ar_verdict r = oc_verdict oc"
  using assms
proof (induction rs arbitrary: db results decided)
  case (Cons y rs)
  from Cons.prems(1) show ?case
  proof (cases rule: rules_loop_Cons_Inr)
    case skip
    then have "x \<in> set rs" using Cons.prems(2,3) by auto
    then show ?thesis using Cons.IH [OF skip(2) _ Cons.prems(3)] by blast
  next
    case (fire oc' shadow result db1 aid)
    have kept: "set (results @ [result]) \<subseteq> set results'"
      using rules_loop_results [OF fire(5)] by auto
    show ?thesis
    proof (cases "x = y")
      case True
      then have "oc' = oc" using fire(1) Cons.prems(3) by simp
      then show ?thesis using kept from_rule_outcome_Inr(1,6) [OF fire(3)] True by auto
    next
      case False
      have "run_rule ev j facts db1 x = Inr (Some oc)"
        using Cons.prems(3) unfolding run_rule_corpus [OF persist_Inr(6) [OF fire(4)]] .
      then show ?thesis using Cons.IH [OF fire(5)] Cons.prems(2) False by simp
    qed
  qed
qed simp

lemma assess_fact_rows:
  assumes "assess_fact ev j db = Inr (db', results)"
  shows "map as_result (db_assessments db') = map as_result (db_assessments db) @ results"
    and "r \<in> set results \<Longrightarrow> ar_rule_id r = Some i \<Longrightarrow>
      \<exists>rule \<in> set (rules_for_field (ev_rules ev) (fo_field_key (jb_fact j))). rule_id rule = i"
    and "x \<in> set (rules_for_field (ev_rules ev) (fo_field_key (jb_fact j))) \<Longrightarrow>
      run_rule ev j (load_fact_index db (fo_loan_account_id (jb_fact j))) db x = Inr (Some oc) \<Longrightarrow>
      \<exists>r \<in> set results. ar_rule_id r = Some (rule_id x) \<and> ar_verdict r = oc_verdict oc"
proof -
  let ?rules = "rules_for_field (ev_rules ev) (fo_field_key (jb_fact j))"
  obtain spec db1 rs decided where loop: "rules_loop ev j (load_fact_index db (fo_loan_account_id (jb_fact j)))
       (load_instrument_verification db (jb_snapshot j)) ?rules db [] False = Inr (db1, rs, decided)"
    and rest: "(if decided then Inr (recompute_unless_whatif ev j db1, rs)
      else model_path ev j spec db1 rs) = Inr (db', results)"
    using assms by (rule assess_fact_Inr)
  have rows: "map as_result (db_assessments db1) = map as_result (db_assessments db) @ rs"
    using rules_loop_results [OF loop] by auto
  have res: "(results = rs \<or> (\<exists>m. results = rs @ [m] \<and> ar_rule_id m = None)) \<and>
      map as_result (db_assessments db') = map as_result (db_assessments db) @ results"
  proof (cases decided)
    case True
    with rest rows show ?thesis by auto
  next
    case False
    with rest have "model_path ev j spec db1 rs = Inr (db', results)" by simp
    from model_path_results [OF this] rows show ?thesis by auto
  qed
  then show "map as_result (db_assessments db') = map as_result (db_assessments db) @ results" ..
  show "\<exists>rule \<in> set ?rules. rule_id rule = i" if "r \<in> set results" "ar_rule_id r = Some i"
    using rules_loop_rule_ids [OF loop, of r i] that res by auto
  show "\<exists>r \<in> set results. ar_rule_id r = Some (rule_id x) \<and> ar_verdict r = oc_verdict oc"
    if "x \<in> set ?rules" "run_rule ev j (load_fact_index db (fo_loan_account_id (jb_fact j))) db x = Inr (Some oc)"
    using rules_loop_reaches [OF loop that] res by auto
qed

lemma assessed_rows:
  assumes "assessed tb ev db xs db'" "sound_env ev db"
  shows "\<exists>new. map as_result (db_assessments db') = map as_result (db_assessments db) @ new \<and>
    length new = length (concat (map (\<lambda>x. snd (snd x)) xs)) \<and>
    (\<forall>r \<in> set new. \<forall>i. ar_rule_id r = Some i \<longrightarrow> (\<exists>x \<in> set xs.
       fst x \<in> set (db_facts db) \<and> \<not> fx_is_absent (fst x) \<and>
       (\<exists>rule \<in> set (rules_for_field (ev_rules ev) (fx_field_key (fst x))). rule_id rule = i)))"
  using assms
proof (induction rule: assessed.induct)
  case (assessed_none db)
  then show ?case by simp
next
  case (assessed_one row db j db1 results rest db2)
  note I = assess_fact_inputs [OF assessed_one.hyps(5) assessed_one.prems]
  note R = assess_fact_rows [OF assessed_one.hyps(5)]
  obtain new where new: "map as_result (db_assessments db2) = map as_result (db_assessments db1) @ new"
      "length new = length (concat (map (\<lambda>x. snd (snd x)) rest))"
      "\<forall>r \<in> set new. \<forall>i. ar_rule_id r = Some i \<longrightarrow> (\<exists>x \<in> set rest.
        fst x \<in> set (db_facts db) \<and> \<not> fx_is_absent (fst x) \<and>
        (\<exists>rule \<in> set (rules_for_field (ev_rules ev) (fx_field_key (fst x))). rule_id rule = i))"
    using assessed_one.IH [OF I(3)] unfolding I(2) by blast
  show ?case
  proof (intro exI [of _ "results @ new"] conjI ballI allI impI)
    fix r i
    assume "r \<in> set (results @ new)" "ar_rule_id r = Some i"
    then show "\<exists>x \<in> set ((row, j, results) # rest). fst x \<in> set (db_facts db) \<and> \<not> fx_is_absent (fst x) \<and>
        (\<exists>rule \<in> set (rules_for_field (ev_rules ev) (fx_field_key (fst x))). rule_id rule = i)"
      using R(2) [of r i] new(3) assessed_one.hyps(1-3) by auto
  qed (use R(1) new(1,2) in simp_all)
qed

section \<open>A sample account\<close>

definition mechanism_row :: fact_row where
  "mechanism_row =
     \<lparr>fx_id = 5, fx_document = 6, fx_loan = 1, fx_field_key = ''grievance_mechanism_clause_ref'',
      fx_value_type = Some ''string'', fx_value = Some (value_to_jsonable (StringValue ''cl. 4'')),
      fx_is_absent = False, fx_created = 3\<rparr>"

definition task_store :: store where
  "task_store = (grievance_store ''rbi_verified'')\<lparr>db_facts := [mechanism_row]\<rparr>"

definition sample_tables :: tables where
  "sample_tables =
     \<lparr>tb_accounts = [\<lparr>lo_id = 1, lo_tenant = 7, lo_external_ref = ''LN-1'', lo_product_type = ''personal'',
        lo_is_microfinance = True, lo_is_digital_lending = True, lo_device_financed = True\<rparr>],
      tb_tenants = [(7, ''nbfc'')],
      tb_documents = [\<lparr>dr_id = 6, dr_loan = 1, dr_event_date = Date 2026 1 1\<rparr>],
      tb_snapshots = [(1, True), (2, False)], tb_fact_text = (\<lambda>_. (None, None)), tb_distinct = remdups,
      tb_decode = (\<lambda>_. Inr (StringValue ''cl. 4''))\<rparr>"

lemma task_run:
  obtains db r where
    "run_assess_check sample_tables sample_env 1 ''R12_grievance_escalation_disclosed'' ''r'' task_store = Inr (db, 1)"
    "map as_result (db_assessments db) = [r]" "ar_rule_id r = Some ''R12_grievance_escalation_disclosed''"
proof -
  let ?k = "''grievance_mechanism_clause_ref''"
  obtain spec where spec: "field_get shipped_field_registry ?k = Inr spec" by (rule mechanism_spec)
  have sev: "severity_for (Some ''R12_grievance_escalation_disclosed'') None Compliant = Inr Minor"
    by (simp add: severity_for_def SEVERITY_def)
  have key: "check_field sample_env ''R12_grievance_escalation_disclosed'' = Inr ?k"
    by (simp add: check_field_def sample_env_def get_R12) (simp add: R12_def)
  have row: "latest_fact task_store 1 ?k = Some mechanism_row"
    by (simp add: latest_fact_def task_store_def mechanism_row_def latest_by_def)
  have look: "find_document sample_tables 6 = Some \<lparr>dr_id = 6, dr_loan = 1, dr_event_date = Date 2026 1 1\<rparr>"
      "active_snapshot sample_tables = Inr 1" "load_account_ref sample_tables 1 = Inr sample_account"
    by (simp_all add: find_document_def active_snapshot_def get_active_snapshot_id_def load_account_ref_def
        sample_tables_def sample_account_def)
  have doc: "fx_document mechanism_row = 6" by (simp add: mechanism_row_def)
  define f where "f = \<lparr>fo_id = 5, fo_document_id = 6, fo_loan_account_id = 1, fo_field_key = ?k,
       fo_value = Some (StringValue ''cl. 4''), fo_value_raw = None, fo_is_absent = False,
       fo_confidence = 1 / 2, fo_span = None\<rparr>"
  have f: "row_to_fact_out sample_tables mechanism_row 1 6 = Inr f"
    by (simp add: row_to_fact_out_def mechanism_row_def sample_tables_def valid_fact_def Let_def f_def)
  have "\<exists>db r. assess_fact sample_env (task_job f sample_account (Date 2026 1 1) 1 ''r'') task_store = Inr (db, [r]) \<and>
      ar_rule_id r = Some ''R12_grievance_escalation_disclosed''"
    by (simp add: assess_fact_def sample_env_def task_job_def f_def spec sample_rules
        run_rule_def Let_def R12_def R12_evaluate_def has_fact_def load_fact_index_def task_store_def grievance_store_def
        latest_by_def mechanism_row_def record_of_row_def
      load_clause_refs_def load_instrument_verification_def CC_Retrieve.sample_row_def sample_instrument_def
      shadow_R12 from_rule_outcome_def sev ok_def persist_def prior_open_def persist_args_of_def)
  then obtain db r where r: "assess_fact sample_env (task_job f sample_account (Date 2026 1 1) 1 ''r'') task_store = Inr (db, [r])"
      "ar_rule_id r = Some ''R12_grievance_escalation_disclosed''"
    by blast
  have "run_assess_check sample_tables sample_env 1 ''R12_grievance_escalation_disclosed'' ''r'' task_store = Inr (db, 1)"
    unfolding run_assess_check_def key ebind_simps row option.case doc look assess_one_field_def f document_ref.simps r(1)
    by simp
  moreover have "db_assessments task_store = []" by (simp add: task_store_def grievance_store_def)
  ultimately show thesis using assess_fact_rows(1) [OF r(1)] r(2) by (intro that) auto
qed

lemma task_store_sound:
  "sound_env sample_env task_store" "open_inv (ev_gen sample_env) task_store" "cite_inv task_store"
proof -
  have "db_corpus task_store = db_corpus (grievance_store ''rbi_verified'')"
      "db_assessments task_store = db_assessments (grievance_store ''rbi_verified'')"
      "db_citations task_store = db_citations (grievance_store ''rbi_verified'')"
      "db_uuids task_store = db_uuids (grievance_store ''rbi_verified'')"
    by (simp_all add: task_store_def)
  then show "sound_env sample_env task_store" "open_inv (ev_gen sample_env) task_store" "cite_inv task_store"
    using sample_env_sound(1-3) sample_env_sound(4) sample_env_sound(5,6) [of "''rbi_verified''"]
    by (simp_all add: sound_env_def open_inv_def fresh_ids_def one_open_def linked_def cite_inv_def)
qed

lemma rule_result_row:
  assumes "run_task tb ev request t db = Inr db'" "sound_env ev db"
    and "a \<in> set (drop (length (db_assessments db)) (db_assessments db'))" "ar_rule_id (as_result a) = Some i"
  shows "\<exists>rule row. get_rule shipped_registry i = Inr rule \<and> row \<in> set (db_facts db) \<and> task_selects t row \<and>
    \<not> fx_is_absent row \<and> fx_field_key row \<in> set (consumes rule)"
proof -
  obtain xs where xs: "assessed tb ev db xs db'" "\<forall>x \<in> set xs. task_selects t (fst x)"
    using run_task_assessed [OF assms(1,2)] by blast
  obtain new where new: "map as_result (db_assessments db') = map as_result (db_assessments db) @ new"
      "\<forall>r \<in> set new. \<forall>i. ar_rule_id r = Some i \<longrightarrow> (\<exists>x \<in> set xs. fst x \<in> set (db_facts db) \<and> \<not> fx_is_absent (fst x) \<and>
         (\<exists>rule \<in> set (rules_for_field (ev_rules ev) (fx_field_key (fst x))). rule_id rule = i))"
    using assessed_rows [OF xs(1) assms(2)] by blast
  have "map as_result (drop (length (db_assessments db)) (db_assessments db')) = new"
    using arg_cong [OF new(1), of "drop (length (db_assessments db))"] by (simp add: drop_map)
  then have "as_result a \<in> set new" using assms(3) by auto
  then obtain x rule where x: "x \<in> set xs" "fst x \<in> set (db_facts db)" "\<not> fx_is_absent (fst x)"
      "rule \<in> set (rules_for_field (ev_rules ev) (fx_field_key (fst x)))" "rule_id rule = i"
    using new(2) assms(4) by blast
  then obtain i' e where e: "(i', e) \<in> set shipped_registry" "rule = rg_rule e" "fx_field_key (fst x) \<in> set (consumes rule)"
    using assms(2) by (auto simp: rules_for_field_iff sound_env_def)
  have "i' = i" using registered_rule(2) [OF e(1)] e(2) x(5) by simp
  then have "map_of shipped_registry i = Some e"
    using e(1) distinct_rule_ids registry_keys by (metis map_of_is_SomeI)
  then have "get_rule shipped_registry i = Inr rule" using e(2) by (simp add: get_rule_def)
  then show ?thesis using x(1-3) xs(2) e(3) by blast
qed


section \<open>Properties\<close>

text \<open>
  C28: A worker keeps the record sound. Whatever tasks a queue holds, in whatever order, those that
  raise rolled back, the store afterwards has at most one open real assessment per check, each
  superseded one linked to a later one, a decisive citation for every conclusive verdict, and the
  facts and the corpus it had.
\<close>

theorem tasks_keep_history:
  assumes "sound_env ev db" "open_inv (ev_gen ev) db" "cite_inv db"
  shows "open_inv (ev_gen ev) (run_queue tb ev ts db) \<and> cite_inv (run_queue tb ev ts db) \<and>
    db_facts (run_queue tb ev ts db) = db_facts db \<and> db_corpus (run_queue tb ev ts db) = db_corpus db"
proof -
  have "open_inv (ev_gen ev) (run_queue tb ev ts db)"
    using open_rows.run_queue_keeps [OF assms(1) refl _ assms(2), of tb ts] by simp
  moreover have "cite_inv (run_queue tb ev ts db)"
    using cited_rows.run_queue_keeps [OF assms(1) refl _ assms(3), of tb ts] by simp
  moreover have "db_corpus (run_queue tb ev ts db) = db_corpus db \<and> db_facts (run_queue tb ev ts db) = db_facts db"
    using inputs_fixed.run_queue_keeps [OF assms(1) refl _, of "db_corpus db" "db_facts db" tb ts] by simp
  ultimately show ?thesis by blast
qed

theorem tasks_keep_history_witness:
  "open_inv (\<lambda>n. n) (run_queue sample_tables sample_env [(AssessDocument 6, ''a''), (AssessAccount 9, ''b'')] task_store)"
  using tasks_keep_history [OF task_store_sound, of sample_tables "[(AssessDocument 6, ''a''), (AssessAccount 9, ''b'')]"]
    sample_env_sound(4) by simp



text \<open>
  A rule speaks only where one of its fields is present. Every rule verdict a task adds is of a
  registered rule that consumes a field for which the account or the document has a fact that is
  not absent. So a rule that condemns the absence of its only field is never heard.
\<close>

theorem rules_need_present_field:
  assumes "run_task tb ev request t db = Inr db'" "sound_env ev db"
    and "a \<in> set (drop (length (db_assessments db)) (db_assessments db'))" "ar_rule_id (as_result a) = Some i"
  shows "\<exists>rule row. get_rule shipped_registry i = Inr rule \<and> row \<in> set (db_facts db) \<and> task_selects t row \<and>
    \<not> fx_is_absent row \<and> fx_field_key row \<in> set (consumes rule)"
  using assms by (rule rule_result_row)

theorem rules_need_present_field_witness:
  "\<exists>db' rule row. run_task sample_tables sample_env ''r'' (AssessCheck 1 ''R12_grievance_escalation_disclosed'') task_store =
      Inr db' \<and> get_rule shipped_registry ''R12_grievance_escalation_disclosed'' = Inr rule \<and>
     row \<in> set (db_facts task_store) \<and> \<not> fx_is_absent row \<and> fx_field_key row \<in> set (consumes rule)"
proof -
  let ?i = "''R12_grievance_escalation_disclosed''"
  obtain db' r where run: "run_assess_check sample_tables sample_env 1 ?i ''r'' task_store = Inr (db', 1)"
      "map as_result (db_assessments db') = [r]" "ar_rule_id r = Some ?i"
    by (rule task_run)
  then obtain a where a: "db_assessments db' = [a]" "ar_rule_id (as_result a) = Some ?i" by auto
  have task: "run_task sample_tables sample_env ''r'' (AssessCheck 1 ?i) task_store = Inr db'"
    unfolding run_task_def task.case run(1) by simp
  have "db_assessments task_store = []" by (simp add: task_store_def grievance_store_def)
  with rules_need_present_field [OF task task_store_sound(1), of a ?i] a obtain rule row where
      "get_rule shipped_registry ?i = Inr rule" "row \<in> set (db_facts task_store)" "\<not> fx_is_absent row"
      "fx_field_key row \<in> set (consumes rule)"
    by auto
  with task show ?thesis by (intro exI [of _ db'] exI [of _ rule] exI [of _ row]) simp
qed

text \<open>
  The server never records a conflict: no task calls the detector or \<open>persist_conflicts\<close>, so the table of
  conflicts stays what it was, and the unresolved conflicts of a compliance state are 0 unless some other
  program inserted rows.
\<close>

lemma tasks_record_no_conflict:
  assumes "sound_env ev db"
  shows "db_conflicts (run_queue tb ev ts db) = db_conflicts db"
  using conflicts_fixed.run_queue_keeps [OF assms refl, of "db_conflicts db" "db_documents db" tb ts] by simp

text \<open>
  An account none of whose documents discloses a grievance mechanism gets no verdict of R12, which
  exists to report that.
\<close>

lemma missing_mechanism_unreported:
  assumes "run_task tb ev request t db = Inr db'" "sound_env ev db"
    and "\<forall>row \<in> set (db_facts db). fx_field_key row = ''grievance_mechanism_clause_ref'' \<longrightarrow> fx_is_absent row"
    and "a \<in> set (drop (length (db_assessments db)) (db_assessments db'))"
  shows "ar_rule_id (as_result a) \<noteq> Some ''R12_grievance_escalation_disclosed''"
proof
  assume "ar_rule_id (as_result a) = Some ''R12_grievance_escalation_disclosed''"
  from rule_result_row [OF assms(1,2,4) this] obtain rule row where r:
      "get_rule shipped_registry ''R12_grievance_escalation_disclosed'' = Inr rule" "row \<in> set (db_facts db)"
      "\<not> fx_is_absent row" "fx_field_key row \<in> set (consumes rule)"
    by blast
  have "consumes rule = [''grievance_mechanism_clause_ref'']"
    using r(1) by (simp add: get_R12) (auto simp: R12_def)
  then show False using r(2-4) assms(3) by auto
qed

end
