(* ===== verification/CC_Parser.thy ===== *)
theory CC_Parser
  imports CC_Normalise
begin

text \<open>
  The parsers of regulatory text, \<open>src/app/corpus/parsers/\<close>: the clause tree (\<open>base.py\<close>), the
  state machine over the lines of an instrument with continuous paragraph numbers
  (\<open>continuous_para.py\<close>) and the annex tables (\<open>annex_table.py\<close>); the chunks made of their nodes
  (\<open>chunk.py\<close>) and the reference edges found in them (\<open>references.py\<close>).

  The \<open>assert\<close>s and the uses of match groups are branches that raise. Text is UTF-8 bytes, white
  space in patterns and in \<open>strip\<close> and \<open>split\<close> is ASCII.
\<close>

section \<open>Clause nodes (base.py)\<close>

datatype chunk_kind = ClauseKind | TableRowKind | IllustrationKind | DefinitionKind

record clause_node =
  cn_chapter :: "string option"
  cn_chapter_title :: "string option"
  cn_section_letter :: "string option"
  cn_section_title :: "string option"
  cn_para_number :: string
  cn_para_sort :: nat
  cn_level2 :: "string option"
  cn_level3 :: "string option"
  cn_heading :: "string option"
  cn_text :: string
  cn_order :: nat
  cn_kind :: chunk_kind
  cn_classes :: "string list"

definition truthy :: "string option \<Rightarrow> string list" where
  "truthy x = (case x of None \<Rightarrow> [] | Some s \<Rightarrow> if s = [] then [] else [s])"

definition clause_path :: "clause_node \<Rightarrow> string" where
  "clause_path n =
     (let para = cn_para_number n;
          first_part = (if para \<noteq> [] \<and> is_digit (hd para) then ''p'' @ para else para)
      in join ''/'' (first_part # truthy (cn_level2 n) @ truthy (cn_level3 n)))"

record parsed_instrument =
  pi_nodes :: "clause_node list"
  pi_range :: "string \<times> string"
  pi_warnings :: "string list"

definition para_sort_key :: "string \<Rightarrow> nat" where
  "para_sort_key para_number = digits_val (takeWhile is_digit para_number)"

section \<open>Lines\<close>

text \<open>The bytes of the line break at the head, as \<open>splitlines\<close> has them.\<close>

fun break_len :: "string \<Rightarrow> nat" where
  "break_len [] = 0"
| "break_len (a # r) =
     (let n = (of_char a :: nat) in
      if n = 13 \<and> take 1 r = [CHR 0x0A] then 2
      else if 10 \<le> n \<and> n \<le> 13 \<or> 28 \<le> n \<and> n \<le> 30 then 1
      else if n = 194 \<and> take 1 r = [CHR 0x85] then 2
      else if n = 226 \<and> (take 2 r = [CHR 0x80, CHR 0xA8] \<or> take 2 r = [CHR 0x80, CHR 0xA9]) then 3
      else 0)"

lemma break_len_le: "break_len s \<le> length s"
  by (cases s; cases "tl s"; cases "tl (tl s)") (auto simp: Let_def)

function lines_from :: "string \<Rightarrow> string \<Rightarrow> string list" where
  "lines_from acc [] = (if acc = [] then [] else [rev acc])"
| "lines_from acc (c # cs) =
     (if break_len (c # cs) = 0 then lines_from (c # acc) cs
      else rev acc # lines_from [] (drop (break_len (c # cs)) (c # cs)))"
  by pat_completeness auto
termination
proof (relation "measure (\<lambda>(_, s). length s)")
  fix acc :: string and c :: char and cs :: string
  assume "break_len (c # cs) \<noteq> 0"
  then show "(([], drop (break_len (c # cs)) (c # cs)), (acc, c # cs)) \<in> measure (\<lambda>(_, s). length s)"
    using break_len_le [of "c # cs"] by (simp del: break_len.simps)
qed auto

definition splitlines :: "string \<Rightarrow> string list" where
  "splitlines s = lines_from [] s"

definition py_rstrip :: "string \<Rightarrow> string" where
  "py_rstrip s = rev (dropWhile ascii_ws (rev s))"

section \<open>Continuous paragraphs (continuous\_para.py)\<close>

definition dot :: rx where
  "dot = Cls (\<lambda>c. c \<noteq> CHR 0x0A)"

text \<open>\<open>(\S.*)\<close> as group \<open>n\<close>, up to the end.\<close>

definition body_group :: "nat \<Rightarrow> rx" where
  "body_group n = Seq (Grp n (Seq (Cls (\<lambda>c. \<not> ascii_ws c)) (Star dot))) Eos"

definition CHAPTER_RE :: rx where
  "CHAPTER_RE =
     seqs [Star space, word ''CHAPTER'', plus space, Grp 1 (plus (Cls (\<lambda>c. c \<in> set ''IVXLCDM''))), Star space,
       opt (alts [lit CHR ''-'', word [CHR 0xE2, CHR 0x80, CHR 0x93], word [CHR 0xE2, CHR 0x80, CHR 0x94], lit CHR '':'']),
       Star space, Grp 2 (Star dot), Eos]"

definition SECTION_RE :: rx where
  "SECTION_RE = seqs [Star space, Grp 1 (between CHR ''A'' CHR ''Z''), lit CHR ''.'', plus space, body_group 2]"

definition PARA_RE :: rx where
  "PARA_RE =
     seqs [Star space, Grp 1 (Seq (Rep digit 1 3) (opt (between CHR ''A'' CHR ''Z''))), lit CHR ''.'', plus space,
       body_group 2]"

definition roman_numeral :: rx where
  "roman_numeral =
     Seq (Rep (word_ic ''x'') 0 3)
       (alts [word_ic ''ix'', word_ic ''iv'', Seq (opt (word_ic ''v'')) (Rep (word_ic ''i'') 0 3)])"

definition LEVEL2_ROMAN_RE :: rx where
  "LEVEL2_ROMAN_RE = seqs [Star space, Grp 1 roman_numeral, lit CHR ''.'', plus space, body_group 2]"

definition LEVEL2_PAREN_NUM_RE :: rx where
  "LEVEL2_PAREN_NUM_RE =
     seqs [Star space, lit CHR ''('', Grp 1 (Rep digit 1 2), lit CHR '')'', plus space, body_group 2]"

definition LEVEL3_RE :: rx where
  "LEVEL3_RE =
     seqs [Star space, lit CHR ''('', Grp 1 (between CHR ''a'' CHR ''z''), lit CHR '')'', plus space, body_group 2]"

definition NOTE_RE :: rx where
  "NOTE_RE =
     seqs [Star space, word_ic ''Note'', Star space, opt (alts [lit CHR '':'', lit CHR ''.'']), Star space,
       Grp 1 (Star dot), Eos]"

definition letter_ic :: rx where
  "letter_ic = Cls (\<lambda>c. is_upper c \<or> is_lower c)"

definition starts_marker :: rx where
  "starts_marker =
     alts [Seq (word_ic ''CHAPTER'') space,
       seqs [letter_ic, lit CHR ''.'', space],
       seqs [Rep digit 1 3, opt letter_ic, lit CHR ''.'', space],
       seqs [lit CHR ''('', Rep digit 1 2, lit CHR '')'', space],
       seqs [lit CHR ''('', letter_ic, lit CHR '')'', space],
       seqs [roman_numeral, lit CHR ''.'', space],
       Seq (word_ic ''Note'') Bound]"

definition ROMAN_VALUES :: "(string \<times> nat) list" where
  "ROMAN_VALUES =
     [(''i'', 1), (''ii'', 2), (''iii'', 3), (''iv'', 4), (''v'', 5), (''vi'', 6), (''vii'', 7), (''viii'', 8),
      (''ix'', 9), (''x'', 10), (''xi'', 11), (''xii'', 12), (''xiii'', 13), (''xiv'', 14), (''xv'', 15)]"

definition MICROFINANCE_SECTION_MARKERS :: "string list" where
  "MICROFINANCE_SECTION_MARKERS = [''microfinance'', ''MFI conduct'', ''micro-finance'']"

datatype dialect = Roman | ParenNumeral

definition ends_sentence :: "string \<Rightarrow> bool" where
  "ends_sentence s \<longleftrightarrow> (\<exists>x \<in> set [''.'', '':'', '';'', ''?'', ''!'']. endswith s x)"

fun join_lines :: "string list \<Rightarrow> string list \<Rightarrow> string list" where
  "join_lines joined [] = joined"
| "join_lines joined (line # rest) =
     (if joined \<noteq> [] \<and> \<not> ends_sentence (py_rstrip (last joined)) \<and> rx_match starts_marker line = None
      then join_lines (butlast joined @ [last joined @ '' '' @ line]) rest
      else join_lines (joined @ [line]) rest)"

definition join_hard_wraps :: "string \<Rightarrow> string list" where
  "join_hard_wraps raw_text = join_lines [] (filter (\<lambda>ln. ln \<noteq> []) (map py_strip (splitlines raw_text)))"

record parser_state =
  st_chapter :: "string option"
  st_chapter_title :: "string option"
  st_section_letter :: "string option"
  st_section_title :: "string option"
  st_scope :: "string list"
  st_nodes :: "clause_node list"
  st_warnings :: "string list"
  st_order :: nat
  st_last_para :: "nat option"
  st_last_level2 :: "nat option"
  st_chapter_paras :: nat
  st_open_para :: "nat option"
  st_open_level2 :: "nat option"

definition initial_state :: parser_state where
  "initial_state =
     \<lparr>st_chapter = None, st_chapter_title = None, st_section_letter = None, st_section_title = None, st_scope = [],
      st_nodes = [], st_warnings = [], st_order = 0, st_last_para = None, st_last_level2 = None,
      st_chapter_paras = 0, st_open_para = None, st_open_level2 = None\<rparr>"

text \<open>\<open>m.group(n)\<close> where the code uses a string.\<close>

definition grp :: "rx_state \<Rightarrow> nat \<Rightarrow> string res" where
  "grp m n = (case group m n of None \<Rightarrow> Inl (AttributeError ''NoneType'') | Some s \<Rightarrow> Inr s)"

definition warn_empty_chapter :: "parser_state \<Rightarrow> parser_state" where
  "warn_empty_chapter st =
     (case st_chapter st of
        None \<Rightarrow> st
      | Some c \<Rightarrow>
          if st_chapter_paras st = 0
          then st\<lparr>st_warnings := st_warnings st @ [''chapter '' @ c @ '' has zero paragraphs'']\<rparr>
          else st)"

definition chapter_line :: "rx_state \<Rightarrow> parser_state \<Rightarrow> parser_state res" where
  "chapter_line m st =
     ebind (grp m 1) (\<lambda>c. ebind (grp m 2) (\<lambda>t.
       Inr ((warn_empty_chapter st)\<lparr>st_chapter := Some c,
              st_chapter_title := (if py_strip t = [] then None else Some (py_strip t)),
              st_chapter_paras := 0, st_open_para := None, st_open_level2 := None\<rparr>)))"

definition section_line :: "rx_state \<Rightarrow> parser_state \<Rightarrow> parser_state res" where
  "section_line m st =
     ebind (grp m 1) (\<lambda>l. ebind (grp m 2) (\<lambda>t.
       let title = py_strip t;
           micro = list_ex (\<lambda>marker. contains (py_lower marker) (py_lower title)) MICROFINANCE_SECTION_MARKERS
       in Inr (st\<lparr>st_section_letter := Some l, st_section_title := Some title,
                  st_scope := (if micro then [''microfinance''] else []),
                  st_open_para := None, st_open_level2 := None\<rparr>)))"

definition add_node :: "clause_node \<Rightarrow> parser_state \<Rightarrow> parser_state" where
  "add_node n st = st\<lparr>st_nodes := st_nodes st @ [n], st_order := Suc (st_order st)\<rparr>"

definition para_line :: "rx_state \<Rightarrow> parser_state \<Rightarrow> parser_state res" where
  "para_line m st =
     ebind (grp m 1) (\<lambda>para_number. ebind (grp m 2) (\<lambda>body.
       let para_sort = para_sort_key para_number;
           jump = (case st_last_para st of
               None \<Rightarrow> []
             | Some l \<Rightarrow> if para_sort = l \<or> para_sort = Suc l then []
                 else [''paragraph '' @ para_number @ '' does not increment by one (previous sort key '' @
                       nat_digits l @ '')'']);
           long = (if 4000 < py_len body \<and> CHR 0x0A \<notin> set body
                   then [''paragraph '' @ para_number @ '' exceeds 4000 characters with no visible sub-markers yet'']
                   else []);
           node = \<lparr>cn_chapter = st_chapter st, cn_chapter_title = st_chapter_title st,
                   cn_section_letter = st_section_letter st, cn_section_title = st_section_title st,
                   cn_para_number = para_number, cn_para_sort = para_sort, cn_level2 = None, cn_level3 = None,
                   cn_heading = None, cn_text = body, cn_order = st_order st, cn_kind = ClauseKind,
                   cn_classes = st_scope st\<rparr>
       in Inr ((add_node node st)\<lparr>st_warnings := st_warnings st @ jump @ long, st_last_para := Some para_sort,
                 st_last_level2 := None, st_chapter_paras := Suc (st_chapter_paras st),
                 st_open_para := Some (length (st_nodes st)), st_open_level2 := None\<rparr>)))"

text \<open>A node under \<open>parent\<close>.\<close>

definition child_node :: "clause_node \<Rightarrow> string option \<Rightarrow> string option \<Rightarrow> string \<Rightarrow> parser_state \<Rightarrow> clause_node" where
  "child_node parent l2 l3 body st =
     \<lparr>cn_chapter = cn_chapter parent, cn_chapter_title = cn_chapter_title parent,
      cn_section_letter = cn_section_letter parent, cn_section_title = cn_section_title parent,
      cn_para_number = cn_para_number parent, cn_para_sort = cn_para_sort parent, cn_level2 = l2, cn_level3 = l3,
      cn_heading = None, cn_text = body, cn_order = st_order st, cn_kind = ClauseKind, cn_classes = st_scope st\<rparr>"

text \<open>\<open>nodes[idx]\<close> after \<open>assert idx is not None\<close>.\<close>

definition open_node :: "nat option \<Rightarrow> parser_state \<Rightarrow> clause_node res" where
  "open_node idx st =
     (case idx of
        None \<Rightarrow> Inl (AssertionError [])
      | Some i \<Rightarrow> if i < length (st_nodes st) then Inr (st_nodes st ! i) else Inl IndexError)"

definition level2_line :: "dialect \<Rightarrow> rx_state \<Rightarrow> parser_state \<Rightarrow> parser_state res" where
  "level2_line d m st =
     ebind (grp m 1) (\<lambda>label_raw. ebind (grp m 2) (\<lambda>body.
       let label = py_lower label_raw;
           val = map_of ROMAN_VALUES label;
           skip = (case (val, st_last_level2 st) of
               (Some v, Some l) \<Rightarrow>
                 if v = Suc l then []
                 else [''level-2 roman sequence skips at '' @ [CHR 0x27] @ label_raw @ [CHR 0x27] @ '' (previous value '' @
                       nat_digits l @ '')'']
             | _ \<Rightarrow> []);
           st1 = (if d = Roman then st\<lparr>st_warnings := st_warnings st @ skip, st_last_level2 := val\<rparr> else st)
       in ebind (open_node (st_open_para st) st) (\<lambda>parent.
            Inr ((add_node (child_node parent (Some label) None body st) st1)\<lparr>
                   st_open_level2 := Some (length (st_nodes st))\<rparr>))))"

definition level3_line :: "rx_state \<Rightarrow> parser_state \<Rightarrow> parser_state res" where
  "level3_line m st =
     ebind (grp m 1) (\<lambda>label. ebind (grp m 2) (\<lambda>body.
       ebind (open_node (st_open_level2 st) st) (\<lambda>parent.
         Inr (add_node (child_node parent (cn_level2 parent) (Some label) body st) st))))"

definition note_line :: "rx_state \<Rightarrow> parser_state \<Rightarrow> parser_state res" where
  "note_line m st =
     ebind (grp m 1) (\<lambda>body. ebind (open_node (st_open_para st) st) (\<lambda>parent.
       let k = length (filter (\<lambda>n. cn_para_number n = cn_para_number parent \<and> cn_level2 n = Some ''note'') (st_nodes st))
       in Inr (add_node (child_node parent (Some ''note'') (Some (nat_digits (Suc k))) body st) st)))"

definition continue_line :: "string \<Rightarrow> parser_state \<Rightarrow> parser_state" where
  "continue_line line st =
     (if st_nodes st = [] then st
      else let n = last (st_nodes st)
           in st\<lparr>st_nodes := butlast (st_nodes st) @ [n\<lparr>cn_text := py_strip (cn_text n @ '' '' @ line)\<rparr>]\<rparr>)"

definition level2_re :: "dialect \<Rightarrow> rx" where
  "level2_re d = (case d of Roman \<Rightarrow> LEVEL2_ROMAN_RE | ParenNumeral \<Rightarrow> LEVEL2_PAREN_NUM_RE)"

definition parse_line :: "dialect \<Rightarrow> string \<Rightarrow> parser_state \<Rightarrow> parser_state res" where
  "parse_line d line st =
     (case rx_match CHAPTER_RE line of
        Some m \<Rightarrow> chapter_line m st
      | None \<Rightarrow>
     (case rx_match SECTION_RE line of
        Some m \<Rightarrow> section_line m st
      | None \<Rightarrow>
          let para_open = (st_open_para st \<noteq> None);
              note_match = (if para_open then rx_match NOTE_RE line else None);
              level3_match = (if st_open_level2 st \<noteq> None \<and> note_match = None then rx_match LEVEL3_RE line else None);
              level2_match = (if para_open \<and> level3_match = None then rx_match (level2_re d) line else None);
              para_match = (if level2_match = None then rx_match PARA_RE line else None)
          in case para_match of Some m \<Rightarrow> para_line m st | None \<Rightarrow>
            (case level2_match of Some m \<Rightarrow> level2_line d m st | None \<Rightarrow>
            (case level3_match of Some m \<Rightarrow> level3_line m st | None \<Rightarrow>
            (case note_match of Some m \<Rightarrow> note_line m st | None \<Rightarrow> Inr (continue_line line st))))))"

fun parse_lines :: "dialect \<Rightarrow> string list \<Rightarrow> parser_state \<Rightarrow> parser_state res" where
  "parse_lines d [] st = Inr st"
| "parse_lines d (line # rest) st = ebind (parse_line d line st) (\<lambda>st'. parse_lines d rest st')"

definition parse_continuous :: "dialect \<Rightarrow> string \<Rightarrow> parsed_instrument res" where
  "parse_continuous d s =
     ebind (parse_lines d (join_hard_wraps s) initial_state) (\<lambda>st.
       let st' = warn_empty_chapter st;
           paras = map cn_para_number (filter (\<lambda>n. cn_level2 n = None) (st_nodes st'))
       in Inr \<lparr>pi_nodes = st_nodes st', pi_range = (if paras = [] then ([], []) else (hd paras, last paras)),
               pi_warnings = st_warnings st'\<rparr>)"

section \<open>Annex tables (annex\_table.py)\<close>

definition CELL_SPLIT_RE :: rx where
  "CELL_SPLIT_RE = Alt (plus (lit CHR 0x09)) (seqs [space, space, Star space])"

definition ROW_MARKER_RE :: rx where
  "ROW_MARKER_RE =
     seqs [Star space, Grp 1 (Rep digit 1 2), alts [lit CHR ''.'', lit CHR '')''], plus space]"

definition ILLUSTRATION_START_RE :: rx where
  "ILLUSTRATION_START_RE = seqs [Star space, word_ic ''Illustration'', Bound]"

text \<open>\<open>re.split\<close> for a pattern that matches no empty text.\<close>

function rx_split :: "rx \<Rightarrow> char option \<Rightarrow> string \<Rightarrow> string list" where
  "rx_split r p s =
     (case rx_search r p s of
        None \<Rightarrow> [s]
      | Some (pre, t, u) \<Rightarrow>
          if length (rs_rest t) < length s then pre # rx_split r (rs_prev t) (rs_rest t) else [s])"
  by pat_completeness auto
termination by (relation "measure (\<lambda>(_, _, s). length s)") auto

declare rx_split.simps [simp del]

definition annex_node :: "string \<Rightarrow> string \<Rightarrow> string option \<Rightarrow> string \<Rightarrow> nat \<Rightarrow> chunk_kind \<Rightarrow> clause_node" where
  "annex_node part label heading body order kind =
     \<lparr>cn_chapter = None, cn_chapter_title = None, cn_section_letter = None, cn_section_title = None,
      cn_para_number = ''annexA'', cn_para_sort = 0, cn_level2 = Some (''part'' @ part), cn_level3 = Some label,
      cn_heading = heading, cn_text = body, cn_order = order, cn_kind = kind, cn_classes = []\<rparr>"

definition in_illustration :: "string \<Rightarrow> bool" where
  "in_illustration line \<longleftrightarrow> rx_match ROW_MARKER_RE line = None \<and> rx_match ILLUSTRATION_START_RE line = None"

text \<open>\<open>s[:n]\<close> in code points.\<close>

fun py_take :: "nat \<Rightarrow> string \<Rightarrow> string" where
  "py_take n [] = []"
| "py_take n (c # cs) =
     (if is_continuation c then c # py_take n cs
      else case n of 0 \<Rightarrow> [] | Suc m \<Rightarrow> c # py_take m cs)"

function annex_rows ::
  "string \<Rightarrow> string \<Rightarrow> string list \<Rightarrow> clause_node list \<Rightarrow> string list \<Rightarrow> (clause_node list \<times> string list) res" where
  "annex_rows part header [] nodes warnings = Inr (nodes, warnings)"
| "annex_rows part header (line # rest) nodes warnings =
     (if rx_match ILLUSTRATION_START_RE line \<noteq> None
      then
        let block = line # takeWhile in_illustration rest
        in annex_rows part header (dropWhile in_illustration rest)
             (nodes @ [annex_node part ''illustration'' (Some ''Worked illustration'') (join '' '' block)
                (length nodes) IllustrationKind]) warnings
      else
        (case rx_match ROW_MARKER_RE line of
           None \<Rightarrow>
             annex_rows part header rest nodes
               (warnings @ [''unrecognised annex line skipped: '' @ py_take 60 line])
         | Some m \<Rightarrow>
             ebind (grp m 1) (\<lambda>row_number.
               annex_rows part header rest
                 (nodes @ [annex_node part row_number None (header @ '' :: '' @ py_strip (rs_rest m))
                    (length nodes) TableRowKind]) warnings)))"
  by pat_completeness auto
termination
  by (relation "measure (\<lambda>(_, _, lines, _, _). length lines)") (auto simp: le_imp_less_Suc length_dropWhile_le)

definition parse_annex :: "string \<Rightarrow> string \<Rightarrow> parsed_instrument res" where
  "parse_annex part s =
     (case map py_rstrip (filter (\<lambda>ln. py_strip ln \<noteq> []) (splitlines s)) of
        [] \<Rightarrow> Inr \<lparr>pi_nodes = [], pi_range = ([], []), pi_warnings = [''annex text is empty'']\<rparr>
      | head # rest \<Rightarrow>
          let cells = filter (\<lambda>c. c \<noteq> []) (map py_strip (rx_split CELL_SPLIT_RE None head))
          in ebind (annex_rows part (join '' | '' cells) rest [] []) (\<lambda>(nodes, warnings).
               Inr \<lparr>pi_nodes = nodes, pi_range = (''annexA'', ''annexA''), pi_warnings = warnings\<rparr>))"

section \<open>Chunks (chunk.py)\<close>

definition STEM_MIN_TOKENS :: nat where
  "STEM_MIN_TOKENS = 40"

definition STEM_MAX_CHARS :: nat where
  "STEM_MAX_CHARS = 200"

definition SENTENCE_END_RE :: rx where
  "SENTENCE_END_RE = Seq (Cls (\<lambda>c. c \<in> set ''.!?'')) (Alt space Eos)"

text \<open>\<open>s.split()\<close>.\<close>

function py_split :: "string \<Rightarrow> string list" where
  "py_split s =
     (let t = dropWhile ascii_ws s
      in if t = [] then [] else takeWhile (\<lambda>c. \<not> ascii_ws c) t # py_split (dropWhile (\<lambda>c. \<not> ascii_ws c) t))"
  by pat_completeness auto
termination
proof (relation "measure length")
  fix s t :: string
  assume t: "t = dropWhile ascii_ws s" "t \<noteq> []"
  then obtain c cs where "t = c # cs" "\<not> ascii_ws c" by (metis dropWhile_eq_Cons_conv list.exhaust)
  then have "length (dropWhile (\<lambda>c. \<not> ascii_ws c) t) < length t"
    using length_dropWhile_le [of "\<lambda>c. \<not> ascii_ws c" cs] by simp
  also have "length t \<le> length s" using t(1) length_dropWhile_le by blast
  finally show "(dropWhile (\<lambda>c. \<not> ascii_ws c) t, s) \<in> measure length" by simp
qed simp

declare py_split.simps [simp del]

definition token_count :: "string \<Rightarrow> nat" where
  "token_count s = length (py_split s)"

definition first_sentence :: "string \<Rightarrow> string" where
  "first_sentence s =
     py_take STEM_MAX_CHARS
       (case rx_search SENTENCE_END_RE None s of None \<Rightarrow> s | Some (pre, t, u) \<Rightarrow> py_strip (pre @ u))"

record clause_chunk =
  ck_node :: clause_node
  ck_text_with_stem :: string
  ck_token_count :: nat
  ck_strategy :: string
  ck_index :: nat

definition node_key :: "clause_node \<Rightarrow> string \<times> string option \<times> string option" where
  "node_key n = (cn_para_number n, cn_level2 n, cn_level3 n)"

definition parent_of :: "clause_node list \<Rightarrow> clause_node \<Rightarrow> clause_node option" where
  "parent_of nodes n =
     (let by_key = map_of (rev (map (\<lambda>x. (node_key x, x)) nodes))
      in if cn_level3 n \<noteq> None then by_key (cn_para_number n, cn_level2 n, None)
         else if cn_level2 n \<noteq> None then by_key (cn_para_number n, None, None)
         else None)"

definition mk_chunk :: "clause_node list \<Rightarrow> nat \<times> clause_node \<Rightarrow> clause_chunk" where
  "mk_chunk nodes x =
     (let (idx, n) = x;
          tcount = token_count (cn_text n);
          (t, strategy) =
            (if cn_kind n = IllustrationKind then (cn_text n, ''illustration_whole'')
             else if cn_kind n = TableRowKind then (cn_text n, ''table_row'')
             else if tcount < STEM_MIN_TOKENS
             then (case parent_of nodes n of
                 Some p \<Rightarrow> (py_strip (first_sentence (cn_text p) @ '' '' @ cn_text n), ''leaf+stem'')
               | None \<Rightarrow> (cn_text n, ''leaf''))
             else (cn_text n, ''leaf''))
      in \<lparr>ck_node = n, ck_text_with_stem = t, ck_token_count = tcount, ck_strategy = strategy, ck_index = idx\<rparr>)"

definition chunk_nodes :: "clause_node list \<Rightarrow> clause_chunk list" where
  "chunk_nodes nodes = map (mk_chunk nodes) (enumerate 0 nodes)"

section \<open>References (references.py)\<close>

definition CIRCULAR_RE :: rx where
  "CIRCULAR_RE =
     Seq (opt (seqs [word_ic ''circular'', plus space, word_ic ''no'', opt (lit CHR ''.''), Star space]))
       (Grp 1 (seqs [Rep letter_ic 2 4, Star (Seq (lit CHR ''.'') (Rep letter_ic 2 4)), word_ic ''.REC.'', plus digit,
          lit CHR ''/'', plus (Cls (\<lambda>c. is_digit c \<or> c = CHR ''.'')), lit CHR ''/'', Rep digit 4 4, lit CHR ''-'',
          Rep digit 2 2]))"

definition INCORPORATES_PHRASES :: "string list" where
  "INCORPORATES_PHRASES = [''as per instructions contained in'', ''in terms of'', ''shall comply with'']"

definition REPEAL_SECTION_MARKERS :: "string list" where
  "REPEAL_SECTION_MARKERS = [''repeal'', ''repealed'', ''supersede'', ''superseded'']"

record reference_edge =
  re_from :: string
  re_to_instrument :: string
  re_text :: string
  re_kind :: string

definition reference_kind :: "bool \<Rightarrow> string \<Rightarrow> string" where
  "reference_kind is_amendment s =
     (let lower = py_lower s
      in if list_ex (\<lambda>p. contains p lower) REPEAL_SECTION_MARKERS then ''repeals''
         else if is_amendment then ''amends''
         else if list_ex (\<lambda>p. contains p lower) INCORPORATES_PHRASES then ''incorporates''
         else ''see_also'')"

text \<open>
  The title patterns come from the configuration: each is the test whether it is found in a text,
  letter case ignored.
\<close>

type_synonym title_patterns = "(string \<times> (string \<Rightarrow> bool) list) list"

definition node_references :: "title_patterns \<Rightarrow> bool \<Rightarrow> clause_node \<Rightarrow> reference_edge list" where
  "node_references known is_amendment n =
     List.map_filter (\<lambda>(code, patterns).
       if \<not> list_ex (\<lambda>p. p (cn_text n)) patterns \<and> rx_search CIRCULAR_RE None (cn_text n) = None then None
       else Some \<lparr>re_from = clause_path n, re_to_instrument = code, re_text = py_take 300 (cn_text n),
                  re_kind = reference_kind is_amendment (cn_text n)\<rparr>) known"

definition extract_references :: "title_patterns \<Rightarrow> bool \<Rightarrow> clause_node list \<Rightarrow> reference_edge list" where
  "extract_references known is_amendment nodes = concat (map (node_references known is_amendment) nodes)"

section \<open>The tree the parser builds\<close>

lemma marker_groups [simp]:
  "sets_group (Suc 0) CHAPTER_RE" "sets_group 2 CHAPTER_RE" "sets_group (Suc 0) SECTION_RE" "sets_group 2 SECTION_RE"
  "sets_group (Suc 0) PARA_RE" "sets_group 2 PARA_RE" "sets_group (Suc 0) (level2_re d)" "sets_group 2 (level2_re d)"
  "sets_group (Suc 0) LEVEL3_RE" "sets_group 2 LEVEL3_RE" "sets_group (Suc 0) NOTE_RE"
  "sets_group (Suc 0) ROW_MARKER_RE"
  by (simp_all add: CHAPTER_RE_def SECTION_RE_def PARA_RE_def level2_re_def LEVEL2_ROMAN_RE_def
      LEVEL2_PAREN_NUM_RE_def LEVEL3_RE_def NOTE_RE_def ROW_MARKER_RE_def body_group_def split: dialect.splits)

lemma grp_total: "rx_match r s = Some m \<Longrightarrow> sets_group n r \<Longrightarrow> \<exists>g. grp m n = Inr g"
  using match_group by (fastforce simp: grp_def)

text \<open>
  A node among the earlier ones: its order is its position, its sort key that of its number, and
  what is below a paragraph comes after it, in the same chapter and section; a level-3 node comes
  after its level-2 node, and a note directly below the paragraph.
\<close>

definition same_place :: "clause_node \<Rightarrow> clause_node \<Rightarrow> bool" where
  "same_place p n \<longleftrightarrow>
     cn_para_number p = cn_para_number n \<and> cn_para_sort p = cn_para_sort n \<and> cn_chapter p = cn_chapter n \<and>
     cn_chapter_title p = cn_chapter_title n \<and> cn_section_letter p = cn_section_letter n \<and>
     cn_section_title p = cn_section_title n"

definition node_ok :: "clause_node list \<Rightarrow> clause_node \<Rightarrow> bool" where
  "node_ok earlier n \<longleftrightarrow>
     cn_order n = length earlier \<and> cn_kind n = ClauseKind \<and> cn_para_sort n = para_sort_key (cn_para_number n) \<and>
     (cn_level2 n = None \<longrightarrow> cn_level3 n = None) \<and>
     (cn_level2 n \<noteq> None \<longrightarrow> (\<exists>p \<in> set earlier. cn_level2 p = None \<and> same_place p n)) \<and>
     (cn_level3 n \<noteq> None \<and> cn_level2 n \<noteq> Some ''note'' \<longrightarrow>
        (\<exists>p \<in> set earlier. cn_level2 p = cn_level2 n \<and> cn_level3 p = None \<and> same_place p n))"

definition clause_tree :: "clause_node list \<Rightarrow> bool" where
  "clause_tree ns \<longleftrightarrow> (\<forall>j < length ns. node_ok (take j ns) (ns ! j))"

lemma clause_tree_Nil [simp]: "clause_tree []"
  by (simp add: clause_tree_def)

lemma clause_tree_snoc [simp]: "clause_tree (ns @ [n]) \<longleftrightarrow> clause_tree ns \<and> node_ok ns n"
proof -
  have "node_ok (take j (ns @ [n])) ((ns @ [n]) ! j) = node_ok (take j ns) (ns ! j)" if "j < length ns" for j
    using that by (simp add: nth_append)
  then show ?thesis by (auto simp: clause_tree_def less_Suc_eq)
qed

lemma node_ok_text [simp]: "node_ok ns (n\<lparr>cn_text := t\<rparr>) = node_ok ns n"
  by (simp add: node_ok_def same_place_def)

lemma clause_tree_nth: "clause_tree ns \<Longrightarrow> i < length ns \<Longrightarrow> node_ok (take i ns) (ns ! i)"
  by (simp add: clause_tree_def)

text \<open>The parser's state between lines.\<close>

definition state_ok :: "parser_state \<Rightarrow> bool" where
  "state_ok st \<longleftrightarrow>
     clause_tree (st_nodes st) \<and> st_order st = length (st_nodes st) \<and>
     (\<forall>i. st_open_para st = Some i \<longrightarrow> i < length (st_nodes st) \<and> cn_level2 (st_nodes st ! i) = None) \<and>
     (\<forall>i. st_open_level2 st = Some i \<longrightarrow>
        i < length (st_nodes st) \<and> cn_level2 (st_nodes st ! i) \<noteq> None \<and> cn_level3 (st_nodes st ! i) = None)"

lemma initial_state_ok: "state_ok initial_state"
  by (simp add: state_ok_def initial_state_def)

lemma warn_empty_chapter_fields [simp]:
  "st_nodes (warn_empty_chapter st) = st_nodes st" "st_order (warn_empty_chapter st) = st_order st"
  by (auto simp: warn_empty_chapter_def split: option.splits)

lemma para_node_ok:
  assumes "cn_order n = length ns" "cn_kind n = ClauseKind" "cn_para_sort n = para_sort_key (cn_para_number n)"
    and "cn_level2 n = None" "cn_level3 n = None"
  shows "node_ok ns n"
  using assms by (simp add: node_ok_def)

lemma child_node_ok:
  assumes st: "state_ok st" and p: "i < length (st_nodes st)"
    and l: "cn_level2 (st_nodes st ! i) = None \<and> (l3 = None \<or> l2 = Some ''note'') \<or>
            cn_level2 (st_nodes st ! i) = l2 \<and> cn_level3 (st_nodes st ! i) = None"
    and l2: "l2 \<noteq> None"
  shows "node_ok (st_nodes st) (child_node (st_nodes st ! i) l2 l3 body st)"
proof -
  let ?p = "st_nodes st ! i"
  have ok: "node_ok (take i (st_nodes st)) ?p"
    using st p by (simp add: state_ok_def clause_tree_nth)
  have mem: "?p \<in> set (st_nodes st)" using p by simp
  have para: "\<exists>q \<in> set (st_nodes st). cn_level2 q = None \<and> same_place q ?p"
  proof (cases "cn_level2 ?p")
    case None
    then show ?thesis using mem by (auto simp: same_place_def)
  next
    case (Some a)
    then have "\<exists>q \<in> set (take i (st_nodes st)). cn_level2 q = None \<and> same_place q ?p"
      using ok by (simp add: node_ok_def)
    then show ?thesis by (meson in_set_takeD)
  qed
  have level2: "l3 \<noteq> None \<and> l2 \<noteq> Some ''note'' \<longrightarrow>
      (\<exists>q \<in> set (st_nodes st). cn_level2 q = l2 \<and> cn_level3 q = None \<and> same_place q ?p)"
    using l mem by (auto simp: same_place_def)
  obtain x where "l2 = Some x" using l2 by blast
  then show ?thesis
    using ok para level2 st by (simp add: node_ok_def child_node_def same_place_def state_ok_def)
qed

lemma open_node_ok:
  assumes "state_ok st" "st_open_para st = Some i \<or> st_open_level2 st = Some i"
  shows "open_node (Some i) st = Inr (st_nodes st ! i)"
  using assms by (auto simp: open_node_def state_ok_def)

lemma state_ok_moved:
  assumes "state_ok st" "st_nodes st' = st_nodes st" "st_order st' = st_order st"
    and "st_open_para st' \<in> {None, st_open_para st}" "st_open_level2 st' \<in> {None, st_open_level2 st}"
  shows "state_ok st'"
  using assms by (auto simp: state_ok_def)

lemma state_ok_added:
  assumes st: "state_ok st" and n: "node_ok (st_nodes st) n"
    and st': "st_nodes st' = st_nodes st @ [n]" "st_order st' = Suc (st_order st)"
    and para: "st_open_para st' = st_open_para st \<or> st_open_para st' = Some (length (st_nodes st)) \<and> cn_level2 n = None"
    and level2: "st_open_level2 st' \<in> {None, st_open_level2 st} \<or>
      st_open_level2 st' = Some (length (st_nodes st)) \<and> cn_level2 n \<noteq> None \<and> cn_level3 n = None"
  shows "state_ok st'"
proof -
  have "i < length (st_nodes st') \<and> cn_level2 (st_nodes st' ! i) = None" if "st_open_para st' = Some i" for i
    using para that st unfolding state_ok_def st'(1) by (auto simp: nth_append)
  moreover have "i < length (st_nodes st') \<and> cn_level2 (st_nodes st' ! i) \<noteq> None \<and> cn_level3 (st_nodes st' ! i) = None"
    if "st_open_level2 st' = Some i" for i
    using level2 that st unfolding state_ok_def st'(1) by (auto simp: nth_append)
  ultimately show ?thesis using st n unfolding state_ok_def st' by simp
qed

lemma chapter_line_ok:
  assumes "state_ok st" "rx_match CHAPTER_RE line = Some m"
  obtains st' where "chapter_line m st = Inr st'" "state_ok st'"
proof -
  obtain a b where "grp m 1 = Inr a" "grp m 2 = Inr b"
    using grp_total [OF assms(2)] by (metis One_nat_def marker_groups(1,2))
  then show thesis
    using that state_ok_moved [OF assms(1)] by (fastforce simp: chapter_line_def)
qed

lemma section_line_ok:
  assumes "state_ok st" "rx_match SECTION_RE line = Some m"
  obtains st' where "section_line m st = Inr st'" "state_ok st'"
proof -
  obtain a b where "grp m 1 = Inr a" "grp m 2 = Inr b"
    using grp_total [OF assms(2)] by (metis One_nat_def marker_groups(3,4))
  then show thesis
    using that state_ok_moved [OF assms(1)] by (fastforce simp: section_line_def Let_def)
qed

lemma para_line_ok:
  assumes "state_ok st" "rx_match PARA_RE line = Some m"
  obtains st' where "para_line m st = Inr st'" "state_ok st'"
proof -
  obtain a b where g: "grp m 1 = Inr a" "grp m 2 = Inr b"
    using grp_total [OF assms(2)] by (metis One_nat_def marker_groups(5,6))
  obtain st' where st': "para_line m st = Inr st'" using g by (simp add: para_line_def Let_def)
  have "state_ok st'"
    by (rule state_ok_added [OF assms(1), of "last (st_nodes st')"])
      (use st' g assms(1) in \<open>auto simp: para_line_def add_node_def Let_def state_ok_def intro!: para_node_ok\<close>)
  with st' show thesis by (rule that)
qed

lemma level2_line_ok:
  assumes st: "state_ok st" and m: "rx_match (level2_re d) line = Some m" and i: "st_open_para st = Some i"
  obtains st' where "level2_line d m st = Inr st'" "state_ok st'"
proof -
  obtain a b where g: "grp m 1 = Inr a" "grp m 2 = Inr b"
    using grp_total [OF m] by (metis One_nat_def marker_groups(7,8))
  have o: "open_node (Some i) st = Inr (st_nodes st ! i)" using open_node_ok st i by blast
  let ?n = "child_node (st_nodes st ! i) (Some (py_lower a)) None b st"
  have n: "node_ok (st_nodes st) ?n"
    using st i by (intro child_node_ok [OF st]) (auto simp: state_ok_def)
  obtain st' where st': "level2_line d m st = Inr st'" using g o i by (simp add: level2_line_def Let_def)
  have "state_ok st'"
    by (rule state_ok_added [OF st n])
      (use st' g o i in \<open>auto simp: level2_line_def add_node_def Let_def child_node_def\<close>)
  with st' show thesis by (rule that)
qed

lemma level3_line_ok:
  assumes st: "state_ok st" and m: "rx_match LEVEL3_RE line = Some m" and i: "st_open_level2 st = Some i"
  obtains st' where "level3_line m st = Inr st'" "state_ok st'"
proof -
  obtain a b where g: "grp m 1 = Inr a" "grp m 2 = Inr b"
    using grp_total [OF m] by (metis One_nat_def marker_groups(9,10))
  have o: "open_node (Some i) st = Inr (st_nodes st ! i)" using open_node_ok st i by blast
  let ?n = "child_node (st_nodes st ! i) (cn_level2 (st_nodes st ! i)) (Some a) b st"
  have n: "node_ok (st_nodes st) ?n"
    using st i by (intro child_node_ok [OF st]) (auto simp: state_ok_def)
  have "state_ok (add_node ?n st)"
    by (rule state_ok_added [OF st n]) (auto simp: add_node_def)
  then show thesis using that g o i by (simp add: level3_line_def)
qed

lemma note_line_ok:
  assumes st: "state_ok st" and m: "rx_match NOTE_RE line = Some m" and i: "st_open_para st = Some i"
  obtains st' where "note_line m st = Inr st'" "state_ok st'"
proof -
  obtain b where g: "grp m 1 = Inr b"
    using grp_total [OF m] by (metis One_nat_def marker_groups(11))
  have o: "open_node (Some i) st = Inr (st_nodes st ! i)" using open_node_ok st i by blast
  have n: "node_ok (st_nodes st) (child_node (st_nodes st ! i) (Some ''note'') (Some k) b st)" for k
    using st i by (intro child_node_ok [OF st]) (auto simp: state_ok_def)
  have "state_ok (add_node (child_node (st_nodes st ! i) (Some ''note'') (Some k) b st) st)" for k
    by (rule state_ok_added [OF st n [of k]]) (auto simp: add_node_def)
  then show thesis using that g o i by (simp add: note_line_def Let_def)
qed

lemma continue_line_ok:
  assumes "state_ok st"
  shows "state_ok (continue_line line st)"
proof (cases "st_nodes st = []")
  case False
  then obtain ns n where ns: "st_nodes st = ns @ [n]" by (metis rev_exhaust)
  show ?thesis using assms unfolding state_ok_def continue_line_def ns
    by (auto simp: Let_def nth_append split: if_splits)
qed (use assms in \<open>simp add: continue_line_def\<close>)

lemma parse_line_ok:
  assumes st: "state_ok st"
  shows "\<exists>st'. parse_line d line st = Inr st' \<and> state_ok st'"
proof -
  define note_match where "note_match = (if st_open_para st \<noteq> None then rx_match NOTE_RE line else None)"
  define level3_match where
    "level3_match = (if st_open_level2 st \<noteq> None \<and> note_match = None then rx_match LEVEL3_RE line else None)"
  define level2_match where
    "level2_match = (if st_open_para st \<noteq> None \<and> level3_match = None then rx_match (level2_re d) line else None)"
  define para_match where "para_match = (if level2_match = None then rx_match PARA_RE line else None)"
  have chap: "\<exists>st'. chapter_line m st = Inr st' \<and> state_ok st'" if "rx_match CHAPTER_RE line = Some m" for m
    by (rule chapter_line_ok [OF st that]) blast
  have sect: "\<exists>st'. section_line m st = Inr st' \<and> state_ok st'" if "rx_match SECTION_RE line = Some m" for m
    by (rule section_line_ok [OF st that]) blast
  have para: "\<exists>st'. para_line m st = Inr st' \<and> state_ok st'" if "para_match = Some m" for m
    by (rule para_line_ok [OF st, of line m]) (use that in \<open>auto simp: para_match_def split: if_splits\<close>)
  have level2: "\<exists>st'. level2_line d m st = Inr st' \<and> state_ok st'" if "level2_match = Some m" for m
    by (rule level2_line_ok [OF st, of d line m "the (st_open_para st)"])
      (use that in \<open>auto simp: level2_match_def split: if_splits\<close>)
  have level3: "\<exists>st'. level3_line m st = Inr st' \<and> state_ok st'" if "level3_match = Some m" for m
    by (rule level3_line_ok [OF st, of line m "the (st_open_level2 st)"])
      (use that in \<open>auto simp: level3_match_def split: if_splits\<close>)
  have a_note: "\<exists>st'. note_line m st = Inr st' \<and> state_ok st'" if "note_match = Some m" for m
    by (rule note_line_ok [OF st, of line m "the (st_open_para st)"])
      (use that in \<open>auto simp: note_match_def split: if_splits\<close>)
  show ?thesis
    using chap sect para level2 level3 a_note continue_line_ok [OF st, of line]
    unfolding parse_line_def Let_def note_match_def [symmetric] level3_match_def [symmetric]
      level2_match_def [symmetric] para_match_def [symmetric]
    by (auto split: option.split)
qed

lemma parse_lines_ok:
  "state_ok st \<Longrightarrow> \<exists>st'. parse_lines d ls st = Inr st' \<and> state_ok st'"
proof (induction ls arbitrary: st)
  case (Cons line ls)
  obtain st' where "parse_line d line st = Inr st'" "state_ok st'" using parse_line_ok [OF Cons.prems] by blast
  then show ?case using Cons.IH by simp
qed simp

lemma parse_continuous_ok:
  obtains p where "parse_continuous d s = Inr p" "clause_tree (pi_nodes p)"
proof -
  obtain st where "parse_lines d (join_hard_wraps s) initial_state = Inr st" "state_ok st"
    using parse_lines_ok [OF initial_state_ok] by blast
  then show thesis using that by (simp add: parse_continuous_def Let_def state_ok_def)
qed

section \<open>Annex rows, chunks and references\<close>

lemma py_len_take: "py_len (py_take n s) \<le> n"
  by (induction n s rule: py_take.induct) (auto simp: py_len_def split: nat.splits)

lemma first_sentence_short: "py_len (first_sentence s) \<le> STEM_MAX_CHARS"
  unfolding first_sentence_def by (rule py_len_take)

definition annex_ok :: "string \<Rightarrow> string \<Rightarrow> nat \<Rightarrow> clause_node \<Rightarrow> bool" where
  "annex_ok part header i n \<longleftrightarrow>
     cn_order n = i \<and> cn_para_number n = ''annexA'' \<and> cn_level2 n = Some (''part'' @ part) \<and>
     (cn_kind n = TableRowKind \<and> (\<exists>body. cn_text n = header @ '' :: '' @ body) \<or>
      cn_kind n = IllustrationKind \<and> cn_level3 n = Some ''illustration'')"

lemma annex_rows_ok:
  "(\<forall>i < length nodes. annex_ok part header i (nodes ! i)) \<Longrightarrow>
   \<exists>ns ws. annex_rows part header ls nodes warnings = Inr (ns, ws) \<and> (\<forall>i < length ns. annex_ok part header i (ns ! i))"
proof (induction part header ls nodes warnings rule: annex_rows.induct)
  case (2 part header line rest nodes warnings)
  have snoc: "\<forall>i < length (nodes @ [n]). annex_ok part header i ((nodes @ [n]) ! i)"
    if "annex_ok part header (length nodes) n" for n
    using 2(4) that by (auto simp: nth_append less_Suc_eq)
  show ?case
  proof (cases "rx_match ILLUSTRATION_START_RE line")
    case (Some m)
    then show ?thesis
      using 2(1) snoc by (simp add: Let_def annex_ok_def annex_node_def)
  next
    case no_illustration: None
    show ?thesis
    proof (cases "rx_match ROW_MARKER_RE line")
      case None
      then show ?thesis using 2(2,4) no_illustration by simp
    next
      case (Some m)
      then obtain g where g: "grp m 1 = Inr g" using grp_total marker_groups(12) by (metis One_nat_def)
      then show ?thesis
        using 2(3) [OF _ Some, of g] snoc no_illustration Some by (simp add: annex_ok_def annex_node_def)
    qed
  qed
qed simp

lemma parent_of_found:
  assumes "q \<in> set nodes" "cn_para_number q = cn_para_number n" "cn_level3 q = None"
    and "if cn_level3 n \<noteq> None then cn_level2 q = cn_level2 n else cn_level2 n \<noteq> None \<and> cn_level2 q = None"
  obtains p where "parent_of nodes n = Some p" "p \<in> set nodes" "node_key p = node_key q"
proof -
  define keyed where "keyed = rev (map (\<lambda>x. (node_key x, x)) nodes)"
  have p: "parent_of nodes n = map_of keyed (node_key q)"
    unfolding parent_of_def Let_def node_key_def [of q] keyed_def [symmetric]
    using assms(2-4) by (cases "cn_level3 n"; cases "cn_level2 n") simp_all
  have "node_key q \<in> fst ` set keyed" using assms(1) by (force simp: keyed_def)
  then obtain x where x: "map_of keyed (node_key q) = Some x" by (metis domD dom_map_of_conv_image_fst)
  then have "(node_key q, x) \<in> set keyed" by (rule map_of_SomeD)
  then show thesis using that [of x] p x by (auto simp: keyed_def)
qed

lemma chunk_nodes_nth:
  "i < length nodes \<Longrightarrow> chunk_nodes nodes ! i = mk_chunk nodes (i, nodes ! i)"
  by (simp add: chunk_nodes_def nth_enumerate_eq)

lemma length_chunk_nodes [simp]: "length (chunk_nodes nodes) = length nodes"
  by (simp add: chunk_nodes_def)

text \<open>
  A quoted circular number is a reference to every known instrument, whichever circular it is: the
  number that was matched is not compared with anything.
\<close>

lemma circular_refers_to_all:
  assumes "rx_search CIRCULAR_RE None (cn_text n) \<noteq> None"
  shows "map re_to_instrument (node_references known am n) = map fst known"
  using assms by (induction known) (auto simp: node_references_def List.map_filter_simps split: prod.splits)

section \<open>Properties\<close>

text \<open>
  C30: The parser of continuous paragraphs returns for every text, whatever it contains: no group of
  a match is missing and no assertion on the open paragraph or the open level-2 node fails. The
  nodes are numbered in order, every node below a paragraph comes after a node of that paragraph in
  the same chapter and section, and every level-3 node after its level-2 node.
\<close>

theorem parsed_tree:
  "\<exists>p. parse_continuous d s = Inr p \<and>
     (\<forall>j < length (pi_nodes p).
        let n = pi_nodes p ! j; earlier = take j (pi_nodes p) in
        cn_order n = j \<and> cn_para_sort n = para_sort_key (cn_para_number n) \<and>
        (cn_level2 n = None \<longrightarrow> cn_level3 n = None) \<and>
        (cn_level2 n \<noteq> None \<longrightarrow> (\<exists>q \<in> set earlier. cn_level2 q = None \<and> same_place q n)) \<and>
        (cn_level3 n \<noteq> None \<and> cn_level2 n \<noteq> Some ''note'' \<longrightarrow>
          (\<exists>q \<in> set earlier. cn_level2 q = cn_level2 n \<and> cn_level3 q = None \<and> same_place q n)))"
proof -
  obtain p where "parse_continuous d s = Inr p" "clause_tree (pi_nodes p)" by (rule parse_continuous_ok)
  then show ?thesis by (intro exI [of _ p]) (simp add: clause_tree_def node_ok_def Let_def)
qed

definition sample_text :: string where
  "sample_text = ''4. Release.'' @ [CHR 0x0A] @ ''(1) Papers:'' @ [CHR 0x0A] @ ''(a) on time.'' @ [CHR 0x0A] @ ''Note: ok''"

definition sample_nodes :: "clause_node list" where
  "sample_nodes =
     (let n = \<lparr>cn_chapter = None, cn_chapter_title = None, cn_section_letter = None, cn_section_title = None,
               cn_para_number = ''4'', cn_para_sort = 4, cn_level2 = None, cn_level3 = None, cn_heading = None,
               cn_text = ''Release.'', cn_order = 0, cn_kind = ClauseKind, cn_classes = []\<rparr>
      in [n, n\<lparr>cn_level2 := Some ''1'', cn_text := ''Papers:'', cn_order := 1\<rparr>,
          n\<lparr>cn_level2 := Some ''1'', cn_level3 := Some ''a'', cn_text := ''on time.'', cn_order := 2\<rparr>,
          n\<lparr>cn_level2 := Some ''note'', cn_level3 := Some ''1'', cn_text := ''ok'', cn_order := 3\<rparr>])"

lemma sample_parsed:
  "parse_continuous ParenNumeral sample_text =
     Inr \<lparr>pi_nodes = sample_nodes, pi_range = (''4'', ''4''), pi_warnings = []\<rparr>"
  by code_simp

lemma sample_paths: "map clause_path sample_nodes = [''p4'', ''p4/1'', ''p4/1/a'', ''p4/note/1'']"
  by code_simp

theorem parsed_tree_witness:
  "\<exists>p. parse_continuous ParenNumeral sample_text = Inr p \<and> pi_nodes p = sample_nodes \<and>
     (\<exists>q \<in> set (take 2 (pi_nodes p)). cn_level2 q = Some ''1'' \<and> cn_level3 q = None \<and> same_place q (pi_nodes p ! 2))"
  using parsed_tree [of ParenNumeral sample_text] unfolding sample_parsed by (auto simp: sample_nodes_def Let_def same_place_def)


lemma mk_chunk_frame:
  "ck_node (mk_chunk ns (i, n)) = n" "ck_index (mk_chunk ns (i, n)) = i"
  "ck_token_count (mk_chunk ns (i, n)) = token_count (cn_text n)"
  by (simp_all add: mk_chunk_def Let_def split: prod.splits)

lemma mk_chunk_leaf:
  assumes "cn_kind n = ClauseKind" "parent_of ns n = None \<or> STEM_MIN_TOKENS \<le> token_count (cn_text n)"
  shows "ck_strategy (mk_chunk ns (i, n)) = ''leaf''" "ck_text_with_stem (mk_chunk ns (i, n)) = cn_text n"
  using assms by (auto simp: mk_chunk_def Let_def)

lemma mk_chunk_stem:
  assumes "cn_kind n = ClauseKind" "parent_of ns n = Some q" "token_count (cn_text n) < STEM_MIN_TOKENS"
  shows "ck_strategy (mk_chunk ns (i, n)) = ''leaf+stem''"
    "ck_text_with_stem (mk_chunk ns (i, n)) = py_strip (first_sentence (cn_text q) @ '' '' @ cn_text n)"
  using assms by (auto simp: mk_chunk_def Let_def)

lemma parent_in_tree:
  assumes tree: "clause_tree ns" and i: "i < length ns" and n: "n = ns ! i"
    and child: "cn_level2 n \<noteq> None" "cn_level2 n \<noteq> Some ''note''"
  obtains q where "parent_of ns n = Some q" "q \<in> set ns" "cn_para_number q = cn_para_number n" "cn_level3 q = None"
    "cn_level2 q = (if cn_level3 n = None then None else cn_level2 n)"
proof -
  let ?l2 = "if cn_level3 n = None then None else cn_level2 n"
  have ok: "node_ok (take i ns) n" unfolding n by (rule clause_tree_nth [OF tree i])
  have "\<exists>q \<in> set (take i ns). cn_level2 q = ?l2 \<and> same_place q n \<and> cn_level3 q = None"
  proof (cases "cn_level3 n = None")
    case True
    then obtain q where q: "q \<in> set (take i ns)" "cn_level2 q = None" "same_place q n"
      using ok child unfolding node_ok_def by blast
    then obtain k where "k < length ns" "q = ns ! k" by (metis in_set_conv_nth in_set_takeD)
    then have "cn_level3 q = None" using q(2) clause_tree_nth [OF tree, of k] by (simp add: node_ok_def)
    then show ?thesis using q True by auto
  next
    case False
    then show ?thesis using ok child unfolding node_ok_def by auto
  qed
  then obtain q where q: "q \<in> set ns" "cn_level2 q = ?l2" "same_place q n" "cn_level3 q = None"
    by (meson in_set_takeD)
  have para: "cn_para_number q = cn_para_number n" using q(3) by (simp add: same_place_def)
  obtain r where r: "parent_of ns n = Some r" "r \<in> set ns" "node_key r = node_key q"
    using parent_of_found [OF q(1) para q(4)] q(2) child(1) by (metis (full_types))
  show thesis using r q para by (intro that [of r]) (simp_all add: node_key_def)
qed

text \<open>
  Chunking the nodes of a parsed instrument gives one chunk per node, in order. A node of fewer
  than forty words below a paragraph is prefixed by the first sentence, at most two hundred
  characters, of a node of the same paragraph one level up; a paragraph, and any node that is
  longer, stands for itself.
\<close>

theorem chunk_stems:
  assumes "parse_continuous d s = Inr p" "i < length (pi_nodes p)"
  defines "n \<equiv> pi_nodes p ! i" and "c \<equiv> chunk_nodes (pi_nodes p) ! i"
  shows "length (chunk_nodes (pi_nodes p)) = length (pi_nodes p) \<and> ck_node c = n \<and> ck_index c = i \<and>
     ck_token_count c = token_count (cn_text n) \<and>
     (if cn_level2 n = None \<or> STEM_MIN_TOKENS \<le> token_count (cn_text n)
      then ck_strategy c = ''leaf'' \<and> ck_text_with_stem c = cn_text n
      else cn_level2 n \<noteq> Some ''note'' \<longrightarrow> ck_strategy c = ''leaf+stem'' \<and>
        (\<exists>q \<in> set (pi_nodes p). cn_para_number q = cn_para_number n \<and> cn_level3 q = None \<and>
           cn_level2 q = (if cn_level3 n = None then None else cn_level2 n) \<and>
           py_len (first_sentence (cn_text q)) \<le> STEM_MAX_CHARS \<and>
           ck_text_with_stem c = py_strip (first_sentence (cn_text q) @ '' '' @ cn_text n)))"
proof -
  let ?ns = "pi_nodes p"
  have tree: "clause_tree ?ns" using assms(1) parse_continuous_ok [of d s] by (metis sum.inject(2))
  then have ok: "node_ok (take i ?ns) n" using assms(2) unfolding n_def by (rule clause_tree_nth)
  have c: "c = mk_chunk ?ns (i, n)" unfolding c_def n_def by (rule chunk_nodes_nth [OF assms(2)])
  have kind: "cn_kind n = ClauseKind" using ok by (simp add: node_ok_def)
  note leaf = mk_chunk_leaf [OF kind, of ?ns i] and stem = mk_chunk_stem [OF kind, of ?ns]
  show ?thesis
  proof (cases "cn_level2 n = None \<or> STEM_MIN_TOKENS \<le> token_count (cn_text n)")
    case True
    then have "parent_of ?ns n = None \<or> STEM_MIN_TOKENS \<le> token_count (cn_text n)"
      using ok by (auto simp: parent_of_def node_ok_def Let_def)
    then show ?thesis using True leaf by (simp add: c mk_chunk_frame)
  next
    case False
    then have short: "cn_level2 n \<noteq> None" "token_count (cn_text n) < STEM_MIN_TOKENS" by auto
    have "ck_strategy c = ''leaf+stem'' \<and>
        (\<exists>q \<in> set ?ns. cn_para_number q = cn_para_number n \<and> cn_level3 q = None \<and>
           cn_level2 q = (if cn_level3 n = None then None else cn_level2 n) \<and>
           py_len (first_sentence (cn_text q)) \<le> STEM_MAX_CHARS \<and>
           ck_text_with_stem c = py_strip (first_sentence (cn_text q) @ '' '' @ cn_text n))"
      if not_note: "cn_level2 n \<noteq> Some ''note''"
    proof -
      obtain q where q: "parent_of ?ns n = Some q" "q \<in> set ?ns" "cn_para_number q = cn_para_number n"
        "cn_level3 q = None" "cn_level2 q = (if cn_level3 n = None then None else cn_level2 n)"
        by (rule parent_in_tree [OF tree assms(2) n_def [THEN meta_eq_to_obj_eq] short(1) not_note])
      then show ?thesis using stem [OF q(1) short(2)] first_sentence_short unfolding c by blast
    qed
    then show ?thesis using False by (simp add: c mk_chunk_frame)
  qed
qed

theorem chunk_stems_witness:
  "ck_text_with_stem (chunk_nodes sample_nodes ! 2) = ''Papers: on time.'' \<and>
   ck_strategy (chunk_nodes sample_nodes ! 2) = ''leaf+stem''"
proof -
  have "length sample_nodes = 4" "cn_level2 (sample_nodes ! 2) = Some ''1''" by code_simp+
  moreover have "token_count (cn_text (sample_nodes ! 2)) < STEM_MIN_TOKENS" by code_simp
  ultimately have "ck_strategy (chunk_nodes sample_nodes ! 2) = ''leaf+stem''"
    using chunk_stems [OF sample_parsed, of 2] by (simp split: if_splits)
  moreover have "ck_text_with_stem (chunk_nodes sample_nodes ! 2) = ''Papers: on time.''" by code_simp
  ultimately show ?thesis by simp
qed

text \<open>A note has no stem: its key is looked up under the label it shares with the other notes.\<close>

lemma note_without_stem:
  "ck_strategy (chunk_nodes sample_nodes ! 3) = ''leaf''"
  by code_simp

end
