(* ===== verification/CC_Ingest.thy ===== *)
theory CC_Ingest
  imports CC_Parser CC_Client CC_Boot CC_Tasks
begin

text \<open>
  Building a corpus snapshot: the configuration of the sources (\<open>src/app/corpus/sources.py\<close>), the
  embedding of the chunks (\<open>embed.py\<close>) and the entry points \<open>ingest\<close> and \<open>verify\<close> of
  \<open>src/app/corpus/service.py\<close>, over the tables of the corpus.

  \<open>fetch\<close> and LiteLLM's \<open>aembedding\<close> are parameters, and so are the identifiers \<open>uuid7\<close> returns, as a
  sequence \<open>ie_gen\<close>. An ingest runs in one transaction that is rolled back on an exception, so it
  gives either the new tables or the exception. Of the database the unique constraints on
  \<open>regulation_instrument\<close> and \<open>clause\<close> are modelled; a value outside an enumeration of entity types
  and foreign keys to rows just inserted are not.
\<close>

section \<open>Configuration (sources.py)\<close>

definition VALID_STATUSES :: "string list" where
  "VALID_STATUSES = [''in_force'', ''notified_not_yet_effective'', ''draft'', ''superseded'']"

definition VALID_VERIFICATION :: "string list" where
  "VALID_VERIFICATION = [''rbi_verified'', ''secondary_sourced'', ''unverified'']"

record instrument_source =
  src_code :: string
  src_title :: string
  src_circular :: "string option"
  src_issued_on :: "date option"
  src_url :: string
  src_status :: string
  src_from :: "date option"
  src_to :: "date option"
  src_citable :: bool
  src_verification :: string
  src_note :: "string option"
  src_entity_types :: "string list"
  src_dialect :: dialect
  src_has_annex :: bool
  src_overrides :: "(string \<times> date option \<times> date option) list"

record supersession =
  sup_code :: string
  sup_circular :: string
  sup_title :: string
  sup_on :: date

record corpus_sources =
  cf_instruments :: "instrument_source list"
  cf_supersessions :: "supersession list"
  cf_patterns :: title_patterns

text \<open>The two field validators and then the model validator.\<close>

definition check_source :: "instrument_source \<Rightarrow> unit res" where
  "check_source s =
     (if src_status s \<notin> set VALID_STATUSES then Inl (ValueError ''unknown status'')
      else if src_verification s \<notin> set VALID_VERIFICATION then Inl (ValueError ''unknown verification_status'')
      else if src_status s = ''draft'' \<and> src_from s \<noteq> None
      then Inl (ValueError (src_code s @ '': status=draft must have effective_from=null''))
      else if src_status s = ''notified_not_yet_effective'' \<and> src_from s = None
      then Inl (ValueError (src_code s @ '': status=notified_not_yet_effective requires effective_from''))
      else if src_status s = ''draft'' \<and> src_citable s
      then Inl (ValueError (src_code s @ '': a draft instrument must be citable=false''))
      else Inr ())"

definition duplicate_codes :: "corpus_sources \<Rightarrow> string list" where
  "duplicate_codes cfg =
     (let codes = map src_code (cf_instruments cfg) in filter (\<lambda>c. 1 < count_list codes c) codes)"

definition load_corpus_sources :: "corpus_sources \<Rightarrow> corpus_sources res" where
  "load_corpus_sources cfg =
     ebind (emap check_source (cf_instruments cfg)) (\<lambda>_.
       if duplicate_codes cfg \<noteq> [] then Inl (ValueError ''duplicate instrument codes'') else Inr cfg)"

section \<open>Parsing a source (service.py)\<close>

definition ANNEX_DELIMITER :: string where
  "ANNEX_DELIMITER = ''=== ANNEX A ===''"

definition is_banner :: "string \<Rightarrow> bool" where
  "is_banner line = startswith (py_lstrip line) [CHR 0xE2, CHR 0x9A, CHR 0xA0]"

definition cleaned_text :: "string \<Rightarrow> string" where
  "cleaned_text raw = join [CHR 0x0A] (filter (\<lambda>line. \<not> is_banner line) (splitlines raw))"

text \<open>\<open>s.split(sep, 1)\<close> where \<open>sep in s\<close>.\<close>

fun split_once :: "string \<Rightarrow> string \<Rightarrow> (string \<times> string) option" where
  "split_once sep s =
     (if startswith s sep then Some ([], drop (length sep) s)
      else case s of [] \<Rightarrow> None | c # cs \<Rightarrow> map_option (\<lambda>(a, b). (c # a, b)) (split_once sep cs))"

declare split_once.simps [simp del]

fun annex_parts :: "string list \<Rightarrow> string list list \<Rightarrow> string list \<Rightarrow> string list list" where
  "annex_parts [] parts current = (if current = [] then parts else parts @ [current])"
| "annex_parts (line # rest) parts current =
     (if startswith (py_lower (py_strip line)) ''sl no'' \<and> current \<noteq> []
      then annex_parts rest (parts @ [current]) [line]
      else annex_parts rest parts (current @ [line]))"

definition split_annex_parts :: "string \<Rightarrow> string list" where
  "split_annex_parts annex_text =
     map (join [CHR 0x0A]) (annex_parts (filter (\<lambda>line. py_strip line \<noteq> []) (splitlines annex_text)) [] [])"

fun parse_parts :: "nat \<Rightarrow> string list \<Rightarrow> clause_node list \<Rightarrow> clause_node list res" where
  "parse_parts part_idx [] nodes = Inr nodes"
| "parse_parts part_idx (block # rest) nodes =
     ebind (parse_annex (nat_digits part_idx) block) (\<lambda>r.
       parse_parts (Suc part_idx) rest
         (nodes @ map (\<lambda>n. n\<lparr>cn_order := cn_order n + length nodes\<rparr>) (pi_nodes r)))"

definition parse_instrument :: "instrument_source \<Rightarrow> string \<Rightarrow> clause_node list res" where
  "parse_instrument s raw =
     (let cleaned = cleaned_text raw
      in case (if src_has_annex s then split_once ANNEX_DELIMITER cleaned else None) of
           Some (main_text, annex_text) \<Rightarrow>
             ebind (parse_continuous (src_dialect s) main_text) (\<lambda>r.
               parse_parts 1 (split_annex_parts annex_text) (pi_nodes r))
         | None \<Rightarrow> ebind (parse_continuous (src_dialect s) cleaned) (\<lambda>r. Inr (pi_nodes r)))"

text \<open>The first half of an instrument's turn in \<open>ingest\<close>: nodes, warnings and the paragraph range.\<close>

definition read_instrument ::
  "instrument_source \<Rightarrow> string \<Rightarrow> (clause_node list \<times> string list \<times> (string \<times> string) option) res" where
  "read_instrument s raw =
     (if src_has_annex s then ebind (parse_instrument s raw) (\<lambda>nodes. Inr (nodes, [], None))
      else ebind (parse_continuous (src_dialect s) (cleaned_text raw)) (\<lambda>r.
             Inr (pi_nodes r, pi_warnings r, Some (pi_range r))))"

type_synonym windows = "string \<rightharpoonup> date option \<times> date option"

fun override_loop ::
  "instrument_source \<Rightarrow> string list \<Rightarrow> (string \<times> date option \<times> date option) list \<Rightarrow> windows \<Rightarrow> windows res" where
  "override_loop s known [] resolved = Inr resolved"
| "override_loop s known ((para, w) # rest) resolved =
     (if para \<notin> set known
      then Inl (CorpusIngestError (src_code s @ '': para_override for paragraph '' @ para))
      else override_loop s known rest (resolved(para \<mapsto> w)))"

definition apply_para_overrides :: "clause_node list \<Rightarrow> instrument_source \<Rightarrow> windows res" where
  "apply_para_overrides nodes s = override_loop s (map cn_para_number nodes) (src_overrides s) Map.empty"

definition effective_window :: "clause_node \<Rightarrow> instrument_source \<Rightarrow> windows \<Rightarrow> date option \<times> date option" where
  "effective_window n s overrides =
     (case overrides (cn_para_number n) of Some w \<Rightarrow> w | None \<Rightarrow> (src_from s, src_to s))"

section \<open>Embedding (embed.py)\<close>

text \<open>
  \<open>aembedding\<close> answers the \<open>k\<close>-th request of the run. A batch is tried at most four times while the
  error is transient; a vector is a list, whose length is its dimension.
\<close>

record 'n embedder =
  eb_aembedding :: "nat \<Rightarrow> string list \<Rightarrow> string \<Rightarrow> int \<Rightarrow> api_error + 'n list list"
  eb_model :: string
  eb_dimension :: int
  eb_batch_size :: nat

fun embed_attempts :: "'n embedder \<Rightarrow> string list \<Rightarrow> nat \<Rightarrow> nat \<Rightarrow> nat \<times> 'n list list res" where
  "embed_attempts eb texts 0 k = (k, Inl (TransientLLMError []))"
| "embed_attempts eb texts (Suc left) k =
     (case embed_call (eb_aembedding eb k) texts (eb_model eb) (eb_dimension eb) of
        Inr vs \<Rightarrow> (Suc k, Inr vs)
      | Inl (TransientLLMError e) \<Rightarrow>
          if left = 0 then (Suc k, Inl (TransientLLMError e)) else embed_attempts eb texts left (Suc k)
      | Inl e \<Rightarrow> (Suc k, Inl e))"

definition embed_batch :: "'n embedder \<Rightarrow> string list \<Rightarrow> nat \<Rightarrow> nat \<times> 'n list list res" where
  "embed_batch eb texts k = embed_attempts eb texts 4 k"

definition permanently :: "'a res \<Rightarrow> 'a res" where
  "permanently r =
     (case r of Inl (TransientLLMError e) \<Rightarrow> Inl (EmbeddingError (''embedding failed permanently after retries: '' @ e))
      | _ \<Rightarrow> r)"

text \<open>The batches \<open>texts[i : i + batch_size]\<close>; \<open>range\<close> refuses a step of zero.\<close>

function batches :: "nat \<Rightarrow> 'a list \<Rightarrow> 'a list list" where
  "batches n xs = (if xs = [] \<or> n = 0 then [] else take n xs # batches n (drop n xs))"
  by pat_completeness auto
termination by (relation "measure (\<lambda>(_, xs). length xs)") auto

declare batches.simps [simp del]

fun embed_loop :: "'n embedder \<Rightarrow> string list list \<Rightarrow> nat \<Rightarrow> 'n list list \<Rightarrow> 'n list list res" where
  "embed_loop eb [] k vectors = Inr vectors"
| "embed_loop eb (b # bs) k vectors =
     (let (k', r) = embed_batch eb b k
      in ebind (permanently r) (\<lambda>vs.
           if \<exists>v \<in> set vs. int (length v) \<noteq> eb_dimension eb then Inl (EmbeddingError ''embedding dimension mismatch'')
           else embed_loop eb bs k' (vectors @ vs)))"

definition embed_texts :: "'n embedder \<Rightarrow> string list \<Rightarrow> 'n list list res" where
  "embed_texts eb texts =
     (if eb_batch_size eb = 0 then Inl (ValueError ''range() arg 3 must not be zero'')
      else ebind (embed_loop eb (batches (eb_batch_size eb) texts) 0 []) (\<lambda>vectors.
        if length vectors \<noteq> length texts then Inl (EmbeddingError ''embedded fewer or more vectors than chunks'')
        else Inr vectors))"

section \<open>The tables of the corpus\<close>

record manifest_entry =
  me_code :: string
  me_title :: string
  me_circular :: "string option"
  me_issued_on :: "date option"
  me_from :: "date option"
  me_to :: "date option"
  me_status :: string
  me_citable :: bool
  me_verification :: string
  me_note :: "string option"
  me_url :: string
  me_sha256 :: string
  me_retrieved_at :: datetime
  me_parser_version :: string
  me_clause_count :: nat

text \<open>A row of \<open>regulation_instrument\<close>: the columns it shares with the source, and its own.\<close>

record instrument_row =
  ir_id :: uuid
  ir_snapshot :: uuid
  ir_source :: instrument_source
  ir_sha256 :: string
  ir_retrieved_at :: datetime
  ir_parser_version :: string

text \<open>The dict collected for each clause in \<open>chunk_meta\<close>.\<close>

record clause_meta =
  cm_id :: uuid
  cm_instrument_code :: string
  cm_instrument_id :: uuid
  cm_path :: string
  cm_node :: clause_node
  cm_text_with_stem :: string
  cm_token_count :: nat
  cm_strategy :: string
  cm_index :: nat
  cm_from :: "date option"
  cm_to :: "date option"
  cm_citable :: bool

record snapshot_info =
  si_manifest :: "manifest_entry list"
  si_embedding_model :: string
  si_embedding_dimension :: int
  si_parser_version :: string
  si_chunk_count :: nat
  si_notes :: "string option"

record 'n corpus_db =
  cd_snapshots :: "(uuid \<times> bool) list"
  cd_info :: "uuid \<rightharpoonup> snapshot_info"
  cd_instruments :: "instrument_row list"
  cd_clauses :: "(uuid \<times> clause_meta \<times> 'n list option) list"
  cd_references :: "(uuid \<times> reference_row \<times> string) list"
  cd_supersessions :: "(uuid \<times> uuid \<times> uuid \<times> supersession) list"
  cd_uuids :: nat

text \<open>The same tables as retrieval, assessment and boot read them.\<close>

definition status_of :: "string \<Rightarrow> instrument_status" where
  "status_of s =
     (if s = ''in_force'' then InForce
      else if s = ''notified_not_yet_effective'' then NotifiedNotYetEffective
      else if s = ''draft'' then StatusDraft
      else StatusSuperseded)"

definition instrument_of :: "instrument_row \<Rightarrow> instrument" where
  "instrument_of r =
     \<lparr>in_id = ir_id r, in_snapshot = ir_snapshot r, in_code = src_code (ir_source r),
      in_from = src_from (ir_source r), in_to = src_to (ir_source r), in_status = status_of (src_status (ir_source r)),
      in_entity_types = src_entity_types (ir_source r), in_citable = src_citable (ir_source r),
      in_verification = src_verification (ir_source r)\<rparr>"

definition clause_of :: "uuid \<times> clause_meta \<times> 'n list option \<Rightarrow> clause_row" where
  "clause_of x =
     (let (sid, m, v) = x
      in \<lparr>cl_id = cm_id m, cl_snapshot = sid, cl_instrument_id = cm_instrument_id m,
          cl_instrument_code = cm_instrument_code m, cl_path = cm_path m, cl_heading = cn_heading (cm_node m),
          cl_text = cn_text (cm_node m), cl_from = cm_from m, cl_to = cm_to m, cl_citable = cm_citable m,
          cl_borrower_classes = cn_classes (cm_node m), cl_embedded = (v \<noteq> None)\<rparr>)"

definition corpus_of :: "'n corpus_db \<Rightarrow> corpus" where
  "corpus_of db =
     \<lparr>co_clauses = map clause_of (cd_clauses db), co_instruments = map instrument_of (cd_instruments db),
      co_references = map (fst \<circ> snd) (cd_references db)\<rparr>"

section \<open>Ingest\<close>

record fetch_result =
  ft_text :: string
  ft_sha256 :: string
  ft_retrieved_at :: datetime

record 'n ingest_env =
  ie_fetch :: "string \<Rightarrow> fetch_result res"
  ie_embedder :: "'n embedder"
  ie_api_key :: "string option"
  ie_gen :: "nat \<Rightarrow> uuid"

definition PARSER_VERSION :: string where
  "PARSER_VERSION = ''continuous_para/1.0+annex_table/1.0''"

definition has_api_key :: "'n ingest_env \<Rightarrow> bool" where
  "has_api_key env \<longleftrightarrow> truthy (ie_api_key env) \<noteq> []"

definition insert_snapshot :: "'n ingest_env \<Rightarrow> 'n corpus_db \<Rightarrow> uuid \<times> 'n corpus_db" where
  "insert_snapshot env db =
     (let sid = ie_gen env (cd_uuids db)
      in (sid, db\<lparr>cd_uuids := Suc (cd_uuids db), cd_snapshots := cd_snapshots db @ [(sid, False)],
           cd_info := (cd_info db)(sid \<mapsto>
             \<lparr>si_manifest = [], si_embedding_model = eb_model (ie_embedder env),
              si_embedding_dimension = eb_dimension (ie_embedder env), si_parser_version = PARSER_VERSION,
              si_chunk_count = 0, si_notes = (if has_api_key env then None else Some ''placeholder corpus'')\<rparr>)\<rparr>))"

record ingest_acc =
  ac_nodes :: "(string \<times> clause_node list) list"
  ac_manifest :: "manifest_entry list"
  ac_warnings :: "(string \<times> string list) list"
  ac_ranges :: "(string \<times> string \<times> string) list"
  ac_ids :: "(string \<times> uuid) list"

definition empty_acc :: ingest_acc where
  "empty_acc = \<lparr>ac_nodes = [], ac_manifest = [], ac_warnings = [], ac_ranges = [], ac_ids = []\<rparr>"

definition manifest_of :: "instrument_source \<Rightarrow> fetch_result \<Rightarrow> nat \<Rightarrow> manifest_entry" where
  "manifest_of s f n =
     \<lparr>me_code = src_code s, me_title = src_title s, me_circular = src_circular s, me_issued_on = src_issued_on s,
      me_from = src_from s, me_to = src_to s, me_status = src_status s, me_citable = src_citable s,
      me_verification = src_verification s, me_note = src_note s, me_url = src_url s, me_sha256 = ft_sha256 f,
      me_retrieved_at = ft_retrieved_at f, me_parser_version = PARSER_VERSION, me_clause_count = n\<rparr>"

definition ingest_instrument ::
  "'n ingest_env \<Rightarrow> uuid \<Rightarrow> instrument_source \<Rightarrow> 'n corpus_db \<Rightarrow> ingest_acc \<Rightarrow> ('n corpus_db \<times> ingest_acc) res" where
  "ingest_instrument env sid s db acc =
     ebind (ie_fetch env (src_url s)) (\<lambda>f.
     ebind (read_instrument s (ft_text f)) (\<lambda>(nodes, warnings, para_range).
     ebind (apply_para_overrides nodes s) (\<lambda>_.
       let iid = ie_gen env (cd_uuids db);
           row = \<lparr>ir_id = iid, ir_snapshot = sid, ir_source = s, ir_sha256 = ft_sha256 f,
                  ir_retrieved_at = ft_retrieved_at f, ir_parser_version = PARSER_VERSION\<rparr>
       in if \<exists>r \<in> set (cd_instruments db). ir_snapshot r = sid \<and> src_code (ir_source r) = src_code s
          then Inl (IntegrityError ''regulation_instrument (snapshot_id, code)'')
          else Inr (db\<lparr>cd_uuids := Suc (cd_uuids db), cd_instruments := cd_instruments db @ [row]\<rparr>,
                 \<lparr>ac_nodes = alist_put (src_code s) nodes (ac_nodes acc),
                  ac_manifest = ac_manifest acc @ [manifest_of s f (length nodes)],
                  ac_warnings = alist_put (src_code s) warnings (ac_warnings acc),
                  ac_ranges = (case para_range of None \<Rightarrow> ac_ranges acc
                    | Some r \<Rightarrow> alist_put (src_code s) r (ac_ranges acc)),
                  ac_ids = alist_put (src_code s) iid (ac_ids acc)\<rparr>))))"

fun ingest_instruments ::
  "'n ingest_env \<Rightarrow> uuid \<Rightarrow> instrument_source list \<Rightarrow> 'n corpus_db \<Rightarrow> ingest_acc \<Rightarrow> ('n corpus_db \<times> ingest_acc) res" where
  "ingest_instruments env sid [] db acc = Inr (db, acc)"
| "ingest_instruments env sid (s # ss) db acc =
     ebind (ingest_instrument env sid s db acc) (\<lambda>(db', acc'). ingest_instruments env sid ss db' acc')"

text \<open>\<open>d[k]\<close>.\<close>

definition item :: "(string \<times> 'a) list \<Rightarrow> string \<Rightarrow> 'a res" where
  "item d k = (case map_of d k of None \<Rightarrow> Inl (KeyError k) | Some x \<Rightarrow> Inr x)"

definition meta_of :: "uuid \<Rightarrow> instrument_source \<Rightarrow> uuid \<Rightarrow> windows \<Rightarrow> clause_chunk \<Rightarrow> clause_meta" where
  "meta_of cid s iid overrides c =
     (let n = ck_node c; (f, t) = effective_window n s overrides
      in \<lparr>cm_id = cid, cm_instrument_code = src_code s, cm_instrument_id = iid,
          cm_path = src_code s @ ''/'' @ clause_path n, cm_node = n, cm_text_with_stem = ck_text_with_stem c,
          cm_token_count = ck_token_count c, cm_strategy = ck_strategy c, cm_index = ck_index c,
          cm_from = f, cm_to = t, cm_citable = src_citable s\<rparr>)"

definition instrument_metas ::
  "'n ingest_env \<Rightarrow> ingest_acc \<Rightarrow> instrument_source \<Rightarrow> nat \<Rightarrow> clause_meta list res" where
  "instrument_metas env acc s k =
     ebind (item (ac_nodes acc) (src_code s)) (\<lambda>nodes.
     ebind (apply_para_overrides nodes s) (\<lambda>overrides.
     ebind (item (ac_ids acc) (src_code s)) (\<lambda>iid.
       Inr (map (\<lambda>(i, c). meta_of (ie_gen env i) s iid overrides c) (enumerate k (chunk_nodes nodes))))))"

fun collect_metas ::
  "'n ingest_env \<Rightarrow> ingest_acc \<Rightarrow> instrument_source list \<Rightarrow> nat \<Rightarrow> clause_meta list \<Rightarrow> (nat \<times> clause_meta list) res" where
  "collect_metas env acc [] k metas = Inr (k, metas)"
| "collect_metas env acc (s # ss) k metas =
     ebind (instrument_metas env acc s k) (\<lambda>ms. collect_metas env acc ss (k + length ms) (metas @ ms))"

definition embeddings :: "'n ingest_env \<Rightarrow> string list \<Rightarrow> 'n list option list res" where
  "embeddings env texts =
     (if has_api_key env then ebind (embed_texts (ie_embedder env) texts) (\<lambda>vs. Inr (map Some vs))
      else Inr (replicate (length texts) None))"

fun insert_clauses ::
  "uuid \<Rightarrow> (clause_meta \<times> 'n list option) list \<Rightarrow> 'n corpus_db \<Rightarrow> 'n corpus_db res" where
  "insert_clauses sid [] db = Inr db"
| "insert_clauses sid ((m, v) # rest) db =
     (if \<exists>x \<in> set (cd_clauses db). fst x = sid \<and> cm_path (fst (snd x)) = cm_path m
      then Inl (IntegrityError ''clause (snapshot_id, clause_path)'')
      else insert_clauses sid rest (db\<lparr>cd_clauses := cd_clauses db @ [(sid, m, v)]\<rparr>))"

definition other_patterns :: "corpus_sources \<Rightarrow> instrument_source \<Rightarrow> title_patterns" where
  "other_patterns cfg s = filter (\<lambda>(code, _). code \<noteq> src_code s) (cf_patterns cfg)"

fun insert_references ::
  "'n ingest_env \<Rightarrow> uuid \<Rightarrow> (string \<rightharpoonup> uuid) \<Rightarrow> instrument_source \<Rightarrow> reference_edge list \<Rightarrow>
   'n corpus_db \<Rightarrow> (string \<times> string \<times> string) list \<Rightarrow> 'n corpus_db \<times> (string \<times> string \<times> string) list" where
  "insert_references env sid path_ids s [] db edges = (db, edges)"
| "insert_references env sid path_ids s (e # es) db edges =
     (let from_path = src_code s @ ''/'' @ re_from e
      in case path_ids from_path of
           None \<Rightarrow> insert_references env sid path_ids s es db edges
         | Some cid \<Rightarrow>
             insert_references env sid path_ids s es
               (db\<lparr>cd_uuids := Suc (cd_uuids db),
                   cd_references := cd_references db @
                     [(ie_gen env (cd_uuids db),
                       \<lparr>rf_snapshot = sid, rf_from_clause = cid, rf_to_instrument = re_to_instrument e,
                        rf_kind = re_kind e\<rparr>, re_text e)]\<rparr>)
               (edges @ [(from_path, re_to_instrument e, re_kind e)]))"

fun reference_loop ::
  "'n ingest_env \<Rightarrow> uuid \<Rightarrow> corpus_sources \<Rightarrow> ingest_acc \<Rightarrow> (string \<rightharpoonup> uuid) \<Rightarrow> instrument_source list \<Rightarrow>
   'n corpus_db \<Rightarrow> (string \<times> string \<times> string) list \<Rightarrow> ('n corpus_db \<times> (string \<times> string \<times> string) list) res" where
  "reference_loop env sid cfg acc path_ids [] db edges = Inr (db, edges)"
| "reference_loop env sid cfg acc path_ids (s # ss) db edges =
     ebind (item (ac_nodes acc) (src_code s)) (\<lambda>nodes.
       let found = extract_references (other_patterns cfg s) (contains ''AMD'' (src_code s)) nodes;
           (db', edges') = insert_references env sid path_ids s found db edges
       in reference_loop env sid cfg acc path_ids ss db' edges')"

fun insert_supersessions ::
  "'n ingest_env \<Rightarrow> uuid \<Rightarrow> ingest_acc \<Rightarrow> supersession list \<Rightarrow> 'n corpus_db \<Rightarrow> 'n corpus_db" where
  "insert_supersessions env sid acc [] db = db"
| "insert_supersessions env sid acc (p # ps) db =
     (case map_of (ac_ids acc) (sup_code p) of
        None \<Rightarrow> insert_supersessions env sid acc ps db
      | Some iid \<Rightarrow>
          insert_supersessions env sid acc ps
            (db\<lparr>cd_uuids := Suc (cd_uuids db),
                cd_supersessions := cd_supersessions db @ [(ie_gen env (cd_uuids db), sid, iid, p)]\<rparr>))"

definition update_manifest :: "uuid \<Rightarrow> manifest_entry list \<Rightarrow> nat \<Rightarrow> 'n corpus_db \<Rightarrow> 'n corpus_db" where
  "update_manifest sid entries n db =
     db\<lparr>cd_info := (cd_info db)(sid := map_option (\<lambda>i. i\<lparr>si_manifest := entries, si_chunk_count := n\<rparr>) (cd_info db sid))\<rparr>"

definition activate :: "uuid \<Rightarrow> 'n corpus_db \<Rightarrow> 'n corpus_db" where
  "activate sid db = db\<lparr>cd_snapshots := activate_snapshot sid (cd_snapshots db)\<rparr>"

record ingest_report =
  ig_snapshot :: uuid
  ig_parser_version :: string
  ig_embedding_model :: string
  ig_embedding_dimension :: int
  ig_chunk_count :: nat
  ig_instruments :: "manifest_entry list"
  ig_warnings :: "(string \<times> string list) list"
  ig_edges :: "(string \<times> string \<times> string) list"
  ig_ranges :: "(string \<times> string \<times> string) list"

definition clause_id_by_path :: "clause_meta list \<Rightarrow> (string \<rightharpoonup> uuid)" where
  "clause_id_by_path metas = map_of (rev (map (\<lambda>m. (cm_path m, cm_id m)) metas))"

definition ingest ::
  "'n ingest_env \<Rightarrow> corpus_sources \<Rightarrow> bool \<Rightarrow> 'n corpus_db \<Rightarrow> (ingest_report \<times> 'n corpus_db) res" where
  "ingest env cfg0 activated db =
     ebind (load_corpus_sources cfg0) (\<lambda>cfg.
       let (sid, db1) = insert_snapshot env db
       in ebind (ingest_instruments env sid (cf_instruments cfg) db1 empty_acc) (\<lambda>(db2, acc).
          ebind (collect_metas env acc (cf_instruments cfg) (cd_uuids db2) []) (\<lambda>(k, metas).
          ebind (embeddings env (map cm_text_with_stem metas)) (\<lambda>vs.
          if length vs \<noteq> length metas then Inl (ValueError ''zip() arguments have different lengths'')
          else
          ebind (insert_clauses sid (zip metas vs) (db2\<lparr>cd_uuids := k\<rparr>)) (\<lambda>db3.
          ebind (reference_loop env sid cfg acc (clause_id_by_path metas) (cf_instruments cfg) db3 []) (\<lambda>(db4, edges).
            let db5 = insert_supersessions env sid acc (cf_supersessions cfg) db4;
                db6 = update_manifest sid (ac_manifest acc) (length metas) db5;
                db7 = (if activated then activate sid db6 else db6)
            in Inr (\<lparr>ig_snapshot = sid, ig_parser_version = PARSER_VERSION, ig_embedding_model = eb_model (ie_embedder env),
                     ig_embedding_dimension = eb_dimension (ie_embedder env), ig_chunk_count = length metas, ig_instruments = ac_manifest acc,
                     ig_warnings = ac_warnings acc, ig_edges = edges, ig_ranges = ac_ranges acc\<rparr>, db7)))))))"

section \<open>Drift (verify)\<close>

record drift_entry =
  de_code :: string
  de_status :: string
  de_old :: string
  de_new :: "string option"

definition any_changed :: "drift_entry list \<Rightarrow> bool" where
  "any_changed entries \<longleftrightarrow> (\<exists>e \<in> set entries. de_status e \<noteq> ''unchanged'')"

definition drift_of :: "(string \<Rightarrow> fetch_result res) \<Rightarrow> (string \<rightharpoonup> manifest_entry) \<Rightarrow> instrument_source \<Rightarrow> drift_entry res" where
  "drift_of fetch old_by_code s =
     (let old_sha = (case old_by_code (src_code s) of None \<Rightarrow> [] | Some m \<Rightarrow> me_sha256 m)
      in case fetch (src_url s) of
           Inr f \<Rightarrow> Inr \<lparr>de_code = src_code s,
                        de_status = (if ft_sha256 f = old_sha then ''unchanged'' else ''changed''),
                        de_old = old_sha, de_new = Some (ft_sha256 f)\<rparr>
         | Inl (CorpusFetchError e) \<Rightarrow>
             Inr \<lparr>de_code = src_code s, de_status = ''unreachable'', de_old = old_sha, de_new = None\<rparr>
         | Inl e \<Rightarrow> Inl e)"

definition manifest_by_code :: "manifest_entry list \<Rightarrow> (string \<rightharpoonup> manifest_entry)" where
  "manifest_by_code ms = map_of (rev (map (\<lambda>m. (me_code m, m)) ms))"

definition verify :: "(string \<Rightarrow> fetch_result res) \<Rightarrow> corpus_sources \<Rightarrow> 'n corpus_db \<Rightarrow> drift_entry list res" where
  "verify fetch cfg0 db =
     ebind (load_corpus_sources cfg0) (\<lambda>cfg.
     ebind (get_active_snapshot_id (cd_snapshots db)) (\<lambda>active.
       case active of
         None \<Rightarrow> Inr (map (\<lambda>s. \<lparr>de_code = src_code s, de_status = ''unreachable'', de_old = [], de_new = None\<rparr>)
                       (cf_instruments cfg))
       | Some sid \<Rightarrow>
           let manifest = (case cd_info db sid of None \<Rightarrow> [] | Some i \<Rightarrow> si_manifest i)
           in emap (drift_of fetch (manifest_by_code manifest)) (cf_instruments cfg)))"

section \<open>What an ingest writes\<close>

text \<open>The instruments of a run: their rows, manifest entries and ids.\<close>

definition manifested :: "'n ingest_env \<Rightarrow> instrument_source \<Rightarrow> manifest_entry \<Rightarrow> bool" where
  "manifested env s m \<longleftrightarrow>
     (\<exists>f nodes w r. ie_fetch env (src_url s) = Inr f \<and> read_instrument s (ft_text f) = Inr (nodes, w, r) \<and>
        m = manifest_of s f (length nodes))"

definition only_instruments :: "'n corpus_db \<Rightarrow> 'n corpus_db \<Rightarrow> bool" where
  "only_instruments db db' \<longleftrightarrow>
     cd_snapshots db' = cd_snapshots db \<and> cd_info db' = cd_info db \<and> cd_clauses db' = cd_clauses db \<and>
     cd_references db' = cd_references db \<and> cd_supersessions db' = cd_supersessions db \<and>
     cd_uuids db \<le> cd_uuids db'"

lemma ingest_instrument_InrE:
  assumes "ingest_instrument env sid s db acc = Inr (db', acc')"
  obtains f nodes w r ov row where "ie_fetch env (src_url s) = Inr f" "read_instrument s (ft_text f) = Inr (nodes, w, r)"
    "apply_para_overrides nodes s = Inr ov" "only_instruments db db'"
    "cd_instruments db' = cd_instruments db @ [row]" "ir_id row = ie_gen env (cd_uuids db)" "ir_snapshot row = sid"
    "ir_source row = s"
    "ac_manifest acc' = ac_manifest acc @ [manifest_of s f (length nodes)]"
    "map_of (ac_nodes acc') = (map_of (ac_nodes acc))(src_code s \<mapsto> nodes)"
    "map_of (ac_ids acc') = (map_of (ac_ids acc))(src_code s \<mapsto> ie_gen env (cd_uuids db))"
  using assms unfolding ingest_instrument_def only_instruments_def
  by (auto simp: Let_def ebind_Inr_iff map_of_alist_put split: if_splits)

lemma ingest_instruments_written:
  assumes "ingest_instruments env sid ss db acc = Inr (db', acc')"
  obtains rows ms where "only_instruments db db'" "cd_instruments db' = cd_instruments db @ rows"
    "map ir_source rows = ss" "\<forall>r \<in> set rows. ir_snapshot r = sid"
    "ac_manifest acc' = ac_manifest acc @ ms" "list_all2 (manifested env) ss ms"
  using assms
proof (induction ss arbitrary: db acc thesis)
  case Nil
  then show ?case by (auto simp: only_instruments_def)
next
  case (Cons s ss)
  obtain db1 acc1 where one: "ingest_instrument env sid s db acc = Inr (db1, acc1)"
    "ingest_instruments env sid ss db1 acc1 = Inr (db', acc')"
    using Cons.prems(2) by (auto simp: ebind_Inr_iff)
  obtain rows ms where rest: "only_instruments db1 db'" "cd_instruments db' = cd_instruments db1 @ rows"
    "map ir_source rows = ss" "\<forall>r \<in> set rows. ir_snapshot r = sid"
    "ac_manifest acc' = ac_manifest acc1 @ ms" "list_all2 (manifested env) ss ms"
    using Cons.IH [OF _ one(2)] by blast
  obtain f nodes w r ov row where f: "ie_fetch env (src_url s) = Inr f"
    "read_instrument s (ft_text f) = Inr (nodes, w, r)" "apply_para_overrides nodes s = Inr ov"
    "only_instruments db db1"
    "cd_instruments db1 = cd_instruments db @ [row]" "ir_snapshot row = sid" "ir_source row = s"
    "ac_manifest acc1 = ac_manifest acc @ [manifest_of s f (length nodes)]"
    by (rule ingest_instrument_InrE [OF one(1)]) blast
  have "manifested env s (manifest_of s f (length nodes))" using f by (auto simp: manifested_def)
  then show ?case
    using f rest by (intro Cons.prems(1) [of "row # rows" "manifest_of s f (length nodes) # ms"])
      (auto simp: only_instruments_def)
qed

lemma ingest_instruments_kept:
  assumes "ingest_instruments env sid ss db acc = Inr (db', acc')" "src_code s \<notin> src_code ` set ss"
  shows "map_of (ac_ids acc') (src_code s) = map_of (ac_ids acc) (src_code s) \<and>
    map_of (ac_nodes acc') (src_code s) = map_of (ac_nodes acc) (src_code s)"
  using assms
proof (induction ss arbitrary: db acc)
  case (Cons t ts)
  obtain db1 acc1 where one: "ingest_instrument env sid t db acc = Inr (db1, acc1)"
    "ingest_instruments env sid ts db1 acc1 = Inr (db', acc')"
    using Cons.prems(1) by (auto simp: ebind_Inr_iff)
  have "map_of (ac_ids acc1) (src_code s) = map_of (ac_ids acc) (src_code s) \<and>
    map_of (ac_nodes acc1) (src_code s) = map_of (ac_nodes acc) (src_code s)"
    by (rule ingest_instrument_InrE [OF one(1)]) (use Cons.prems(2) in auto)
  then show ?case
    using Cons.IH [OF one(2)] Cons.prems(2) by auto
qed auto

text \<open>With distinct codes the id kept for a code is that of the row written for it.\<close>

lemma ingest_instruments_ids:
  assumes "ingest_instruments env sid ss db acc = Inr (db', acc')" "distinct (map src_code ss)" "s \<in> set ss"
  shows "\<exists>r \<in> set (cd_instruments db'). ir_snapshot r = sid \<and> ir_source r = s \<and>
           map_of (ac_ids acc') (src_code s) = Some (ir_id r)"
  using assms
proof (induction ss arbitrary: db acc)
  case (Cons t ts)
  obtain db1 acc1 where one: "ingest_instrument env sid t db acc = Inr (db1, acc1)"
    "ingest_instruments env sid ts db1 acc1 = Inr (db', acc')"
    using Cons.prems(1) by (auto simp: ebind_Inr_iff)
  show ?case
  proof (cases "s \<in> set ts")
    case True
    then show ?thesis using Cons.IH [OF one(2)] Cons.prems(2) by auto
  next
    case False
    then have s: "s = t" using Cons.prems(3) by simp
    obtain rows where "cd_instruments db' = cd_instruments db1 @ rows"
      by (rule ingest_instruments_written [OF one(2)])
    moreover have "map_of (ac_ids acc') (src_code s) = map_of (ac_ids acc1) (src_code s)"
      using ingest_instruments_kept [OF one(2)] Cons.prems(2) s by auto
    moreover have "\<exists>r \<in> set (cd_instruments db1). ir_snapshot r = sid \<and> ir_source r = s \<and>
        map_of (ac_ids acc1) (src_code s) = Some (ir_id r)"
      unfolding s by (rule ingest_instrument_InrE [OF one(1)]) auto
    ultimately show ?thesis by auto
  qed
qed simp

text \<open>The clauses: each meta belongs to one source and one node of it.\<close>

definition meta_ok :: "ingest_acc \<Rightarrow> instrument_source \<Rightarrow> clause_meta \<Rightarrow> bool" where
  "meta_ok acc s m \<longleftrightarrow>
     (\<exists>ov nodes. map_of (ac_nodes acc) (src_code s) = Some nodes \<and> apply_para_overrides nodes s = Inr ov \<and>
        cm_node m \<in> set nodes \<and> (cm_from m, cm_to m) = effective_window (cm_node m) s ov) \<and>
     map_of (ac_ids acc) (src_code s) = Some (cm_instrument_id m) \<and>
     cm_instrument_code m = src_code s \<and> cm_path m = src_code s @ ''/'' @ clause_path (cm_node m) \<and>
     cm_citable m = src_citable s"

lemma chunk_node_mem: "c \<in> set (chunk_nodes nodes) \<Longrightarrow> ck_node c \<in> set nodes"
  by (auto simp: chunk_nodes_def mk_chunk_frame in_set_enumerate_eq)

lemma instrument_metas_ok:
  assumes "instrument_metas env acc s k = Inr ms" "m \<in> set ms"
  shows "meta_ok acc s m"
proof -
  obtain nodes ov iid where n: "map_of (ac_nodes acc) (src_code s) = Some nodes" "apply_para_overrides nodes s = Inr ov"
    "map_of (ac_ids acc) (src_code s) = Some iid"
    "ms = map (\<lambda>(i, c). meta_of (ie_gen env i) s iid ov c) (enumerate k (chunk_nodes nodes))"
    using assms(1) unfolding instrument_metas_def item_def by (auto simp: ebind_Inr_iff split: option.splits)
  then obtain i c where m: "m = meta_of (ie_gen env i) s iid ov c" "c \<in> set (chunk_nodes nodes)"
    using assms(2) by (auto dest: in_set_enumerate_eq [THEN iffD1] simp: in_set_enumerate_eq)
  then show ?thesis
    using n chunk_node_mem [OF m(2)] unfolding meta_ok_def by (auto simp: meta_of_def Let_def split: prod.splits)
qed

lemma collect_metas_ok:
  assumes "collect_metas env acc ss k metas = Inr (k', metas')"
  shows "k \<le> k' \<and> (\<forall>m \<in> set metas'. m \<in> set metas \<or> (\<exists>s \<in> set ss. meta_ok acc s m))"
  using assms
proof (induction ss arbitrary: k metas)
  case (Cons s ss)
  obtain ms where ms: "instrument_metas env acc s k = Inr ms"
    "collect_metas env acc ss (k + length ms) (metas @ ms) = Inr (k', metas')"
    using Cons.prems by (auto simp: ebind_Inr_iff)
  show ?case using Cons.IH [OF ms(2)] instrument_metas_ok [OF ms(1)] by auto
qed simp

lemma insert_clauses_iff:
  "insert_clauses sid xs db = Inr db' \<longleftrightarrow>
     distinct (map (cm_path \<circ> fst) xs) \<and>
     (\<forall>x \<in> set (cd_clauses db). fst x = sid \<longrightarrow> cm_path (fst (snd x)) \<notin> cm_path ` fst ` set xs) \<and>
     db' = db\<lparr>cd_clauses := cd_clauses db @ map (Pair sid) xs\<rparr>"
proof (induction xs arbitrary: db)
  case (Cons x xs)
  obtain m v where x: "x = (m, v)" by fastforce
  show ?case unfolding x by (auto simp: Cons.IH)
qed auto

lemma insert_clauses_raises:
  "insert_clauses sid xs db = Inl e \<Longrightarrow> e = IntegrityError ''clause (snapshot_id, clause_path)''"
  by (induction sid xs db rule: insert_clauses.induct) (auto split: if_splits)

definition only_references :: "'n corpus_db \<Rightarrow> 'n corpus_db \<Rightarrow> bool" where
  "only_references db db' \<longleftrightarrow>
     cd_snapshots db' = cd_snapshots db \<and> cd_info db' = cd_info db \<and> cd_clauses db' = cd_clauses db \<and>
     cd_instruments db' = cd_instruments db \<and> cd_uuids db \<le> cd_uuids db'"

lemma only_references_trans: "only_references a b \<Longrightarrow> only_references b c \<Longrightarrow> only_references a c"
  by (simp add: only_references_def)

lemma insert_references_frame: "only_references db (fst (insert_references env sid ids s es db edges))"
proof (induction es arbitrary: db edges)
  case (Cons e es)
  show ?case
  proof (cases "ids (src_code s @ ''/'' @ re_from e)")
    case (Some cid)
    define db1 where "db1 = db\<lparr>cd_uuids := Suc (cd_uuids db), cd_references := cd_references db @
      [(ie_gen env (cd_uuids db), \<lparr>rf_snapshot = sid, rf_from_clause = cid, rf_to_instrument = re_to_instrument e,
          rf_kind = re_kind e\<rparr>, re_text e)]\<rparr>"
    have "only_references db db1" by (simp add: only_references_def db1_def)
    then show ?thesis using Cons [of db1] Some only_references_trans by (simp add: Let_def db1_def) blast
  qed (use Cons in \<open>simp add: Let_def\<close>)
qed (simp add: only_references_def)

lemma reference_loop_frame:
  "reference_loop env sid cfg acc ids ss db edges = Inr (db', edges') \<Longrightarrow> only_references db db'"
proof (induction ss arbitrary: db edges)
  case (Cons s ss)
  obtain nodes where n: "item (ac_nodes acc) (src_code s) = Inr nodes" using Cons.prems by (auto simp: ebind_Inr_iff)
  define found where "found = extract_references (other_patterns cfg s) (contains ''AMD'' (src_code s)) nodes"
  obtain db1 edges1 where r: "insert_references env sid ids s found db edges = (db1, edges1)" by fastforce
  have "reference_loop env sid cfg acc ids ss db1 edges1 = Inr (db', edges')"
    using Cons.prems n r by (simp add: found_def Let_def)
  then show ?case
    using Cons.IH insert_references_frame [of db env sid ids s found edges] r only_references_trans by (metis fst_conv)
qed (simp add: only_references_def)

lemma insert_supersessions_frame: "only_references db (insert_supersessions env sid acc ps db)"
proof (induction ps arbitrary: db)
  case (Cons p ps)
  show ?case
  proof (cases "map_of (ac_ids acc) (sup_code p)")
    case (Some iid)
    let ?db = "db\<lparr>cd_uuids := Suc (cd_uuids db),
      cd_supersessions := cd_supersessions db @ [(ie_gen env (cd_uuids db), sid, iid, p)]\<rparr>"
    show ?thesis using Cons [of ?db] Some by (simp add: only_references_def)
  qed (use Cons in simp)
qed (simp add: only_references_def)

section \<open>The whole run\<close>

lemma load_corpus_sources_Inr:
  assumes "load_corpus_sources cfg = Inr cfg'"
  shows "cfg' = cfg" "distinct (map src_code (cf_instruments cfg))"
proof -
  have d: "cfg' = cfg \<and> duplicate_codes cfg = []"
    using assms by (auto simp: load_corpus_sources_def ebind_Inr_iff split: if_splits)
  have "distinct xs" if "\<forall>x \<in> set xs. count_list xs x \<le> 1" for xs :: "string list"
    using that
  proof (induction xs)
    case (Cons x xs)
    have "count_list xs x = 0" using Cons.prems by simp
    moreover have "\<forall>y \<in> set xs. count_list xs y \<le> 1"
      using Cons.prems by (metis count_list.simps(2) le_Suc_eq list.set_intros(2) One_nat_def add_leE Suc_eq_plus1)
    ultimately show ?case using Cons.IH by (simp add: count_list_0_iff)
  qed simp
  moreover have "\<forall>x \<in> set (map src_code (cf_instruments cfg)). count_list (map src_code (cf_instruments cfg)) x \<le> 1"
    using d by (auto simp: duplicate_codes_def Let_def filter_empty_conv not_less)
  ultimately show "distinct (map src_code (cf_instruments cfg))" by blast
  show "cfg' = cfg" using d by simp
qed

lemma override_loop_Inr: "override_loop s known ovs m = Inr m' \<Longrightarrow> m' = m ++ map_of (rev ovs)"
proof (induction s known ovs m rule: override_loop.induct)
  case (2 s known para w rest m)
  then have "m' = m(para \<mapsto> w) ++ map_of (rev rest)" by (simp split: if_splits del: fun_upd_apply)
  then show ?case by (simp add: map_add_assoc)
qed simp

text \<open>The window the configuration gives a paragraph: a later override of the same key wins.\<close>

definition configured_window :: "instrument_source \<Rightarrow> string \<Rightarrow> date option \<times> date option" where
  "configured_window s para =
     (case map_of (rev (src_overrides s)) para of Some w \<Rightarrow> w | None \<Rightarrow> (src_from s, src_to s))"

lemma effective_window_configured:
  "apply_para_overrides nodes s = Inr ov \<Longrightarrow> effective_window n s ov = configured_window s (cn_para_number n)"
  by (auto simp: apply_para_overrides_def effective_window_def configured_window_def dest!: override_loop_Inr)

lemma embeddings_length: "embeddings env texts = Inr vs \<Longrightarrow> length vs = length texts"
  by (auto simp: embeddings_def embed_texts_def ebind_Inr_iff split: if_splits)

lemma ingest_InrE:
  assumes "ingest env cfg activated db = Inr (r, db')"
  obtains sid db1 db2 acc k metas vs db4 edges where
    "distinct (map src_code (cf_instruments cfg))" "insert_snapshot env db = (sid, db1)"
    "ingest_instruments env sid (cf_instruments cfg) db1 empty_acc = Inr (db2, acc)"
    "collect_metas env acc (cf_instruments cfg) (cd_uuids db2) [] = Inr (k, metas)" "length vs = length metas"
    "distinct (map cm_path metas)"
    "only_references (db2\<lparr>cd_uuids := k, cd_clauses := cd_clauses db2 @ map (Pair sid) (zip metas vs)\<rparr>) db4"
    "db' = (if activated then activate sid else id) (update_manifest sid (ac_manifest acc) (length metas) db4)"
    "ig_snapshot r = sid" "ig_chunk_count r = length metas" "ig_instruments r = ac_manifest acc"
proof -
  obtain sid db1 where s: "insert_snapshot env db = (sid, db1)" by fastforce
  obtain cfg' where cfg: "load_corpus_sources cfg = Inr cfg'" using assms by (auto simp: ingest_def ebind_Inr_iff)
  note c = load_corpus_sources_Inr [OF cfg]
  obtain db2 acc where a: "ingest_instruments env sid (cf_instruments cfg) db1 empty_acc = Inr (db2, acc)"
    using assms s cfg c(1) by (auto simp: ingest_def ebind_Inr_iff)
  obtain k metas where k: "collect_metas env acc (cf_instruments cfg) (cd_uuids db2) [] = Inr (k, metas)"
    using assms s cfg c(1) a by (auto simp: ingest_def ebind_Inr_iff)
  obtain vs where v: "embeddings env (map cm_text_with_stem metas) = Inr vs"
    using assms s cfg c(1) a k by (auto simp: ingest_def ebind_Inr_iff)
  have len: "length vs = length metas" using embeddings_length [OF v] by simp
  obtain db3 where i: "insert_clauses sid (zip metas vs) (db2\<lparr>cd_uuids := k\<rparr>) = Inr db3"
    using assms s cfg c(1) a k v len by (auto simp: ingest_def ebind_Inr_iff)
  obtain db4 edges where l: "reference_loop env sid cfg acc (clause_id_by_path metas) (cf_instruments cfg) db3 [] = Inr (db4, edges)"
    using assms s cfg c(1) a k v len i by (auto simp: ingest_def ebind_Inr_iff)
  define db5 where "db5 = insert_supersessions env sid acc (cf_supersessions cfg) db4"
  have ins: "distinct (map (cm_path \<circ> fst) (zip metas vs))" "db3 = db2\<lparr>cd_uuids := k, cd_clauses := cd_clauses db2 @ map (Pair sid) (zip metas vs)\<rparr>"
    using i by (simp_all add: insert_clauses_iff)
  have paths: "map (cm_path \<circ> fst) (zip metas vs) = map cm_path metas"
    using len by (metis map_fst_zip map_map)
  have refs: "only_references db3 db5"
    unfolding db5_def by (rule only_references_trans [OF reference_loop_frame [OF l] insert_supersessions_frame])
  have res: "r = \<lparr>ig_snapshot = sid, ig_parser_version = PARSER_VERSION, ig_embedding_model = eb_model (ie_embedder env),
                     ig_embedding_dimension = eb_dimension (ie_embedder env), ig_chunk_count = length metas, ig_instruments = ac_manifest acc,
                     ig_warnings = ac_warnings acc, ig_edges = edges, ig_ranges = ac_ranges acc\<rparr>"
    "db' = (if activated then activate sid else id) (update_manifest sid (ac_manifest acc) (length metas) db5)"
    using assms s cfg c(1) a k v len i l by (auto simp: ingest_def db5_def Let_def)
  show thesis
    by (rule that [OF c(2) s a k len, of db5]) (use ins paths refs res in simp_all)
qed

definition clause_keys :: "(uuid \<times> clause_meta \<times> 'v) list \<Rightarrow> (uuid \<times> string) list" where
  "clause_keys xs = map (\<lambda>(sid, m, v). (sid, cm_path m)) xs"

definition clause_linked :: "instrument_row list \<Rightarrow> uuid \<times> clause_meta \<times> 'v \<Rightarrow> bool" where
  "clause_linked rows x \<longleftrightarrow>
     (\<exists>i \<in> set rows. ir_snapshot i = fst x \<and> ir_id i = cm_instrument_id (fst (snd x)) \<and>
        cm_citable (fst (snd x)) = src_citable (ir_source i) \<and>
        (cm_from (fst (snd x)), cm_to (fst (snd x))) =
          configured_window (ir_source i) (cn_para_number (cm_node (fst (snd x)))))"

text \<open>
  The invariant of the tables: ids come from the generator, at most one snapshot is active, a path
  occurs once in a snapshot, and a clause carries the citability and the window of its instrument.
\<close>

definition corpus_inv :: "(nat \<Rightarrow> uuid) \<Rightarrow> 'n corpus_db \<Rightarrow> bool" where
  "corpus_inv gen db \<longleftrightarrow>
     inj gen \<and> fst ` set (cd_snapshots db) \<subseteq> gen ` {..<cd_uuids db} \<and> distinct (map fst (cd_snapshots db)) \<and>
     length (filter snd (cd_snapshots db)) \<le> 1 \<and>
     ir_snapshot ` set (cd_instruments db) \<subseteq> fst ` set (cd_snapshots db) \<and>
     fst ` set (cd_clauses db) \<subseteq> fst ` set (cd_snapshots db) \<and>
     distinct (clause_keys (cd_clauses db)) \<and> (\<forall>x \<in> set (cd_clauses db). clause_linked (cd_instruments db) x)"

lemma activate_snapshot_alt: "activate_snapshot s xs = map (\<lambda>(i, a). (i, i = s)) xs"
  by (auto simp: activate_snapshot_def split: prod.splits)

lemma activate_snapshot_only:
  assumes "s \<notin> fst ` set xs"
  shows "filter snd (activate_snapshot s (xs @ [(s, False)])) = [(s, True)]"
proof -
  have "filter snd (activate_snapshot s xs) = []"
    using assms by (force simp: activate_snapshot_alt filter_empty_conv)
  then show ?thesis by (simp add: activate_snapshot_alt)
qed

lemma activate_snapshot_ids [simp]: "map fst (activate_snapshot s xs) = map fst xs"
  by (auto simp: activate_snapshot_alt)

lemma clause_linked_mono: "clause_linked rows x \<Longrightarrow> clause_linked (rows @ rows') x"
  by (auto simp: clause_linked_def)

lemma meta_linked:
  assumes run: "ingest_instruments env sid ss db empty_acc = Inr (db', acc)" and ss: "distinct (map src_code ss)" "s \<in> set ss"
    and new: "cd_instruments db' = cd_instruments db @ rows" "sid \<notin> ir_snapshot ` set (cd_instruments db)"
    and m: "meta_ok acc s m"
  shows "clause_linked rows (sid, m, v)"
proof -
  obtain i where i: "i \<in> set (cd_instruments db')" "ir_snapshot i = sid" "ir_source i = s"
    "map_of (ac_ids acc) (src_code s) = Some (ir_id i)"
    using ingest_instruments_ids [OF run ss] by blast
  moreover have "i \<in> set rows" using i new by auto
  moreover have "(cm_from m, cm_to m) = configured_window s (cn_para_number (cm_node m))"
    using m effective_window_configured unfolding meta_ok_def by metis
  ultimately show ?thesis using m by (auto simp: clause_linked_def meta_ok_def)
qed

lemma insert_snapshot_fields:
  assumes "insert_snapshot env db = (sid, db1)"
  shows "sid = ie_gen env (cd_uuids db)" "cd_snapshots db1 = cd_snapshots db @ [(sid, False)]"
    "cd_uuids db1 = Suc (cd_uuids db)" "cd_instruments db1 = cd_instruments db" "cd_clauses db1 = cd_clauses db"
    "cd_info db1 sid \<noteq> None"
  using assms by (auto simp: insert_snapshot_def Let_def)

lemma activate_fields [simp]:
  "cd_clauses (activate sid db) = cd_clauses db" "cd_instruments (activate sid db) = cd_instruments db"
  "cd_uuids (activate sid db) = cd_uuids db" "cd_info (activate sid db) = cd_info db"
  "cd_snapshots (activate sid db) = activate_snapshot sid (cd_snapshots db)"
  by (simp_all add: activate_def)

lemma update_manifest_fields [simp]:
  "cd_clauses (update_manifest sid ms n db) = cd_clauses db"
  "cd_instruments (update_manifest sid ms n db) = cd_instruments db"
  "cd_uuids (update_manifest sid ms n db) = cd_uuids db"
  "cd_snapshots (update_manifest sid ms n db) = cd_snapshots db"
  by (simp_all add: update_manifest_def)

text \<open>The tables after a run, in terms of those before it.\<close>

lemma ingest_written:
  assumes inv: "corpus_inv (ie_gen env) db" and run: "ingest env cfg activated db = Inr (r, db')"
  obtains clauses rows where "ig_snapshot r \<notin> fst ` set (cd_snapshots db)" "ig_snapshot r = ie_gen env (cd_uuids db)"
    "cd_snapshots db' = (if activated then activate_snapshot (ig_snapshot r) else id) (cd_snapshots db @ [(ig_snapshot r, False)])"
    "cd_clauses db' = cd_clauses db @ map (Pair (ig_snapshot r)) clauses" "length clauses = ig_chunk_count r"
    "distinct (map (cm_path \<circ> fst) clauses)"
    "cd_instruments db' = cd_instruments db @ rows" "map ir_source rows = cf_instruments cfg"
    "\<forall>i \<in> set rows. ir_snapshot i = ig_snapshot r" "\<forall>x \<in> set clauses. clause_linked rows (ig_snapshot r, x)"
    "cd_uuids db < cd_uuids db'"
    "list_all2 (manifested env) (cf_instruments cfg) (ig_instruments r)"
    "\<exists>info. cd_info db' (ig_snapshot r) = Some info \<and> si_manifest info = ig_instruments r"
    "distinct (map src_code (cf_instruments cfg))"
proof -
  obtain sid db1 db2 acc k metas vs db4 where parts:
    "distinct (map src_code (cf_instruments cfg))" "insert_snapshot env db = (sid, db1)"
    "ingest_instruments env sid (cf_instruments cfg) db1 empty_acc = Inr (db2, acc)"
    "collect_metas env acc (cf_instruments cfg) (cd_uuids db2) [] = Inr (k, metas)" "length vs = length metas"
    "distinct (map cm_path metas)"
    "only_references (db2\<lparr>cd_uuids := k, cd_clauses := cd_clauses db2 @ map (Pair sid) (zip metas vs)\<rparr>) db4"
    "db' = (if activated then activate sid else id) (update_manifest sid (ac_manifest acc) (length metas) db4)"
    "ig_snapshot r = sid" "ig_chunk_count r = length metas" "ig_instruments r = ac_manifest acc"
    by (rule ingest_InrE [OF run])
  note one = insert_snapshot_fields [OF parts(2)]
  obtain rows ms where rows: "only_instruments db1 db2" "cd_instruments db2 = cd_instruments db1 @ rows"
    "map ir_source rows = cf_instruments cfg" "\<forall>i \<in> set rows. ir_snapshot i = sid"
    "ac_manifest acc = ac_manifest empty_acc @ ms" "list_all2 (manifested env) (cf_instruments cfg) ms"
    by (rule ingest_instruments_written [OF parts(3)])
  have fresh: "sid \<notin> fst ` set (cd_snapshots db)"
    using inv unfolding corpus_inv_def one(1) by (metis inj_image_mem_iff lessThan_iff less_irrefl subsetD)
  then have old: "sid \<notin> ir_snapshot ` set (cd_instruments db1)"
    using inv by (auto simp: corpus_inv_def one(4))
  have k: "cd_uuids db2 \<le> k" "\<forall>m \<in> set metas. \<exists>s \<in> set (cf_instruments cfg). meta_ok acc s m"
    using collect_metas_ok [OF parts(4)] by auto
  have linked: "\<forall>x \<in> set (zip metas vs). clause_linked rows (sid, x)"
    using k(2) meta_linked [OF parts(3,1) _ rows(2) old] by (force dest: set_zip_leftD)
  have paths: "map (cm_path \<circ> fst) (zip metas vs) = map cm_path metas" using parts(5) by (metis map_fst_zip map_map)
  have info: "\<exists>i. cd_info db4 sid = Some i"
    using one(6) rows(1) parts(7) by (auto simp: only_instruments_def only_references_def)
  show thesis
  proof (rule that [of "zip metas vs" rows])
    show "\<exists>info. cd_info db' (ig_snapshot r) = Some info \<and> si_manifest info = ig_instruments r"
      using info parts(8,9,11) by (auto simp: update_manifest_def)
    show "list_all2 (manifested env) (cf_instruments cfg) (ig_instruments r)"
      using rows(5,6) parts(11) by (simp add: empty_acc_def)
    show "cd_uuids db < cd_uuids db'"
      using one(3) rows(1) k(1) parts(7,8) by (auto simp: only_instruments_def only_references_def)
  qed (use fresh one rows linked paths parts in \<open>auto simp: only_instruments_def only_references_def\<close>)
qed

lemma manifest_lookup:
  assumes "list_all2 (manifested env) ss ms" "distinct (map src_code ss)" "i < length ss"
  shows "manifest_by_code ms (src_code (ss ! i)) = Some (ms ! i)"
proof -
  have code: "me_code (ms ! j) = src_code (ss ! j)" if "j < length ss" for j
    using list_all2_nthD [OF assms(1) that] by (auto simp: manifested_def manifest_of_def)
  have len: "length ms = length ss" using assms(1) by (simp add: list_all2_lengthD)
  have codes: "map me_code ms = map src_code ss" using code len by (simp add: list_eq_iff_nth_eq)
  have "distinct (map fst (rev (map (\<lambda>m. (me_code m, m)) ms)))"
    using assms(2) codes by (simp add: comp_def flip: rev_map)
  moreover have "(src_code (ss ! i), ms ! i) \<in> set (rev (map (\<lambda>m. (me_code m, m)) ms))"
    using code [OF assms(3)] assms(3) len by (auto intro!: image_eqI [of _ _ "ms ! i"])
  ultimately show ?thesis unfolding manifest_by_code_def by (rule map_of_is_SomeI)
qed

definition drift_status :: "fetch_result res \<Rightarrow> string \<Rightarrow> string" where
  "drift_status r sha =
     (case r of Inl _ \<Rightarrow> ''unreachable'' | Inr f \<Rightarrow> if ft_sha256 f = sha then ''unchanged'' else ''changed'')"

lemma drift_of_Inr:
  assumes "\<And>e. fetch (src_url s) = Inl e \<Longrightarrow> \<exists>w. e = CorpusFetchError w" "old (src_code s) = Some m"
  shows "\<exists>e. drift_of fetch old s = Inr e \<and> de_code e = src_code s \<and> de_old e = me_sha256 m \<and>
           de_status e = drift_status (fetch (src_url s)) (me_sha256 m)"
proof (cases "fetch (src_url s)")
  case (Inl e)
  then obtain w where "e = CorpusFetchError w" using assms(1) by blast
  then show ?thesis using Inl assms(2) by (simp add: drift_of_def drift_status_def)
next
  case (Inr f)
  then show ?thesis using assms(2) by (simp add: drift_of_def drift_status_def Let_def)
qed

lemma emap_list_all2:
  assumes "\<And>x. x \<in> set xs \<Longrightarrow> \<exists>y. f x = Inr y \<and> P x y"
  shows "\<exists>ys. emap f xs = Inr ys \<and> list_all2 P xs ys"
  using assms
proof (induction xs)
  case (Cons x xs)
  obtain y where "f x = Inr y" "P x y" using Cons.prems [of x] by auto
  moreover obtain ys where "emap f xs = Inr ys" "list_all2 P xs ys" using Cons by auto
  ultimately show ?case by simp
qed simp

lemma clause_keys_added:
  assumes "distinct (clause_keys xs)" "distinct (map (cm_path \<circ> fst) ys)" "sid \<notin> fst ` set xs"
  shows "distinct (clause_keys (xs @ map (Pair sid) ys))"
proof -
  have ys: "clause_keys (map (Pair sid) ys) = map (Pair sid) (map (cm_path \<circ> fst) ys)"
    by (auto simp: clause_keys_def)
  have "fst ` set (clause_keys xs) = fst ` set xs" by (force simp: clause_keys_def)
  then have "set (clause_keys xs) \<inter> set (clause_keys (map (Pair sid) ys)) = {}" using assms(3) unfolding ys by force
  moreover have "distinct (clause_keys (map (Pair sid) ys))" using assms(2) unfolding ys by (simp add: distinct_map inj_on_def)
  ultimately show ?thesis using assms(1) by (simp add: clause_keys_def)
qed

lemma ingest_snapshots:
  assumes inv: "corpus_inv (ie_gen env) db" and run: "ingest env cfg activated db = Inr (r, db')"
  shows "map fst (cd_snapshots db') = map fst (cd_snapshots db) @ [ig_snapshot r]"
    "filter snd (cd_snapshots db') = (if activated then [(ig_snapshot r, True)] else filter snd (cd_snapshots db))"
    "ig_snapshot r \<notin> fst ` set (cd_snapshots db)"
proof -
  have w: "ig_snapshot r \<notin> fst ` set (cd_snapshots db) \<and>
    cd_snapshots db' = (if activated then activate_snapshot (ig_snapshot r) else id) (cd_snapshots db @ [(ig_snapshot r, False)])"
    by (rule ingest_written [OF inv run]) blast
  then show "map fst (cd_snapshots db') = map fst (cd_snapshots db) @ [ig_snapshot r]"
    "filter snd (cd_snapshots db') = (if activated then [(ig_snapshot r, True)] else filter snd (cd_snapshots db))"
    "ig_snapshot r \<notin> fst ` set (cd_snapshots db)"
    using activate_snapshot_only by auto
qed

lemma ingest_keeps_inv:
  assumes inv: "corpus_inv (ie_gen env) db" and run: "ingest env cfg activated db = Inr (r, db')"
  shows "corpus_inv (ie_gen env) db'"
proof -
  obtain clauses rows where w: "ig_snapshot r \<notin> fst ` set (cd_snapshots db)" "ig_snapshot r = ie_gen env (cd_uuids db)"
    "cd_snapshots db' = (if activated then activate_snapshot (ig_snapshot r) else id) (cd_snapshots db @ [(ig_snapshot r, False)])"
    "cd_clauses db' = cd_clauses db @ map (Pair (ig_snapshot r)) clauses" "length clauses = ig_chunk_count r"
    "distinct (map (cm_path \<circ> fst) clauses)"
    "cd_instruments db' = cd_instruments db @ rows" "map ir_source rows = cf_instruments cfg"
    "\<forall>i \<in> set rows. ir_snapshot i = ig_snapshot r" "\<forall>x \<in> set clauses. clause_linked rows (ig_snapshot r, x)"
    "cd_uuids db < cd_uuids db'"
    by (rule ingest_written [OF inv run])
  let ?sid = "ig_snapshot r"
  note new = ingest_snapshots [OF inv run]
  have idset: "fst ` set (cd_snapshots db') = insert ?sid (fst ` set (cd_snapshots db))"
    using arg_cong [OF new(1), of set] by simp
  have keys: "distinct (clause_keys (cd_clauses db'))"
  proof -
    have "distinct (clause_keys (cd_clauses db))" "?sid \<notin> fst ` set (cd_clauses db)"
      using inv w(1) unfolding corpus_inv_def by blast+
    then show ?thesis unfolding w(4) using w(6) by (intro clause_keys_added)
  qed
  have gen: "fst ` set (cd_snapshots db') \<subseteq> ie_gen env ` {..<cd_uuids db'}"
  proof -
    have "fst ` set (cd_snapshots db) \<subseteq> ie_gen env ` {..<cd_uuids db}" using inv by (simp add: corpus_inv_def)
    also have "\<dots> \<subseteq> ie_gen env ` {..<cd_uuids db'}" using w(11) by (intro image_mono) simp
    finally show ?thesis
      using w(11) imageI [of "cd_uuids db" "{..<cd_uuids db'}" "ie_gen env"] unfolding idset w(2) by simp
  qed
  have linked: "\<forall>x \<in> set (cd_clauses db'). clause_linked (cd_instruments db') x"
  proof
    fix x assume "x \<in> set (cd_clauses db')"
    then consider "x \<in> set (cd_clauses db)" | y where "y \<in> set clauses" "x = (?sid, y)" unfolding w(4) by auto
    then show "clause_linked (cd_instruments db') x"
      using inv w(10) unfolding w(7) corpus_inv_def by cases (auto simp: clause_linked_def)
  qed
  show ?thesis
    unfolding corpus_inv_def
  proof (intro conjI)
    show "inj (ie_gen env)" using inv by (simp add: corpus_inv_def)
    show "distinct (map fst (cd_snapshots db'))" using inv w(1) unfolding new(1) corpus_inv_def by simp
    show "length (filter snd (cd_snapshots db')) \<le> 1" using inv unfolding new(2) corpus_inv_def by simp
    show "ir_snapshot ` set (cd_instruments db') \<subseteq> fst ` set (cd_snapshots db')"
      using inv w(9) unfolding idset w(7) corpus_inv_def by auto
    show "fst ` set (cd_clauses db') \<subseteq> fst ` set (cd_snapshots db')"
      using inv unfolding idset w(4) corpus_inv_def by auto
  qed (fact gen keys linked)+
qed

section \<open>Properties\<close>


text \<open>
  C32: After an ingest with activation, \<open>verify\<close> with the same configuration compares every source with
  the hash it had at the ingest: an entry is unchanged exactly when the source is reached and hashes
  the same, and nothing is reported when every source answers as it did.
\<close>

theorem verify_after_ingest:
  assumes inv: "corpus_inv (ie_gen env) db" and run: "ingest env cfg True db = Inr (r, db')"
    and fails: "\<And>s e. s \<in> set (cf_instruments cfg) \<Longrightarrow> fetch (src_url s) = Inl e \<Longrightarrow> \<exists>w. e = CorpusFetchError w"
  shows "\<exists>es. verify fetch cfg db' = Inr es \<and>
     list_all2 (\<lambda>s e. de_code e = src_code s \<and>
       (\<exists>f. ie_fetch env (src_url s) = Inr f \<and> de_old e = ft_sha256 f \<and>
          de_status e = drift_status (fetch (src_url s)) (ft_sha256 f))) (cf_instruments cfg) es \<and>
     (fetch = ie_fetch env \<longrightarrow> \<not> any_changed es)"
proof -
  let ?ss = "cf_instruments cfg"
  let ?P = "\<lambda>s e. de_code e = src_code s \<and> (\<exists>f. ie_fetch env (src_url s) = Inr f \<and> de_old e = ft_sha256 f \<and>
      de_status e = drift_status (fetch (src_url s)) (ft_sha256 f))"
  obtain info where w: "ig_snapshot r \<notin> fst ` set (cd_snapshots db)"
    "cd_snapshots db' = activate_snapshot (ig_snapshot r) (cd_snapshots db @ [(ig_snapshot r, False)])"
    "list_all2 (manifested env) ?ss (ig_instruments r)"
    "cd_info db' (ig_snapshot r) = Some info" "si_manifest info = ig_instruments r" "distinct (map src_code ?ss)"
    by (rule ingest_written [OF inv run]) auto
  have cfg: "load_corpus_sources cfg = Inr cfg"
    using run load_corpus_sources_Inr(1) by (auto simp: ingest_def ebind_Inr_iff)
  have active: "get_active_snapshot_id (cd_snapshots db') = Inr (Some (ig_snapshot r))"
    unfolding w(2) get_active_snapshot_id_def using activate_snapshot_only [OF w(1)] by simp
  have one: "\<exists>e. drift_of fetch (manifest_by_code (ig_instruments r)) s = Inr e \<and> ?P s e" if "s \<in> set ?ss" for s
  proof -
    obtain i where i: "i < length ?ss" "s = ?ss ! i" using \<open>s \<in> set ?ss\<close> by (metis in_set_conv_nth)
    obtain f n where f: "ie_fetch env (src_url s) = Inr f" "ig_instruments r ! i = manifest_of s f n"
      using list_all2_nthD [OF w(3) i(1)] i(2) by (auto simp: manifested_def)
    then have "manifest_by_code (ig_instruments r) (src_code s) = Some (manifest_of s f n)"
      using manifest_lookup [OF w(3,6) i(1)] i(2) by simp
    from drift_of_Inr [of fetch s "manifest_by_code (ig_instruments r)", OF fails [OF that] this]
    show ?thesis using f(1) by (auto simp: manifest_of_def)
  qed
  obtain es where es: "emap (drift_of fetch (manifest_by_code (ig_instruments r))) ?ss = Inr es" "list_all2 ?P ?ss es"
    using emap_list_all2 [of ?ss _ ?P, OF one] by blast
  have "verify fetch cfg db' = Inr es" using es(1) cfg active w(4,5) by (simp add: verify_def)
  moreover have "\<not> any_changed es" if "fetch = ie_fetch env"
    using es(2) that unfolding any_changed_def list_all2_conv_all_nth
    by (fastforce simp: in_set_conv_nth drift_status_def)
  ultimately show ?thesis using es(2) by blast
qed

section \<open>A run\<close>

definition sample_source :: instrument_source where
  "sample_source =
     \<lparr>src_code = ''RBC2025'', src_title = ''Directions'', src_circular = None, src_issued_on = None, src_url = ''rbc.txt'',
      src_status = ''in_force'', src_from = Some (Date 2025 1 1), src_to = None, src_citable = True,
      src_verification = ''rbi_verified'', src_note = None, src_entity_types = [''nbfc''], src_dialect = ParenNumeral,
      src_has_annex = False, src_overrides = [(''4'', Some (Date 2026 4 1), None)]\<rparr>"

definition sample_sources :: corpus_sources where
  "sample_sources = \<lparr>cf_instruments = [sample_source], cf_supersessions = [], cf_patterns = []\<rparr>"

definition corpus_fetch :: "string \<Rightarrow> fetch_result res" where
  "corpus_fetch url =
     (if url = ''rbc.txt''
      then Inr \<lparr>ft_text = sample_text, ft_sha256 = ''c0ffee'', ft_retrieved_at = DateTime (Date 2026 5 1) (Time 9 0 0 0) None\<rparr>
      else Inl (CorpusFetchError url))"

definition sample_ingest_env :: "nat ingest_env" where
  "sample_ingest_env =
     \<lparr>ie_fetch = corpus_fetch,
      ie_embedder = \<lparr>eb_aembedding = (\<lambda>_ ts _ _. Inr (map (\<lambda>_. []) ts)), eb_model = ''m'', eb_dimension = 0, eb_batch_size = 2\<rparr>,
      ie_api_key = None, ie_gen = (\<lambda>n. n)\<rparr>"

definition empty_corpus :: "nat corpus_db" where
  "empty_corpus =
     \<lparr>cd_snapshots = [], cd_info = Map.empty, cd_instruments = [], cd_clauses = [], cd_references = [],
      cd_supersessions = [], cd_uuids = 0\<rparr>"

lemma sample_ingest:
  "case ingest sample_ingest_env sample_sources True empty_corpus of
     Inl _ \<Rightarrow> False
   | Inr (r, db') \<Rightarrow>
       map (\<lambda>(_, m, _). (cm_path m, cm_from m, cm_strategy m)) (cd_clauses db') =
         [(''RBC2025/p4'', Some (Date 2026 4 1), ''leaf''), (''RBC2025/p4/1'', Some (Date 2026 4 1), ''leaf+stem''),
          (''RBC2025/p4/1/a'', Some (Date 2026 4 1), ''leaf+stem''),
          (''RBC2025/p4/note/1'', Some (Date 2026 4 1), ''leaf'')]"
  by code_simp

lemma sample_ingest_Inr:
  obtains r db' where "ingest sample_ingest_env sample_sources True empty_corpus = Inr (r, db')"
  using sample_ingest by (cases "ingest sample_ingest_env sample_sources True empty_corpus") auto

lemma empty_corpus_inv: "corpus_inv (ie_gen sample_ingest_env) empty_corpus"
  by (simp add: corpus_inv_def empty_corpus_def sample_ingest_env_def clause_keys_def)


theorem verify_after_ingest_witness:
  "\<exists>r db' es. ingest sample_ingest_env sample_sources True empty_corpus = Inr (r, db') \<and>
     verify corpus_fetch sample_sources db' = Inr es \<and> \<not> any_changed es"
proof -
  obtain r db' where run: "ingest sample_ingest_env sample_sources True empty_corpus = Inr (r, db')"
    by (rule sample_ingest_Inr)
  have fails: "\<exists>w. e = CorpusFetchError w" if "s \<in> set (cf_instruments sample_sources)" "corpus_fetch (src_url s) = Inl e" for s e
    using that(2) by (auto simp: corpus_fetch_def split: if_splits)
  have same: "corpus_fetch = ie_fetch sample_ingest_env" by (simp add: sample_ingest_env_def)
  obtain es where es: "verify corpus_fetch sample_sources db' = Inr es" "\<not> any_changed es"
    by (rule exE [OF verify_after_ingest [OF empty_corpus_inv run, of corpus_fetch]]) (use fails same in blast)+
  show ?thesis using run es by blast
qed

text \<open>
  Two worked illustrations in one part of an annex get the same path, so the unique constraint
  refuses the second and the whole ingest fails.
\<close>

lemma two_illustrations_collide:
  "case parse_annex ''1'' (''Sl No  Field'' @ [CHR 0x0A] @ ''Illustration one'' @ [CHR 0x0A] @ ''Illustration two'') of
     Inl _ \<Rightarrow> False
   | Inr p \<Rightarrow> map clause_path (pi_nodes p) = [''annexA/part1/illustration'', ''annexA/part1/illustration'']"
  by code_simp

end
