(* ===== verification/CC_Submit.thy ===== *)
theory CC_Submit
  imports CC_Extract CC_Parser CC_Tasks
begin

text \<open>
  Submitting a document: its text (\<open>src/app/extract/parse.py\<close>), its type (\<open>src/app/extract/classify.py\<close>)
  and the handler \<open>submit_document\<close> of \<open>src/app/api/v1/documents.py\<close>, which stores the document,
  extracts its facts, queues the assessment and records the idempotency key.

  The handler commits twice, so its model returns the committed tables also when it raises. The
  session's \<open>app.tenant_id\<close> is set for the first transaction (\<open>src/app/api/deps.py\<close>, \<open>set_config\<close> with
  \<open>is_local\<close> true) and gone after the commit; \<open>sb_rls\<close> says whether the database role is subject to
  the tenant policies of \<open>src/migrations/versions\<close>. SHA-256, the serialised request, the readers of
  PDF and DOCX and the model are parameters.
\<close>

section \<open>Parsing (parse.py)\<close>

record parsed_document =
  pd_text :: string
  pd_char_count :: int
  pd_page_count :: "int option"
  pd_ocr_used :: bool
  pd_language :: string

record readers =
  rd_pdf_pages :: "string \<Rightarrow> string option list res"
  rd_docx_paragraphs :: "string \<Rightarrow> string list res"
  rd_utf8_replace :: "string \<Rightarrow> string"
  rd_ocr_threshold :: int

definition parse_pdf_text_layer :: "readers \<Rightarrow> string \<Rightarrow> (string \<times> int) res" where
  "parse_pdf_text_layer rd content =
     ebind (rd_pdf_pages rd content) (\<lambda>pages.
       Inr (join [CHR 0x0A] (map (\<lambda>p. case p of None \<Rightarrow> [] | Some t \<Rightarrow> t) pages), int (length pages)))"

definition ocr_fallback :: "int \<Rightarrow> string res" where
  "ocr_fallback page_count = Inl (ParseError (''document requires OCR ('' @ str_int page_count @ '' pages)''))"

definition plain_document :: "string \<Rightarrow> int option \<Rightarrow> parsed_document" where
  "plain_document t pages = \<lparr>pd_text = t, pd_char_count = py_len t, pd_page_count = pages, pd_ocr_used = False,
      pd_language = ''en''\<rparr>"

definition parse_document :: "readers \<Rightarrow> string \<Rightarrow> string option \<Rightarrow> string option \<Rightarrow> parsed_document res" where
  "parse_document rd filename content given =
     (case given of
        Some t \<Rightarrow> Inr (plain_document t None)
      | None \<Rightarrow>
     (case content of
        None \<Rightarrow> Inl (ParseError ''either data or text must be supplied'')
      | Some d \<Rightarrow>
          let lower = py_lower filename
          in if endswith lower ''.pdf''
             then ebind (parse_pdf_text_layer rd d) (\<lambda>(extracted, page_count).
               let chars_per_page = float_div (of_int (py_len extracted)) (of_int (max page_count 1))
               in if chars_per_page < of_int (rd_ocr_threshold rd)
                  then ebind (ocr_fallback page_count) (\<lambda>t.
                    Inr \<lparr>pd_text = t, pd_char_count = py_len t, pd_page_count = Some page_count, pd_ocr_used = True,
                         pd_language = ''en''\<rparr>)
                  else Inr (plain_document extracted (Some page_count)))
             else if endswith lower ''.docx''
             then ebind (rd_docx_paragraphs rd d) (\<lambda>ps. Inr (plain_document (join [CHR 0x0A] ps) None))
             else if endswith lower ''.txt'' then Inr (plain_document (rd_utf8_replace rd d) None)
             else Inl (ParseError (''unsupported file type: '' @ filename))))"

section \<open>Classification (classify.py)\<close>

record classification =
  cs_doc_type :: string
  cs_confidence :: rat
  cs_reason :: string

text \<open>\<open>llm\<close> is \<open>client.structured\<close> for \<open>ClassificationResult\<close>; the floor's text is \<open>str\<close> of the float.\<close>

definition classify_document ::
  "(string \<Rightarrow> classification res) \<Rightarrow> string \<Rightarrow> rat \<Rightarrow> string \<Rightarrow> string \<Rightarrow> classification res" where
  "classify_document llm template conf_floor floor_text body =
     ebind (py_format [''document_text'' \<mapsto> py_take 2000 body] template) (\<lambda>prompt.
     ebind (llm prompt) (\<lambda>r.
       if cs_confidence r < conf_floor
       then Inr \<lparr>cs_doc_type = ''unknown'', cs_confidence = cs_confidence r,
                 cs_reason = ''below confidence floor ('' @ floor_text @ ''): '' @ cs_reason r\<rparr>
       else Inr r))"

section \<open>The handler (documents.py)\<close>

definition DOC_TYPE_LIFECYCLE_STAGE :: "(string \<times> string) list" where
  "DOC_TYPE_LIFECYCLE_STAGE =
     [(''kfs'', ''sanction''), (''loan_agreement'', ''sanction''), (''sanction_letter'', ''sanction''),
      (''mitc'', ''sanction''), (''loan_application'', ''origination''), (''kyc_set'', ''origination''),
      (''income_proof'', ''origination''), (''bureau_report'', ''origination''),
      (''valuation_report'', ''origination''), (''field_investigation'', ''origination''),
      (''disbursement_memo'', ''disbursement''), (''payment_confirmation'', ''disbursement''),
      (''account_statement'', ''servicing''), (''rate_reset_notice'', ''servicing''),
      (''call_transcript'', ''collections''), (''penal_charge_notice'', ''collections''),
      (''reminder_notice'', ''collections''), (''field_visit_report'', ''collections''),
      (''demand_notice'', ''collections''), (''settlement_letter'', ''collections''),
      (''possession_notice'', ''collections''), (''closure_statement'', ''closure''), (''noc'', ''closure''),
      (''docs_release_ack'', ''closure''), (''charge_satisfaction'', ''closure''), (''unknown'', ''origination'')]"

record submit_request =
  sr_doc_type :: "string option"
  sr_event_date :: string
  sr_source_uri :: string
  sr_sha256 :: string
  sr_text :: string
  sr_synthetic :: bool
  sr_assess :: bool

record submit_response =
  sp_document :: uuid
  sp_job :: uuid
  sp_status :: string
  sp_request :: string

record submitted_document =
  sd_id :: uuid
  sd_tenant :: uuid
  sd_loan :: uuid
  sd_doc_type :: string
  sd_stage :: string
  sd_event_date :: date
  sd_sha256 :: string
  sd_source_uri :: string
  sd_synthetic :: bool

record idempotency_row =
  ik_tenant :: uuid
  ik_key :: string
  ik_route :: string
  ik_hash :: string
  ik_response :: submit_response

record api_db =
  sb_loans :: "(uuid \<times> uuid) list"
  sb_documents :: "submitted_document list"
  sb_keys :: "idempotency_row list"
  sb_extract :: extract_store
  sb_queue :: "(task \<times> string) list"
  sb_rls :: bool

datatype fault = Raised exc | PolicyViolation string

record submit_env =
  se_gen :: "nat \<Rightarrow> uuid"
  se_sha256 :: "string \<Rightarrow> string"
  se_request_hash :: "submit_request \<Rightarrow> string"
  se_uuid_str :: "uuid \<Rightarrow> string"
  se_classify_llm :: "string \<Rightarrow> classification res"
  se_classify_template :: string
  se_floor :: "rat \<times> string"
  se_extract_llm :: llm
  se_extract_template :: string
  se_registry :: field_registry
  se_budget_ratio :: rat
  se_model :: string
  se_now :: timestamp

definition route_key :: "submit_env \<Rightarrow> uuid \<Rightarrow> string" where
  "route_key env loan = ''POST /v1/loans/'' @ se_uuid_str env loan @ ''/documents''"

text \<open>What a query sees of a tenant's rows, with \<open>app.tenant_id\<close> set to \<open>scope\<close> or not set.\<close>

definition visible :: "api_db \<Rightarrow> uuid option \<Rightarrow> uuid \<Rightarrow> bool" where
  "visible db scope tenant \<longleftrightarrow> (sb_rls db \<longrightarrow> scope = Some tenant)"

definition find_key :: "api_db \<Rightarrow> uuid option \<Rightarrow> uuid \<Rightarrow> string \<Rightarrow> string \<Rightarrow> idempotency_row option" where
  "find_key db scope tenant key route =
     List.find (\<lambda>k. visible db scope (ik_tenant k) \<and> ik_tenant k = tenant \<and> ik_key k = key \<and> ik_route k = route)
       (sb_keys db)"

definition find_loan :: "api_db \<Rightarrow> uuid option \<Rightarrow> uuid \<Rightarrow> bool" where
  "find_loan db scope loan \<longleftrightarrow> (\<exists>(l, t) \<in> set (sb_loans db). l = loan \<and> visible db scope t)"

definition find_duplicate :: "api_db \<Rightarrow> uuid option \<Rightarrow> uuid \<Rightarrow> uuid \<Rightarrow> string \<Rightarrow> submitted_document option" where
  "find_duplicate db scope tenant loan sha =
     List.find (\<lambda>d. visible db scope (sd_tenant d) \<and> sd_tenant d = tenant \<and> sd_loan d = loan \<and> sd_sha256 d = sha)
       (sb_documents db)"

definition resolve_doc_type :: "submit_env \<Rightarrow> submit_request \<Rightarrow> string res" where
  "resolve_doc_type env body =
     (case truthy (sr_doc_type body) of
        t # _ \<Rightarrow> if map_of DOC_TYPE_LIFECYCLE_STAGE t = None then Inl (APIError ''CC-400-SCHEMA'') else Inr t
      | [] \<Rightarrow>
          ebind (classify_document (se_classify_llm env) (se_classify_template env) (fst (se_floor env)) (snd (se_floor env))
                   (sr_text body)) (\<lambda>r.
            if cs_doc_type r = ''unknown'' then Inl (APIError ''CC-422-DOCTYPE-UNKNOWN'') else Inr (cs_doc_type r)))"

text \<open>The checks before anything is written.\<close>

definition admit_request :: "submit_env \<Rightarrow> uuid \<Rightarrow> uuid \<Rightarrow> submit_request \<Rightarrow> api_db \<Rightarrow> (date \<times> string \<times> string) res" where
  "admit_request env tenant loan body db =
     (if \<not> find_loan db (Some tenant) loan then Inl (APIError ''CC-404-LOAN'')
      else if se_sha256 env (sr_text body) \<noteq> sr_sha256 body then Inl (APIError ''CC-400-HASH-MISMATCH'')
      else if find_duplicate db (Some tenant) tenant loan (sr_sha256 body) \<noteq> None
      then Inl (APIError ''CC-409-DUPLICATE-DOC'')
      else (case date_fromisoformat (sr_event_date body) of
          Inl (ValueError _) \<Rightarrow> Inl (APIError ''CC-400-SCHEMA'')
        | Inl e \<Rightarrow> Inl e
        | Inr event_date \<Rightarrow>
            ebind (resolve_doc_type env body) (\<lambda>doc_type.
              case map_of DOC_TYPE_LIFECYCLE_STAGE doc_type of
                None \<Rightarrow> Inl (KeyError doc_type)
              | Some stage \<Rightarrow> Inr (event_date, doc_type, stage))))"

definition insert_document ::
  "submit_env \<Rightarrow> uuid \<Rightarrow> uuid \<Rightarrow> submit_request \<Rightarrow> date \<times> string \<times> string \<Rightarrow> api_db \<Rightarrow> uuid \<times> api_db" where
  "insert_document env tenant loan body typed db =
     (let (event_date, doc_type, stage) = typed;
          xs = sb_extract db;
          did = se_gen env (xs_uuids xs);
          n = py_len (sr_text body);
          budget = \<lfloor>float_mul (of_int n) (se_budget_ratio env)\<rfloor>;
          row = \<lparr>sd_id = did, sd_tenant = tenant, sd_loan = loan, sd_doc_type = doc_type, sd_stage = stage,
                 sd_event_date = event_date, sd_sha256 = sr_sha256 body, sd_source_uri = sr_source_uri body,
                 sd_synthetic = sr_synthetic body\<rparr>;
          span_row = \<lparr>do_id = did, do_char_count = n, do_span_budget = budget, do_span_used = 0\<rparr>
      in (did, db\<lparr>sb_documents := sb_documents db @ [row],
                  sb_extract := xs\<lparr>xs_uuids := Suc (xs_uuids xs), xs_documents := xs_documents xs @ [span_row]\<rparr>\<rparr>))"

definition extraction_job :: "submit_env \<Rightarrow> uuid \<Rightarrow> uuid \<Rightarrow> uuid \<Rightarrow> string \<Rightarrow> submit_request \<Rightarrow> extract_job" where
  "extraction_job env did tenant loan doc_type body =
     \<lparr>ej_document = did, ej_tenant = tenant, ej_loan = loan, ej_doc_type = doc_type, ej_text = sr_text body,
      ej_model = se_model env, ej_now = se_now env\<rparr>"

text \<open>The first transaction.\<close>

definition store_document ::
  "submit_env \<Rightarrow> uuid \<Rightarrow> uuid \<Rightarrow> submit_request \<Rightarrow> api_db \<Rightarrow> (uuid \<times> api_db) res" where
  "store_document env tenant loan body db =
     ebind (admit_request env tenant loan body db) (\<lambda>typed.
       let (did, db1) = insert_document env tenant loan body typed db
       in ebind (extract_document (se_extract_llm env) (se_extract_template env) (se_gen env) (se_registry env)
                   (extraction_job env did tenant loan (fst (snd typed)) body) (sb_extract db1)) (\<lambda>(xs, _).
            Inr (did, db1\<lparr>sb_extract := xs\<rparr>)))"

text \<open>The second one runs with no tenant set: the first commit ended the setting.\<close>

definition record_key ::
  "submit_env \<Rightarrow> uuid option \<Rightarrow> uuid \<Rightarrow> string \<Rightarrow> string \<Rightarrow> string \<Rightarrow> submit_response \<Rightarrow> api_db \<Rightarrow> fault + api_db" where
  "record_key env scope tenant key route hash response db =
     (if \<not> visible db scope tenant then Inl (PolicyViolation ''idempotency_key'')
      else if \<exists>k \<in> set (sb_keys db). ik_tenant k = tenant \<and> ik_key k = key \<and> ik_route k = route
      then Inl (Raised (IntegrityError ''idempotency_key (tenant_id, key, route)''))
      else Inr (db\<lparr>sb_keys := sb_keys db @
             [\<lparr>ik_tenant = tenant, ik_key = key, ik_route = route, ik_hash = hash, ik_response = response\<rparr>],
             sb_extract := (sb_extract db)\<lparr>xs_uuids := Suc (xs_uuids (sb_extract db))\<rparr>\<rparr>))"

definition submit_document ::
  "submit_env \<Rightarrow> uuid \<Rightarrow> uuid \<Rightarrow> submit_request \<Rightarrow> string \<Rightarrow> string option \<Rightarrow> api_db \<Rightarrow>
   api_db \<times> (fault + submit_response)" where
  "submit_document env tenant loan body request_id idem db =
     (let request_hash = se_request_hash env body;
          route = route_key env loan;
          key = truthy idem
      in case (if key = [] then None else find_key db (Some tenant) tenant (hd key) route) of
           Some k \<Rightarrow>
             (db, if ik_hash k \<noteq> request_hash then Inl (Raised (APIError ''CC-409-IDEMPOTENCY'')) else Inr (ik_response k))
         | None \<Rightarrow>
             (case store_document env tenant loan body db of
                Inl e \<Rightarrow> (db, Inl (Raised e))
              | Inr (did, db1) \<Rightarrow>
                  let job = se_gen env (xs_uuids (sb_extract db1));
                      db2 = db1\<lparr>sb_extract := (sb_extract db1)\<lparr>xs_uuids := Suc (xs_uuids (sb_extract db1))\<rparr>,
                                sb_queue := sb_queue db1 @ (if sr_assess body then [(AssessDocument did, request_id)] else [])\<rparr>;
                      response = \<lparr>sp_document = did, sp_job = job, sp_status = ''queued'', sp_request = request_id\<rparr>
                  in if key = [] then (db2, Inr response)
                     else (case record_key env None tenant (hd key) route request_hash response db2 of
                         Inl f \<Rightarrow> (db2, Inl f)
                       | Inr db3 \<Rightarrow> (db3, Inr response))))"

section \<open>What a submission does\<close>

definition document_keys :: "api_db \<Rightarrow> (uuid \<times> uuid \<times> string) list" where
  "document_keys db = map (\<lambda>d. (sd_tenant d, sd_loan d, sd_sha256 d)) (sb_documents db)"

lemma visible_own [simp]: "visible db (Some tenant) tenant"
  by (simp add: visible_def)

lemma find_key_None_iff:
  "find_key db (Some tenant) tenant key route = None \<longleftrightarrow>
     \<not> (\<exists>k \<in> set (sb_keys db). ik_tenant k = tenant \<and> ik_key k = key \<and> ik_route k = route)"
  by (auto simp: find_key_def find_None_iff)

lemma find_duplicate_None_iff:
  "find_duplicate db (Some tenant) tenant loan sha = None \<longleftrightarrow> (tenant, loan, sha) \<notin> set (document_keys db)"
  by (auto simp: find_duplicate_def find_None_iff document_keys_def)

lemma find_appended:
  assumes "\<not> (\<exists>x \<in> set xs. P x)" "P y"
  shows "List.find P (xs @ [y]) = Some y"
  using assms by (induction xs) auto

text \<open>A stored document: what was checked and what was written.\<close>

definition stored ::
  "submit_env \<Rightarrow> uuid \<Rightarrow> uuid \<Rightarrow> submit_request \<Rightarrow> api_db \<Rightarrow> uuid \<Rightarrow> api_db \<Rightarrow> bool" where
  "stored env tenant loan body db did db1 \<longleftrightarrow>
     find_loan db (Some tenant) loan \<and> se_sha256 env (sr_text body) = sr_sha256 body \<and>
     (tenant, loan, sr_sha256 body) \<notin> set (document_keys db) \<and>
     sb_keys db1 = sb_keys db \<and> sb_queue db1 = sb_queue db \<and> sb_loans db1 = sb_loans db \<and> sb_rls db1 = sb_rls db \<and>
     (\<exists>row new. sb_documents db1 = sb_documents db @ [row] \<and> sd_id row = did \<and> sd_tenant row = tenant \<and>
        sd_loan row = loan \<and> sd_sha256 row = sr_sha256 body \<and>
        map_of DOC_TYPE_LIFECYCLE_STAGE (sd_doc_type row) = Some (sd_stage row) \<and>
        date_fromisoformat (sr_event_date body) = Inr (sd_event_date row) \<and>
        xs_facts (sb_extract db1) = xs_facts (sb_extract db) @ new \<and>
        map fx_field_key new = map fs_key (for_doc_type (se_registry env) (sd_doc_type row)) \<and>
        (\<forall>r \<in> set new. well_stored (se_registry env) (extraction_job env did tenant loan (sd_doc_type row) body) r))"

lemma admit_request_Inr:
  assumes "admit_request env tenant loan body db = Inr (d, ty, stage)"
  shows "find_loan db (Some tenant) loan" "se_sha256 env (sr_text body) = sr_sha256 body"
    "(tenant, loan, sr_sha256 body) \<notin> set (document_keys db)"
    "date_fromisoformat (sr_event_date body) = Inr d" "map_of DOC_TYPE_LIFECYCLE_STAGE ty = Some stage"
  using assms unfolding admit_request_def
  by (auto simp: ebind_Inr_iff find_duplicate_None_iff split: if_splits sum.splits exc.splits option.splits)

lemma insert_document_fields:
  assumes "insert_document env tenant loan body (d, ty, stage) db = (did, db0)"
  defines "row \<equiv> last (sb_documents db0)"
  shows "sb_documents db0 = sb_documents db @ [row]" "sd_id row = did" "sd_tenant row = tenant"
    "sd_loan row = loan" "sd_sha256 row = sr_sha256 body" "sd_doc_type row = ty" "sd_stage row = stage"
    "sd_event_date row = d" "xs_facts (sb_extract db0) = xs_facts (sb_extract db)" "sb_keys db0 = sb_keys db"
    "sb_queue db0 = sb_queue db" "sb_loans db0 = sb_loans db" "sb_rls db0 = sb_rls db"
  using assms(1) by (auto simp: insert_document_def Let_def row_def)

lemma store_document_Inr:
  assumes "store_document env tenant loan body db = Inr (did, db1)"
  shows "stored env tenant loan body db did db1"
proof -
  obtain d ty stage where adm: "admit_request env tenant loan body db = Inr (d, ty, stage)"
    using assms by (auto simp: store_document_def ebind_Inr_iff)
  obtain did0 db0 where ins: "insert_document env tenant loan body (d, ty, stage) db = (did0, db0)" by fastforce
  obtain xs ids where ext: "extract_document (se_extract_llm env) (se_extract_template env) (se_gen env) (se_registry env)
      (extraction_job env did0 tenant loan ty body) (sb_extract db0) = Inr (xs, ids)" "did = did0" "db1 = db0\<lparr>sb_extract := xs\<rparr>"
    using assms adm ins by (auto simp: store_document_def ebind_Inr_iff)
  obtain new where new: "xs_facts xs = xs_facts (sb_extract db0) @ new"
    "map fx_field_key new = map fs_key (for_doc_type (se_registry env) ty)"
    "\<forall>r \<in> set new. well_stored (se_registry env) (extraction_job env did0 tenant loan ty body) r"
    using extract_document_Inr [OF ext(1)] by (auto simp: extraction_job_def)
  note row = insert_document_fields [OF ins]
  show ?thesis
    unfolding stored_def using admit_request_Inr [OF adm] row new ext(2,3)
    by (intro conjI exI [of _ "last (sb_documents db0)"] exI [of _ new]) simp_all
qed

lemma stored_keys_distinct:
  assumes "stored env tenant loan body db did db1" "distinct (document_keys db)"
  shows "distinct (document_keys db1)" "(tenant, loan, sr_sha256 body) \<in> set (document_keys db1)"
  using assms by (auto simp: stored_def document_keys_def)

text \<open>The ways a submission ends: a recorded key, a refusal, or a stored document.\<close>

lemma submit_cases:
  assumes "submit_document env tenant loan body rid idem db = (db', res)"
  obtains (replay) k where "truthy idem \<noteq> []" "find_key db (Some tenant) tenant (hd (truthy idem)) (route_key env loan) = Some k"
      "db' = db" "res = (if ik_hash k \<noteq> se_request_hash env body then Inl (Raised (APIError ''CC-409-IDEMPOTENCY''))
         else Inr (ik_response k))"
  | (refused) e where "store_document env tenant loan body db = Inl e" "db' = db" "res = Inl (Raised e)"
  | (kept) did db1 r where "truthy idem = [] \<or> find_key db (Some tenant) tenant (hd (truthy idem)) (route_key env loan) = None"
      "store_document env tenant loan body db = Inr (did, db1)"
      "sb_documents db' = sb_documents db1" "xs_facts (sb_extract db') = xs_facts (sb_extract db1)"
      "sb_loans db' = sb_loans db1" "sb_rls db' = sb_rls db1"
      "sb_queue db' = sb_queue db1 @ (if sr_assess body then [(AssessDocument did, rid)] else [])"
      "sp_document r = did" "sp_request r = rid"
      "if truthy idem = [] then res = Inr r \<and> sb_keys db' = sb_keys db1
       else if sb_rls db then res = Inl (PolicyViolation ''idempotency_key'') \<and> sb_keys db' = sb_keys db1
       else res = Inr r \<and> sb_keys db' = sb_keys db1 @ [\<lparr>ik_tenant = tenant, ik_key = hd (truthy idem),
              ik_route = route_key env loan, ik_hash = se_request_hash env body, ik_response = r\<rparr>]"
proof -
  let ?key = "truthy idem" and ?route = "route_key env loan"
  let ?found = "if ?key = [] then None else find_key db (Some tenant) tenant (hd ?key) ?route"
  show thesis
  proof (cases ?found)
    case (Some k)
    then show thesis using assms by (intro replay [of k]) (auto simp: submit_document_def Let_def split: if_splits)
  next
    case None
    show thesis
    proof (cases "store_document env tenant loan body db")
      case (Inl e)
      then show thesis using assms None by (intro refused [of e]) (auto simp: submit_document_def Let_def)
    next
      case (Inr p)
      then obtain did db1 where p: "store_document env tenant loan body db = Inr (did, db1)" by (cases p) auto
      have st: "sb_keys db1 = sb_keys db" "sb_rls db1 = sb_rls db"
        using store_document_Inr [OF p] by (simp_all add: stored_def)
      have new: "?key \<noteq> [] \<Longrightarrow> \<not> (\<exists>k \<in> set (sb_keys db). ik_tenant k = tenant \<and> ik_key k = hd ?key \<and> ik_route k = ?route)"
        using None find_key_None_iff by auto
      define r where "r = \<lparr>sp_document = did, sp_job = se_gen env (xs_uuids (sb_extract db1)), sp_status = ''queued'', sp_request = rid\<rparr>"
      show thesis
        by (rule kept [of did db1 r])
          (use assms None p st new in \<open>auto simp: submit_document_def Let_def record_key_def visible_def r_def split: if_splits\<close>)
    qed
  qed
qed

section \<open>Properties\<close>


text \<open>
  C34: Where the role is not subject to the tenant policies, a submission that returned under an
  idempotency key is replayed: the same request under the key gets the same response and changes
  nothing, and another request under it is refused.
\<close>

theorem submit_replay:
  assumes "submit_document env tenant loan body rid (Some key) db = (db', Inr r)" "key \<noteq> []" "\<not> sb_rls db"
  shows "submit_document env tenant loan body rid' (Some key) db' = (db', Inr r) \<and>
    (\<forall>other. se_request_hash env other \<noteq> se_request_hash env body \<longrightarrow>
       submit_document env tenant loan other rid' (Some key) db' = (db', Inl (Raised (APIError ''CC-409-IDEMPOTENCY''))))"
proof -
  have key: "truthy (Some key) = [key]" using assms(2) by (simp add: truthy_def)
  have "\<exists>k. find_key db' (Some tenant) tenant key (route_key env loan) = Some k \<and>
      ik_hash k = se_request_hash env body \<and> ik_response k = r"
    using assms(1)
  proof (cases rule: submit_cases)
    case (replay k)
    then show ?thesis using key by (auto split: if_splits)
  next
    case (kept did db1 r')
    let ?k = "\<lparr>ik_tenant = tenant, ik_key = key, ik_route = route_key env loan, ik_hash = se_request_hash env body, ik_response = r\<rparr>"
    have st: "sb_keys db1 = sb_keys db" using store_document_Inr [OF kept(2)] by (simp add: stored_def)
    have "sb_keys db' = sb_keys db @ [?k]" using kept(10) st key assms(3) by simp
    then have "find_key db' (Some tenant) tenant key (route_key env loan) = Some ?k"
      unfolding find_key_def using kept(1) key find_key_None_iff [of db tenant key "route_key env loan"]
      by (auto intro!: find_appended)
    then show ?thesis by simp
  qed auto
  then show ?thesis using key by (auto simp: submit_document_def Let_def)
qed

text \<open>
  C35: Where the role is subject to the tenant policies, an idempotency key is never recorded: the
  first commit ends the tenant setting, so a submission with a key stores its document, queues the
  assessment and then fails, and the retry the key is meant for is refused as a duplicate.
\<close>

theorem retry_refused_under_policies:
  assumes "submit_document env tenant loan body rid (Some key) db = (db', res)" "key \<noteq> []" "sb_rls db"
    and new: "find_key db (Some tenant) tenant key (route_key env loan) = None"
    and "store_document env tenant loan body db = Inr (did, db1)" "distinct (document_keys db)"
  shows "res = Inl (PolicyViolation ''idempotency_key'') \<and> sb_keys db' = sb_keys db \<and>
    did \<in> sd_id ` set (sb_documents db') \<and>
    (sr_assess body \<longrightarrow> (AssessDocument did, rid) \<in> set (sb_queue db')) \<and>
    submit_document env tenant loan body rid' (Some key) db' = (db', Inl (Raised (APIError ''CC-409-DUPLICATE-DOC'')))"
  using assms(1)
proof (cases rule: submit_cases)
  case (kept did' db1' r)
  have key: "truthy (Some key) = [key]" using assms(2) by (simp add: truthy_def)
  have same: "did' = did" "db1' = db1" using kept(2) assms(5) by simp_all
  have st: "stored env tenant loan body db did db1" by (rule store_document_Inr [OF assms(5)])
  have res: "res = Inl (PolicyViolation ''idempotency_key'')" "sb_keys db' = sb_keys db"
    using kept(10) key assms(3) st same by (auto simp: stored_def)
  have dup: "(tenant, loan, sr_sha256 body) \<in> set (document_keys db')"
    using stored_keys_distinct(2) [OF st assms(6)] kept(3) same by (simp add: document_keys_def)
  have loan: "find_loan db' (Some tenant) loan"
    using st kept(5,6) same by (auto simp: stored_def find_loan_def visible_def)
  have "store_document env tenant loan body db' = Inl (APIError ''CC-409-DUPLICATE-DOC'')"
    using loan st dup find_duplicate_None_iff by (auto simp: store_document_def admit_request_def stored_def)
  moreover have "find_key db' (Some tenant) tenant key (route_key env loan) = None"
    using new res(2) unfolding find_key_None_iff by simp
  ultimately have "submit_document env tenant loan body rid' (Some key) db' =
      (db', Inl (Raised (APIError ''CC-409-DUPLICATE-DOC'')))"
    using key by (simp add: submit_document_def)
  moreover have "did \<in> sd_id ` set (sb_documents db')" using st kept(3) same by (auto simp: stored_def)
  moreover have "sr_assess body \<longrightarrow> (AssessDocument did, rid) \<in> set (sb_queue db')" using kept(7) same by simp
  ultimately show ?thesis using res by blast
qed (use assms(2,5) new in \<open>auto simp: truthy_def\<close>)

section \<open>A submission\<close>

definition sample_submission :: submit_request where
  "sample_submission =
     \<lparr>sr_doc_type = Some ''penal_charge_notice'', sr_event_date = ''2026-05-01'', sr_source_uri = ''s3'',
      sr_sha256 = ''A charge of Rs. 1,500 applies'', sr_text = ''A charge of Rs. 1,500 applies'',
      sr_synthetic = True, sr_assess = True\<rparr>"

definition sample_submit_env :: submit_env where
  "sample_submit_env =
     \<lparr>se_gen = (\<lambda>n. n), se_sha256 = (\<lambda>s. s), se_request_hash = sr_text, se_uuid_str = (\<lambda>n. nat_digits n),
      se_classify_llm = (\<lambda>_. Inl (PermanentLLMError [])), se_classify_template = ''{document_text}'',
      se_floor = (7 / 10, ''0.7''), se_extract_llm = sample_llm, se_extract_template = sample_template,
      se_registry = sample_registry, se_budget_ratio = 1 / 2, se_model = ''m'', se_now = 0\<rparr>"

definition sample_api_db :: "bool \<Rightarrow> api_db" where
  "sample_api_db rls =
     \<lparr>sb_loans = [(7, 5)], sb_documents = [], sb_keys = [],
      sb_extract = \<lparr>xs_documents = [], xs_facts = [], xs_uuids = 20, xs_metrics = []\<rparr>, sb_queue = [], sb_rls = rls\<rparr>"

lemma sample_store_document:
  "case store_document sample_submit_env 5 7 sample_submission (sample_api_db rls) of
     Inl _ \<Rightarrow> False
   | Inr (did, db) \<Rightarrow> did = 20 \<and> map sd_stage (sb_documents db) = [''collections''] \<and>
       map do_span_budget (xs_documents (sb_extract db)) = [14] \<and> length (xs_facts (sb_extract db)) = 3"
  by code_simp

lemma sample_stored:
  obtains db1 where "store_document sample_submit_env 5 7 sample_submission (sample_api_db rls) = Inr (20, db1)"
  using sample_store_document [of rls]
  by (cases "store_document sample_submit_env 5 7 sample_submission (sample_api_db rls)") auto

lemma sample_api_db_simps [simp]:
  "document_keys (sample_api_db rls) = []" "sb_rls (sample_api_db rls) = rls" "sb_keys (sample_api_db rls) = []"
  by (simp_all add: document_keys_def sample_api_db_def)

lemma sample_submitted:
  obtains db' r where
    "submit_document sample_submit_env 5 7 sample_submission ''q'' (Some ''k'') (sample_api_db False) = (db', Inr r)"
    "sb_queue db' \<noteq> []"
proof -
  obtain db' res where run: "submit_document sample_submit_env 5 7 sample_submission ''q'' (Some ''k'') (sample_api_db False) = (db', res)"
    by fastforce
  from run show thesis
  proof (cases rule: submit_cases)
    case (refused e)
    then show thesis using sample_stored [of False] by (metis sum.distinct(1))
  next
    case (kept did db1 r)
    then show thesis using that [of db' r] run by (simp add: truthy_def sample_submission_def)
  qed (simp add: find_key_def)
qed


theorem submit_replay_witness:
  "\<exists>db' r. submit_document sample_submit_env 5 7 sample_submission ''q'' (Some ''k'') (sample_api_db False) = (db', Inr r) \<and>
     submit_document sample_submit_env 5 7 sample_submission ''q2'' (Some ''k'') db' = (db', Inr r)"
proof -
  obtain db' r where run: "submit_document sample_submit_env 5 7 sample_submission ''q'' (Some ''k'') (sample_api_db False) = (db', Inr r)"
    by (rule sample_submitted)
  show ?thesis using submit_replay [OF run] run by auto
qed

theorem retry_refused_under_policies_witness:
  "\<exists>db'. submit_document sample_submit_env 5 7 sample_submission ''q'' (Some ''k'') (sample_api_db True) =
       (db', Inl (PolicyViolation ''idempotency_key'')) \<and> 20 \<in> sd_id ` set (sb_documents db') \<and>
     submit_document sample_submit_env 5 7 sample_submission ''q2'' (Some ''k'') db' =
       (db', Inl (Raised (APIError ''CC-409-DUPLICATE-DOC'')))"
proof -
  obtain db1 where st: "store_document sample_submit_env 5 7 sample_submission (sample_api_db True) = Inr (20, db1)"
    by (rule sample_stored)
  obtain db' res where run: "submit_document sample_submit_env 5 7 sample_submission ''q'' (Some ''k'') (sample_api_db True) = (db', res)"
    by fastforce
  show ?thesis
    using retry_refused_under_policies [OF run _ _ _ st, of "''q2''"] run by (auto simp: find_key_def)
qed

end
