(* ===== verification/CC_Report.thy ===== *)
theory CC_Report
  imports CC_Tasks CC_Parser CC_Client
begin

text \<open>
  What an account's reader gets: \<open>GET /v1/loans/{id}/assessments\<close> (\<open>src/app/api/v1/assessments.py\<close>)
  and the report of \<open>src/app/verdict/report.py\<close>, from the rows that the assessments left.

  Queries see the rows of the tenant. \<open>ORDER BY\<close> on an enumeration uses the order of its labels in
  \<open>src/migrations/versions/0001_extensions_and_enums.py\<close>; rows that tie keep the order of the table,
  which SQL leaves open. Rendering a PDF is library code.
\<close>

section \<open>Queries\<close>

text \<open>The tables beside the store: accounts, which documents are synthetic, titles of instruments.\<close>

record report_tables =
  rt_accounts :: "account_row list"
  rt_synthetic :: "(uuid \<times> bool) list"
  rt_title :: "uuid \<Rightarrow> string"
  rt_snapshot_created :: "uuid \<Rightarrow> string option"

definition find_account :: "report_tables \<Rightarrow> uuid \<Rightarrow> account_row option" where
  "find_account rt loan = List.find (\<lambda>a. lo_id a = loan) (rt_accounts rt)"

definition open_rows :: "store \<Rightarrow> uuid \<Rightarrow> assessment_row list" where
  "open_rows db loan =
     filter (\<lambda>r. as_loan r = loan \<and> as_superseded_by r = None \<and> \<not> as_is_whatif r) (db_assessments db)"

text \<open>The position of a label in \<open>CREATE TYPE severity\<close>.\<close>

fun severity_position :: "severity \<Rightarrow> nat" where
  "severity_position Critical = 0"
| "severity_position Major = 1"
| "severity_position Minor = 2"
| "severity_position Informational = 3"

text \<open>\<open>_ASSESSMENTS_SQL\<close> of the report: \<open>ORDER BY severity DESC, event_date DESC\<close>.\<close>

definition report_rows :: "store \<Rightarrow> uuid \<Rightarrow> assessment_row list" where
  "report_rows db loan =
     sort_key (\<lambda>r. - int (severity_position (as_severity r)))
       (sort_key (\<lambda>r. - ordinal (ar_event_date (as_result r))) (filter (\<lambda>r. \<not> as_is_shadow r) (open_rows db loan)))"

text \<open>\<open>_CITATIONS_SQL\<close>: the citations of the given assessments with clause and instrument.\<close>

definition joined_citation :: "store \<Rightarrow> citation_row \<Rightarrow> (citation_row \<times> clause_row \<times> instrument) list" where
  "joined_citation db a =
     [(a, c, i). c \<leftarrow> co_clauses (db_corpus db), cl_id c = ac_clause a,
        i \<leftarrow> co_instruments (db_corpus db), in_id i = cl_instrument_id c]"

definition cited_rows :: "store \<Rightarrow> uuid list \<Rightarrow> (citation_row \<times> clause_row \<times> instrument) list" where
  "cited_rows db ids = concat (map (joined_citation db) (filter (\<lambda>a. ac_assessment a \<in> set ids) (db_citations db)))"

section \<open>The report (report.py)\<close>

record report_citation =
  rc_path :: string
  rc_instrument :: string
  rc_title :: string
  rc_from :: "string option"
  rc_to :: "string option"
  rc_verification :: string
  rc_role :: citation_role

record report_finding =
  rf_check_key :: string
  rf_field_key :: "string option"
  rf_event_date :: string
  rf_verdict :: verdict
  rf_severity :: severity
  rf_band :: confidence_band
  rf_rationale :: string
  rf_citations :: "report_citation list"

record report_data =
  rp_external_ref :: string
  rp_product_type :: string
  rp_is_microfinance :: bool
  rp_is_digital_lending :: bool
  rp_is_synthetic :: bool
  rp_disclaimer :: string
  rp_findings :: "report_finding list"

definition DISCLAIMER :: string where
  "DISCLAIMER =
     ''Cited compliance findings for internal review. Not legal advice. ClauseCheck does '' @
     ''not determine legality; it reports which RBI clauses govern a fact and whether the '' @
     ''extracted value satisfies them.''"

definition SYNTHETIC_BANNER :: string where
  "SYNTHETIC_BANNER =
     ''SYNTHETIC DATA: one or more documents underlying this report are synthetic test '' @
     ''fixtures, not real borrower records.''"

definition report_citation_of :: "report_tables \<Rightarrow> citation_row \<times> clause_row \<times> instrument \<Rightarrow> report_citation" where
  "report_citation_of rt x =
     (let (a, c, i) = x
      in \<lparr>rc_path = ac_path a, rc_instrument = ac_instrument a, rc_title = rt_title rt (in_id i),
          rc_from = map_option date_isoformat (cl_from c), rc_to = map_option date_isoformat (cl_to c),
          rc_verification = in_verification i, rc_role = ac_role a\<rparr>)"

text \<open>\<open>setdefault(k, []).append(x)\<close> over the rows.\<close>

definition append_under :: "uuid \<Rightarrow> 'a \<Rightarrow> (uuid \<times> 'a list) list \<Rightarrow> (uuid \<times> 'a list) list" where
  "append_under k x d = alist_put k ((case map_of d k of None \<Rightarrow> [] | Some xs \<Rightarrow> xs) @ [x]) d"

definition group_citations ::
  "(citation_row \<times> clause_row \<times> instrument \<Rightarrow> 'a) \<Rightarrow> uuid list \<Rightarrow> (citation_row \<times> clause_row \<times> instrument) list \<Rightarrow>
   (uuid \<times> 'a list) list" where
  "group_citations f ids rows =
     fold (\<lambda>x d. append_under (ac_assessment (fst x)) (f x) d) rows (fold (\<lambda>k d. alist_put k [] d) ids [])"

definition citations_of ::
  "(citation_row \<times> clause_row \<times> instrument \<Rightarrow> 'a) \<Rightarrow> store \<Rightarrow> assessment_row list \<Rightarrow> uuid \<Rightarrow> 'a list" where
  "citations_of f db rows k =
     (case map_of (group_citations f (map as_id rows) (if rows = [] then [] else cited_rows db (map as_id rows))) k of
        None \<Rightarrow> [] | Some xs \<Rightarrow> xs)"

definition finding_of :: "report_tables \<Rightarrow> store \<Rightarrow> assessment_row list \<Rightarrow> assessment_row \<Rightarrow> report_finding" where
  "finding_of rt db rows r =
     \<lparr>rf_check_key = as_check_key r, rf_field_key = ar_field_key (as_result r),
      rf_event_date = date_isoformat (ar_event_date (as_result r)), rf_verdict = as_verdict r,
      rf_severity = as_severity r, rf_band = ar_confidence (as_result r), rf_rationale = ar_rationale (as_result r),
      rf_citations = citations_of (report_citation_of rt) db rows (as_id r)\<rparr>"

definition assemble_report :: "report_tables \<Rightarrow> store \<Rightarrow> uuid \<Rightarrow> report_data res" where
  "assemble_report rt db loan =
     (case find_account rt loan of
        None \<Rightarrow> Inl (APIError ''CC-404-LOAN'')
      | Some a \<Rightarrow>
          let rows = report_rows db loan
          in Inr \<lparr>rp_external_ref = lo_external_ref a, rp_product_type = lo_product_type a,
                  rp_is_microfinance = lo_is_microfinance a, rp_is_digital_lending = lo_is_digital_lending a,
                  rp_is_synthetic = ((loan, True) \<in> set (rt_synthetic rt)), rp_disclaimer = DISCLAIMER,
                  rp_findings = map (finding_of rt db rows) rows\<rparr>)"

definition verdict_label :: "verdict \<Rightarrow> string" where
  "verdict_label v = (case v of Compliant \<Rightarrow> ''compliant'' | Violation \<Rightarrow> ''violation'' | Ambiguous \<Rightarrow> ''ambiguous''
     | NoClauseFound \<Rightarrow> ''no_clause_found'')"

definition severity_label :: "severity \<Rightarrow> string" where
  "severity_label s = (case s of Critical \<Rightarrow> ''critical'' | Major \<Rightarrow> ''major'' | Minor \<Rightarrow> ''minor''
     | Informational \<Rightarrow> ''informational'')"

definition band_label :: "confidence_band \<Rightarrow> string" where
  "band_label b = (case b of High \<Rightarrow> ''high'' | Medium \<Rightarrow> ''medium'' | Low \<Rightarrow> ''low'')"

definition role_label :: "citation_role \<Rightarrow> string" where
  "role_label r = (case r of Decisive \<Rightarrow> ''decisive'' | Supporting \<Rightarrow> ''supporting'' | ContextOnly \<Rightarrow> ''context_only'')"

definition js_opt :: "string option \<Rightarrow> js" where
  "js_opt x = (case x of None \<Rightarrow> SNull | Some s \<Rightarrow> SStr s)"

definition citation_to_json :: "report_citation \<Rightarrow> js" where
  "citation_to_json c =
     SObj [(''clause_path'', SStr (rc_path c)), (''instrument_code'', SStr (rc_instrument c)),
       (''official_title'', SStr (rc_title c)), (''effective_from'', js_opt (rc_from c)),
       (''effective_to'', js_opt (rc_to c)), (''verification_status'', SStr (rc_verification c)),
       (''role'', SStr (role_label (rc_role c)))]"

definition finding_to_json :: "report_finding \<Rightarrow> js" where
  "finding_to_json f =
     SObj [(''check_key'', SStr (rf_check_key f)), (''field_key'', js_opt (rf_field_key f)),
       (''event_date'', SStr (rf_event_date f)), (''verdict'', SStr (verdict_label (rf_verdict f))),
       (''severity'', SStr (severity_label (rf_severity f))), (''confidence_band'', SStr (band_label (rf_band f))),
       (''rationale'', SStr (rf_rationale f)), (''citations'', SList (map citation_to_json (rf_citations f)))]"

definition report_to_json :: "report_data \<Rightarrow> (string \<times> js) list" where
  "report_to_json r =
     [(''loan_account'', SObj [(''external_ref'', SStr (rp_external_ref r)), (''product_type'', SStr (rp_product_type r)),
         (''is_microfinance'', SBool (rp_is_microfinance r)), (''is_digital_lending'', SBool (rp_is_digital_lending r))]),
      (''disclaimer'', SStr (rp_disclaimer r)), (''findings'', SList (map finding_to_json (rp_findings r)))] @
     (if rp_is_synthetic r then [(''synthetic_data_banner'', SStr SYNTHETIC_BANNER)] else [])"

section \<open>The assessments of an account (assessments.py)\<close>

record listed_citation =
  lt_path :: string
  lt_instrument :: string
  lt_role :: citation_role
  lt_from :: "string option"
  lt_to :: "string option"
  lt_verification :: string
  lt_note :: "string option"
  lt_excerpt :: string

record listed_assessment =
  lw_row :: assessment_row
  lw_citations :: "listed_citation list"

definition listed_citation_of :: "citation_row \<times> clause_row \<times> instrument \<Rightarrow> listed_citation" where
  "listed_citation_of x =
     (let (a, c, i) = x
      in \<lparr>lt_path = ac_path a, lt_instrument = ac_instrument a, lt_role = ac_role a,
          lt_from = map_option date_isoformat (cl_from c), lt_to = map_option date_isoformat (cl_to c),
          lt_verification = in_verification i, lt_note = ac_note a, lt_excerpt = ac_excerpt a\<rparr>)"

text \<open>\<open>_SEVERITY_RANK.get(min_severity, 0)\<close>.\<close>

definition severity_floor :: "string \<Rightarrow> nat" where
  "severity_floor s =
     (case map_of [(''informational'', 1), (''minor'', 2), (''major'', 3), (''critical'', 4)] s of None \<Rightarrow> 0 | Some n \<Rightarrow> n)"

definition listed_rows :: "store \<Rightarrow> uuid \<Rightarrow> string option \<Rightarrow> string option \<Rightarrow> bool \<Rightarrow> assessment_row list" where
  "listed_rows db loan verdict min_severity include_shadow =
     (let rows = sort_key (\<lambda>r. - as_created r) (open_rows db loan);
          rows1 = (if include_shadow then rows else filter (\<lambda>r. \<not> as_is_shadow r) rows);
          rows2 = (case truthy verdict of [] \<Rightarrow> rows1 | v # _ \<Rightarrow> filter (\<lambda>r. verdict_label (as_verdict r) = v) rows1)
      in case truthy min_severity of
           [] \<Rightarrow> rows2
         | s # _ \<Rightarrow> filter (\<lambda>r. severity_floor s \<le> SEVERITY_RANK (as_severity r)) rows2)"

record assessment_listing =
  lg_external_ref :: string
  lg_product_type :: string
  lg_is_microfinance :: bool
  lg_is_digital_lending :: bool
  lg_snapshot :: "(uuid \<times> string option) option"
  lg_assessments :: "listed_assessment list"
  lg_disclaimer :: string

text \<open>The snapshot named is that of the first row.\<close>

definition get_assessments ::
  "report_tables \<Rightarrow> store \<Rightarrow> uuid \<Rightarrow> string option \<Rightarrow> string option \<Rightarrow> bool \<Rightarrow> assessment_listing res" where
  "get_assessments rt db loan verdict min_severity include_shadow =
     (case find_account rt loan of
        None \<Rightarrow> Inl (APIError ''CC-404-LOAN'')
      | Some a \<Rightarrow>
          let rows = listed_rows db loan verdict min_severity include_shadow
          in Inr \<lparr>lg_external_ref = lo_external_ref a, lg_product_type = lo_product_type a,
                  lg_is_microfinance = lo_is_microfinance a, lg_is_digital_lending = lo_is_digital_lending a,
                  lg_snapshot = (case rows of [] \<Rightarrow> None
                    | r # _ \<Rightarrow> let sid = ar_snapshot_id (as_result r) in Some (sid, rt_snapshot_created rt sid)),
                  lg_assessments =
                    map (\<lambda>r. \<lparr>lw_row = r, lw_citations = citations_of listed_citation_of db rows (as_id r)\<rparr>) rows,
                  lg_disclaimer = ''Cited compliance findings for internal review. Not legal advice.''\<rparr>)"

section \<open>Grouping\<close>

lemma fold_empty_lists: "k \<in> set ids \<or> map_of d k = Some [] \<Longrightarrow> map_of (fold (\<lambda>k d. alist_put k [] d) ids d) k = Some []"
  by (induction ids arbitrary: d) (auto simp: map_of_alist_put)

lemma fold_append_under:
  "map_of d k = Some xs \<Longrightarrow>
   map_of (fold (\<lambda>x d. append_under (ac_assessment (fst x)) (f x) d) rows d) k =
     Some (xs @ map f (filter (\<lambda>x. ac_assessment (fst x) = k) rows))"
  by (induction rows arbitrary: d xs) (auto simp: append_under_def map_of_alist_put)

lemma cited_rows_one: "k \<in> set ids \<Longrightarrow> filter (\<lambda>x. ac_assessment (fst x) = k) (cited_rows db ids) = cited_rows db [k]"
proof -
  have all: "filter (\<lambda>x. ac_assessment (fst x) = k) (joined_citation db a) =
      (if ac_assessment a = k then joined_citation db a else [])" for a
    by (auto simp: joined_citation_def filter_empty_conv intro!: filter_True)
  assume "k \<in> set ids"
  then have "filter (\<lambda>x. ac_assessment (fst x) = k)
        (concat (map (joined_citation db) (filter (\<lambda>a. ac_assessment a \<in> set ids) as))) =
      concat (map (joined_citation db) (filter (\<lambda>a. ac_assessment a \<in> set [k]) as))" for as
    by (induction as) (auto simp: all)
  then show ?thesis unfolding cited_rows_def .
qed

lemma citations_of_eq:
  assumes "r \<in> set rows"
  shows "citations_of f db rows (as_id r) = map f (cited_rows db [as_id r])"
proof -
  have id: "as_id r \<in> set (map as_id rows)" using assms by simp
  have start: "map_of (fold (\<lambda>k d. alist_put k [] d) (map as_id rows) []) (as_id r) = Some []"
    using fold_empty_lists [of "as_id r" "map as_id rows" "[]"] id by blast
  show ?thesis
    using assms unfolding citations_of_def group_citations_def
    by (auto simp: fold_append_under [OF start] cited_rows_one [OF id])
qed

lemma report_rows_mset: "mset (report_rows db loan) = mset (filter (\<lambda>r. \<not> as_is_shadow r) (open_rows db loan))"
  by (simp add: report_rows_def)

lemma severity_rank_position: "SEVERITY_RANK s = 4 - severity_position s" "severity_position s \<le> 3"
  by (cases s; simp)+

lemma report_rows_sorted:
  "sorted_wrt (\<lambda>a b. SEVERITY_RANK (as_severity a) \<le> SEVERITY_RANK (as_severity b)) (report_rows db loan)"
proof -
  have "sorted (map (\<lambda>r. - int (severity_position (as_severity r))) (report_rows db loan))"
    by (simp add: report_rows_def)
  then have "sorted_wrt (\<lambda>a b. - int (severity_position (as_severity a)) \<le> - int (severity_position (as_severity b)))
      (report_rows db loan)"
    by (simp add: sorted_map)
  then show ?thesis
    by (rule sorted_wrt_mono_rel [rotated]) (simp add: severity_rank_position(1))
qed

lemma distinct_if_once:
  assumes "\<And>k. length (filter (\<lambda>x. x = k) xs) \<le> 1"
  shows "distinct xs"
  using assms
proof (induction xs)
  case (Cons x xs)
  have "length (filter (\<lambda>y. y = k) xs) \<le> 1" for k using Cons.prems [of k] by (simp split: if_splits)
  moreover have "filter (\<lambda>y. y = x) xs = []" using Cons.prems [of x] by simp
  ultimately show ?case using Cons.IH by (auto simp: filter_empty_conv)
qed simp

lemma open_rows_once:
  assumes "one_open db"
  shows "distinct (map as_check_key (open_rows db loan))"
proof -
  have "length (filter (\<lambda>r. as_check_key r = k) (open_rows db loan)) \<le> 1" for k
  proof -
    have "filter (\<lambda>r. as_check_key r = k) (open_rows db loan) = filter (is_open loan k) (db_assessments db)"
      by (auto simp: open_rows_def is_open_def intro!: filter_cong)
    then show ?thesis using assms by (simp add: one_open_def)
  qed
  then have "length (filter (\<lambda>x. x = k) (map as_check_key (open_rows db loan))) \<le> 1" for k
    by (simp add: filter_map comp_def)
  then show ?thesis by (rule distinct_if_once)
qed

lemma cited_path [simp]:
  "rc_path (report_citation_of rt x) = ac_path (fst x)" "lt_path (listed_citation_of x) = ac_path (fst x)"
  by (cases x; simp add: report_citation_of_def listed_citation_of_def)+

section \<open>Properties\<close>

text \<open>
  C36: A report lists exactly the assessments of the account that are open, real and not shadow, each
  with all its citations as clause and instrument have them; with the history kept by the
  assessments a check occurs once. The order is that of the labels of the severity type backwards:
  the least severe findings come first.
\<close>

theorem report_complete:
  assumes "assemble_report rt db loan = Inr rep"
  shows "mset (map (\<lambda>f. (rf_check_key f, rf_verdict f, rf_severity f, rf_rationale f, rf_citations f)) (rp_findings rep)) =
      mset (map (\<lambda>r. (as_check_key r, as_verdict r, as_severity r, ar_rationale (as_result r),
              map (report_citation_of rt) (cited_rows db [as_id r])))
        (filter (\<lambda>r. \<not> as_is_shadow r) (open_rows db loan))) \<and>
    sorted_wrt (\<lambda>f g. SEVERITY_RANK (rf_severity f) \<le> SEVERITY_RANK (rf_severity g)) (rp_findings rep) \<and>
    (one_open db \<longrightarrow> distinct (map rf_check_key (rp_findings rep))) \<and>
    (map_of (report_to_json rep) ''synthetic_data_banner'' \<noteq> None \<longleftrightarrow> (loan, True) \<in> set (rt_synthetic rt))"
proof -
  let ?rows = "report_rows db loan"
  have f: "rp_findings rep = map (finding_of rt db ?rows) ?rows"
      "rp_is_synthetic rep \<longleftrightarrow> (loan, True) \<in> set (rt_synthetic rt)"
    using assms by (auto simp: assemble_report_def Let_def split: option.splits)
  have each: "(rf_check_key f, rf_verdict f, rf_severity f, rf_rationale f, rf_citations f) =
      (as_check_key r, as_verdict r, as_severity r, ar_rationale (as_result r),
       map (report_citation_of rt) (cited_rows db [as_id r]))"
    if "r \<in> set ?rows" "f = finding_of rt db ?rows r" for r f
    using that citations_of_eq [OF that(1)] by (simp add: finding_of_def)
  have shown: "map (\<lambda>f. (rf_check_key f, rf_verdict f, rf_severity f, rf_rationale f, rf_citations f)) (rp_findings rep) =
      map (\<lambda>r. (as_check_key r, as_verdict r, as_severity r, ar_rationale (as_result r),
        map (report_citation_of rt) (cited_rows db [as_id r]))) ?rows"
    unfolding f(1) using each by simp
  have sorted: "sorted_wrt (\<lambda>f g. SEVERITY_RANK (rf_severity f) \<le> SEVERITY_RANK (rf_severity g)) (rp_findings rep)"
    unfolding f(1) sorted_wrt_map by (simp add: finding_of_def report_rows_sorted)
  have once: "distinct (map rf_check_key (rp_findings rep))" if "one_open db"
  proof -
    have "mset (map rf_check_key (rp_findings rep)) = mset (map as_check_key (filter (\<lambda>r. \<not> as_is_shadow r) (open_rows db loan)))"
      unfolding f(1) by (simp add: finding_of_def comp_def report_rows_mset)
    moreover have "distinct (map as_check_key (filter (\<lambda>r. \<not> as_is_shadow r) (open_rows db loan)))"
      by (rule distinct_map_filter [OF open_rows_once [OF \<open>one_open db\<close>]])
    ultimately show ?thesis by (metis mset_eq_imp_distinct_iff)
  qed
  have "map_of (report_to_json rep) ''synthetic_data_banner'' \<noteq> None \<longleftrightarrow> (loan, True) \<in> set (rt_synthetic rt)"
    using f(2) by (simp add: report_to_json_def)
  then show ?thesis
    using sorted once unfolding shown by (simp add: report_rows_mset)
qed

text \<open>
  C37: The report and the listing without filters give the same assessments with the same cited
  clauses, for every account; both refuse an account that does not exist.
\<close>

theorem report_matches_listing:
  "(case (assemble_report rt db loan, get_assessments rt db loan None None False) of
      (Inr rep, Inr listed) \<Rightarrow>
        mset (map (\<lambda>f. (rf_check_key f, rf_verdict f, rf_severity f, map rc_path (rf_citations f))) (rp_findings rep)) =
        mset (map (\<lambda>l. (as_check_key (lw_row l), as_verdict (lw_row l), as_severity (lw_row l), map lt_path (lw_citations l)))
          (lg_assessments listed))
    | (Inl e, Inl e') \<Rightarrow> e = e' \<and> find_account rt loan = None
    | _ \<Rightarrow> False)"
proof (cases "find_account rt loan")
  case None
  then show ?thesis by (simp add: assemble_report_def get_assessments_def)
next
  case (Some a)
  let ?rows = "report_rows db loan" and ?listed = "listed_rows db loan None None False"
  let ?g = "\<lambda>r. (as_check_key r, as_verdict r, as_severity r, map (\<lambda>x. ac_path (fst x)) (cited_rows db [as_id r]))"
  have "map (\<lambda>r. (rf_check_key (finding_of rt db ?rows r), rf_verdict (finding_of rt db ?rows r),
      rf_severity (finding_of rt db ?rows r), map rc_path (rf_citations (finding_of rt db ?rows r)))) ?rows = map ?g ?rows"
    by (simp add: finding_of_def citations_of_eq comp_def)
  moreover have "map (\<lambda>r. (as_check_key r, as_verdict r, as_severity r,
      map lt_path (citations_of listed_citation_of db ?listed (as_id r)))) ?listed = map ?g ?listed"
    by (simp add: citations_of_eq comp_def)
  moreover have "mset (map ?g ?rows) = mset (map ?g ?listed)"
    by (simp add: report_rows_mset listed_rows_def truthy_def filter_sort flip: mset_filter)
  ultimately show ?thesis
    using Some by (simp add: assemble_report_def get_assessments_def Let_def comp_def del: map_eq_conv mset_map)
qed

section \<open>A report\<close>

definition report_result :: "string \<Rightarrow> severity \<Rightarrow> assessment_result" where
  "report_result key s =
     \<lparr>ar_check_key = key, ar_field_key = None, ar_event_date = Date 2026 5 1, ar_verdict = Violation, ar_severity = s,
      ar_confidence = High, ar_rationale = [], ar_decided_by = ByRule, ar_rule_id = Some key, ar_is_shadow = False,
      ar_is_whatif = False, ar_citations = [], ar_telemetry = empty_telemetry, ar_snapshot_id = 3, ar_candidate_count = 0\<rparr>"

definition report_row :: "uuid \<Rightarrow> string \<Rightarrow> severity \<Rightarrow> assessment_row" where
  "report_row i key s =
     \<lparr>as_id = i, as_tenant = 5, as_loan = 7, as_document = None, as_result = report_result key s, as_is_whatif = False,
      as_serving_mode = [], as_request_id = [], as_superseded_by = None, as_created = 0\<rparr>"

definition report_store :: store where
  "report_store =
     sample_store\<lparr>db_assessments := [report_row 11 ''R01'' Critical, report_row 12 ''R26'' Informational], db_citations := []\<rparr>"

definition sample_report_tables :: report_tables where
  "sample_report_tables =
     \<lparr>rt_accounts = [\<lparr>lo_id = 7, lo_tenant = 5, lo_external_ref = ''L-7'', lo_product_type = ''personal'',
        lo_is_microfinance = False, lo_is_digital_lending = False, lo_device_financed = False\<rparr>],
      rt_synthetic = [(7, True)], rt_title = (\<lambda>_. []), rt_snapshot_created = (\<lambda>_. None)\<rparr>"

text \<open>The critical finding comes last.\<close>

lemma least_severe_first:
  "case assemble_report sample_report_tables report_store 7 of
     Inl _ \<Rightarrow> False | Inr rep \<Rightarrow> map rf_severity (rp_findings rep) = [Informational, Critical]"
  by code_simp

theorem report_complete_witness:
  "\<exists>rep. assemble_report sample_report_tables report_store 7 = Inr rep \<and>
     distinct (map rf_check_key (rp_findings rep)) \<and> length (rp_findings rep) = 2"
proof -
  obtain rep where rep: "assemble_report sample_report_tables report_store 7 = Inr rep"
      "map rf_severity (rp_findings rep) = [Informational, Critical]"
    using least_severe_first by (cases "assemble_report sample_report_tables report_store 7") auto
  have "one_open report_store"
    by (auto simp: one_open_def report_store_def report_row_def report_result_def is_open_def as_check_key_def)
  moreover have "length (rp_findings rep) = 2" using arg_cong [OF rep(2), of length] by simp
  ultimately show ?thesis using report_complete [OF rep(1)] rep(1) by blast
qed

end
