(* ===== verification/CC_Log.thy ===== *)
theory CC_Log
  imports CC_Prelude
begin

text \<open>
  The content denylist of the logs, \<open>src/app/obs/logging.py\<close>: \<open>_scrub\<close> and the processor
  \<open>drop_denylisted_keys\<close> over the values a log line carries. Configuring structlog and binding its
  context are library calls.
\<close>

section \<open>Scrubbing\<close>

text \<open>A logged value: a mapping, a list, a tuple, or anything else by its text.\<close>

datatype logval =
    LAtom string
  | LList "logval list"
  | LTuple "logval list"
  | LDict "(string \<times> logval) list"

definition DENYLIST_KEYS :: "string list" where
  "DENYLIST_KEYS =
     [''text'', ''document_text'', ''value_raw'', ''quoted_span'', ''prompt'', ''messages'', ''rationale'']"

definition REDACTED :: logval where
  "REDACTED = LAtom ''[REDACTED-BY-DENYLIST]''"

fun scrub :: "logval \<Rightarrow> logval" where
  "scrub (LDict d) = LDict (map (\<lambda>(key, v). (key, if key \<in> set DENYLIST_KEYS then REDACTED else scrub v)) d)"
| "scrub (LList vs) = LList (map scrub vs)"
| "scrub (LTuple vs) = LTuple vs"
| "scrub (LAtom s) = LAtom s"

definition drop_denylisted_keys :: "(string \<times> logval) list \<Rightarrow> (string \<times> logval) list" where
  "drop_denylisted_keys event_dict =
     map (\<lambda>(key, v). (key, if key \<in> set DENYLIST_KEYS then REDACTED else scrub v)) event_dict"

section \<open>What is left\<close>

text \<open>No denylisted key has a value at any depth, tuples included.\<close>

fun content_free :: "logval \<Rightarrow> bool" where
  "content_free (LDict d) \<longleftrightarrow> list_all (\<lambda>(key, v). if key \<in> set DENYLIST_KEYS then v = REDACTED else content_free v) d"
| "content_free (LList vs) \<longleftrightarrow> list_all content_free vs"
| "content_free (LTuple vs) \<longleftrightarrow> list_all content_free vs"
| "content_free (LAtom s) \<longleftrightarrow> True"

fun tuple_free :: "logval \<Rightarrow> bool" where
  "tuple_free (LDict d) \<longleftrightarrow> list_all (\<lambda>(key, v). tuple_free v) d"
| "tuple_free (LList vs) \<longleftrightarrow> list_all tuple_free vs"
| "tuple_free (LTuple vs) \<longleftrightarrow> False"
| "tuple_free (LAtom s) \<longleftrightarrow> True"

lemma scrub_content_free: "tuple_free v \<Longrightarrow> content_free (scrub v)"
  by (induction v rule: scrub.induct) (auto simp: list_all_iff split: if_splits)

lemma scrub_fixed: "content_free v \<Longrightarrow> scrub v = v"
proof (induction v rule: scrub.induct)
  case (1 d)
  have "(\<lambda>(key, v). (key, if key \<in> set DENYLIST_KEYS then REDACTED else scrub v)) x = x" if "x \<in> set d" for x
    using 1 that by (cases x) (auto simp: list_all_iff split: if_splits)
  then show ?case by (simp add: map_idI)
qed (auto simp: list_all_iff map_idI)

text \<open>
  C40: A log line built of mappings and lists keeps its keys and loses the value of every denylisted
  key, however deep it is nested; a line that carries none of them passes unchanged, so scrubbing
  twice changes nothing.
\<close>

theorem log_content_scrubbed:
  assumes "list_all (\<lambda>(key, v). tuple_free v) event"
  shows "content_free (LDict (drop_denylisted_keys event)) \<and>
    map fst (drop_denylisted_keys event) = map fst event \<and>
    drop_denylisted_keys (drop_denylisted_keys event) = drop_denylisted_keys event \<and>
    (content_free (LDict event) \<longrightarrow> drop_denylisted_keys event = event)"
proof -
  have d: "LDict (drop_denylisted_keys e) = scrub (LDict e)" for e by (simp add: drop_denylisted_keys_def)
  have free: "content_free (LDict (drop_denylisted_keys event))"
    unfolding d by (rule scrub_content_free) (use assms in simp)
  have fixed: "drop_denylisted_keys e = e" if "content_free (LDict e)" for e
    using scrub_fixed [OF that] d [of e] by simp
  have "map fst (drop_denylisted_keys event) = map fst event" by (auto simp: drop_denylisted_keys_def)
  then show ?thesis using free fixed [OF free] fixed [of event] by blast
qed

theorem log_content_scrubbed_witness:
  "content_free (LDict (drop_denylisted_keys [(''extra'', LList [LDict [(''prompt'', LAtom ''Pay by Friday'')]])]))"
  using log_content_scrubbed [of "[(''extra'', LList [LDict [(''prompt'', LAtom ''Pay by Friday'')]])]"] by simp

text \<open>A tuple is not looked into: what it carries is logged.\<close>

lemma tuple_not_scrubbed:
  "\<not> content_free (LDict (drop_denylisted_keys [(''extra'', LTuple [LDict [(''prompt'', LAtom ''Pay by Friday'')]])]))"
  by (simp add: drop_denylisted_keys_def DENYLIST_KEYS_def REDACTED_def)

end
