(* ===== verification/CC_Eval.thy ===== *)
theory CC_Eval
  imports CC_Extract CC_Report
begin

text \<open>
  The evaluation harness, \<open>src/eval/\<close>: loading the cases of a suite (\<open>loader.py\<close>), running a case through
  the real assessment, extraction or conflict detection (\<open>runner.py\<close>), the metrics over the outcomes
  (\<open>metrics.py\<close>) and a whole run of a suite (\<open>harness.py\<close>).

  A case runs in a tenant of its own whose rows are deleted in a \<open>finally\<close> block, so the model of a
  runner returns the tables also when it raises. An \<open>assess_fact\<close> or \<open>extract_document\<close> that raises returns
  no store; the deletes then run on the store it started from, since what it wrote belongs to the
  tenant that is deleted. Reading and validating a JSON file is library code: a directory
  is the list of its files, each with the case or the exception it gives. Report files, the
  commit hash and the wall clock are not modelled.
\<close>

section \<open>Cases (loader.py)\<close>

record account_profile =
  pf_product_type :: string
  pf_is_microfinance :: bool
  pf_is_digital_lending :: bool
  pf_device_financed :: bool

record expected_result =
  ex_facts :: "(string \<times> string) list"
  ex_check_key :: string
  ex_verdict :: string
  ex_decisive_citations :: "string list"
  ex_context_citations :: "string list"
  ex_forbidden_citations :: "string list"

record document_spec =
  dp_doc_type :: string
  dp_facts :: "(string \<times> string) list"

record conflict_expected =
  ce_conflict_expected :: bool
  ce_raises_check :: "string option"

record expected_state =
  es_open_violations :: int
  es_open_ambiguous :: int
  es_open_no_clause :: int
  es_unresolved_conflicts :: int
  es_highest_severity :: "string option"

record eval_case =
  ec_case_ref :: string
  ec_suite :: string
  ec_stage :: string
  ec_doc_type :: "string option"
  ec_input_ref :: "string option"
  ec_event_date :: string
  ec_profile :: account_profile
  ec_expected :: expected_result
  ec_documents :: "document_spec list"
  ec_conflict_expected :: "conflict_expected option"
  ec_expected_state :: "expected_state option"
  ec_tolerance :: json_obj
  ec_is_adversarial :: bool
  ec_notes :: "string option"

definition load_suite :: "string \<Rightarrow> (string \<times> eval_case res) list option \<Rightarrow> eval_case list res" where
  "load_suite suite dir =
     (case dir of
        None \<Rightarrow> Inl (FileNotFoundError suite)
      | Some files \<Rightarrow>
          emap (\<lambda>(path, parsed). ebind parsed (\<lambda>c.
              if ec_suite c \<noteq> suite then Inl (ValueError path) else Inr c))
            (sort_key fst files))"

section \<open>Running a case (runner.py)\<close>

definition parse_expected_value :: "string \<Rightarrow> string \<Rightarrow> fact_value res" where
  "parse_expected_value value_type raw =
     (if value_type = ''date'' then ebind (date_fromisoformat raw) (\<lambda>d. Inr (DateValue d))
      else if value_type = ''datetime'' then ebind (datetime_fromisoformat raw) (\<lambda>t. Inr (DateTimeValue t))
      else if value_type = ''money'' then ebind (py_int_of raw) (\<lambda>n. Inr (MoneyValue n ''INR''))
      else if value_type = ''rate_bps'' then ebind (py_int_of raw) (\<lambda>n. Inr (RateValue n))
      else if value_type = ''duration_days'' then ebind (py_int_of raw) (\<lambda>n. Inr (DaysValue n))
      else if value_type = ''integer'' then ebind (py_int_of raw) (\<lambda>n. Inr (IntValue n))
      else if value_type = ''boolean''
        then Inr (BoolValue (py_lower (py_strip raw) \<in> set [''true'', ''yes'', ''1'']))
      else if value_type = ''enum'' then Inr (EnumValue raw)
      else Inr (StringValue raw))"

text \<open>The tables a runner sees: tenants, accounts, and the store of the component under test.\<close>

record 's run_db =
  rd_tenants :: "(uuid \<times> string) list"
  rd_accounts :: "account_row list"
  rd_store :: 's

definition insert_account :: "eval_case \<Rightarrow> uuid \<Rightarrow> uuid \<Rightarrow> 's run_db \<Rightarrow> 's run_db" where
  "insert_account c tenant loan db =
     db\<lparr>rd_tenants := rd_tenants db @ [(tenant, ''eval-'' @ ec_case_ref c)],
        rd_accounts := rd_accounts db @
          [\<lparr>lo_id = loan, lo_tenant = tenant, lo_external_ref = ec_case_ref c,
            lo_product_type = pf_product_type (ec_profile c),
            lo_is_microfinance = pf_is_microfinance (ec_profile c),
            lo_is_digital_lending = pf_is_digital_lending (ec_profile c),
            lo_device_financed = pf_device_financed (ec_profile c)\<rparr>]\<rparr>"

definition delete_account :: "uuid \<Rightarrow> uuid \<Rightarrow> 's run_db \<Rightarrow> 's run_db" where
  "delete_account tenant loan db =
     db\<lparr>rd_accounts := filter (\<lambda>a. lo_id a \<noteq> loan) (rd_accounts db),
        rd_tenants := filter (\<lambda>t. fst t \<noteq> tenant) (rd_tenants db)\<rparr>"

definition case_account :: "eval_case \<Rightarrow> uuid \<Rightarrow> uuid \<Rightarrow> loan_account" where
  "case_account c tenant loan =
     \<lparr>la_id = loan, la_tenant_id = tenant, la_external_ref = ec_case_ref c,
      la_product_type = pf_product_type (ec_profile c),
      la_is_microfinance = pf_is_microfinance (ec_profile c),
      la_is_digital_lending = pf_is_digital_lending (ec_profile c),
      la_device_financed = pf_device_financed (ec_profile c), la_entity_type = ''nbfc''\<rparr>"

text \<open>The document row takes an id and two more for its digest.\<close>

definition insert_case_document :: "(nat \<Rightarrow> uuid) \<Rightarrow> string \<Rightarrow> store \<Rightarrow> uuid \<times> store" where
  "insert_case_document gen doc_type db =
     (let doc = gen (db_uuids db)
      in (doc, db\<lparr>db_documents := db_documents db @ [(doc, doc_type)], db_uuids := db_uuids db + 3\<rparr>))"

definition insert_case_fact ::
  "'v env \<Rightarrow> uuid \<Rightarrow> uuid \<Rightarrow> string \<times> string \<Rightarrow> store \<Rightarrow> (store \<times> uuid \<times> fact_value) res" where
  "insert_case_fact ev doc loan item db =
     (let (field_key, raw) = item
      in ebind (field_get (ev_fields ev) field_key) (\<lambda>spec.
         ebind (parse_expected_value (fs_type spec) raw) (\<lambda>v.
           let i = ev_gen ev (db_uuids db)
           in Inr (db\<lparr>db_facts := db_facts db @
                    [\<lparr>fx_id = i, fx_document = doc, fx_loan = loan, fx_field_key = field_key,
                      fx_value_type = Some (fs_type spec), fx_value = Some (value_to_jsonable v),
                      fx_is_absent = False, fx_created = ev_now ev\<rparr>],
                  db_uuids := db_uuids db + 2\<rparr>, i, v))))"

fun insert_case_facts ::
  "'v env \<Rightarrow> uuid \<Rightarrow> uuid \<Rightarrow> (string \<times> string) list \<Rightarrow> store \<Rightarrow> store \<times> unit res" where
  "insert_case_facts ev doc loan [] db = (db, Inr ())"
| "insert_case_facts ev doc loan (x # xs) db =
     (case insert_case_fact ev doc loan x db of
        Inl e \<Rightarrow> (db, Inl e)
      | Inr (db', _) \<Rightarrow> insert_case_facts ev doc loan xs db')"

definition case_fact :: "uuid \<Rightarrow> uuid \<Rightarrow> uuid \<Rightarrow> string \<times> string \<Rightarrow> fact_value \<Rightarrow> fact_out" where
  "case_fact i doc loan item v =
     \<lparr>fo_id = i, fo_document_id = doc, fo_loan_account_id = loan, fo_field_key = fst item,
      fo_value = Some v, fo_value_raw = Some (snd item), fo_is_absent = False, fo_confidence = 1,
      fo_span = None\<rparr>"

definition case_job :: "eval_case \<Rightarrow> loan_account \<Rightarrow> date \<Rightarrow> uuid \<Rightarrow> fact_out \<Rightarrow> job" where
  "case_job c account event_date snapshot f =
     \<lparr>jb_fact = f, jb_account = account, jb_document_event_date = event_date, jb_snapshot = snapshot,
      jb_request_id = ''eval-'' @ ec_case_ref c, jb_as_of = None\<rparr>"

text \<open>The last field the expected check names, otherwise the first.\<close>

definition trigger_field :: "expected_result \<Rightarrow> (string \<times> string) option" where
  "trigger_field ex =
     fold (\<lambda>(k, raw) t. if ex_check_key ex = ''F:'' @ k \<or> t = None then Some (k, raw) else t) (ex_facts ex) None"

subsection \<open>What the runners delete\<close>

definition delete_assessments :: "uuid \<Rightarrow> uuid \<Rightarrow> store \<Rightarrow> store" where
  "delete_assessments tenant loan db =
     db\<lparr>db_audit := filter (\<lambda>a. au_tenant a \<noteq> tenant) (db_audit db),
        db_citations := filter (\<lambda>c. ac_assessment c \<notin>
            set (map as_id (filter (\<lambda>a. as_loan a = loan) (db_assessments db)))) (db_citations db),
        db_assessments := filter (\<lambda>a. as_loan a \<noteq> loan) (db_assessments db),
        db_states := (db_states db)(loan := None)\<rparr>"

definition delete_conflicts :: "uuid \<Rightarrow> store \<Rightarrow> store" where
  "delete_conflicts loan db = db\<lparr>db_conflicts := filter (\<lambda>c. fc_loan c \<noteq> loan) (db_conflicts db)\<rparr>"

definition delete_facts :: "uuid \<Rightarrow> uuid list \<Rightarrow> store \<Rightarrow> store" where
  "delete_facts loan docs db =
     db\<lparr>db_facts := filter (\<lambda>f. fx_loan f \<noteq> loan) (db_facts db),
        db_documents := filter (\<lambda>d. fst d \<notin> set docs) (db_documents db)\<rparr>"

subsection \<open>Citations, checked again\<close>

record citation_check =
  pc_clause_path :: string
  pc_role :: citation_role
  pc_live :: bool
  pc_hallucinated :: bool

definition check_persisted :: "date \<Rightarrow> citation_row \<Rightarrow> clause_row option \<Rightarrow> citation_check" where
  "check_persisted as_of c clause =
     \<lparr>pc_clause_path = ac_path c, pc_role = ac_role c,
      pc_live = (case clause of
          None \<Rightarrow> False
        | Some r \<Rightarrow> (case cl_from r of None \<Rightarrow> True | Some d \<Rightarrow> d \<le> as_of) \<and>
                    (case cl_to r of None \<Rightarrow> True | Some d \<Rightarrow> as_of < d)),
      pc_hallucinated = (case clause of
          None \<Rightarrow> True
        | Some r \<Rightarrow> \<not> is_literal_substring (ac_excerpt c) (cl_text r))\<rparr>"

text \<open>\<open>LEFT JOIN clause\<close>: a citation without a clause gives one row.\<close>

definition resolve_citations :: "store \<Rightarrow> uuid list \<Rightarrow> date \<Rightarrow> citation_check list" where
  "resolve_citations db assessment_ids as_of =
     concat (map (\<lambda>c.
         (case filter (\<lambda>r. cl_id r = ac_clause c) (co_clauses (db_corpus db)) of
            [] \<Rightarrow> [check_persisted as_of c None]
          | rows \<Rightarrow> map (\<lambda>r. check_persisted as_of c (Some r)) rows))
       (filter (\<lambda>c. ac_assessment c \<in> set assessment_ids) (db_citations db)))"

subsection \<open>Verdict cases\<close>

datatype case_diff =
    VerdictDiff string string
  | DecisiveDiff "string list" "string list"
  | ContextDiff "string list" "string list"
  | ForbiddenPresent "string list"
  | NoResultDiff

record case_outcome =
  co_case_ref :: string
  co_verdict :: string
  co_check_key :: string
  co_decisive_citations :: "string list"
  co_context_citations :: "string list"
  co_all_citation_paths :: "string list"
  co_persisted_citations :: "citation_check list"
  co_passed :: bool
  co_diff :: "case_diff list"

definition no_result_outcome :: "eval_case \<Rightarrow> case_outcome" where
  "no_result_outcome c =
     \<lparr>co_case_ref = ec_case_ref c, co_verdict = ''__no_result__'', co_check_key = ''__none__'',
      co_decisive_citations = [], co_context_citations = [], co_all_citation_paths = [],
      co_persisted_citations = [], co_passed = False, co_diff = [NoResultDiff]\<rparr>"

text \<open>The results whose check is the expected one come first, otherwise any.\<close>

definition pick_result :: "string \<Rightarrow> assessment_result list \<Rightarrow> assessment_result option" where
  "pick_result key results =
     (case filter (\<lambda>r. ar_check_key r = key) results of
        r # _ \<Rightarrow> Some r
      | [] \<Rightarrow> (case results of r # _ \<Rightarrow> Some r | [] \<Rightarrow> None))"

definition case_diffs :: "expected_result \<Rightarrow> string \<Rightarrow> string list \<Rightarrow> string list \<Rightarrow> string list \<Rightarrow> case_diff list" where
  "case_diffs ex verdict decisive context paths =
     (let hit = filter (\<lambda>p. p \<in> set (ex_forbidden_citations ex)) paths
      in (if verdict \<noteq> ex_verdict ex then [VerdictDiff (ex_verdict ex) verdict] else [])
       @ (if set decisive \<noteq> set (ex_decisive_citations ex)
          then [DecisiveDiff (ex_decisive_citations ex) decisive] else [])
       @ (if set context \<noteq> set (ex_context_citations ex)
          then [ContextDiff (ex_context_citations ex) context] else [])
       @ (if hit \<noteq> [] then [ForbiddenPresent hit] else []))"

definition case_result :: "eval_case \<Rightarrow> uuid \<Rightarrow> date \<Rightarrow> store \<Rightarrow> assessment_result list \<Rightarrow> case_outcome" where
  "case_result c loan event_date db results =
     (case pick_result (ex_check_key (ec_expected c)) results of
        None \<Rightarrow> no_result_outcome c
      | Some r \<Rightarrow>
          let paths = (\<lambda>role. map cit_path (filter (\<lambda>x. cit_role x = role) (ar_citations r)));
              all_paths = map cit_path (ar_citations r);
              row = latest_by as_created
                (filter (\<lambda>a. as_loan a = loan \<and> as_check_key a = ar_check_key r) (db_assessments db));
              persisted = resolve_citations db (case row of None \<Rightarrow> [] | Some a \<Rightarrow> [as_id a]) event_date;
              diff = case_diffs (ec_expected c) (verdict_label (ar_verdict r)) (paths Decisive) (paths ContextOnly)
                all_paths
          in \<lparr>co_case_ref = ec_case_ref c, co_verdict = verdict_label (ar_verdict r),
              co_check_key = ar_check_key r, co_decisive_citations = paths Decisive,
              co_context_citations = paths ContextOnly, co_all_citation_paths = all_paths,
              co_persisted_citations = persisted, co_passed = (diff = []), co_diff = diff\<rparr>)"

text \<open>The body of the \<open>try\<close>, after the rows of tenant and account.\<close>

definition case_body ::
  "'v env \<Rightarrow> uuid \<Rightarrow> eval_case \<Rightarrow> string \<Rightarrow> uuid \<Rightarrow> uuid \<Rightarrow> date \<Rightarrow> store \<Rightarrow> store \<times> uuid \<times> case_outcome res" where
  "case_body ev snapshot c doc_type tenant loan event_date db =
     (let (doc, db1) = insert_case_document (ev_gen ev) doc_type db;
          facts = ex_facts (ec_expected c)
      in (case insert_case_facts ev doc loan facts db1 of
           (db2, Inl e) \<Rightarrow> (db2, doc, Inl e)
         | (db2, Inr _) \<Rightarrow>
             (case trigger_field (ec_expected c) of
                None \<Rightarrow> (db2, doc, Inl (AssertionError ''expected.facts is empty''))
              | Some (key, raw) \<Rightarrow>
                  let run = ebind (field_get (ev_fields ev) key) (\<lambda>spec.
                        ebind (parse_expected_value (fs_type spec) raw) (\<lambda>v.
                          assess_fact ev (case_job c (case_account c tenant loan) event_date snapshot
                              (case_fact (ev_gen ev (db_uuids db2)) doc loan (key, raw) v))
                            (db2\<lparr>db_uuids := Suc (db_uuids db2)\<rparr>)))
                  in (case run of
                       Inl e \<Rightarrow> (db2, doc, Inl e)
                     | Inr (db3, results) \<Rightarrow> (db3, doc, Inr (case_result c loan event_date db3 results))))))"

definition run_case ::
  "'v env \<Rightarrow> uuid \<Rightarrow> eval_case \<Rightarrow> store run_db \<Rightarrow> store run_db \<times> case_outcome res" where
  "run_case ev snapshot c db =
     (case ec_doc_type c of
        None \<Rightarrow> (db, Inl (AssertionError (ec_case_ref c)))
      | Some doc_type \<Rightarrow>
          let n = db_uuids (rd_store db);
              tenant = ev_gen ev n;
              loan = ev_gen ev (Suc n);
              st = (rd_store db)\<lparr>db_uuids := n + 2\<rparr>
          in (case date_fromisoformat (ec_event_date c) of
               Inl e \<Rightarrow> (db\<lparr>rd_store := st\<rparr>, Inl e)
             | Inr event_date \<Rightarrow>
                 let db1 = insert_account c tenant loan db;
                     (st1, doc, out) = case_body ev snapshot c doc_type tenant loan event_date st;
                     st2 = delete_facts loan [doc] (delete_assessments tenant loan st1)
                 in (delete_account tenant loan (db1\<lparr>rd_store := st2\<rparr>), out)))"

subsection \<open>Conflict cases\<close>

datatype conflict_diff = ConflictExpectedDiff bool bool | RaisesCheckDiff string "string list"

record conflict_outcome =
  cu_case_ref :: string
  cu_conflict_detected :: bool
  cu_raises_checks :: "string list"
  cu_passed :: bool
  cu_diff :: "conflict_diff list"

text \<open>What a document's facts do, one after the other; \<open>each\<close> is what a runner does with an inserted fact.\<close>

type_synonym 'a on_fact = "string \<Rightarrow> fact_out \<Rightarrow> store \<Rightarrow> (store \<times> 'a) res"

fun fact_loop ::
  "'v env \<Rightarrow> 'a on_fact \<Rightarrow> uuid \<Rightarrow> uuid \<Rightarrow> string \<Rightarrow> (string \<times> string) list \<Rightarrow> store \<Rightarrow> store \<times> 'a list res" where
  "fact_loop ev each doc loan doc_type [] db = (db, Inr [])"
| "fact_loop ev each doc loan doc_type (x # xs) db =
     (case insert_case_fact ev doc loan x db of
        Inl e \<Rightarrow> (db, Inl e)
      | Inr (db1, i, v) \<Rightarrow>
          (case each doc_type (case_fact i doc loan x v) db1 of
             Inl e \<Rightarrow> (db1, Inl e)
           | Inr (db2, a) \<Rightarrow>
               (let (db3, rest) = fact_loop ev each doc loan doc_type xs db2
                in (db3, ebind rest (\<lambda>as. Inr (a # as))))))"

text \<open>The documents of a case: the ids inserted, and what the facts gave.\<close>

fun document_loop ::
  "'v env \<Rightarrow> 'a on_fact \<Rightarrow> uuid \<Rightarrow> document_spec list \<Rightarrow> store \<Rightarrow> store \<times> uuid list \<times> 'a list res" where
  "document_loop ev each loan [] db = (db, [], Inr [])"
| "document_loop ev each loan (d # ds) db =
     (let (doc, db1) = insert_case_document (ev_gen ev) (dp_doc_type d) db
      in case fact_loop ev each doc loan (dp_doc_type d) (dp_facts d) db1 of
           (db2, Inl e) \<Rightarrow> (db2, [doc], Inl e)
         | (db2, Inr as) \<Rightarrow>
             (let (db3, docs, rest) = document_loop ev each loan ds db2
              in (db3, doc # docs, ebind rest (\<lambda>bs. Inr (as @ bs)))))"

definition on_conflicts :: "decoder \<Rightarrow> conflict_group list \<Rightarrow> string list on_fact" where
  "on_conflicts decode groups doc_type f db =
     ebind (detect_for_fact decode db f doc_type groups) (\<lambda>cs. Inr (db, map dc_raises_check cs))"

definition conflict_result :: "eval_case \<Rightarrow> conflict_expected \<Rightarrow> string list \<Rightarrow> conflict_outcome" where
  "conflict_result c ex checks =
     (let found = sort (remdups checks);
          detected = (checks \<noteq> []);
          diff = (if detected \<noteq> ce_conflict_expected ex
                  then [ConflictExpectedDiff (ce_conflict_expected ex) detected] else [])
               @ (case ce_raises_check ex of
                    None \<Rightarrow> []
                  | Some k \<Rightarrow> if k \<notin> set checks then [RaisesCheckDiff k found] else [])
      in \<lparr>cu_case_ref = ec_case_ref c, cu_conflict_detected = detected, cu_raises_checks = found,
          cu_passed = (diff = []), cu_diff = diff\<rparr>)"

definition run_conflict_case ::
  "'v env \<Rightarrow> decoder \<Rightarrow> conflict_group list res \<Rightarrow> eval_case \<Rightarrow> store run_db \<Rightarrow>
   store run_db \<times> conflict_outcome res" where
  "run_conflict_case ev decode conflicts c db =
     (if ec_documents c = [] then (db, Inl (ValueError (ec_case_ref c)))
      else (case ec_conflict_expected c of
        None \<Rightarrow> (db, Inl (ValueError (ec_case_ref c)))
      | Some ex \<Rightarrow>
          let n = db_uuids (rd_store db);
              tenant = ev_gen ev n;
              loan = ev_gen ev (Suc n);
              st = (rd_store db)\<lparr>db_uuids := n + 2\<rparr>
          in (case ebind (date_fromisoformat (ec_event_date c)) (\<lambda>_. conflicts) of
               Inl e \<Rightarrow> (db\<lparr>rd_store := st\<rparr>, Inl e)
             | Inr groups \<Rightarrow>
                 let db1 = insert_account c tenant loan db;
                     (st1, docs, out) = document_loop ev (on_conflicts decode groups) loan (ec_documents c) st;
                     st2 = delete_facts loan docs (delete_conflicts loan st1)
                 in (delete_account tenant loan (db1\<lparr>rd_store := st2\<rparr>),
                     ebind out (\<lambda>checks. Inr (conflict_result c ex (concat checks)))))))"

subsection \<open>End-to-end cases\<close>

record end_to_end_outcome =
  ee_case_ref :: string
  ee_state :: expected_state
  ee_passed :: bool
  ee_diff :: "string list"

definition actual_state :: "compliance_state option \<Rightarrow> expected_state" where
  "actual_state row =
     (case row of
        None \<Rightarrow> \<lparr>es_open_violations = 0, es_open_ambiguous = 0, es_open_no_clause = 0,
                 es_unresolved_conflicts = 0, es_highest_severity = None\<rparr>
      | Some s \<Rightarrow> \<lparr>es_open_violations = int (lc_open_violations s), es_open_ambiguous = int (lc_open_ambiguous s),
                 es_open_no_clause = int (lc_open_no_clause s),
                 es_unresolved_conflicts = int (lc_unresolved_conflicts s),
                 es_highest_severity = map_option severity_label (lc_highest_severity s)\<rparr>)"

text \<open>The keys on which two states differ.\<close>

definition state_diff :: "expected_state \<Rightarrow> expected_state \<Rightarrow> string list" where
  "state_diff ex act =
     (if es_open_violations act \<noteq> es_open_violations ex then [''open_violations''] else [])
   @ (if es_open_ambiguous act \<noteq> es_open_ambiguous ex then [''open_ambiguous''] else [])
   @ (if es_open_no_clause act \<noteq> es_open_no_clause ex then [''open_no_clause''] else [])
   @ (if es_unresolved_conflicts act \<noteq> es_unresolved_conflicts ex then [''unresolved_conflicts''] else [])
   @ (if es_highest_severity act \<noteq> es_highest_severity ex then [''highest_severity''] else [])"

text \<open>
  Each fact goes through the detector, whose conflicts are dropped, and through \<open>assess_fact\<close>.
\<close>

definition on_end_to_end ::
  "'v env \<Rightarrow> decoder \<Rightarrow> conflict_group list \<Rightarrow> eval_case \<Rightarrow> loan_account \<Rightarrow> date \<Rightarrow> uuid \<Rightarrow> unit on_fact" where
  "on_end_to_end ev decode groups c account event_date snapshot doc_type f db =
     ebind (detect_for_fact decode db f doc_type groups) (\<lambda>_.
     ebind (assess_fact ev (case_job c account event_date snapshot f) db) (\<lambda>(db', _). Inr (db', ())))"

definition run_end_to_end_case ::
  "'v env \<Rightarrow> decoder \<Rightarrow> conflict_group list res \<Rightarrow> uuid \<Rightarrow> eval_case \<Rightarrow> store run_db \<Rightarrow>
   store run_db \<times> end_to_end_outcome res" where
  "run_end_to_end_case ev decode conflicts snapshot c db =
     (if ec_documents c = [] then (db, Inl (ValueError (ec_case_ref c)))
      else (case ec_expected_state c of
        None \<Rightarrow> (db, Inl (ValueError (ec_case_ref c)))
      | Some ex \<Rightarrow>
          let n = db_uuids (rd_store db);
              tenant = ev_gen ev n;
              loan = ev_gen ev (Suc n);
              st = (rd_store db)\<lparr>db_uuids := n + 2\<rparr>
          in (case ebind (date_fromisoformat (ec_event_date c)) (\<lambda>d. ebind conflicts (\<lambda>gs. Inr (d, gs))) of
               Inl e \<Rightarrow> (db\<lparr>rd_store := st\<rparr>, Inl e)
             | Inr (event_date, groups) \<Rightarrow>
                 let db1 = insert_account c tenant loan db;
                     (st1, docs, out) = document_loop ev
                       (on_end_to_end ev decode groups c (case_account c tenant loan) event_date snapshot)
                       loan (ec_documents c) st;
                     act = actual_state (db_states st1 loan);
                     st2 = delete_facts loan docs (delete_conflicts loan (delete_assessments tenant loan st1))
                 in (delete_account tenant loan (db1\<lparr>rd_store := st2\<rparr>),
                     ebind out (\<lambda>_. Inr \<lparr>ee_case_ref = ec_case_ref c, ee_state = act,
                       ee_passed = (state_diff ex act = []), ee_diff = state_diff ex act\<rparr>)))))"

subsection \<open>Extraction cases\<close>

record field_outcome =
  fd_key :: string
  fd_expected_present :: bool
  fd_actual_present :: bool
  fd_value_match :: bool
  fd_span_verified :: bool

datatype field_diff = ValueDiff json_obj "json_obj option" | PresenceDiff bool bool | ErrorDiff exc

record extraction_outcome =
  xo_case_ref :: string
  xo_fields :: "field_outcome list"
  xo_passed :: bool
  xo_diff :: "(string \<times> field_diff) list"

text \<open>\<open>{r.field_key: r for r in rows}\<close>.\<close>

definition rows_by_field :: "extract_store \<Rightarrow> uuid \<Rightarrow> (string \<rightharpoonup> extracted_fact)" where
  "rows_by_field db doc =
     map_of (rev (map (\<lambda>r. (fx_field_key r, r)) (filter (\<lambda>r. fx_document r = doc) (xs_facts db))))"

definition field_result ::
  "(string \<times> string) list \<Rightarrow> extracted_fact option \<Rightarrow> field_spec \<Rightarrow> (field_outcome \<times> (string \<times> field_diff) list) res" where
  "field_result facts row spec =
     (let expected = map_of facts (fs_key spec);
          present = (case row of None \<Rightarrow> False | Some r \<Rightarrow> \<not> fx_is_absent r);
          verified = (case row of None \<Rightarrow> False | Some r \<Rightarrow> xf_span_verified r);
          outcome = (\<lambda>matched. \<lparr>fd_key = fs_key spec, fd_expected_present = (expected \<noteq> None),
            fd_actual_present = present, fd_value_match = matched, fd_span_verified = verified\<rparr>)
      in (case (expected, row) of
           (Some raw, Some r) \<Rightarrow>
             if present
             then ebind (parse_expected_value (fs_type spec) raw) (\<lambda>v.
               let matched = (fx_value r = Some (value_to_jsonable v))
               in Inr (outcome matched,
                  if matched then [] else [(fs_key spec, ValueDiff (value_to_jsonable v) (fx_value r))]))
             else Inr (outcome False, [(fs_key spec, PresenceDiff True False)])
         | (Some raw, None) \<Rightarrow> Inr (outcome False, [(fs_key spec, PresenceDiff True False)])
         | (None, _) \<Rightarrow>
             Inr (outcome False, if present then [(fs_key spec, PresenceDiff False True)] else [])))"

definition extraction_result ::
  "field_registry \<Rightarrow> eval_case \<Rightarrow> string \<Rightarrow> uuid \<Rightarrow> extract_store \<Rightarrow> extraction_outcome res" where
  "extraction_result reg c doc_type doc db =
     ebind (emap (\<lambda>spec. field_result (ex_facts (ec_expected c)) (rows_by_field db doc (fs_key spec)) spec)
              (for_doc_type reg doc_type)) (\<lambda>results.
       let diff = concat (map snd results)
       in Inr \<lparr>xo_case_ref = ec_case_ref c, xo_fields = map fst results, xo_passed = (diff = []), xo_diff = diff\<rparr>)"

record extract_env =
  xe_llm :: llm
  xe_template :: string
  xe_gen :: "nat \<Rightarrow> uuid"
  xe_now :: timestamp
  xe_registry :: field_registry
  xe_model :: string
  xe_budget_ratio :: rat
  xe_fixture :: "string \<Rightarrow> string res"

definition insert_fixture_document :: "extract_env \<Rightarrow> string \<Rightarrow> extract_store \<Rightarrow> uuid \<times> extract_store" where
  "insert_fixture_document xe content db =
     (let doc = xe_gen xe (xs_uuids db);
          n = py_len content
      in (doc, db\<lparr>xs_documents := xs_documents db @
             [\<lparr>do_id = doc, do_char_count = n,
               do_span_budget = max 1 \<lfloor>float_mul (of_int n) (xe_budget_ratio xe)\<rfloor>, do_span_used = 0\<rparr>],
           xs_uuids := xs_uuids db + 3\<rparr>))"

definition delete_extraction :: "uuid \<Rightarrow> extract_store \<Rightarrow> extract_store" where
  "delete_extraction doc db =
     db\<lparr>xs_facts := filter (\<lambda>f. fx_document f \<noteq> doc) (xs_facts db),
        xs_documents := filter (\<lambda>d. do_id d \<noteq> doc) (xs_documents db)\<rparr>"

definition run_extraction_case ::
  "extract_env \<Rightarrow> eval_case \<Rightarrow> extract_store run_db \<Rightarrow> extract_store run_db \<times> extraction_outcome res" where
  "run_extraction_case xe c db =
     (case ec_input_ref c of
        None \<Rightarrow> (db, Inl (ValueError (ec_case_ref c)))
      | Some input \<Rightarrow>
          if input = [] then (db, Inl (ValueError (ec_case_ref c)))
          else (case ec_doc_type c of
            None \<Rightarrow> (db, Inl (AssertionError (ec_case_ref c)))
          | Some doc_type \<Rightarrow>
            (case xe_fixture xe input of
               Inl e \<Rightarrow> (db, Inl e)
             | Inr content \<Rightarrow>
                 let n = xs_uuids (rd_store db);
                     tenant = xe_gen xe n;
                     loan = xe_gen xe (Suc n);
                     st = (rd_store db)\<lparr>xs_uuids := n + 2\<rparr>
                 in (case date_fromisoformat (ec_event_date c) of
                      Inl e \<Rightarrow> (db\<lparr>rd_store := st\<rparr>, Inl e)
                    | Inr event_date \<Rightarrow>
                        let db1 = insert_account c tenant loan db;
                            (doc, st1) = insert_fixture_document xe content st;
                            ej = \<lparr>ej_document = doc, ej_tenant = tenant, ej_loan = loan, ej_doc_type = doc_type,
                                  ej_text = content, ej_model = xe_model xe, ej_now = xe_now xe\<rparr>;
                            (st2, out) =
                              (case extract_document (xe_llm xe) (xe_template xe) (xe_gen xe) (xe_registry xe) ej st1 of
                                 Inl e \<Rightarrow> (st1, Inl e)
                               | Inr (st2, _) \<Rightarrow> (st2, extraction_result (xe_registry xe) c doc_type doc st2))
                        in (delete_account tenant loan (db1\<lparr>rd_store := delete_extraction doc st2\<rparr>), out)))))"

section \<open>Metrics (metrics.py)\<close>

record verdict_metrics =
  vm_verdict_accuracy :: rat
  vm_citation_validity :: rat
  vm_hallucinated_citation_rate :: rat
  vm_abstention_correctness :: rat
  vm_false_violation_rate :: rat
  vm_case_count :: nat

text \<open>The quotient of two integers as a float, and \<open>a / b if b else default\<close>.\<close>

definition ratio :: "nat \<Rightarrow> nat \<Rightarrow> rat" where
  "ratio a b = float_div (of_nat a) (of_nat b)"

definition ratio_or :: "rat \<Rightarrow> nat \<Rightarrow> nat \<Rightarrow> rat" where
  "ratio_or z a b = (if b = 0 then z else ratio a b)"

definition count_if :: "('a \<Rightarrow> bool) \<Rightarrow> 'a list \<Rightarrow> nat" where
  "count_if P xs = length (filter P xs)"

text \<open>\<open>zip(..., strict=True)\<close>.\<close>

definition strict_zip :: "'a list \<Rightarrow> 'b list \<Rightarrow> ('a \<times> 'b) list res" where
  "strict_zip xs ys = (if length xs = length ys then Inr (zip xs ys) else Inl (ValueError ''zip()''))"

definition expected_verdict :: "eval_case \<Rightarrow> string" where
  "expected_verdict c = ex_verdict (ec_expected c)"

definition compute_verdict_metrics :: "eval_case list \<Rightarrow> case_outcome list \<Rightarrow> verdict_metrics res" where
  "compute_verdict_metrics cases outcomes =
     (if cases = [] then Inl (ValueError ''cannot compute metrics over zero cases'')
      else ebind (strict_zip cases outcomes) (\<lambda>pairs.
        let n = length cases;
            cites = concat (map co_persisted_citations outcomes);
            abstain = (\<lambda>c. expected_verdict c = ''no_clause_found'')
        in Inr
          \<lparr>vm_verdict_accuracy = ratio (count_if (\<lambda>(c, u). co_verdict u = expected_verdict c) pairs) n,
           vm_citation_validity = ratio_or 1 (count_if pc_live cites) (length cites),
           vm_hallucinated_citation_rate = ratio_or 0 (count_if pc_hallucinated cites) (length cites),
           vm_abstention_correctness =
             ratio_or 1 (count_if (\<lambda>(c, u). abstain c \<and> co_verdict u = ''no_clause_found'') pairs) (count_if abstain cases),
           vm_false_violation_rate =
             ratio (count_if (\<lambda>(c, u). expected_verdict c \<in> set [''compliant'', ''no_clause_found''] \<and>
                                     co_verdict u = ''violation'') pairs) n,
           vm_case_count = n\<rparr>))"

record field_totals =
  ft_expected_present :: nat
  ft_field_accuracy_hits :: nat
  ft_pairs :: nat
  ft_absence_agree :: nat

record extraction_metrics =
  xm_field_accuracy :: rat
  xm_absence_accuracy :: rat
  xm_span_grounding :: rat
  xm_per_field :: "(string \<times> rat \<times> rat) list"
  xm_case_count :: nat

definition agrees :: "field_outcome \<Rightarrow> bool" where
  "agrees fo \<longleftrightarrow> fd_expected_present fo = fd_actual_present fo"

definition correct_present :: "field_outcome \<Rightarrow> bool" where
  "correct_present fo \<longleftrightarrow> fd_expected_present fo \<and> fd_actual_present fo \<and> fd_value_match fo"

definition count_field :: "field_outcome \<Rightarrow> (string \<times> field_totals) list \<Rightarrow> (string \<times> field_totals) list" where
  "count_field fo totals =
     (let t = (case map_of totals (fd_key fo) of
                 None \<Rightarrow> \<lparr>ft_expected_present = 0, ft_field_accuracy_hits = 0, ft_pairs = 0, ft_absence_agree = 0\<rparr>
               | Some t \<Rightarrow> t)
      in alist_put (fd_key fo)
           \<lparr>ft_expected_present = ft_expected_present t + of_bool (fd_expected_present fo),
            ft_field_accuracy_hits = ft_field_accuracy_hits t + of_bool (correct_present fo),
            ft_pairs = Suc (ft_pairs t),
            ft_absence_agree = ft_absence_agree t + of_bool (agrees fo)\<rparr> totals)"

definition per_field_totals :: "field_outcome list \<Rightarrow> (string \<times> field_totals) list" where
  "per_field_totals fs = fold count_field fs []"

definition compute_extraction_metrics :: "extraction_outcome list \<Rightarrow> extraction_metrics res" where
  "compute_extraction_metrics outcomes =
     (if outcomes = [] then Inl (ValueError ''cannot compute metrics over zero cases'')
      else
        let fs = concat (map xo_fields outcomes)
        in Inr
          \<lparr>xm_field_accuracy = ratio_or 1 (count_if correct_present fs) (count_if fd_expected_present fs),
           xm_absence_accuracy = ratio_or 1 (count_if agrees fs) (length fs),
           xm_span_grounding =
             ratio_or 1 (count_if (\<lambda>fo. correct_present fo \<and> fd_span_verified fo) fs) (count_if correct_present fs),
           xm_per_field = map (\<lambda>(k, t). (k, ratio_or 1 (ft_field_accuracy_hits t) (ft_expected_present t),
               ratio (ft_absence_agree t) (ft_pairs t))) (per_field_totals fs),
           xm_case_count = length outcomes\<rparr>)"

record conflict_metrics =
  cx_conflict_detection_accuracy :: rat
  cx_raises_check_accuracy :: rat
  cx_case_count :: nat

definition compute_conflict_metrics :: "eval_case list \<Rightarrow> conflict_outcome list \<Rightarrow> conflict_metrics res" where
  "compute_conflict_metrics cases outcomes =
     (if cases = [] then Inl (ValueError ''cannot compute metrics over zero cases'')
      else ebind (emap (\<lambda>c. case ec_conflict_expected c of
                 None \<Rightarrow> Inl (ValueError (ec_case_ref c)) | Some ex \<Rightarrow> Inr ex) cases) (\<lambda>expected.
           ebind (strict_zip expected outcomes) (\<lambda>pairs.
             Inr \<lparr>cx_conflict_detection_accuracy =
                    ratio (count_if (\<lambda>(ex, u). cu_conflict_detected u = ce_conflict_expected ex) pairs) (length cases),
                  cx_raises_check_accuracy =
                    ratio_or 1 (count_if (\<lambda>(ex, u). case ce_raises_check ex of
                        None \<Rightarrow> False | Some k \<Rightarrow> k \<in> set (cu_raises_checks u)) pairs)
                      (count_if (\<lambda>ex. ce_raises_check ex \<noteq> None) expected),
                  cx_case_count = length cases\<rparr>)))"

record end_to_end_metrics =
  em_state_match_accuracy :: rat
  em_case_count :: nat

definition compute_end_to_end_metrics :: "end_to_end_outcome list \<Rightarrow> end_to_end_metrics res" where
  "compute_end_to_end_metrics outcomes =
     (if outcomes = [] then Inl (ValueError ''cannot compute metrics over zero cases'')
      else Inr \<lparr>em_state_match_accuracy = ratio (count_if ee_passed outcomes) (length outcomes),
                em_case_count = length outcomes\<rparr>)"

section \<open>Running a suite (harness.py)\<close>

fun run_all :: "(eval_case \<Rightarrow> 'd \<Rightarrow> 'd \<times> 'o res) \<Rightarrow> eval_case list \<Rightarrow> 'd \<Rightarrow> 'd \<times> 'o list res" where
  "run_all run [] db = (db, Inr [])"
| "run_all run (c # cs) db =
     (case run c db of
        (db1, Inl e) \<Rightarrow> (db1, Inl e)
      | (db1, Inr u) \<Rightarrow>
          (let (db2, rest) = run_all run cs db1 in (db2, ebind rest (\<lambda>us. Inr (u # us)))))"

text \<open>\<open>except (TransientLLMError, PermanentLLMError)\<close>: the case counts as failed, without fields.\<close>

definition run_guarded ::
  "extract_env \<Rightarrow> eval_case \<Rightarrow> extract_store run_db \<Rightarrow> extract_store run_db \<times> extraction_outcome res" where
  "run_guarded xe c db =
     (case run_extraction_case xe c db of
        (db', Inr u) \<Rightarrow> (db', Inr u)
      | (db', Inl e) \<Rightarrow>
          (case e of
             TransientLLMError _ \<Rightarrow>
               (db', Inr \<lparr>xo_case_ref = ec_case_ref c, xo_fields = [], xo_passed = False, xo_diff = [(''error'', ErrorDiff e)]\<rparr>)
           | PermanentLLMError _ \<Rightarrow>
               (db', Inr \<lparr>xo_case_ref = ec_case_ref c, xo_fields = [], xo_passed = False, xo_diff = [(''error'', ErrorDiff e)]\<rparr>)
           | _ \<Rightarrow> (db', Inl e)))"

datatype suite_result =
    ExtractionRun "extraction_outcome list" extraction_metrics
  | ConflictRun "conflict_outcome list" conflict_metrics
  | EndToEndRun "end_to_end_outcome list" end_to_end_metrics
  | VerdictRun "case_outcome list" verdict_metrics

record 'v suite_env =
  su_ev :: "'v env"
  su_extract :: extract_env
  su_decode :: decoder
  su_conflicts :: "conflict_group list res"
  su_snapshot :: uuid
  su_models :: "string \<times> string"

datatype payload =
    FieldsPayload "field_outcome list"
  | ConflictPayload bool "string list"
  | StatePayload expected_state
  | VerdictPayload string string "string list" "string list"

record eval_run_row =
  er_id :: uuid
  er_snapshot :: uuid
  er_models :: "string \<times> string"
  er_serving_mode :: string
  er_suite :: string
  er_case_count :: nat
  er_result :: suite_result

record eval_case_row =
  ew_id :: uuid
  ew_case_ref :: string
  ew_suite :: string
  ew_stage :: string
  ew_doc_type :: "string option"
  ew_input_ref :: string
  ew_event_date :: date
  ew_profile :: account_profile
  ew_expected :: expected_result
  ew_tolerance :: json_obj
  ew_is_adversarial :: bool
  ew_notes :: "string option"

record eval_result_row =
  eu_id :: uuid
  eu_run :: uuid
  eu_case :: uuid
  eu_passed :: bool
  eu_actual :: payload

record eval_tables =
  et_assess :: "store run_db"
  et_extract :: "extract_store run_db"
  et_runs :: "eval_run_row list"
  et_cases :: "eval_case_row list"
  et_results :: "eval_result_row list"
  et_uuids :: nat

text \<open>
  The stage picks the extraction runner; otherwise the name of the suite picks the runner. Metrics of
  an extraction are taken over the outcomes that have fields.
\<close>

definition run_stage ::
  "'v suite_env \<Rightarrow> string \<Rightarrow> string \<Rightarrow> eval_case list \<Rightarrow> eval_tables \<Rightarrow> eval_tables \<times> suite_result res" where
  "run_stage su suite stage cases db =
     (if stage = ''extraction'' then
        (let (d, out) = run_all (run_guarded (su_extract su)) cases (et_extract db)
         in (db\<lparr>et_extract := d\<rparr>, ebind out (\<lambda>us.
              let source = filter (\<lambda>u. xo_fields u \<noteq> []) us
              in if source = [] then Inl (RuntimeError suite)
                 else ebind (compute_extraction_metrics source) (\<lambda>m. Inr (ExtractionRun us m)))))
      else if suite = ''conflicts'' then
        (let (d, out) = run_all (run_conflict_case (su_ev su) (su_decode su) (su_conflicts su)) cases (et_assess db)
         in (db\<lparr>et_assess := d\<rparr>, ebind out (\<lambda>us.
              ebind (compute_conflict_metrics cases us) (\<lambda>m. Inr (ConflictRun us m)))))
      else if suite = ''end_to_end'' then
        (let (d, out) = run_all (run_end_to_end_case (su_ev su) (su_decode su) (su_conflicts su) (su_snapshot su))
               cases (et_assess db)
         in (db\<lparr>et_assess := d\<rparr>, ebind out (\<lambda>us.
              ebind (compute_end_to_end_metrics us) (\<lambda>m. Inr (EndToEndRun us m)))))
      else
        (let (d, out) = run_all (run_case (su_ev su) (su_snapshot su)) cases (et_assess db)
         in (db\<lparr>et_assess := d\<rparr>, ebind out (\<lambda>us.
              ebind (compute_verdict_metrics cases us) (\<lambda>m. Inr (VerdictRun us m))))))"

text \<open>Whether each case passed, and the payload of its row.\<close>

definition results_of :: "suite_result \<Rightarrow> (bool \<times> payload) list" where
  "results_of r =
     (case r of
        ExtractionRun us _ \<Rightarrow> map (\<lambda>u. (xo_passed u, FieldsPayload (xo_fields u))) us
      | ConflictRun us _ \<Rightarrow> map (\<lambda>u. (cu_passed u, ConflictPayload (cu_conflict_detected u) (cu_raises_checks u))) us
      | EndToEndRun us _ \<Rightarrow> map (\<lambda>u. (ee_passed u, StatePayload (ee_state u))) us
      | VerdictRun us _ \<Rightarrow> map (\<lambda>u. (co_passed u, VerdictPayload (co_verdict u) (co_check_key u)
          (co_decisive_citations u) (co_context_citations u))) us)"

text \<open>\<open>ON CONFLICT (case_ref) DO UPDATE SET expected, tolerance RETURNING id\<close>.\<close>

definition upsert_case :: "uuid \<Rightarrow> date \<Rightarrow> eval_case \<Rightarrow> eval_case_row list \<Rightarrow> uuid \<times> eval_case_row list" where
  "upsert_case i event_date c rows =
     (case find (\<lambda>r. ew_case_ref r = ec_case_ref c) rows of
        Some r \<Rightarrow> (ew_id r,
          map (\<lambda>x. if ew_case_ref x = ec_case_ref c
                   then x\<lparr>ew_expected := ec_expected c, ew_tolerance := ec_tolerance c\<rparr> else x) rows)
      | None \<Rightarrow> (i, rows @
          [\<lparr>ew_id = i, ew_case_ref = ec_case_ref c, ew_suite = ec_suite c, ew_stage = ec_stage c,
            ew_doc_type = ec_doc_type c,
            ew_input_ref = (case ec_input_ref c of None \<Rightarrow> [] | Some s \<Rightarrow> s), ew_event_date = event_date,
            ew_profile = ec_profile c, ew_expected = ec_expected c, ew_tolerance = ec_tolerance c,
            ew_is_adversarial = ec_is_adversarial c, ew_notes = ec_notes c\<rparr>]))"

fun record_results ::
  "(nat \<Rightarrow> uuid) \<Rightarrow> uuid \<Rightarrow> (eval_case \<times> bool \<times> payload) list \<Rightarrow> eval_tables \<Rightarrow> eval_tables res" where
  "record_results gen run [] db = Inr db"
| "record_results gen run ((c, passed, actual) # rest) db =
     ebind (date_fromisoformat (ec_event_date c)) (\<lambda>event_date.
       let (i, rows) = upsert_case (gen (et_uuids db)) event_date c (et_cases db)
       in record_results gen run rest
            (db\<lparr>et_cases := rows,
                et_results := et_results db @
                  [\<lparr>eu_id = gen (Suc (et_uuids db)), eu_run = run, eu_case = i, eu_passed = passed, eu_actual = actual\<rparr>],
                et_uuids := et_uuids db + 2\<rparr>))"

record suite_report =
  sy_eval_run_id :: uuid
  sy_suite :: string
  sy_case_count :: nat
  sy_result :: suite_result
  sy_results :: "(string \<times> bool) list"

definition one_stage :: "string \<Rightarrow> eval_case list \<Rightarrow> string res" where
  "one_stage suite cases =
     (case dedupe (map ec_stage cases) of
        [s] \<Rightarrow> Inr s
      | _ \<Rightarrow> Inl (ValueError suite))"

text \<open>
  The rows of a run are committed at the end, so a run that raises records none; what the cases
  left in the other tables was committed case by case.
\<close>

definition run_suite ::
  "'v suite_env \<Rightarrow> (string \<Rightarrow> (string \<times> eval_case res) list option) \<Rightarrow> string \<Rightarrow> eval_tables \<Rightarrow>
   eval_tables \<times> suite_report res" where
  "run_suite su dirs suite db =
     (case ebind (load_suite suite (dirs suite)) (\<lambda>cases.
            if cases = [] then Inl (ValueError suite)
            else ebind (one_stage suite cases) (\<lambda>stage. Inr (cases, stage))) of
        Inl e \<Rightarrow> (db, Inl e)
      | Inr (cases, stage) \<Rightarrow>
          (case run_stage su suite stage cases db of
             (db1, Inl e) \<Rightarrow> (db1, Inl e)
           | (db1, Inr result) \<Rightarrow>
               let gen = ev_gen (su_ev su);
                   run = gen (et_uuids db1);
                   row = \<lparr>er_id = run, er_snapshot = su_snapshot su, er_models = su_models su,
                          er_serving_mode = ev_serving_mode (su_ev su), er_suite = suite,
                          er_case_count = length cases, er_result = result\<rparr>
               in (case ebind (strict_zip cases (results_of result)) (\<lambda>pairs.
                         record_results gen run pairs
                           (db1\<lparr>et_runs := et_runs db1 @ [row], et_uuids := Suc (et_uuids db1)\<rparr>)) of
                    Inl e \<Rightarrow> (db1, Inl e)
                  | Inr db2 \<Rightarrow> (db2, Inr
                      \<lparr>sy_eval_run_id = run, sy_suite = suite, sy_case_count = length cases, sy_result = result,
                       sy_results = zip (map ec_case_ref cases) (map fst (results_of result))\<rparr>))))"

section \<open>Metrics lie between 0 and 1\<close>

lemma round_half_even_le: "x \<le> of_int n \<Longrightarrow> round_half_even x \<le> n"
proof -
  assume x: "x \<le> of_int n"
  have "\<lfloor>x\<rfloor> \<le> n" using x by linarith
  moreover have "x = of_int n" if "\<lfloor>x\<rfloor> = n" using x that by linarith
  ultimately show ?thesis unfolding round_half_even_def Let_def by fastforce
qed

lemma fl_one: "fl 1 = 1"
  by code_simp

lemma fl_le_one:
  assumes "0 \<le> x" "x \<le> 1"
  shows "fl x \<le> 1"
proof (cases "x = 0 \<or> x = 1")
  case True
  then show ?thesis using fl_one by (auto simp: fl_def)
next
  case False
  define e where "e = fl_exp x"
  have x: "0 < x" "x < 1" using False assms by auto
  have "pow2 52 * pow2 e \<le> x"
    using fl_exp_scale [of x] x by (simp add: e_def pos_le_divide_eq)
  then have "pow2 (52 + e) < 1" using x by (simp add: pow2_add)
  then have "\<not> 0 \<le> 52 + e" by (meson linorder_not_less one_le_power_int one_le_numeral)
  then have one: "of_int (2 ^ nat (- e)) * pow2 e = (1 :: rat)"
    by (simp add: power_int_def power_inverse field_simps)
  have "x / pow2 e \<le> 1 / pow2 e" using x by (simp add: divide_right_mono)
  also have "\<dots> = of_int (2 ^ nat (- e))"
    using one by (simp add: field_simps)
  finally have "round_half_even (x / pow2 e) \<le> 2 ^ nat (- e)" by (rule round_half_even_le)
  then have "of_int (round_half_even (x / pow2 e)) * pow2 e \<le> of_int (2 ^ nat (- e)) * pow2 e"
    by (intro mult_right_mono) (simp_all only: of_int_le_iff, simp)
  also note one
  finally show ?thesis using x by (simp add: fl_def e_def Let_def)
qed

lemma ratio_unit:
  assumes "a \<le> b" "0 < b"
  shows "0 \<le> ratio a b" "ratio a b \<le> 1"
proof -
  have "0 \<le> (of_nat a :: rat) / of_nat b" "(of_nat a :: rat) / of_nat b \<le> 1"
    using assms by (simp_all add: divide_le_eq)
  then show "0 \<le> ratio a b" "ratio a b \<le> 1"
    using fl_nonneg fl_le_one by (simp_all add: ratio_def float_div_def)
qed

lemma ratio_zero_iff:
  assumes "0 < b"
  shows "ratio a b = 0 \<longleftrightarrow> a = 0"
proof -
  have "0 < fl (of_nat a / of_nat b)" if "0 < a"
  proof -
    have "0 < (of_nat a :: rat) / of_nat b" using assms that by simp
    moreover from this have "0 < (of_nat a :: rat) / of_nat b * (1 - ulp_half)"
      by (simp add: ulp_half_def)
    ultimately show ?thesis using fl_bounds(1) [of "of_nat a / of_nat b"] by linarith
  qed
  then show ?thesis by (cases a) (auto simp: ratio_def float_div_def fl_def)
qed

text \<open>A float quotient of counts below \<open>2^53\<close> is 1 only when the counts agree.\<close>

lemma ratio_one_iff:
  assumes "a \<le> b" "0 < b" "b < 2 ^ 53"
  shows "ratio a b = 1 \<longleftrightarrow> a = b"
proof
  assume "ratio a b = 1"
  show "a = b"
  proof (rule ccontr)
    assume "a \<noteq> b"
    let ?x = "(of_nat a :: rat) / of_nat b"
    have "(of_nat a :: rat) + 1 \<le> of_nat b" using assms(1) \<open>a \<noteq> b\<close>
      by (metis le_neq_implies_less of_nat_1 of_nat_add of_nat_le_iff Suc_eq_plus1 Suc_leI)
    then have "?x \<le> 1 - 1 / of_nat b" using assms(2) by (simp add: field_simps)
    moreover have small: "ulp_half < 1 / of_nat b"
    proof -
      have "(of_nat b :: rat) < of_nat (2 ^ 53)" using assms(3) by (simp only: of_nat_less_iff)
      then show ?thesis using assms(2) by (simp add: ulp_half_def field_simps)
    qed
    ultimately have "?x < 1 - ulp_half" by linarith
    then have "?x * (1 + ulp_half) < (1 - ulp_half) * (1 + ulp_half)"
      by (intro mult_strict_right_mono) (simp_all add: ulp_half_def)
    also have "\<dots> \<le> 1" by (simp add: ulp_half_def)
    finally show False
      using fl_bounds(2) [of ?x] \<open>ratio a b = 1\<close> by (simp add: ratio_def float_div_def)
  qed
qed (use assms fl_one in \<open>simp add: ratio_def float_div_def\<close>)

lemma count_if_le: "count_if P xs \<le> length xs"
  by (simp add: count_if_def)

lemma count_if_zero: "count_if P xs = 0 \<longleftrightarrow> (\<forall>x \<in> set xs. \<not> P x)"
  by (auto simp: count_if_def filter_empty_conv)

lemma count_if_all: "count_if P xs = length xs \<longleftrightarrow> (\<forall>x \<in> set xs. P x)"
  using length_filter_less [of _ xs P] by (fastforce simp: count_if_def)

lemma count_if_mono: "(\<And>x. P x \<Longrightarrow> Q x) \<Longrightarrow> count_if P xs \<le> count_if Q xs"
  by (induction xs) (auto simp: count_if_def)

lemma count_if_zip_fst: "length xs = length ys \<Longrightarrow> count_if (\<lambda>(x, y). P x) (zip xs ys) = count_if P xs"
  by (induction xs ys rule: list_induct2) (auto simp: count_if_def)

lemma ratio_or_unit: "0 \<le> z \<Longrightarrow> z \<le> 1 \<Longrightarrow> a \<le> b \<Longrightarrow> 0 \<le> ratio_or z a b \<and> ratio_or z a b \<le> 1"
  using ratio_unit [of a b] by (simp add: ratio_or_def)

section \<open>Cases leave no trace\<close>

text \<open>
  What the loops over documents and facts keep, for whatever is done with an inserted fact.
\<close>

locale case_loop =
  fixes ev :: "'v env" and loan :: uuid and each :: "'a on_fact" and P :: "uuid set \<Rightarrow> store \<Rightarrow> bool"
  assumes document: "P D db \<Longrightarrow> insert_case_document (ev_gen ev) t db = (doc, db') \<Longrightarrow> P (insert doc D) db'"
    and fact: "P D db \<Longrightarrow> insert_case_fact ev doc loan x db = Inr (db', i, v) \<Longrightarrow> P D db'"
    and each: "P D db \<Longrightarrow> fo_loan_account_id f = loan \<Longrightarrow> each t f db = Inr (db', a) \<Longrightarrow> P D db'"
begin

lemma fact_loop_keeps: "P D db \<Longrightarrow> P D (fst (fact_loop ev each doc loan t xs db))"
proof (induction xs arbitrary: db)
  case (Cons x xs)
  show ?case
  proof (cases "insert_case_fact ev doc loan x db")
    case (Inr r)
    then obtain db1 i v where one: "insert_case_fact ev doc loan x db = Inr (db1, i, v)" by (cases r) auto
    show ?thesis
    proof (cases "each t (case_fact i doc loan x v) db1")
      case (Inr q)
      then obtain db2 a where two: "each t (case_fact i doc loan x v) db1 = Inr (db2, a)" by (cases q) auto
      have "P D db2"
        by (rule each [OF fact [OF Cons.prems one] _ two]) (simp add: case_fact_def)
      from Cons.IH [OF this] show ?thesis using one two by (simp add: split_beta)
    qed (use fact [OF Cons.prems one] one in simp)
  qed (use Cons.prems in simp)
qed simp

lemma document_loop_keeps:
  "document_loop ev each loan ds db = (db', docs, out) \<Longrightarrow> P D db \<Longrightarrow> P (D \<union> set docs) db'"
proof (induction ds arbitrary: db D docs out)
  case (Cons d ds)
  obtain doc db1 where one: "insert_case_document (ev_gen ev) (dp_doc_type d) db = (doc, db1)" by fastforce
  obtain db2 res where two: "fact_loop ev each doc loan (dp_doc_type d) (dp_facts d) db1 = (db2, res)" by fastforce
  have "P (insert doc D) db2"
    using fact_loop_keeps [OF document [OF Cons.prems(2) one], of doc "dp_doc_type d" "dp_facts d"] two by simp
  then show ?case using Cons.IH [of db2 _ _ "insert doc D"] Cons.prems(1) one two
    by (cases res) (auto split: prod.splits)
qed simp

end

text \<open>
  A store in the middle of a case: what is not the case's own is as in \<open>st\<close>, from which the case started.
\<close>

definition confined :: "'v env \<Rightarrow> uuid \<Rightarrow> uuid \<Rightarrow> store \<Rightarrow> uuid set \<Rightarrow> store \<Rightarrow> bool" where
  "confined ev tenant loan st D db \<longleftrightarrow>
     sound_env ev st \<and> ids_inv (ev_gen ev) db \<and> elsewhere tenant loan db = elsewhere tenant loan st \<and>
     db_corpus db = db_corpus st \<and> db_conflicts db = db_conflicts st \<and>
     filter (\<lambda>f. fx_loan f \<noteq> loan) (db_facts db) = filter (\<lambda>f. fx_loan f \<noteq> loan) (db_facts st) \<and>
     filter (\<lambda>d. fst d \<notin> D) (db_documents db) = filter (\<lambda>d. fst d \<notin> D) (db_documents st) \<and>
     D \<subseteq> ev_gen ev ` {db_uuids st..} \<and> db_uuids st \<le> db_uuids db"

text \<open>The rows about assessments are those of \<open>st\<close>.\<close>

definition unassessed :: "store \<Rightarrow> store \<Rightarrow> bool" where
  "unassessed st db \<longleftrightarrow> db_assessments db = db_assessments st \<and> db_citations db = db_citations st \<and>
     db_audit db = db_audit st \<and> db_states db = db_states st"

lemma ids_inv_cong:
  "ids_inv gen db \<Longrightarrow> db_assessments db' = db_assessments db \<Longrightarrow> db_citations db' = db_citations db \<Longrightarrow>
     db_uuids db \<le> db_uuids db' \<Longrightarrow> ids_inv gen db'"
  unfolding ids_inv_def fresh_ids_def by (metis order_less_le_trans)

lemma elsewhere_cong:
  "unassessed db db' \<Longrightarrow> elsewhere tenant loan db' = elsewhere tenant loan db"
  by (simp add: elsewhere_def ids_of_loan_def unassessed_def)

lemma insert_case_document_confined:
  assumes "confined ev tenant loan st D db" "insert_case_document (ev_gen ev) t db = (doc, db')"
  shows "confined ev tenant loan st (insert doc D) db'" "unassessed db db'"
proof -
  have db': "db' = db\<lparr>db_documents := db_documents db @ [(doc, t)], db_uuids := db_uuids db + 3\<rparr>"
    and doc: "doc = ev_gen ev (db_uuids db)"
    using assms(2) by (auto simp: insert_case_document_def Let_def)
  show un: "unassessed db db'" by (simp add: unassessed_def db')
  have docs: "filter (\<lambda>d. fst d \<notin> insert doc D) xs = filter (\<lambda>d. fst d \<noteq> doc) (filter (\<lambda>d. fst d \<notin> D) xs)"
    for xs :: "(uuid \<times> string) list"
    by (simp add: conj_commute)
  show "confined ev tenant loan st (insert doc D) db'"
    using assms(1) elsewhere_cong [OF un] ids_inv_cong [of "ev_gen ev" db db']
    unfolding confined_def docs by (auto simp: db' doc sound_env_def)
qed

lemma insert_case_fact_confined:
  assumes "confined ev tenant loan st D db" "insert_case_fact ev doc loan x db = Inr (db', i, v)"
  shows "confined ev tenant loan st D db'" "unassessed db db'"
proof -
  obtain row where db': "db' = db\<lparr>db_facts := db_facts db @ [row], db_uuids := db_uuids db + 2\<rparr>"
    and row: "fx_loan row = loan"
    using assms(2) by (auto simp: insert_case_fact_def ebind_Inr_iff Let_def split: prod.splits)
  show un: "unassessed db db'" by (simp add: unassessed_def db')
  show "confined ev tenant loan st D db'"
    using assms(1) elsewhere_cong [OF un] ids_inv_cong [of "ev_gen ev" db db'] row
    unfolding confined_def by (simp add: db' sound_env_def)
qed

interpretation ids_grow: store_invariant gen "\<lambda>_ _ _. True" "\<lambda>db. n \<le> db_uuids db" for gen n
proof
  show "n \<le> db_uuids db'" if "n \<le> db_uuids db" "persist gen now pa db = Inr (db', aid)" for db now pa db' aid
    using persist_Inr(9) [OF that(2)] that(1) by simp
qed simp

lemma assess_fact_confined:
  assumes "confined ev tenant loan st D db" "assess_fact ev j db = Inr (db', results)"
    and "la_tenant_id (jb_account j) = tenant" "fo_loan_account_id (jb_fact j) = loan"
  shows "confined ev tenant loan st D db'"
proof -
  have env: "ev_rules ev = shipped_registry" "engine_sound (ev_engine ev)" "unique_paths (db_corpus db)"
    using assms(1) by (simp_all add: confined_def sound_env_def)
  have "ids_inv (ev_gen ev) db' \<and> elsewhere tenant loan db' = elsewhere tenant loan st"
    by (rule other_accounts.assess_fact_keeps [OF assms(2) refl _ env(2,3,1)])
      (use assms in \<open>simp_all add: confined_def\<close>)
  moreover have "db_conflicts db' = db_conflicts db \<and> db_documents db' = db_documents db"
    by (rule conflicts_fixed.assess_fact_keeps [OF assms(2) refl _ env(2,3,1)]) simp_all
  moreover have "db_uuids st \<le> db_uuids db'"
    by (rule ids_grow.assess_fact_keeps [OF assms(2) refl _ env(2,3,1)])
      (use assms in \<open>simp_all add: confined_def\<close>)
  ultimately show ?thesis
    using assms(1) assess_fact_inputs [OF assms(2), unfolded sound_env_def] env
    by (simp add: confined_def sound_env_def)
qed

interpretation conflict_loop: case_loop ev loan "on_conflicts decode groups"
  "\<lambda>D db. confined ev tenant loan st D db \<and> unassessed st db" for ev :: "'v env" and loan decode groups tenant st
proof
  show "confined ev tenant loan st (insert doc D) db' \<and> unassessed st db'"
    if "confined ev tenant loan st D db \<and> unassessed st db" "insert_case_document (ev_gen ev) t db = (doc, db')"
    for D db t doc db'
    using insert_case_document_confined [of ev tenant loan st D db t doc db'] that by (simp add: unassessed_def)
  show "confined ev tenant loan st D db' \<and> unassessed st db'"
    if "confined ev tenant loan st D db \<and> unassessed st db" "insert_case_fact ev doc loan x db = Inr (db', i, v)"
    for D db doc x db' i v
    using insert_case_fact_confined [of ev tenant loan st D db doc x db' i v] that by (simp add: unassessed_def)
qed (auto simp: on_conflicts_def ebind_Inr_iff)

interpretation end_to_end_loop: case_loop ev loan
  "on_end_to_end ev decode groups c (case_account c tenant loan) d snapshot"
  "\<lambda>D db. confined ev tenant loan st D db" for ev :: "'v env" and loan decode groups c tenant d snapshot st
proof
  show "confined ev tenant loan st D db'"
    if here: "confined ev tenant loan st D db" and f: "fo_loan_account_id f = loan"
      and run: "on_end_to_end ev decode groups c (case_account c tenant loan) d snapshot t f db = Inr (db', a)"
    for D db t f db' a
  proof -
    obtain results where "assess_fact ev (case_job c (case_account c tenant loan) d snapshot f) db = Inr (db', results)"
      using run by (auto simp: on_end_to_end_def ebind_Inr_iff)
    then show ?thesis
      by (rule assess_fact_confined [OF here]) (simp_all add: case_job_def case_account_def f)
  qed
qed (rule insert_case_document_confined(1) insert_case_fact_confined(1); assumption)+

text \<open>Ids still to come occur nowhere.\<close>

definition unused :: "(nat \<Rightarrow> uuid) \<Rightarrow> store run_db \<Rightarrow> bool" where
  "unused gen db \<longleftrightarrow>
     (\<forall>m \<ge> db_uuids (rd_store db). \<forall>st. st = rd_store db \<longrightarrow>
        gen m \<notin> fst ` set (rd_tenants db) \<and> gen m \<notin> lo_id ` set (rd_accounts db) \<and>
        gen m \<notin> as_loan ` set (db_assessments st) \<and> gen m \<notin> au_tenant ` set (db_audit st) \<and>
        db_states st (gen m) = None \<and> gen m \<notin> fx_loan ` set (db_facts st) \<and>
        gen m \<notin> fst ` set (db_documents st) \<and> gen m \<notin> fc_loan ` set (db_conflicts st))"

definition evaluable :: "'v env \<Rightarrow> store run_db \<Rightarrow> bool" where
  "evaluable ev db \<longleftrightarrow> sound_env ev (rd_store db) \<and> ids_inv (ev_gen ev) (rd_store db) \<and> unused (ev_gen ev) db"

text \<open>Only the ids used up and the counters of Prometheus may differ.\<close>

definition no_trace :: "store run_db \<Rightarrow> store run_db \<Rightarrow> bool" where
  "no_trace db db' \<longleftrightarrow>
     rd_tenants db' = rd_tenants db \<and> rd_accounts db' = rd_accounts db \<and>
     rd_store db' = (rd_store db)\<lparr>db_uuids := db_uuids (rd_store db'), db_metrics := db_metrics (rd_store db')\<rparr> \<and>
     db_uuids (rd_store db) \<le> db_uuids (rd_store db')"

lemma no_trace_evaluable: "no_trace db db' \<Longrightarrow> evaluable ev db \<Longrightarrow> evaluable ev db'"
proof -
  assume t: "no_trace db db'" and e: "evaluable ev db"
  obtain n ms where s: "rd_store db' = (rd_store db)\<lparr>db_uuids := n, db_metrics := ms\<rparr>"
    and n: "db_uuids (rd_store db) \<le> n"
    using t unfolding no_trace_def by (metis)
  show ?thesis
    using t e ids_inv_cong [of "ev_gen ev" "rd_store db" "rd_store db'"] n
    unfolding evaluable_def no_trace_def sound_env_def unused_def s by auto
qed

lemma filter_id: "(\<And>x. x \<in> set xs \<Longrightarrow> P x) \<Longrightarrow> filter P xs = xs"
  by (simp add: filter_id_conv)

lemma cleaned_case:
  assumes "confined ev tenant loan st (set docs) db" "tenant \<notin> au_tenant ` set (db_audit st)"
    and "loan \<notin> as_loan ` set (db_assessments st)" "db_states st loan = None"
    and "loan \<notin> fx_loan ` set (db_facts st)" "set docs \<inter> fst ` set (db_documents st) = {}"
  shows "delete_facts loan docs (delete_assessments tenant loan db)
      = st\<lparr>db_uuids := db_uuids db, db_metrics := db_metrics db\<rparr>"
    "unassessed st db \<Longrightarrow> delete_facts loan docs db = st\<lparr>db_uuids := db_uuids db, db_metrics := db_metrics db\<rparr>"
proof -
  have none: "ids_of_loan loan st = {}" using assms(3) by (auto simp: ids_of_loan_def)
  have own: "set (map as_id (filter (\<lambda>a. as_loan a = loan) (db_assessments db))) = ids_of_loan loan db"
    by (auto simp: ids_of_loan_def)
  have rows: "filter (\<lambda>a. as_loan a \<noteq> loan) (db_assessments db) = db_assessments st"
    "filter (\<lambda>c. ac_assessment c \<notin> ids_of_loan loan db) (db_citations db) = db_citations st"
    "filter (\<lambda>a. au_tenant a \<noteq> tenant) (db_audit db) = db_audit st"
    "(db_states db)(loan := None) = db_states st"
    using assms(1-4) none unfolding confined_def elsewhere_def
    by (auto simp: filter_id_conv fun_upd_idem)
  have rest: "filter (\<lambda>f. fx_loan f \<noteq> loan) (db_facts db) = db_facts st"
    "filter (\<lambda>d. fst d \<notin> set docs) (db_documents db) = db_documents st"
    "db_corpus db = db_corpus st" "db_conflicts db = db_conflicts st"
    using assms(1,5,6) unfolding confined_def by (auto simp: filter_id_conv)
  show "delete_facts loan docs (delete_assessments tenant loan db)
      = st\<lparr>db_uuids := db_uuids db, db_metrics := db_metrics db\<rparr>"
    by (rule store.equality) (simp_all add: delete_facts_def delete_assessments_def own rows rest del: set_map set_filter)
  show "delete_facts loan docs db = st\<lparr>db_uuids := db_uuids db, db_metrics := db_metrics db\<rparr>"
    if "unassessed st db"
    using that by (intro store.equality) (simp_all add: delete_facts_def rest unassessed_def)
qed

lemma no_conflicts_to_delete: "loan \<notin> fc_loan ` set (db_conflicts db) \<Longrightarrow> delete_conflicts loan db = db"
  by (auto simp: delete_conflicts_def filter_id_conv intro!: store.equality)

lemma account_undone:
  assumes "tenant \<notin> fst ` set (rd_tenants db)" "loan \<notin> lo_id ` set (rd_accounts db)"
  shows "delete_account tenant loan ((insert_account c tenant loan db)\<lparr>rd_store := st\<rparr>) = db\<lparr>rd_store := st\<rparr>"
  using assms by (auto simp: delete_account_def insert_account_def filter_id_conv intro!: run_db.equality)

lemma insert_case_facts_confined:
  "confined ev tenant loan st D db \<Longrightarrow> insert_case_facts ev doc loan xs db = (db', out) \<Longrightarrow>
     confined ev tenant loan st D db' \<and> unassessed db db'"
proof (induction xs arbitrary: db)
  case (Cons x xs)
  show ?case
  proof (cases "insert_case_fact ev doc loan x db")
    case (Inr r)
    then obtain db1 i v where one: "insert_case_fact ev doc loan x db = Inr (db1, i, v)" by (cases r) auto
    from Cons.IH [OF insert_case_fact_confined(1) [OF Cons.prems(1) one]] Cons.prems(2) one
      insert_case_fact_confined(2) [OF Cons.prems(1) one]
    show ?thesis by (simp add: unassessed_def)
  qed (use Cons.prems in \<open>simp add: unassessed_def\<close>)
qed (simp add: unassessed_def)

lemma confined_start:
  assumes "evaluable ev db" "st = (rd_store db)\<lparr>db_uuids := db_uuids (rd_store db) + 2\<rparr>"
  shows "confined ev tenant loan st {} st"
  using assms ids_inv_cong [of "ev_gen ev" "rd_store db" st]
  by (simp add: evaluable_def confined_def sound_env_def)

lemma case_body_confined:
  assumes "confined ev tenant loan st {} db" "case_body ev snapshot c doc_type tenant loan d db = (db', doc, out)"
  shows "confined ev tenant loan st {doc} db'"
proof -
  obtain db1 where one: "insert_case_document (ev_gen ev) doc_type db = (doc, db1)"
    using assms(2) by (auto simp: case_body_def Let_def split: prod.splits sum.splits option.splits)
  obtain db2 r where two: "insert_case_facts ev doc loan (ex_facts (ec_expected c)) db1 = (db2, r)" by fastforce
  have c2: "confined ev tenant loan st {doc} db2"
    using insert_case_facts_confined [OF insert_case_document_confined(1) [OF assms(1) one] two] by simp
  then have bump: "confined ev tenant loan st {doc} (db2\<lparr>db_uuids := Suc (db_uuids db2)\<rparr>)"
    using elsewhere_cong [of db2 "db2\<lparr>db_uuids := Suc (db_uuids db2)\<rparr>" tenant loan]
      ids_inv_cong [of "ev_gen ev" db2 "db2\<lparr>db_uuids := Suc (db_uuids db2)\<rparr>"]
    by (simp add: confined_def unassessed_def sound_env_def)
  have "db' = db2 \<or> (\<exists>f results. fo_loan_account_id f = loan \<and>
      assess_fact ev (case_job c (case_account c tenant loan) d snapshot f) (db2\<lparr>db_uuids := Suc (db_uuids db2)\<rparr>)
        = Inr (db', results))"
    using assms(2) one two
    by (cases r; cases "trigger_field (ec_expected c)")
      (force simp: case_body_def ebind_Inr_iff case_fact_def split: sum.splits prod.splits)+
  then show ?thesis
  proof
    assume "\<exists>f results. fo_loan_account_id f = loan \<and>
      assess_fact ev (case_job c (case_account c tenant loan) d snapshot f) (db2\<lparr>db_uuids := Suc (db_uuids db2)\<rparr>)
        = Inr (db', results)"
    then obtain f results where f: "fo_loan_account_id f = loan"
      "assess_fact ev (case_job c (case_account c tenant loan) d snapshot f) (db2\<lparr>db_uuids := Suc (db_uuids db2)\<rparr>)
        = Inr (db', results)" by blast
    show ?thesis
      by (rule assess_fact_confined [OF bump f(2)]) (simp_all add: case_job_def case_account_def f(1))
  qed (use c2 in simp)
qed

lemma finished_case:
  assumes "evaluable ev db" "st = (rd_store db)\<lparr>db_uuids := db_uuids (rd_store db) + 2\<rparr>"
    and "tenant = ev_gen ev (db_uuids (rd_store db))" "loan = ev_gen ev (Suc (db_uuids (rd_store db)))"
    and "confined ev tenant loan st (set docs) db1"
  shows "no_trace db (delete_account tenant loan ((insert_account c tenant loan db)
      \<lparr>rd_store := delete_facts loan docs (delete_assessments tenant loan db1)\<rparr>))"
    "no_trace db (delete_account tenant loan ((insert_account c tenant loan db)
      \<lparr>rd_store := delete_facts loan docs (delete_conflicts loan (delete_assessments tenant loan db1))\<rparr>))"
    "unassessed st db1 \<Longrightarrow> no_trace db (delete_account tenant loan ((insert_account c tenant loan db)
      \<lparr>rd_store := delete_facts loan docs (delete_conflicts loan db1)\<rparr>))"
proof -
  let ?n = "db_uuids (rd_store db)"
  have new: "ev_gen ev m \<notin> fst ` set (rd_tenants db)" "ev_gen ev m \<notin> lo_id ` set (rd_accounts db)"
    "ev_gen ev m \<notin> as_loan ` set (db_assessments st)" "ev_gen ev m \<notin> au_tenant ` set (db_audit st)"
    "db_states st (ev_gen ev m) = None" "ev_gen ev m \<notin> fx_loan ` set (db_facts st)"
    "ev_gen ev m \<notin> fst ` set (db_documents st)" "ev_gen ev m \<notin> fc_loan ` set (db_conflicts st)" if "?n \<le> m" for m
    using assms(1) that unfolding evaluable_def unused_def assms(2) by auto
  have own: "tenant \<notin> fst ` set (rd_tenants db)" "loan \<notin> lo_id ` set (rd_accounts db)"
    "tenant \<notin> au_tenant ` set (db_audit st)" "loan \<notin> as_loan ` set (db_assessments st)" "db_states st loan = None"
    "loan \<notin> fx_loan ` set (db_facts st)" "loan \<notin> fc_loan ` set (db_conflicts st)"
    using new(1,4) [of ?n] new(2,3,5,6,8) [of "Suc ?n"] assms(3,4) by simp_all
  have docs: "set docs \<inter> fst ` set (db_documents st) = {}"
  proof -
    have docs: "set docs \<subseteq> ev_gen ev ` {db_uuids st..}" using assms(5) by (simp add: confined_def)
    have old: "ev_gen ev m \<notin> fst ` set (db_documents st)" if "db_uuids st \<le> m" for m
      using new(7) [of m] that assms(2) by simp
    show ?thesis
    proof (rule equals0I)
      fix x assume x: "x \<in> set docs \<inter> fst ` set (db_documents st)"
      then obtain m where "db_uuids st \<le> m" "x = ev_gen ev m" using docs by auto
      then show False using old x by auto
    qed
  qed
  have later: "?n \<le> db_uuids db1" using assms(2,5) by (simp add: confined_def)
  have "db_conflicts db1 = db_conflicts st" using assms(5) by (simp add: confined_def)
  then have skip: "delete_conflicts loan db1 = db1"
    "delete_conflicts loan (delete_assessments tenant loan db1) = delete_assessments tenant loan db1"
    using own(7) by (simp_all add: no_conflicts_to_delete delete_assessments_def)
  note clean = cleaned_case [OF assms(5) own(3-6) docs]
  have undone: "no_trace db (delete_account tenant loan ((insert_account c tenant loan db)
      \<lparr>rd_store := st\<lparr>db_uuids := db_uuids db1, db_metrics := db_metrics db1\<rparr>\<rparr>))"
    using later by (simp add: account_undone [OF own(1,2)] no_trace_def assms(2))
  then show "no_trace db (delete_account tenant loan ((insert_account c tenant loan db)
      \<lparr>rd_store := delete_facts loan docs (delete_assessments tenant loan db1)\<rparr>))"
    "no_trace db (delete_account tenant loan ((insert_account c tenant loan db)
      \<lparr>rd_store := delete_facts loan docs (delete_conflicts loan (delete_assessments tenant loan db1))\<rparr>))"
    by (simp_all only: skip clean)
  show "no_trace db (delete_account tenant loan ((insert_account c tenant loan db)
      \<lparr>rd_store := delete_facts loan docs (delete_conflicts loan db1)\<rparr>))" if "unassessed st db1"
    using undone by (simp only: skip clean(2) [OF that])
qed

lemma no_trace_refl: "no_trace db db"
  by (simp add: no_trace_def)

lemma no_trace_ids:
  "db_uuids (rd_store db) \<le> n \<Longrightarrow> no_trace db (db\<lparr>rd_store := (rd_store db)\<lparr>db_uuids := n\<rparr>\<rparr>)"
  by (simp add: no_trace_def)

lemma eval_traceless:
  assumes "evaluable ev db"
  shows "no_trace db (fst (run_case ev snapshot c db))"
    "no_trace db (fst (run_conflict_case ev decode conflicts c db))"
    "no_trace db (fst (run_end_to_end_case ev decode conflicts snapshot c db))"
proof -
  define st tenant loan where st: "st = (rd_store db)\<lparr>db_uuids := db_uuids (rd_store db) + 2\<rparr>"
    and tenant: "tenant = ev_gen ev (db_uuids (rd_store db))" and loan: "loan = ev_gen ev (Suc (db_uuids (rd_store db)))"
  note start = confined_start [OF assms st, of tenant loan] and finished = finished_case [OF assms st tenant loan]
  show "no_trace db (fst (run_case ev snapshot c db))"
  proof (cases "ec_doc_type c")
    case (Some doc_type)
    show ?thesis
    proof (cases "date_fromisoformat (ec_event_date c)")
      case (Inr d)
      obtain db1 doc out where body: "case_body ev snapshot c doc_type tenant loan d st = (db1, doc, out)"
        by (cases "case_body ev snapshot c doc_type tenant loan d st") auto
      have "confined ev tenant loan st (set [doc]) db1"
        using case_body_confined [OF start body] by simp
      from finished(1) [OF this] Some Inr body show ?thesis
        by (simp add: run_case_def Let_def st tenant loan)
    qed (simp add: run_case_def Let_def Some no_trace_ids)
  qed (simp add: run_case_def no_trace_refl)
  show "no_trace db (fst (run_conflict_case ev decode conflicts c db))"
  proof (cases "ec_documents c = [] \<or> ec_conflict_expected c = None")
    case False
    then obtain ex where ex: "ec_documents c \<noteq> []" "ec_conflict_expected c = Some ex" by auto
    show ?thesis
    proof (cases "ebind (date_fromisoformat (ec_event_date c)) (\<lambda>_. conflicts)")
      case (Inr groups)
      obtain db1 docs out where loop: "document_loop ev (on_conflicts decode groups) loan (ec_documents c) st
          = (db1, docs, out)"
        by (cases "document_loop ev (on_conflicts decode groups) loan (ec_documents c) st") auto
      have kept: "confined ev tenant loan st (set docs) db1" "unassessed st db1"
        using conflict_loop.document_loop_keeps [OF loop, of tenant st "{}"] start by (simp_all add: unassessed_def)
      from finished(3) [OF kept] ex Inr loop show ?thesis
        by (simp add: run_conflict_case_def Let_def st tenant loan)
    qed (simp add: run_conflict_case_def Let_def ex no_trace_ids)
  qed (auto simp: run_conflict_case_def no_trace_refl)
  show "no_trace db (fst (run_end_to_end_case ev decode conflicts snapshot c db))"
  proof (cases "ec_documents c = [] \<or> ec_expected_state c = None")
    case False
    then obtain ex where ex: "ec_documents c \<noteq> []" "ec_expected_state c = Some ex" by auto
    show ?thesis
    proof (cases "ebind (date_fromisoformat (ec_event_date c)) (\<lambda>d. ebind conflicts (\<lambda>gs. Inr (d, gs)))")
      case (Inr dg)
      obtain d groups where dg: "dg = (d, groups)" by (cases dg)
      let ?each = "on_end_to_end ev decode groups c (case_account c tenant loan) d snapshot"
      obtain db1 docs out where loop: "document_loop ev ?each loan (ec_documents c) st = (db1, docs, out)"
        by (cases "document_loop ev ?each loan (ec_documents c) st") auto
      have kept: "confined ev tenant loan st (set docs) db1"
        using end_to_end_loop.document_loop_keeps [OF loop, of st "{}"] start by simp
      from finished(2) [OF kept] ex Inr dg loop show ?thesis
        by (simp add: run_end_to_end_case_def Let_def st tenant loan)
    qed (simp add: run_end_to_end_case_def Let_def ex no_trace_ids)
  qed (auto simp: run_end_to_end_case_def no_trace_refl)
qed

lemma record_results_Inr:
  "record_results gen run xs db = Inr db' \<Longrightarrow> et_assess db' = et_assess db \<and> et_extract db' = et_extract db"
proof (induction xs arbitrary: db)
  case (Cons x xs)
  obtain c passed actual where x: "x = (c, passed, actual)" by (cases x) auto
  obtain d where d: "date_fromisoformat (ec_event_date c) = Inr d"
    using Cons.prems x by (cases "date_fromisoformat (ec_event_date c)") auto
  obtain i rows where "upsert_case (gen (et_uuids db)) d c (et_cases db) = (i, rows)" by fastforce
  with Cons.prems x d show ?case by (auto dest: Cons.IH)
qed simp

lemma run_suite_Inr:
  assumes "run_suite su dirs suite db = (db', Inr report)"
  obtains cases stage db1 where "run_stage su suite stage cases db = (db1, Inr (sy_result report))"
    "et_assess db' = et_assess db1" "et_extract db' = et_extract db1"
proof -
  obtain cases stage db1 result where r: "run_stage su suite stage cases db = (db1, Inr result)"
    "sy_result report = result"
    "\<exists>pairs runs n. record_results (ev_gen (su_ev su)) (ev_gen (su_ev su) (et_uuids db1)) pairs
        (db1\<lparr>et_runs := runs, et_uuids := n\<rparr>) = Inr db'"
    using assms by (force simp: run_suite_def Let_def ebind_Inr_iff split: sum.splits prod.splits)
  then show thesis by (intro that [of stage cases db1]) (auto dest: record_results_Inr)
qed

definition sample_case :: eval_case where
  "sample_case =
     \<lparr>ec_case_ref = ''v1'', ec_suite = ''verdict'', ec_stage = ''verdict'', ec_doc_type = Some ''kfs'',
      ec_input_ref = None, ec_event_date = ''2026-01-01'',
      ec_profile = \<lparr>pf_product_type = ''personal'', pf_is_microfinance = False, pf_is_digital_lending = True,
        pf_device_financed = False\<rparr>,
      ec_expected = \<lparr>ex_facts = [(''grievance_mechanism_clause_ref'', ''clause 9'')],
        ex_check_key = ''R12_grievance_escalation_disclosed'', ex_verdict = ''compliant'',
        ex_decisive_citations = [''DL2025/p11''], ex_context_citations = [], ex_forbidden_citations = []\<rparr>,
      ec_documents = [], ec_conflict_expected = None, ec_expected_state = None, ec_tolerance = [],
      ec_is_adversarial = False, ec_notes = None\<rparr>"

definition eval_db :: "store run_db" where
  "eval_db = \<lparr>rd_tenants = [], rd_accounts = [], rd_store = grievance_store ''rbi_verified''\<rparr>"

lemma sample_case_run:
  obtains db' u where "run_case sample_env 1 sample_case eval_db = (db', Inr u)"
    "co_passed u" "co_decisive_citations u = [''DL2025/p11'']"
proof -
  let ?k = "''grievance_mechanism_clause_ref''" and ?c = "''R12_grievance_escalation_disclosed''"
  obtain spec where spec: "field_get shipped_field_registry ?k = Inr spec" and ty: "fs_type spec = ''string''"
    by (rule mechanism_spec)
  have sev: "severity_for (Some ?c) None Compliant = Inr Minor"
    by (simp add: severity_for_def SEVERITY_def)
  have d: "date_fromisoformat ''2026-01-01'' = Inr (Date 2026 1 1)" by code_simp
  define row where "row = \<lparr>fx_id = 5, fx_document = 2, fx_loan = 1, fx_field_key = ?k, fx_value_type = Some ''string'',
      fx_value = Some (value_to_jsonable (StringValue ''clause 9'')), fx_is_absent = False, fx_created = 9\<rparr>"
  define db2 where "db2 = (grievance_store ''rbi_verified'')\<lparr>db_documents := [(2, ''kfs'')], db_facts := [row], db_uuids := 7\<rparr>"
  define f where "f = case_fact 7 2 1 (?k, ''clause 9'') (StringValue ''clause 9'')"
  have one: "insert_case_document (ev_gen sample_env) ''kfs'' ((grievance_store ''rbi_verified'')\<lparr>db_uuids := 2\<rparr>)
      = (2, (grievance_store ''rbi_verified'')\<lparr>db_documents := [(2, ''kfs'')], db_uuids := 5\<rparr>)"
    by (simp add: insert_case_document_def sample_env_def grievance_store_def)
  have two: "insert_case_facts sample_env 2 1 [(?k, ''clause 9'')]
      ((grievance_store ''rbi_verified'')\<lparr>db_documents := [(2, ''kfs'')], db_uuids := 5\<rparr>) = (db2, Inr ())"
    by (simp add: insert_case_fact_def sample_env_def spec ty parse_expected_value_def db2_def row_def grievance_store_def)
  have "\<exists>db r. assess_fact sample_env (case_job sample_case (case_account sample_case 0 1) (Date 2026 1 1) 1 f)
        (db2\<lparr>db_uuids := Suc (db_uuids db2)\<rparr>) = Inr (db, [r]) \<and>
      ar_check_key r = ?c \<and> ar_verdict r = Compliant \<and>
      map (\<lambda>x. (cit_path x, cit_role x)) (ar_citations r) = [(''DL2025/p11'', Decisive)]"
    by (simp add: assess_fact_def sample_env_def case_job_def f_def case_fact_def spec sample_rules
        run_rule_def Let_def R12_def R12_evaluate_def has_fact_def load_fact_index_def db2_def row_def
        grievance_store_def latest_by_def record_of_row_def cite_def
        load_clause_refs_def load_instrument_verification_def CC_Retrieve.sample_row_def sample_instrument_def
        shadow_R12 from_rule_outcome_def sev ok_def persist_def prior_open_def persist_args_of_def)
  then obtain db where "\<exists>r. assess_fact sample_env (case_job sample_case (case_account sample_case 0 1) (Date 2026 1 1) 1 f)
        (db2\<lparr>db_uuids := Suc (db_uuids db2)\<rparr>) = Inr (db, [r]) \<and>
      ar_check_key r = ?c \<and> ar_verdict r = Compliant \<and>
      map (\<lambda>x. (cit_path x, cit_role x)) (ar_citations r) = [(''DL2025/p11'', Decisive)]"
    by (rule exE)
  then obtain r where res: "assess_fact sample_env (case_job sample_case (case_account sample_case 0 1) (Date 2026 1 1) 1 f)
        (db2\<lparr>db_uuids := Suc (db_uuids db2)\<rparr>) = Inr (db, [r]) \<and>
      ar_check_key r = ?c \<and> ar_verdict r = Compliant \<and>
      map (\<lambda>x. (cit_path x, cit_role x)) (ar_citations r) = [(''DL2025/p11'', Decisive)]"
    by (rule exE)
  note r = conjunct1 [OF res] conjunct1 [OF conjunct2 [OF res]] conjunct1 [OF conjunct2 [OF conjunct2 [OF res]]]
    conjunct2 [OF conjunct2 [OF conjunct2 [OF res]]]
  define u where "u = case_result sample_case 1 (Date 2026 1 1) db [r]"
  have gen: "ev_gen sample_env n = n" for n by (simp add: sample_env_def)
  have uuids: "db_uuids db2 = 7" "db_uuids (grievance_store ''rbi_verified'') = 0"
    by (simp_all add: db2_def grievance_store_def)
  have reg: "ev_fields sample_env = shipped_field_registry" by (simp add: sample_env_def)
  have "case_body sample_env 1 sample_case ''kfs'' 0 1 (Date 2026 1 1) ((grievance_store ''rbi_verified'')\<lparr>db_uuids := 2\<rparr>)
      = (db, 2, Inr u)"
    using one two r(1)
    by (simp add: case_body_def trigger_field_def sample_case_def gen reg spec ty parse_expected_value_def uuids f_def u_def)
  then have "\<exists>db'. run_case sample_env 1 sample_case eval_db = (db', Inr u)"
    by (simp add: run_case_def eval_db_def sample_case_def gen uuids d numeral_2_eq_2)
  moreover obtain x where "ar_citations r = [x]" "cit_path x = ''DL2025/p11''" "cit_role x = Decisive"
    using r(4) by (auto simp: map_eq_Cons_conv)
  then have "co_passed u" "co_decisive_citations u = [''DL2025/p11'']"
    using r(2,3) by (simp_all add: u_def case_result_def pick_result_def case_diffs_def sample_case_def Let_def verdict_label_def)
  ultimately show thesis using that by blast
qed

text \<open>An extraction case deletes what it wrote, the budget it charged included.\<close>

definition unused_extract :: "(nat \<Rightarrow> uuid) \<Rightarrow> extract_store run_db \<Rightarrow> bool" where
  "unused_extract gen db \<longleftrightarrow>
     (\<forall>m \<ge> xs_uuids (rd_store db).
        gen m \<notin> fst ` set (rd_tenants db) \<and> gen m \<notin> lo_id ` set (rd_accounts db) \<and>
        gen m \<notin> do_id ` set (xs_documents (rd_store db)) \<and> gen m \<notin> fx_document ` set (xs_facts (rd_store db)))"

lemma charged_others:
  "charged doc ds ds' \<Longrightarrow> filter (\<lambda>d. do_id d \<noteq> doc) ds' = filter (\<lambda>d. do_id d \<noteq> doc) ds"
  unfolding charged_def by (induction rule: list_all2_induct) (auto split: if_splits)

lemma extraction_leaves_no_trace:
  assumes "unused_extract (xe_gen xe) db" "run_extraction_case xe c db = (db', out)"
  shows "rd_tenants db' = rd_tenants db \<and> rd_accounts db' = rd_accounts db \<and>
    xs_documents (rd_store db') = xs_documents (rd_store db) \<and> xs_facts (rd_store db') = xs_facts (rd_store db)"
proof (cases "\<exists>input doc_type content d. ec_input_ref c = Some input \<and> input \<noteq> [] \<and> ec_doc_type c = Some doc_type \<and>
    xe_fixture xe input = Inr content \<and> date_fromisoformat (ec_event_date c) = Inr d")
  case True
  then obtain input doc_type content d where c: "ec_input_ref c = Some input" "input \<noteq> []"
    "ec_doc_type c = Some doc_type" "xe_fixture xe input = Inr content"
    "date_fromisoformat (ec_event_date c) = Inr d" by blast
  let ?n = "xs_uuids (rd_store db)"
  define doc where "doc = xe_gen xe (?n + 2)"
  obtain st1 where st1: "insert_fixture_document xe content ((rd_store db)\<lparr>xs_uuids := ?n + 2\<rparr>) = (doc, st1)"
    by (simp add: insert_fixture_document_def doc_def Let_def)
  obtain row where docs1: "xs_documents st1 = xs_documents (rd_store db) @ [row]" "do_id row = doc"
    and facts1: "xs_facts st1 = xs_facts (rd_store db)"
    using st1 by (auto simp: insert_fixture_document_def Let_def)
  define ej where "ej = \<lparr>ej_document = doc, ej_tenant = xe_gen xe ?n, ej_loan = xe_gen xe (Suc ?n),
    ej_doc_type = doc_type, ej_text = content, ej_model = xe_model xe, ej_now = xe_now xe\<rparr>"
  define run where "run = extract_document (xe_llm xe) (xe_template xe) (xe_gen xe) (xe_registry xe) ej st1"
  define st2 where "st2 = (case run of Inl _ \<Rightarrow> st1 | Inr (s, _) \<Rightarrow> s)"
  have fresh: "doc \<notin> do_id ` set (xs_documents (rd_store db))" "doc \<notin> fx_document ` set (xs_facts (rd_store db))"
    "xe_gen xe ?n \<notin> fst ` set (rd_tenants db)" "xe_gen xe (Suc ?n) \<notin> lo_id ` set (rd_accounts db)"
    using assms(1) by (simp_all add: unused_extract_def doc_def)
  have old: "filter (\<lambda>d. do_id d \<noteq> doc) (xs_documents (rd_store db)) = xs_documents (rd_store db)"
    "filter (\<lambda>f. fx_document f \<noteq> doc) (xs_facts (rd_store db)) = xs_facts (rd_store db)"
    using fresh(1,2) by (auto simp: filter_id_conv)
  have "xs_documents (delete_extraction doc st2) = xs_documents (rd_store db) \<and>
      xs_facts (delete_extraction doc st2) = xs_facts (rd_store db)"
  proof (cases run)
    case (Inl e)
    then show ?thesis using old docs1 facts1 by (simp add: st2_def delete_extraction_def)
  next
    case (Inr r)
    then obtain ids where "run = Inr (st2, ids)" by (cases r) (simp add: st2_def)
    from extract_document_Inr [OF this [unfolded run_def]] obtain new where
      new: "xs_facts st2 = xs_facts st1 @ new" "\<forall>r \<in> set new. well_stored (xe_registry xe) ej r"
      and charged: "charged doc (xs_documents st1) (xs_documents st2)"
      by (auto simp: ej_def)
    have "filter (\<lambda>f. fx_document f \<noteq> doc) new = []"
      using new(2) by (auto simp: filter_empty_conv well_stored_def ej_def)
    then show ?thesis
      using old docs1 facts1 new(1) charged_others [OF charged] by (simp add: delete_extraction_def)
  qed
  moreover have "db' = delete_account (xe_gen xe ?n) (xe_gen xe (Suc ?n))
      ((insert_account c (xe_gen xe ?n) (xe_gen xe (Suc ?n)) db)\<lparr>rd_store := delete_extraction doc st2\<rparr>)"
    using assms(2) c st1
    by (cases run) (auto simp: run_extraction_case_def Let_def run_def ej_def st2_def split: prod.splits)
  then have "db' = db\<lparr>rd_store := delete_extraction doc st2\<rparr>" by (simp add: account_undone fresh)
  ultimately show ?thesis by simp
next
  case False
  then show ?thesis
    using assms(2) by (auto simp: run_extraction_case_def Let_def split: option.splits sum.splits if_splits)
qed

section \<open>What end-to-end cases cannot see\<close>

text \<open>
  No conflict is ever counted: the state is recomputed over the table of conflicts, which nothing fills.
\<close>

definition uncounted :: "conflict_row list \<Rightarrow> uuid \<Rightarrow> store \<Rightarrow> bool" where
  "uncounted cs loan db \<longleftrightarrow> db_conflicts db = cs \<and> loan \<notin> fc_loan ` set cs \<and>
     (\<forall>s. db_states db loan = Some s \<longrightarrow> lc_unresolved_conflicts s = 0)"

interpretation uncounted: store_invariant gen "\<lambda>_ _ _. True" "uncounted cs loan" for gen cs loan
proof
  show "uncounted cs loan db'" if "uncounted cs loan db" "persist gen now pa db = Inr (db', aid)" for db now pa db' aid
    using persist_Inr(4,7) [OF that(2)] that(1) by (simp add: uncounted_def)
  show "uncounted cs loan (recompute_loan_compliance_state now t l snap db)" if "uncounted cs loan db" for now t l snap db
    using that
    by (auto simp: uncounted_def recompute_loan_compliance_state_def unresolved_conflicts_def Let_def filter_empty_conv
        image_iff split: option.splits)
qed

interpretation uncounted_loop: case_loop ev loan
  "on_end_to_end ev decode groups c (case_account c tenant loan) d snapshot"
  "\<lambda>D db. sound_env ev db \<and> uncounted cs loan db" for ev :: "'v env" and loan decode groups c tenant d snapshot cs
proof
  show "sound_env ev db' \<and> uncounted cs loan db'"
    if "sound_env ev db \<and> uncounted cs loan db" "insert_case_document (ev_gen ev) t db = (doc, db')" for db t doc db'
    using that by (auto simp: insert_case_document_def Let_def sound_env_def uncounted_def)
  show "sound_env ev db' \<and> uncounted cs loan db'"
    if "sound_env ev db \<and> uncounted cs loan db" "insert_case_fact ev doc loan x db = Inr (db', i, v)"
    for db doc x db' i v
    using that by (auto simp: insert_case_fact_def ebind_Inr_iff Let_def sound_env_def uncounted_def split: prod.splits)
  show "sound_env ev db' \<and> uncounted cs loan db'"
    if here: "sound_env ev db \<and> uncounted cs loan db"
      and run: "on_end_to_end ev decode groups c (case_account c tenant loan) d snapshot t f db = Inr (db', a)"
    for db t f db' a
  proof -
    obtain results where run: "assess_fact ev (case_job c (case_account c tenant loan) d snapshot f) db = Inr (db', results)"
      using run by (auto simp: on_end_to_end_def ebind_Inr_iff)
    have "uncounted cs loan db'"
      by (rule uncounted.assess_fact_keeps [OF run refl]) (use here in \<open>simp_all add: sound_env_def\<close>)
    then show ?thesis using assess_fact_inputs(3) [OF run] here by blast
  qed
qed

lemma end_to_end_counts_no_conflict:
  assumes "evaluable ev db" "run_end_to_end_case ev decode conflicts snapshot c db = (db', Inr u)"
  shows "es_unresolved_conflicts (ee_state u) = 0"
proof -
  define st where st: "st = (rd_store db)\<lparr>db_uuids := db_uuids (rd_store db) + 2\<rparr>"
  define tenant loan where ids: "tenant = ev_gen ev (db_uuids (rd_store db))"
    "loan = ev_gen ev (Suc (db_uuids (rd_store db)))"
  obtain d groups db1 docs out where loop: "document_loop ev
        (on_end_to_end ev decode groups c (case_account c tenant loan) d snapshot) loan (ec_documents c) st = (db1, docs, out)"
    and u: "ee_state u = actual_state (db_states db1 loan)"
    using assms(2)
    by (auto simp: run_end_to_end_case_def Let_def st ids ebind_Inr_iff split: option.splits sum.splits prod.splits if_splits)
  have "loan \<notin> fc_loan ` set (db_conflicts (rd_store db)) \<and> db_states (rd_store db) loan = None"
    using assms(1) by (simp add: evaluable_def unused_def ids)
  then have "sound_env ev st \<and> uncounted (db_conflicts (rd_store db)) loan st"
    using assms(1) by (simp add: evaluable_def uncounted_def st sound_env_def)
  from uncounted_loop.document_loop_keeps [OF loop this] show ?thesis
    by (auto simp: u actual_state_def uncounted_def split: option.splits)
qed

section \<open>Properties\<close>

text \<open>
  The metrics of verdict cases mean what they say, in spite of being floats: with fewer than
  \<open>2^53\<close> cases each of the five lies between 0 and 1; the accuracy is 1 exactly when every verdict is the
  expected one; the rate of false violations is 0 exactly when no case that should be compliant or
  without a clause was judged a violation; the rate of hallucinated citations is 0 exactly when no
  persisted citation is one.
\<close>

theorem verdict_metrics_sound:
  assumes "compute_verdict_metrics cases outcomes = Inr m" "length cases < 2 ^ 53"
  shows "length outcomes = length cases \<and>
    (\<forall>x \<in> {vm_verdict_accuracy m, vm_citation_validity m, vm_hallucinated_citation_rate m,
       vm_abstention_correctness m, vm_false_violation_rate m}. 0 \<le> x \<and> x \<le> 1) \<and>
    (vm_verdict_accuracy m = 1 \<longleftrightarrow>
       (\<forall>(c, u) \<in> set (zip cases outcomes). co_verdict u = expected_verdict c)) \<and>
    (vm_false_violation_rate m = 0 \<longleftrightarrow>
       (\<forall>(c, u) \<in> set (zip cases outcomes). expected_verdict c \<in> {''compliant'', ''no_clause_found''} \<longrightarrow>
          co_verdict u \<noteq> ''violation'')) \<and>
    (vm_hallucinated_citation_rate m = 0 \<longleftrightarrow>
       (\<forall>u \<in> set outcomes. \<forall>ck \<in> set (co_persisted_citations u). \<not> pc_hallucinated ck))"
proof -
  have ne: "0 < length cases" and len: "length cases = length outcomes"
    using assms(1) by (auto simp: compute_verdict_metrics_def strict_zip_def split: if_splits)
  let ?pairs = "zip cases outcomes" and ?cites = "concat (map co_persisted_citations outcomes)"
  let ?abstain = "\<lambda>c. expected_verdict c = ''no_clause_found''"
  have m: "m = \<lparr>vm_verdict_accuracy = ratio (count_if (\<lambda>(c, u). co_verdict u = expected_verdict c) ?pairs) (length cases),
      vm_citation_validity = ratio_or 1 (count_if pc_live ?cites) (length ?cites),
      vm_hallucinated_citation_rate = ratio_or 0 (count_if pc_hallucinated ?cites) (length ?cites),
      vm_abstention_correctness =
        ratio_or 1 (count_if (\<lambda>(c, u). ?abstain c \<and> co_verdict u = ''no_clause_found'') ?pairs) (count_if ?abstain cases),
      vm_false_violation_rate =
        ratio (count_if (\<lambda>(c, u). expected_verdict c \<in> set [''compliant'', ''no_clause_found''] \<and>
          co_verdict u = ''violation'') ?pairs) (length cases),
      vm_case_count = length cases\<rparr>" (is "_ = ?metrics")
  proof (rule sym)
    have "cases \<noteq> []" using ne by simp
    then show "?metrics = m"
      using assms(1) unfolding compute_verdict_metrics_def strict_zip_def Let_def
      by (simp only: len if_True if_False ebind_simps sum.inject refl simp_thms)
  qed
  have pairs: "length ?pairs = length cases" using len by simp
  have le: "count_if P ?pairs \<le> length cases" for P using count_if_le [of P ?pairs] pairs by simp
  have "count_if (\<lambda>(c, u). ?abstain c \<and> co_verdict u = ''no_clause_found'') ?pairs \<le> count_if ?abstain cases"
    using count_if_mono [of "\<lambda>(c, u). ?abstain c \<and> co_verdict u = ''no_clause_found''" "\<lambda>(c, u). ?abstain c" ?pairs]
      count_if_zip_fst [OF len, of ?abstain] by auto
  then have unit: "\<forall>x \<in> {vm_verdict_accuracy m, vm_citation_validity m, vm_hallucinated_citation_rate m,
       vm_abstention_correctness m, vm_false_violation_rate m}. 0 \<le> x \<and> x \<le> 1"
    using ratio_unit [OF le ne] ratio_or_unit [OF _ _ count_if_le, of 1 pc_live ?cites]
      ratio_or_unit [OF _ _ count_if_le, of 0 pc_hallucinated ?cites] ratio_or_unit [of 1] by (simp add: m)
  have "vm_verdict_accuracy m = 1 \<longleftrightarrow> (\<forall>(c, u) \<in> set ?pairs. co_verdict u = expected_verdict c)"
    using ratio_one_iff [OF le ne assms(2)] count_if_all [of _ ?pairs] pairs by (simp add: m)
  moreover have "vm_false_violation_rate m = 0 \<longleftrightarrow>
      (\<forall>(c, u) \<in> set ?pairs. expected_verdict c \<in> {''compliant'', ''no_clause_found''} \<longrightarrow> co_verdict u \<noteq> ''violation'')"
    using ratio_zero_iff [OF ne] by (auto simp: m count_if_zero)
  moreover have "vm_hallucinated_citation_rate m = 0 \<longleftrightarrow>
      (\<forall>u \<in> set outcomes. \<forall>ck \<in> set (co_persisted_citations u). \<not> pc_hallucinated ck)"
    using ratio_zero_iff [of "length ?cites"] by (auto simp: m ratio_or_def count_if_zero)
  ultimately show ?thesis using unit len by auto
qed

text \<open>
  C39: A case of the evaluation leaves no trace. Whatever it does, raising included, running a verdict case, a
  conflict case or an end-to-end case changes no table: tenants, accounts, documents, facts, assessments,
  citations, rejections, conflicts and compliance states are those from before, and only ids and counters move
  on. The ids still to come are in use nowhere, the shipped rules are registered, clause paths are
  unique and the vector index yields rows of its table.
\<close>

theorem eval_leaves_no_trace:
  assumes "evaluable ev db"
  shows "no_trace db (fst (run_case ev snapshot c db)) \<and>
    no_trace db (fst (run_conflict_case ev decode conflicts c db)) \<and>
    no_trace db (fst (run_end_to_end_case ev decode conflicts snapshot c db))"
  using eval_traceless [OF assms] by blast

section \<open>What the harness measures of the citations\<close>

text \<open>Clause ids are the primary key, and no clause is empty.\<close>

definition sound_corpus :: "corpus \<Rightarrow> bool" where
  "sound_corpus co \<longleftrightarrow> distinct (map cl_id (co_clauses co)) \<and> (\<forall>r \<in> set (co_clauses co). cl_text r \<noteq> [])"

lemma resolved_citation_real:
  assumes "cite_inv db" "sound_corpus (db_corpus db)" "ck \<in> set (resolve_citations db ids d)"
  shows "\<not> pc_hallucinated ck"
proof -
  obtain c where c: "c \<in> set (db_citations db)"
    and ck: "ck \<in> set (case filter (\<lambda>r. cl_id r = ac_clause c) (co_clauses (db_corpus db)) of
        [] \<Rightarrow> [check_persisted d c None] | rows \<Rightarrow> map (\<lambda>r. check_persisted d c (Some r)) rows)"
    using assms(3) by (auto simp: resolve_citations_def)
  obtain r where r: "r \<in> set (co_clauses (db_corpus db))" "cl_id r = ac_clause c" "quotes (ac_excerpt c) r"
    using assms(1) c unfolding cite_inv_def by blast
  obtain r' where r': "r' \<in> set (co_clauses (db_corpus db))" "cl_id r' = ac_clause c"
      "ck = check_persisted d c (Some r')"
    using ck r by (fastforce simp: filter_empty_conv split: list.splits dest: arg_cong [of _ _ set])
  have "r' = r" using assms(2) r(1,2) r'(1,2) unfolding sound_corpus_def distinct_map by (metis inj_onD)
  then show ?thesis
    using r(3) r'(3) assms(2) r(1)
    by (auto simp: check_persisted_def quotes_def is_literal_substring_def sound_corpus_def)
qed

lemma case_result_real:
  assumes "cite_inv db" "sound_corpus (db_corpus db)" "ck \<in> set (co_persisted_citations (case_result c loan d db results))"
  shows "\<not> pc_hallucinated ck"
  using assms(3) resolved_citation_real [OF assms(1,2)]
  by (auto simp: case_result_def no_result_outcome_def Let_def split: option.splits)

lemma cite_inv_cong:
  "cite_inv db \<Longrightarrow> db_assessments db' = db_assessments db \<Longrightarrow> db_citations db' = db_citations db \<Longrightarrow>
     db_corpus db' = db_corpus db \<Longrightarrow> cite_inv db'"
  by (simp add: cite_inv_def)

lemma case_body_real:
  assumes "confined ev tenant loan st {} db" "cite_inv db" "sound_corpus (db_corpus db)"
    and "case_body ev snapshot c doc_type tenant loan d db = (db', doc, Inr u)"
    and "ck \<in> set (co_persisted_citations u)"
  shows "\<not> pc_hallucinated ck"
proof -
  obtain db1 where one: "insert_case_document (ev_gen ev) doc_type db = (doc, db1)"
    using assms(4) by (auto simp: case_body_def Let_def split: prod.splits sum.splits option.splits)
  obtain db2 r where two: "insert_case_facts ev doc loan (ex_facts (ec_expected c)) db1 = (db2, r)" by fastforce
  have c1: "confined ev tenant loan st {doc} db1" "unassessed db db1"
    using insert_case_document_confined [OF assms(1) one] by simp_all
  have c2: "confined ev tenant loan st {doc} db2" "unassessed db1 db2"
    using insert_case_facts_confined [OF c1(1) two] by simp_all
  let ?db = "db2\<lparr>db_uuids := Suc (db_uuids db2)\<rparr>"
  obtain j results where run: "assess_fact ev j ?db = Inr (db', results)" and u: "u = case_result c loan d db' results"
    using assms(4) one two
    by (cases r; cases "trigger_field (ec_expected c)")
      (force simp: case_body_def ebind_Inr_iff split: sum.splits prod.splits)+
  have env: "sound_env ev ?db" and corpus: "db_corpus db2 = db_corpus db"
    using assms(1) c2(1) by (simp_all add: confined_def sound_env_def)
  have "cite_inv ?db"
    using cite_inv_cong [OF assms(2), of ?db] c1(2) c2(2) corpus by (simp add: unassessed_def)
  then have "cite_inv db'"
    using cited_rows.assess_fact_keeps [OF run refl] env by (simp add: sound_env_def)
  moreover have "sound_corpus (db_corpus db')"
    using assess_fact_inputs(1) [OF run env] assms(3) corpus by simp
  ultimately show ?thesis using case_result_real assms(5) u by blast
qed

lemma run_case_real:
  assumes "evaluable ev db" "cite_inv (rd_store db)" "sound_corpus (db_corpus (rd_store db))"
    and "run_case ev snapshot c db = (db', Inr u)" "ck \<in> set (co_persisted_citations u)"
  shows "\<not> pc_hallucinated ck"
proof -
  define st where st: "st = (rd_store db)\<lparr>db_uuids := db_uuids (rd_store db) + 2\<rparr>"
  obtain doc_type d db1 doc where body: "case_body ev snapshot c doc_type (ev_gen ev (db_uuids (rd_store db)))
      (ev_gen ev (Suc (db_uuids (rd_store db)))) d st = (db1, doc, Inr u)"
    using assms(4) by (auto simp: run_case_def Let_def st split: option.splits sum.splits prod.splits)
  show ?thesis
    by (rule case_body_real [OF confined_start [OF assms(1) st] _ _ body assms(5)])
      (use assms(2,3) in \<open>simp_all add: st cite_inv_def\<close>)
qed

text \<open>The state of the tables before and after a case, as far as the next case needs it.\<close>

definition measurable :: "'v env \<Rightarrow> store run_db \<Rightarrow> bool" where
  "measurable ev db \<longleftrightarrow> evaluable ev db \<and> cite_inv (rd_store db) \<and> sound_corpus (db_corpus (rd_store db))"

lemma no_trace_measurable: "no_trace db db' \<Longrightarrow> measurable ev db \<Longrightarrow> measurable ev db'"
proof -
  assume t: "no_trace db db'" and m: "measurable ev db"
  obtain n ms where s: "rd_store db' = (rd_store db)\<lparr>db_uuids := n, db_metrics := ms\<rparr>"
    using t unfolding no_trace_def by metis
  show ?thesis
    using no_trace_evaluable [OF t, of ev] m unfolding measurable_def s by (simp add: cite_inv_def)
qed

lemma no_trace_trans:
  assumes "no_trace a b" "no_trace b c"
  shows "no_trace a c"
proof -
  obtain n ms where s: "rd_store b = (rd_store a)\<lparr>db_uuids := n, db_metrics := ms\<rparr>" "db_uuids (rd_store a) \<le> n"
    using assms(1) unfolding no_trace_def by metis
  obtain n' ms' where s': "rd_store c = (rd_store b)\<lparr>db_uuids := n', db_metrics := ms'\<rparr>" "db_uuids (rd_store b) \<le> n'"
    using assms(2) unfolding no_trace_def by metis
  show ?thesis using assms s s' by (simp add: no_trace_def)
qed

lemma run_all_keeps:
  assumes "\<And>c db. measurable ev db \<Longrightarrow> no_trace db (fst (run c db))"
    and "\<And>c db db' u. measurable ev db \<Longrightarrow> run c db = (db', Inr u) \<Longrightarrow> Q u"
    and "run_all run cs db = (db', out)" "measurable ev db"
  shows "no_trace db db' \<and> (\<forall>us. out = Inr us \<longrightarrow> (\<forall>u \<in> set us. Q u))"
  using assms(3,4)
proof (induction cs arbitrary: db out)
  case (Cons c cs)
  obtain db1 r where one: "run c db = (db1, r)" by fastforce
  have t: "no_trace db db1" using assms(1) [OF Cons.prems(2), of c] one by simp
  show ?case
  proof (cases r)
    case (Inr u)
    obtain rest where two: "run_all run cs db1 = (db', rest)" "out = ebind rest (\<lambda>us. Inr (u # us))"
      using Cons.prems(1) one Inr by (auto split: prod.splits)
    have "Q u" using assms(2) [OF Cons.prems(2)] one Inr by simp
    then show ?thesis
      using Cons.IH [OF two(1) no_trace_measurable [OF t Cons.prems(2)]] no_trace_trans [OF t] two(2)
      by (auto simp: ebind_Inr_iff)
  qed (use Cons.prems one t in auto)
qed (simp add: no_trace_refl)

text \<open>
  C38: The evaluation can only confirm the validator. A verdict suite that returns a report, run over tables in which
  every citation quotes its clause, measures a rate of hallucinated citations of exactly 0, whatever the
  model under evaluation answers, for its cases persist no citation that the harness's own check of the
  database refutes; and the run changes the tables of the server in nothing but used up ids and
  counters. Clause ids are unique, no clause is empty, and the ids still to come are in use nowhere.
\<close>

theorem measured_hallucination_zero:
  assumes "run_suite su dirs suite db = (db', Inr report)" "sy_result report = VerdictRun us m"
    and "measurable (su_ev su) (et_assess db)"
  shows "vm_hallucinated_citation_rate m = 0 \<and> no_trace (et_assess db) (et_assess db') \<and>
    et_extract db' = et_extract db"
proof -
  obtain cases stage db1 where "run_stage su suite stage cases db = (db1, Inr (sy_result report))"
    and db': "et_assess db' = et_assess db1" "et_extract db' = et_extract db1"
    using assms(1) by (rule run_suite_Inr)
  then obtain d where run: "run_all (run_case (su_ev su) (su_snapshot su)) cases (et_assess db) = (d, Inr us)"
    and metrics: "compute_verdict_metrics cases us = Inr m" and db1: "db1 = db\<lparr>et_assess := d\<rparr>"
    using assms(2) by (auto simp: run_stage_def Let_def ebind_Inr_iff split: if_splits prod.splits)
  have "no_trace (et_assess db) d \<and> (\<forall>us'. Inr us = (Inr us' :: case_outcome list res) \<longrightarrow>
      (\<forall>u \<in> set us'. \<forall>ck \<in> set (co_persisted_citations u). \<not> pc_hallucinated ck))"
  proof (rule run_all_keeps [OF _ _ run assms(3)])
    show "no_trace db (fst (run_case (su_ev su) (su_snapshot su) c db))" if "measurable (su_ev su) db" for c db
      using eval_traceless(1) [of "su_ev su"] that by (simp add: measurable_def)
    show "\<forall>ck \<in> set (co_persisted_citations u). \<not> pc_hallucinated ck"
      if "measurable (su_ev su) db" "run_case (su_ev su) (su_snapshot su) c db = (db', Inr u)" for c db db' u
      using run_case_real [OF _ _ _ that(2)] that(1) by (simp add: measurable_def)
  qed
  moreover have "count_if pc_hallucinated (concat (map co_persisted_citations us)) = 0"
    using calculation by (auto simp: count_if_zero)
  ultimately show ?thesis
    using metrics db' db1
    by (auto simp: compute_verdict_metrics_def ebind_Inr_iff Let_def ratio_or_def ratio_def float_div_def fl_def
        split: if_splits)
qed

lemma eval_db_measurable: "measurable sample_env eval_db"
proof -
  have rows: "db_assessments (grievance_store v) = []" "db_citations (grievance_store v) = []"
    "db_audit (grievance_store v) = []" "db_states (grievance_store v) = Map.empty" "db_facts (grievance_store v) = []"
    "db_documents (grievance_store v) = []" "db_conflicts (grievance_store v) = []" for v
    by (simp_all add: grievance_store_def)
  have "sound_env sample_env (grievance_store ''rbi_verified'')"
    using sample_env_sound(1-3) by (simp add: sound_env_def)
  moreover have "sound_corpus (db_corpus (grievance_store ''rbi_verified''))"
    by (simp add: sound_corpus_def grievance_store_def CC_Retrieve.sample_row_def)
  ultimately show ?thesis
    by (simp add: measurable_def evaluable_def unused_def ids_inv_def fresh_ids_def cite_inv_def eval_db_def rows
        sample_env_sound(4) inj_on_def)
qed

theorem eval_leaves_no_trace_witness:
  "\<exists>db' u. run_case sample_env 1 sample_case eval_db = (db', Inr u) \<and> co_passed u \<and> no_trace eval_db db'"
proof -
  obtain db' u where run: "run_case sample_env 1 sample_case eval_db = (db', Inr u)" "co_passed u"
    by (rule sample_case_run)
  have "evaluable sample_env eval_db" using eval_db_measurable by (simp add: measurable_def)
  from eval_leaves_no_trace [OF this, of 1 sample_case "\<lambda>_. Inl IndexError" "Inr []"] run show ?thesis by auto
qed

definition sample_suite :: "unit suite_env" where
  "sample_suite =
     \<lparr>su_ev = sample_env,
      su_extract = \<lparr>xe_llm = sample_llm, xe_template = sample_template, xe_gen = (\<lambda>n. n), xe_now = 0,
        xe_registry = shipped_field_registry, xe_model = ''m'', xe_budget_ratio = 1 / 2,
        xe_fixture = (\<lambda>_. Inl (FileNotFoundError ''fixture''))\<rparr>,
      su_decode = (\<lambda>_. Inl IndexError), su_conflicts = Inr [], su_snapshot = 1, su_models = (''m'', ''m'')\<rparr>"

definition sample_eval_tables :: eval_tables where
  "sample_eval_tables =
     \<lparr>et_assess = eval_db,
      et_extract = \<lparr>rd_tenants = [], rd_accounts = [], rd_store = sample_facts_store\<rparr>,
      et_runs = [], et_cases = [], et_results = [], et_uuids = 0\<rparr>"

definition sample_dirs :: "string \<Rightarrow> (string \<times> eval_case res) list option" where
  "sample_dirs suite = (if suite = ''verdict'' then Some [(''v1.json'', Inr sample_case)] else None)"

lemma sample_suite_run:
  obtains db' report us m where "run_suite sample_suite sample_dirs ''verdict'' sample_eval_tables = (db', Inr report)"
    "sy_result report = VerdictRun us m" "map co_passed us = [True]"
proof -
  obtain db1 u where run: "run_case sample_env 1 sample_case eval_db = (db1, Inr u)" "co_passed u"
    by (rule sample_case_run)
  have load: "load_suite ''verdict'' (sample_dirs ''verdict'') = Inr [sample_case]"
    by (simp add: load_suite_def sample_dirs_def sample_case_def)
  have stage: "one_stage ''verdict'' [sample_case] = Inr ''verdict''"
    by (simp add: one_stage_def sample_case_def)
  have d: "date_fromisoformat (ec_event_date sample_case) = Inr (Date 2026 1 1)"
    unfolding sample_case_def by code_simp
  obtain m where m: "compute_verdict_metrics [sample_case] [u] = Inr m"
    by (simp add: compute_verdict_metrics_def strict_zip_def Let_def)
  have st: "run_stage sample_suite ''verdict'' ''verdict'' [sample_case] sample_eval_tables
      = (sample_eval_tables\<lparr>et_assess := db1\<rparr>, Inr (VerdictRun [u] m))"
    using run(1) m by (simp add: run_stage_def sample_suite_def sample_eval_tables_def)
  have "\<exists>db2. record_results gen i [(sample_case, p, a)] db = Inr db2" for gen i p a db
    by (simp add: d upsert_case_def split_beta split: option.splits)
  then obtain db2 where "record_results (ev_gen (su_ev sample_suite)) (ev_gen (su_ev sample_suite) 0)
      [(sample_case, co_passed u, VerdictPayload (co_verdict u) (co_check_key u) (co_decisive_citations u) (co_context_citations u))]
      (sample_eval_tables\<lparr>et_assess := db1, et_runs := [\<lparr>er_id = ev_gen (su_ev sample_suite) 0, er_snapshot = su_snapshot sample_suite,
        er_models = su_models sample_suite, er_serving_mode = ev_serving_mode (su_ev sample_suite), er_suite = ''verdict'',
        er_case_count = 1, er_result = VerdictRun [u] m\<rparr>], et_uuids := Suc 0\<rparr>) = Inr db2"
    by blast
  moreover have "et_uuids sample_eval_tables = 0" "et_runs sample_eval_tables = []" by (simp_all add: sample_eval_tables_def)
  ultimately obtain db' report where
    "run_suite sample_suite sample_dirs ''verdict'' sample_eval_tables = (db', Inr report)" "sy_result report = VerdictRun [u] m"
    by (simp add: run_suite_def load stage st strict_zip_def results_of_def Let_def)
  then show thesis using run(2) by (intro that) auto
qed

theorem measured_hallucination_zero_witness:
  "\<exists>db' report us m. run_suite sample_suite sample_dirs ''verdict'' sample_eval_tables = (db', Inr report) \<and>
     sy_result report = VerdictRun us m \<and> map co_passed us = [True] \<and> vm_hallucinated_citation_rate m = 0"
proof -
  obtain db' report us m where run: "run_suite sample_suite sample_dirs ''verdict'' sample_eval_tables = (db', Inr report)"
    "sy_result report = VerdictRun us m" "map co_passed us = [True]"
    by (rule sample_suite_run)
  have "measurable (su_ev sample_suite) (et_assess sample_eval_tables)"
    using eval_db_measurable by (simp add: sample_suite_def sample_eval_tables_def)
  from measured_hallucination_zero [OF run(1,2) this] show ?thesis
    by (intro exI [of _ db'] exI [of _ report] exI [of _ us] exI [of _ m]) (simp add: run)
qed

theorem verdict_metrics_sound_witness:
  "\<exists>us m. compute_verdict_metrics [sample_case] us = Inr m \<and> map co_passed us = [True] \<and>
     list_all (\<lambda>x. 0 \<le> x \<and> x \<le> 1) [vm_verdict_accuracy m, vm_citation_validity m]"
proof -
  obtain db1 u where run: "run_case sample_env 1 sample_case eval_db = (db1, Inr u)" "co_passed u"
    by (rule sample_case_run)
  obtain m where m: "compute_verdict_metrics [sample_case] [u] = Inr m"
    by (simp add: compute_verdict_metrics_def strict_zip_def Let_def)
  from verdict_metrics_sound [OF m] run(2) m show ?thesis by (intro exI [of _ "[u]"] exI [of _ m]) simp
qed

end
