(* ===== verification/Spec2Isabelle.thy ===== *)
theory Spec2Isabelle
  imports CC_Boot CC_Conflicts CC_Extract CC_Client CC_Tasks CC_Parser CC_Ingest CC_Submit CC_Report CC_Log CC_Eval
begin

text \<open>
  ClauseCheck checks the loan documents of Indian non-banking lenders against the regulations of the
  Reserve Bank. This library models the server under \<open>src/app/\<close> and proves what it promises.

  \<^bold>\<open>The program.\<close> An \<^emph>\<open>ingest\<close> fetches regulatory instruments, parses them into clauses, embeds
  the clauses and stores them as a corpus snapshot, of which one is active. A \<^emph>\<open>submission\<close> parses and
  classifies a document, and lets a model extract a typed, redacted fact for every field the
  registry declares, each with evidence quoted from the document. An \<^emph>\<open>assessment task\<close> then takes
  each present fact: the hand-written rules R01 to R27 decide first; where no enforced rule concludes,
  retrieval collects candidate clauses (pinned, vector and lexical, fused by reciprocal rank), a
  model drafts a verdict, and the validator refuses what is not grounded in an offered clause. Results
  go to an append-only history, from which the state of the account, the listing and the report are
  computed. A detector for conflicts between the documents of an account is part of the program, but only the
  \<^emph>\<open>evaluation harness\<close> calls it. Boot assertions tie rules, pins and schema
  to the active snapshot before the server starts.

  \<^bold>\<open>Shared theories.\<close>
  \<^item> \<open>CC_Prelude\<close>: exceptions as values (\<open>Inl\<close> the exception, \<open>Inr\<close> the result), Python's string
    operations, decimal numerals, association lists for dicts, collections of simplification rules.
  \<^item> \<open>CC_Dates\<close>: \<open>datetime\<close> as far as it is used: the proleptic Gregorian calendar as ordinals,
    times, aware timestamps, ISO text; \<open>linorder\<close> instances for dates and times.
  \<^item> \<open>CC_Float\<close>: IEEE binary64 as rationals rounded after each operation.
  \<^item> \<open>CC_Regex\<close>: the part of \<open>re\<close> in use, as the list of successes of a backtracking matcher.
  \<^item> \<open>CC_Domain\<close>: \<open>src/app/domain/\<close>, enums, fact values, drafts, results, candidates.

  \<^bold>\<open>Components and what is shown of them.\<close>
  \<^item> \<open>CC_Rules_Base\<close>, \<open>CC_Rules_Lending\<close>, \<open>CC_Rules_Digital\<close>, \<open>CC_Rules_Recovery\<close>, \<open>CC_Registry\<close>:
    \<open>src/app/rules/\<close> and \<open>verdict/severity.py\<close>, one \<open>evaluate\<close> per file. The locale \<open>clause_rule\<close> states
    what dispatch relies on: a conclusion cites exactly the declared clauses, none is drawn before the
    commencement date, and no fact outside \<open>consumes\<close> is read. It is interpreted for each of the 28 rules, and the registry theorem rests on that.
    Per-rule theorems fix the release windows and compensation of R01, R02, R02b, the accuracy of the
    float computation in R04, and the contact hours of R16 and R17 across time zones.
  \<^item> \<open>CC_Schema\<close>, \<open>CC_Fields\<close>, \<open>CC_Typing\<close>: \<open>src/app/schema/\<close> with its 82 declarations. \<open>typed_rule\<close>
    extends \<open>clause_rule\<close>: on facts that conform to the declarations a rule raises nothing but
    \<open>MissingFact\<close>. It is interpreted for each rule.
  \<^item> \<open>CC_Fusion\<close>, \<open>CC_Retrieve\<close>: \<open>src/app/retrieve/\<close>, and the expansion of pins of \<open>corpus/pinning.py\<close>. The
    locale \<open>candidate_source\<close> (only applicable clauses are offered, under the name of the source, ranked
    from 1) is interpreted for the three sources; the reference hop is no instance. Shown: candidates satisfy the filter, pinned
    clauses surface, and the fused score with its error bound and its consequence for pinned clauses.
  \<^item> \<open>CC_Validator\<close>: \<open>verdict/validator.py\<close>. A conclusive verdict has a grounded decisive citation.
  \<^item> \<open>CC_Store\<close>: the tables, \<open>_persist\<close> and \<open>verdict/state.py\<close>. The locale \<open>store_invariant\<close> asks
    an invariant of the two writers, and \<open>CC_Assess\<close> lifts it to a whole run; its interpretations give the open rows, the cited
    rows, the unchanged inputs, the frame of what-if runs, and the rows of other accounts.
  \<^item> \<open>CC_Assess\<close>: \<open>verdict/assess.py\<close>, the composition of all of these for one fact, errors included.
  \<^item> \<open>CC_Boot\<close>: \<open>src/app/boot.py\<close>. After a boot the enforced rules of a field run to their end.
  \<^item> \<open>CC_Conflicts\<close>: \<open>src/app/conflicts/\<close>. Exact detection, totality, idempotent persistence.
  \<^item> \<open>CC_Redact\<close>, \<open>CC_Normalise\<close>, \<open>CC_Extract\<close>: \<open>src/app/extract/\<close>. The locale \<open>redaction_pattern\<close> states
    when replacing the matches of a pattern leaves none of the seven; it is interpreted for each
    pattern. Shown: complete redaction of what is stored, the rows one extraction appends,
    the evidence budget, that extraction returns, and that its facts suit every rule.
  \<^item> \<open>CC_Client\<close>: \<open>src/app/llm/\<close>. The locale \<open>breaker_contract\<close> is the abstract circuit over the
    history of calls; \<open>CircuitBreaker\<close> implements it (interpretation \<open>cb\<close>) and a client's breakers refine
    it. Inlining the references of an acyclic schema ends; a structured call sends at most two requests.
  \<^item> \<open>CC_Tasks\<close>: \<open>src/app/tasks/assess_tasks.py\<close>, each task a transaction, and queues of tasks.
  \<^item> \<open>CC_Parser\<close>: \<open>src/app/corpus/parsers/\<close>, \<open>chunk.py\<close>, \<open>references.py\<close>. The state machine over the lines
    of an instrument returns on every text, and its nodes form a tree in document order.
  \<^item> \<open>CC_Ingest\<close>: \<open>corpus/service.py\<close>, \<open>sources.py\<close>, \<open>embed.py\<close>. What one ingest adds and leaves alone,
    and that a later verification reports exactly the sources that changed.
  \<^item> \<open>CC_Submit\<close>: \<open>extract/parse.py\<close>, \<open>extract/classify.py\<close>, \<open>api/v1/documents.py\<close>. The effect of a
    submission in each outcome, its replay under an idempotency key, and how the tenant
    policies defeat the key.
  \<^item> \<open>CC_Report\<close>: \<open>verdict/report.py\<close>, \<open>api/v1/assessments.py\<close>. The report is complete, and it agrees
    with the listing.
  \<^item> \<open>CC_Log\<close>: the content denylist of \<open>obs/logging.py\<close>.
  \<^item> \<open>CC_Eval\<close>: \<open>src/eval/\<close>, the evaluation harness over the components above. The locale \<open>case_loop\<close> states what
    the loops over the documents and facts of a case keep, and is interpreted for conflict and
    end-to-end cases. A case leaves no trace in the tables; the harness's own check of citations can
    find none invented; the float metrics lie between 0 and 1 and are 0 or 1 exactly when they should be.

  \<^bold>\<open>State and effects.\<close> A table is the list of its rows in insertion order; a query filters it. An operation
  inside one transaction returns the new tables or the exception. Where the code commits more
  than once (a submission) or keeps state in memory across a failure (the breakers and the call log of
  the client) the state is returned beside the result. Identifiers are a sequence indexed by the
  number of calls; timestamps and clock readings are inputs. Row-level security appears as the
  rows a session sees, and in \<open>CC_Submit\<close> as the policy it violates.

  \<^bold>\<open>Parameters.\<close> Code outside the repository is an argument: the model behind LiteLLM, pydantic's decoding
  of a stored value, PostgreSQL's index scan and text search, the readers of PDF and DOCX, SHA-256,
  \<open>uuid7\<close>, what fetching a source returns, the prompt templates and the texts of the configuration files.
  A theorem that needs a property of one of them states it as a hypothesis (an answer within
  the schema, a decoder that returns values of the declared type, identifiers that are distinct), and
  its witness instantiates the parameter with a concrete function.

  \<^bold>\<open>Bounds and fuel.\<close> Recursion is structural or has a measure, with one exception: \<open>_inline_refs\<close> recurses
  along references, which may be cyclic, so its model counts Python's recursion limit
  down and raises \<open>RecursionError\<close> at zero. \<open>schema_inlined\<close> shows that on an acyclic schema an explicit depth is
  enough. The regex matcher bounds a star by the length of the text, since every iteration consumes.
  \<open>int\<close> is unbounded as in Python, and reading more than 4300 digits raises as CPython does.

  \<^bold>\<open>Limits of the model.\<close> Asia/Kolkata is the constant offset +05:30. Floats do not overflow and have no subnormals,
  except in \<open>normalise_rate\<close>, where overflow is a branch. A \<open>str\<close> is its UTF-8 bytes; character classes and white
  space in patterns are their ASCII parts; \<open>fromisoformat\<close> reads the forms that the program writes. Rows that
  tie in an \<open>ORDER BY\<close> keep table order. The wording of error messages and the quoting of \<open>repr\<close>
  are left out, unless the text is stored or returned.

  \<^bold>\<open>Not modelled.\<close> Fetching over HTTP and its cache (\<open>corpus/fetch.py\<close>); drawing the report as PDF; the Markdown
  summary and the command line of the ingest; FastAPI, bearer authentication and the routes that read single rows or
  upsert an account; Celery; the set-up of connections, structlog and Prometheus; migrations, whose
  constraints and policies appear where a modelled statement meets them. All of these are calls into libraries with little logic
  of their own. The scripts (\<open>src/scripts/\<close>) generate fixtures and pace evaluation runs; the harness's report
  files and command line are not modelled either.
\<close>

end
